(* ===== verification/Prelude.thy ===== *)
theory Prelude
  imports Complex_Main "HOL-Library.Word" "HOL-Library.Char_ord" "HOL-Library.List_Lexorder"
begin

text \<open>
  Shared vocabulary of the development: the collections the component theories feed,
  rows of a table as lists (the shape an SQL table has once an order is fixed), Go's
  64-bit \<open>int\<close>, and the small facts about them that the component proofs share.
\<close>

section \<open>Collections\<close>

named_theorems row_simps \<open>rewriting of row selection and update\<close>
named_theorems inv_intros \<open>operations that keep the database invariant\<close>
named_theorems nofail_intros \<open>operations that cannot return an error\<close>
named_theorems frame_simps \<open>parts of the state an operation leaves alone\<close>

section \<open>Rows\<close>

text \<open>\<open>UPDATE ... SET f WHERE p\<close>, \<open>SELECT COUNT(*) WHERE p\<close>, \<open>SELECT ... WHERE p\<close>
  (first row) on a table held as the list of its rows.\<close>

definition update_where :: "('r \<Rightarrow> bool) \<Rightarrow> ('r \<Rightarrow> 'r) \<Rightarrow> 'r list \<Rightarrow> 'r list" where
  "update_where p f rows = map (\<lambda>r. if p r then f r else r) rows"

definition count_where :: "('r \<Rightarrow> bool) \<Rightarrow> 'r list \<Rightarrow> nat" where
  "count_where p rows = length (filter p rows)"

definition delete_where :: "('r \<Rightarrow> bool) \<Rightarrow> 'r list \<Rightarrow> 'r list" where
  "delete_where p rows = filter (\<lambda>r. \<not> p r) rows"

lemma update_where_Nil [simp]: "update_where p f [] = []"
  by (simp add: update_where_def)

lemma update_where_Cons [simp]:
  "update_where p f (r # rs) = (if p r then f r else r) # update_where p f rs"
  by (simp add: update_where_def)

lemma length_update_where [simp]: "length (update_where p f rows) = length rows"
  by (simp add: update_where_def)

lemma set_update_where [row_simps]:
  "set (update_where p f rows) = {r \<in> set rows. \<not> p r} \<union> f ` {r \<in> set rows. p r}"
  by (auto simp: update_where_def)

lemma map_update_where [row_simps]:
  "(\<And>r. p r \<Longrightarrow> g (f r) = g r) \<Longrightarrow> map g (update_where p f rows) = map g rows"
  by (auto simp: update_where_def)

lemma count_where_0 [row_simps]: "count_where p rows = 0 \<longleftrightarrow> (\<forall>r \<in> set rows. \<not> p r)"
  by (simp add: count_where_def filter_empty_conv)

lemma count_where_pos [row_simps]: "0 < count_where p rows \<longleftrightarrow> (\<exists>r \<in> set rows. p r)"
  by (auto simp: count_where_def filter_empty_conv)

lemma count_where_Nil [simp]: "count_where p [] = 0"
  by (simp add: count_where_def)

lemma count_where_Cons [simp]:
  "count_where p (r # rs) = (if p r then Suc (count_where p rs) else count_where p rs)"
  by (simp add: count_where_def)

lemma set_delete_where [row_simps]: "set (delete_where p rows) = {r \<in> set rows. \<not> p r}"
  by (auto simp: delete_where_def)

lemma update_where_id: "(\<And>r. r \<in> set rows \<Longrightarrow> p r \<Longrightarrow> f r = r) \<Longrightarrow> update_where p f rows = rows"
  by (induction rows) auto

lemma distinct_map_delete_where [row_simps]:
  "distinct (map g rows) \<Longrightarrow> distinct (map g (delete_where p rows))"
  by (simp add: delete_where_def distinct_map_filter)

text \<open>At most one row carries a given key once the keys are distinct.\<close>

lemma distinct_key_eq:
  "distinct (map g rows) \<Longrightarrow> r \<in> set rows \<Longrightarrow> r' \<in> set rows \<Longrightarrow> g r = g r' \<Longrightarrow> r = r'"
  by (auto simp: distinct_map dest: inj_onD)

lemma filter_update_where:
  "(\<And>r. p r \<Longrightarrow> \<not> q r \<and> \<not> q (f r)) \<Longrightarrow> filter q (update_where p f rows) = filter q rows"
  by (induction rows) auto

lemma update_where_settled: "(\<And>r. \<not> p (f r)) \<Longrightarrow> r \<in> set (update_where p f rows) \<Longrightarrow> \<not> p r"
  by (auto simp: update_where_def)

lemma distinct_update_one:
  assumes "distinct (map g rows)" "r \<in> set rows"
    and only: "\<And>r'. r' \<in> set rows \<Longrightarrow> p r' \<Longrightarrow> r' = r"
    and new: "\<And>r'. r' \<in> set rows \<Longrightarrow> r' \<noteq> r \<Longrightarrow> g r' \<noteq> g (f r)"
  shows "distinct (map g (update_where p f rows))"
proof -
  have i: "inj_on g (set rows)" and d: "distinct rows" using assms(1) by (auto simp: distinct_map)
  have "inj_on (\<lambda>x. g (if p x then f x else x)) (set rows)"
  proof (rule inj_onI)
    fix x y assume x: "x \<in> set rows" and y: "y \<in> set rows"
      and eq: "g (if p x then f x else x) = g (if p y then f y else y)"
    show "x = y"
    proof (cases "p x = p y")
      case True
      then show ?thesis using only [OF x] only [OF y] eq inj_onD [OF i _ x y] by (cases "p x") auto
    next
      case False
      then show ?thesis using only [OF x] only [OF y] new [OF x] new [OF y] eq by (metis (full_types))
    qed
  qed
  then show ?thesis using d by (simp add: update_where_def distinct_map comp_def)
qed

lemma find_key:
  assumes "distinct (map g rows)" and "r \<in> set rows"
  shows "find (\<lambda>x. g x = g r) rows = Some r"
  using assms by (induction rows) force+

lemma find_SomeD: "find p rows = Some r \<Longrightarrow> r \<in> set rows \<and> p r"
  by (auto simp: find_Some_iff)

lemma find_NoneD: "find p rows = None \<Longrightarrow> r \<in> set rows \<Longrightarrow> \<not> p r"
  by (simp add: find_None_iff)

lemma find_key_None: "k \<notin> set (map g rows) \<Longrightarrow> find (\<lambda>r. g r = k) rows = None"
  by (induction rows) auto

lemma find_append: "find p (xs @ ys) = (case find p xs of None \<Rightarrow> find p ys | Some x \<Rightarrow> Some x)"
  by (induction xs) auto

lemma key_in_rows: "r \<in> set rows \<Longrightarrow> g r \<in> set (map g rows)"
  by simp

lemma find_update_where_key:
  assumes "\<And>r. g (f r) = g r"
  shows "find (\<lambda>r. g r = k) (update_where (\<lambda>r. g r = k) f rows)
           = map_option f (find (\<lambda>r. g r = k) rows)"
  using assms by (induction rows) auto

section \<open>Go's 64-bit int\<close>

text \<open>\<open>int\<close> and \<open>int64\<close> arithmetic wraps in two's complement.\<close>

definition i64 :: "int \<Rightarrow> int" where
  "i64 x = sint (word_of_int x :: 64 word)"

lemma i64_signed_take_bit: "i64 x = signed_take_bit 63 x"
  by (simp add: i64_def sint_sbintrunc')

lemma i64_eq: "- (2 ^ 63) \<le> x \<Longrightarrow> x < 2 ^ 63 \<Longrightarrow> i64 x = x"
  by (simp add: i64_signed_take_bit signed_take_bit_int_eq_self)

lemma i64_small [simp]: "\<bar>x\<bar> \<le> 9223372036854775807 \<Longrightarrow> i64 x = x"
  by (rule i64_eq) auto

text \<open>Go's integer division truncates towards zero.\<close>

definition go_div :: "int \<Rightarrow> int \<Rightarrow> int" where
  "go_div a b = sgn a * sgn b * (\<bar>a\<bar> div \<bar>b\<bar>)"

lemma go_div_nonneg [simp]: "0 \<le> a \<Longrightarrow> 0 < b \<Longrightarrow> go_div a b = a div b"
  by (cases "a = 0") (auto simp: go_div_def)

section \<open>Options and lists\<close>

lemma list_all_update_where:
  "list_all P rows \<Longrightarrow> (\<And>r. P r \<Longrightarrow> p r \<Longrightarrow> P (f r)) \<Longrightarrow> list_all P (update_where p f rows)"
  by (induction rows) auto

lemma Suc_upt_1: "i \<in> set [1..<Suc n] \<longleftrightarrow> 1 \<le> i \<and> i \<le> n"
  by auto

end
