(* ===== verification/Float64.thy ===== *)
theory Float64
  imports Prelude "HOL-Library.Log_Nat"
begin

text \<open>
  Go's \<open>float64\<close>: the finite IEEE 754 binary64 values, held as the rationals they denote,
  and the rounding (to nearest, ties to even, with gradual underflow) that every
  arithmetic operation applies to its exact result. \<open>fl64\<close> is executable. Overflow to
  infinity and NaN are outside the model: the percentages of the code come from JSON
  numbers, which are finite, and its products stay far below \<open>2 ^ 1024\<close>.
\<close>

type_synonym f64 = rat

section \<open>Rounding\<close>

text \<open>Round a rational to the nearest integer, ties to even.\<close>

definition rne :: "rat \<Rightarrow> int" where
  "rne q = (let f = \<lfloor>q\<rfloor>; r = q - of_int f in
     if r < 1/2 then f else if 1/2 < r then f + 1 else if even f then f else f + 1)"

text \<open>The binary exponent of a positive rational: \<open>2 powi e \<le> x < 2 powi (e + 1)\<close>.\<close>

definition expo2 :: "rat \<Rightarrow> int" where
  "expo2 x = (case quotient_of x of (n, d) \<Rightarrow>
     let k = int (floorlog 2 (nat n)) - int (floorlog 2 (nat d)) in
     if 2 powi k \<le> x then k else k - 1)"

text \<open>The spacing of the binary64 grid around \<open>x\<close>.\<close>

definition ulp64 :: "rat \<Rightarrow> rat" where
  "ulp64 x = 2 powi (max (expo2 \<bar>x\<bar> - 52) (- 1074))"

definition fl64 :: "rat \<Rightarrow> f64" where
  "fl64 x = (if x = 0 then 0 else of_int (rne (x / ulp64 x)) * ulp64 x)"

definition f_add :: "f64 \<Rightarrow> f64 \<Rightarrow> f64" where "f_add a b = fl64 (a + b)"
definition f_mul :: "f64 \<Rightarrow> f64 \<Rightarrow> f64" where "f_mul a b = fl64 (a * b)"
definition f_div :: "f64 \<Rightarrow> f64 \<Rightarrow> f64" where "f_div a b = fl64 (a / b)"

text \<open>\<open>float64(n)\<close> for an integer, and \<open>int64(x)\<close>, which drops the fraction.\<close>

definition f_of_int :: "int \<Rightarrow> f64" where "f_of_int n = fl64 (of_int n)"

definition f_trunc :: "f64 \<Rightarrow> int" where
  "f_trunc x = (if 0 \<le> x then \<lfloor>x\<rfloor> else - \<lfloor>- x\<rfloor>)"

text \<open>Evaluation of the exponent on integers, without unary numbers.\<close>

function ilog :: "int \<Rightarrow> int" where
  "ilog n = (if n \<le> 0 then 0 else 1 + ilog (n div 2))"
  by auto
termination by (relation "measure nat") auto

declare ilog.simps [simp del]

lemma ilog_floorlog: "int (floorlog 2 (nat n)) = ilog n"
proof (induction n rule: ilog.induct)
  case (1 n)
  show ?case
  proof (cases "n \<le> 0")
    case True
    then show ?thesis by (simp add: ilog.simps [of n] floorlog_def)
  next
    case False
    have "nat n div 2 = nat (n div 2)" using False by (simp add: nat_div_distrib)
    then have "int (floorlog 2 (nat n)) = int (floorlog 2 (nat (n div 2))) + 1"
      using False compute_floorlog [of 2 "nat n"] by simp
    then show ?thesis using 1 False by (simp add: ilog.simps [of n])
  qed
qed

lemma expo2_code [code]: "expo2 x = (case quotient_of x of (n, d) \<Rightarrow>
     let k = ilog n - ilog d in if 2 powi k \<le> x then k else k - 1)"
  by (simp add: expo2_def ilog_floorlog)

section \<open>Facts about rounding to an integer\<close>

lemma rne_of_int [simp]: "rne (of_int n) = n"
  by (simp add: rne_def)

lemma rne_mono:
  assumes "p \<le> q"
  shows "rne p \<le> rne q"
proof (cases "\<lfloor>p\<rfloor> = \<lfloor>q\<rfloor>")
  case True
  then show ?thesis using assms by (simp add: rne_def Let_def)
next
  case False
  then have "\<lfloor>p\<rfloor> + 1 \<le> \<lfloor>q\<rfloor>" using floor_mono [OF assms] by simp
  moreover have "rne p \<le> \<lfloor>p\<rfloor> + 1" and "\<lfloor>q\<rfloor> \<le> rne q" by (simp_all add: rne_def Let_def)
  ultimately show ?thesis by linarith
qed

lemma rne_error: "\<bar>of_int (rne q) - q\<bar> \<le> 1/2"
proof -
  have "of_int \<lfloor>q\<rfloor> \<le> q" and "q < of_int \<lfloor>q\<rfloor> + 1" by linarith+
  then show ?thesis by (auto simp: rne_def Let_def abs_le_iff)
qed

section \<open>The exponent\<close>

lemma floorlog_2_bounds:
  assumes "0 < n"
  shows "(2::rat) powi (int (floorlog 2 n) - 1) \<le> of_nat n"
    and "of_nat n < (2::rat) powi int (floorlog 2 n)"
proof -
  have b: "2 ^ (floorlog 2 n - 1) \<le> n" "n < 2 ^ floorlog 2 n"
    using floorlog_bounds [of n 2] assms by simp_all
  have pos: "0 < floorlog 2 n" using assms by (simp add: floorlog_def)
  have "int (floorlog 2 n) - 1 = int (floorlog 2 n - 1)" using pos by simp
  then have "(2::rat) powi (int (floorlog 2 n) - 1) = of_nat (2 ^ (floorlog 2 n - 1))"
    by (simp only: power_int_of_nat of_nat_power of_nat_numeral)
  then show "(2::rat) powi (int (floorlog 2 n) - 1) \<le> of_nat n"
    using b(1) by (simp only: of_nat_le_iff)
  have "(2::rat) powi int (floorlog 2 n) = of_nat (2 ^ floorlog 2 n)"
    by (simp only: power_int_of_nat of_nat_power of_nat_numeral)
  then show "of_nat n < (2::rat) powi int (floorlog 2 n)"
    using b(2) by (simp only: of_nat_less_iff)
qed

lemma expo2_bounds:
  assumes "0 < x"
  shows "2 powi expo2 x \<le> x" and "x < 2 powi (expo2 x + 1)"
proof -
  obtain n d where q: "quotient_of x = (n, d)" by fastforce
  have x: "x = of_int n / of_int d" and d: "0 < d"
    using quotient_of_div [OF q] quotient_of_denom_pos [OF q] by simp_all
  have n: "0 < n" using assms x d by (simp add: zero_less_divide_iff)
  let ?a = "int (floorlog 2 (nat n))" and ?b = "int (floorlog 2 (nat d))"
  let ?k = "?a - ?b"
  have N: "(2::rat) powi (?a - 1) \<le> of_int n" "of_int n < (2::rat) powi ?a"
    using floorlog_2_bounds [of "nat n"] n by simp_all
  have D: "(2::rat) powi (?b - 1) \<le> of_int d" "of_int d < (2::rat) powi ?b"
    using floorlog_2_bounds [of "nat d"] d by simp_all
  have hi: "x < 2 powi (?k + 1)"
  proof -
    have "of_int n / of_int d < (2::rat) powi ?a / 2 powi (?b - 1)"
      using N D d n by (intro frac_less) simp_all
    also have "\<dots> = 2 powi (?k + 1)" by (simp add: power_int_diff power_int_add)
    finally show ?thesis by (simp add: x)
  qed
  have lo: "2 powi (?k - 1) \<le> x"
  proof -
    have "(2::rat) powi (?a - 1) / 2 powi ?b \<le> of_int n / of_int d"
      using N D d n by (intro frac_le) simp_all
    then show ?thesis by (simp add: x power_int_diff power_int_add field_simps)
  qed
  have e: "expo2 x = (if 2 powi ?k \<le> x then ?k else ?k - 1)"
    by (simp add: expo2_def q Let_def)
  show "2 powi expo2 x \<le> x" using lo by (simp add: e)
  show "x < 2 powi (expo2 x + 1)" using hi by (simp add: e)
qed

lemma powi_2_le: "a \<le> b \<Longrightarrow> (2::rat) powi a \<le> 2 powi b"
  by (rule power_int_increasing) simp_all

lemma powi_2_lessD: "(2::rat) powi a < 2 powi b \<Longrightarrow> a < b"
  by (rule ccontr) (use powi_2_le [of b a] in simp)

lemma expo2_mono: "0 < x \<Longrightarrow> x \<le> y \<Longrightarrow> expo2 x \<le> expo2 y"
proof -
  assume a: "0 < x" "x \<le> y"
  then have "2 powi expo2 x < (2::rat) powi (expo2 y + 1)"
    using expo2_bounds(1) [of x] expo2_bounds(2) [of y] by linarith
  then show "expo2 x \<le> expo2 y" by (drule_tac powi_2_lessD) simp
qed

lemma expo2_unique: "2 powi k \<le> x \<Longrightarrow> x < 2 powi (k + 1) \<Longrightarrow> expo2 x = k"
proof -
  assume a: "2 powi k \<le> x" "x < 2 powi (k + 1)"
  have pos: "0 < x" using a(1) by (rule less_le_trans [rotated]) simp
  have "2 powi expo2 x < (2::rat) powi (k + 1)" and "2 powi k < (2::rat) powi (expo2 x + 1)"
    using a expo2_bounds [OF pos] by linarith+
  then show "expo2 x = k" by (auto dest!: powi_2_lessD)
qed

section \<open>Rounding is monotone and exact on the grid\<close>

lemma ulp64_pos [simp]: "0 < ulp64 x"
  by (simp add: ulp64_def)

lemma ulp64_nonneg [simp]: "0 \<le> ulp64 x" and ulp64_nonzero [simp]: "ulp64 x \<noteq> 0"
  using ulp64_pos [of x] by linarith+

lemma fl64_0 [simp]: "fl64 0 = 0"
  by (simp add: fl64_def)

lemma fl64_rne: "fl64 x = of_int (rne (x / ulp64 x)) * ulp64 x"
  by (cases "x = 0") (auto simp: fl64_def rne_def)

lemma fl64_nonneg: "0 \<le> x \<Longrightarrow> 0 \<le> fl64 x"
proof -
  assume "0 \<le> x"
  then have "rne 0 \<le> rne (x / ulp64 x)" by (intro rne_mono) (simp add: less_imp_le)
  then have "0 \<le> rne (x / ulp64 x)" using rne_of_int [of 0] by simp
  then show ?thesis by (simp add: fl64_rne)
qed

lemma powi_2_nat: "0 \<le> j \<Longrightarrow> (2::rat) powi j = of_int (2 ^ nat j)"
  by (simp add: power_int_def)

text \<open>Multiplying by a power of two that lies on the grid stays on the grid.\<close>

lemma rne_powi: "0 \<le> j \<Longrightarrow> rne (of_int m * 2 powi j) = m * 2 ^ nat j"
  by (simp only: powi_2_nat of_int_mult [symmetric] rne_of_int)

lemma fl64_grid:
  assumes "x = of_int m * 2 powi k" and "max (expo2 \<bar>x\<bar> - 52) (- 1074) \<le> k"
  shows "fl64 x = x"
proof -
  let ?g = "max (expo2 \<bar>x\<bar> - 52) (- 1074)"
  have u: "ulp64 x = 2 powi ?g" by (simp add: ulp64_def)
  have "x / ulp64 x = of_int m * 2 powi (k - ?g)"
    unfolding u using assms(1) by (simp add: power_int_diff)
  also have "rne \<dots> = m * 2 ^ nat (k - ?g)" using assms(2) by (intro rne_powi) simp
  finally have "fl64 x = of_int (m * 2 ^ nat (k - ?g)) * 2 powi ?g"
    by (simp only: fl64_rne u)
  also have "\<dots> = of_int m * (2 powi (k - ?g) * 2 powi ?g)"
    using assms(2) by (simp add: powi_2_nat del: of_int_power)
  also have "\<dots> = x" using assms(1) by (simp add: power_int_diff)
  finally show ?thesis .
qed

lemma fl64_exact:
  assumes "0 \<le> m" and "m < 2 ^ 53" and "- 1074 \<le> k"
  shows "fl64 (of_int m * 2 powi k) = of_int m * 2 powi k"
proof (cases "m = 0")
  case False
  let ?x = "(of_int m :: rat) * 2 powi k"
  have pos: "0 < ?x" using assms False by simp
  have "(of_int m :: rat) < 2 ^ 53" using assms(2) by (metis of_int_less_iff of_int_numeral of_int_power)
  then have "?x < 2 ^ 53 * 2 powi k" by simp
  also have "(2::rat) ^ 53 * 2 powi k = 2 powi (53 + k)" by (simp add: power_int_add)
  finally have "2 powi expo2 ?x < (2::rat) powi (53 + k)"
    using expo2_bounds(1) [OF pos] by linarith
  then have "expo2 ?x < 53 + k" by (rule powi_2_lessD)
  then have "max (expo2 \<bar>?x\<bar> - 52) (- 1074) \<le> k" using pos assms(3) by simp
  then show ?thesis by (rule fl64_grid [OF refl])
qed simp

lemma fl64_of_int: "0 \<le> n \<Longrightarrow> n < 2 ^ 53 \<Longrightarrow> fl64 (of_int n) = of_int n"
  using fl64_exact [of n 0] by simp

lemma fl64_scaled:
  "0 \<le> m \<Longrightarrow> m < 2 ^ 53 \<Longrightarrow> fl64 (of_int m * 2 ^ k) = of_int m * 2 ^ k"
  using fl64_exact [of m "int k"] by simp

lemma ulp64_mono: "0 < x \<Longrightarrow> x \<le> y \<Longrightarrow> ulp64 x \<le> ulp64 y"
  using expo2_mono [of x y] by (simp add: ulp64_def powi_2_le)

lemma fl64_mono_step:
  assumes "0 < x" and "x \<le> y" and lt: "ulp64 x < ulp64 y"
  shows "fl64 x \<le> fl64 y"
proof -
  let ?gx = "max (expo2 x - 52) (- 1074)" and ?gy = "max (expo2 y - 52) (- 1074)"
  let ?t = "2 powi expo2 y :: rat"
  have u: "ulp64 x = 2 powi ?gx" "ulp64 y = 2 powi ?gy"
    using assms by (simp_all add: ulp64_def)
  have g: "?gx < ?gy" using lt by (simp only: u powi_2_lessD)
  then have gy: "?gy = expo2 y - 52" by linarith
  have e: "expo2 x + 1 \<le> expo2 y" using g gy by linarith
  have "x < ?t" using expo2_bounds(2) [of x] powi_2_le [OF e] assms(1) by linarith
  have gx: "0 \<le> expo2 y - ?gx" using g gy by linarith
  have tx: "?t / ulp64 x = of_int 1 * 2 powi (expo2 y - ?gx)"
    unfolding u by (simp add: power_int_diff)
  have "rne (x / ulp64 x) \<le> rne (?t / ulp64 x)"
    using \<open>x < ?t\<close> by (intro rne_mono divide_right_mono) (simp_all add: u)
  also have "\<dots> = 2 ^ nat (expo2 y - ?gx)" unfolding tx using rne_powi [OF gx, of 1] by simp
  finally have "fl64 x \<le> of_int (2 ^ nat (expo2 y - ?gx)) * ulp64 x"
    unfolding fl64_rne by (intro mult_right_mono) (simp_all only: of_int_le_iff ulp64_pos less_imp_le)
  also have "of_int (2 ^ nat (expo2 y - ?gx)) = ?t / ulp64 x"
    unfolding tx powi_2_nat [OF gx] by simp
  also have "?t / ulp64 x * ulp64 x = ?t" by simp
  finally have 1: "fl64 x \<le> ?t" .
  have "?t / ulp64 y = of_int 1 * 2 powi 52" unfolding u gy by (simp add: power_int_diff)
  moreover have "?t / ulp64 y \<le> y / ulp64 y"
    using expo2_bounds(1) [of y] assms by (intro divide_right_mono) simp_all
  ultimately have "2 ^ 52 \<le> rne (y / ulp64 y)"
    using rne_mono [of "?t / ulp64 y" "y / ulp64 y"] rne_powi [of 52 1] by simp
  then have "of_int (2 ^ 52) * ulp64 y \<le> fl64 y"
    unfolding fl64_rne by (intro mult_right_mono) (simp_all only: of_int_le_iff ulp64_pos less_imp_le)
  moreover have "of_int (2 ^ 52) * ulp64 y = ?t" unfolding u gy by (simp add: power_int_diff)
  ultimately show ?thesis using 1 by linarith
qed

theorem fl64_mono:
  assumes "0 \<le> x" and "x \<le> y"
  shows "fl64 x \<le> fl64 y"
proof (cases "x = 0")
  case True
  then show ?thesis using assms by (simp add: fl64_nonneg)
next
  case False
  with assms have x: "0 < x" by simp
  show ?thesis
  proof (cases "ulp64 x = ulp64 y")
    case True
    have "rne (x / ulp64 y) \<le> rne (y / ulp64 y)"
      using assms by (intro rne_mono divide_right_mono) (simp_all add: less_imp_le)
    then show ?thesis by (simp add: fl64_rne True mult_right_mono)
  next
    case False
    then show ?thesis using ulp64_mono [OF x assms(2)] fl64_mono_step [OF x assms(2)] by linarith
  qed
qed

text \<open>The two ways the code uses rounding: an upper and a lower bound on the grid survive it.\<close>

lemma fl64_le_int: "0 \<le> x \<Longrightarrow> x \<le> of_int m * 2 ^ k \<Longrightarrow> 0 \<le> m \<Longrightarrow> m < 2 ^ 53 \<Longrightarrow> fl64 x \<le> of_int m * 2 ^ k"
  using fl64_mono [of x "of_int m * 2 ^ k"] fl64_scaled [of m k] by simp

lemma fl64_ge_int: "of_int m * 2 ^ k \<le> x \<Longrightarrow> 0 \<le> m \<Longrightarrow> m < 2 ^ 53 \<Longrightarrow> of_int m * 2 ^ k \<le> fl64 x"
  using fl64_mono [of "of_int m * 2 ^ k" x] fl64_scaled [of m k] by simp

lemma f_trunc_nonneg: "0 \<le> x \<Longrightarrow> f_trunc x = \<lfloor>x\<rfloor>"
  by (simp add: f_trunc_def)

end
