(* ===== verification/GoText.thy ===== *)
theory GoText
  imports Prelude
begin

text \<open>
  The parts of Go's \<open>fmt\<close>, \<open>strconv\<close> and \<open>strings\<close> that the code builds names, seeds and
  placements with, on byte strings: decimal formatting with and without a zero-padded
  width, splitting, trimming and lower-casing. Byte strings are HOL's \<open>string\<close>; a
  character above 127 is a byte of a UTF-8 sequence and is left alone by the ASCII
  operations below.
\<close>

section \<open>Decimal numbers\<close>

definition digit_char :: "nat \<Rightarrow> char" where
  "digit_char d = char_of (48 + d)"

definition digit_val :: "char \<Rightarrow> nat" where
  "digit_val c = of_char c - 48"

fun itoa_nat :: "nat \<Rightarrow> string" where
  "itoa_nat n = (if n < 10 then [digit_char n] else itoa_nat (n div 10) @ [digit_char (n mod 10)])"

declare itoa_nat.simps [simp del]

text \<open>\<open>strconv.Itoa\<close> and \<open>%d\<close>.\<close>

definition itoa :: "int \<Rightarrow> string" where
  "itoa n = (if n < 0 then CHR ''-'' # itoa_nat (nat (- n)) else itoa_nat (nat n))"

text \<open>\<open>%0*d\<close>: the sign first, zeros up to the width, then the digits. A negative width pads on
  the right with spaces.\<close>

definition itoa_pad :: "int \<Rightarrow> int \<Rightarrow> string" where
  "itoa_pad w n =
     (if w < 0 then itoa n @ replicate (nat (- w) - length (itoa n)) CHR '' ''
      else if n < 0 then CHR ''-'' # replicate (nat w - length (itoa n)) CHR ''0'' @ itoa_nat (nat (- n))
      else replicate (nat w - length (itoa n)) CHR ''0'' @ itoa n)"

fun atoi_acc :: "nat \<Rightarrow> string \<Rightarrow> nat" where
  "atoi_acc a [] = a"
| "atoi_acc a (c # cs) = atoi_acc (10 * a + digit_val c) cs"

definition atoi :: "string \<Rightarrow> nat" where
  "atoi s = atoi_acc 0 s"

definition is_digit :: "char \<Rightarrow> bool" where
  "is_digit c \<longleftrightarrow> CHR ''0'' \<le> c \<and> c \<le> CHR ''9''"

lemma digit_val_char [simp]: "d < 10 \<Longrightarrow> digit_val (digit_char d) = d"
  by (simp add: digit_val_def digit_char_def)

lemma digit_char_inj: "a < 10 \<Longrightarrow> b < 10 \<Longrightarrow> digit_char a = digit_char b \<Longrightarrow> a = b"
  by (metis digit_val_char)

lemma digit_val_0 [simp]: "digit_val CHR ''0'' = 0"
  by (simp add: digit_val_def)

lemma atoi_acc_append: "atoi_acc a (xs @ ys) = atoi_acc (atoi_acc a xs) ys"
  by (induction xs arbitrary: a) auto

lemma atoi_acc_zeros: "atoi_acc 0 (replicate k CHR ''0'') = 0"
  by (induction k) auto

lemma atoi_itoa_nat: "atoi (itoa_nat n) = n"
proof (induction n rule: itoa_nat.induct)
  case (1 n)
  show ?case
  proof (cases "n < 10")
    case True
    then show ?thesis by (simp add: itoa_nat.simps [of n] atoi_def)
  next
    case False
    with "1.IH" have "atoi (itoa_nat (n div 10)) = n div 10" by simp
    with False show ?thesis
      by (simp add: itoa_nat.simps [of n] atoi_def atoi_acc_append)
  qed
qed

lemma itoa_nat_inj: "itoa_nat m = itoa_nat n \<Longrightarrow> m = n"
  by (metis atoi_itoa_nat)

lemma itoa_nonempty [simp]: "itoa_nat n \<noteq> []"
  by (subst itoa_nat.simps) simp

lemma atoi_itoa_pad: "0 \<le> w \<Longrightarrow> 0 \<le> n \<Longrightarrow> atoi (itoa_pad w n) = nat n"
  by (simp add: itoa_pad_def itoa_def atoi_def atoi_acc_append atoi_acc_zeros)
     (simp flip: atoi_def add: atoi_itoa_nat)

lemma itoa_pad_inj: "0 \<le> w \<Longrightarrow> 0 \<le> m \<Longrightarrow> 0 \<le> n \<Longrightarrow> itoa_pad w m = itoa_pad w n \<Longrightarrow> m = n"
  by (metis atoi_itoa_pad eq_nat_nat_iff)

lemma is_digit_iff: "is_digit c \<longleftrightarrow> 48 \<le> (of_char c :: nat) \<and> (of_char c :: nat) \<le> 57"
  by (simp add: is_digit_def less_eq_char_def)

lemma is_digit_char: "d < 10 \<Longrightarrow> is_digit (digit_char d)"
  by (simp add: is_digit_iff digit_char_def)

lemma itoa_nat_digits: "\<forall>c \<in> set (itoa_nat n). is_digit c"
proof (induction n rule: itoa_nat.induct)
  case (1 n)
  show ?case
  proof (cases "n < 10")
    case True
    then show ?thesis by (simp add: itoa_nat.simps [of n] is_digit_char)
  next
    case False
    with "1.IH" have "\<forall>c \<in> set (itoa_nat (n div 10)). is_digit c" by simp
    with False show ?thesis by (auto simp: itoa_nat.simps [of n] is_digit_char)
  qed
qed

lemma itoa_pad_digits: "0 \<le> w \<Longrightarrow> 0 \<le> n \<Longrightarrow> c \<in> set (itoa_pad w n) \<Longrightarrow> is_digit c"
  using itoa_nat_digits [of "nat n"]
  by (auto simp: itoa_pad_def itoa_def is_digit_iff)

text \<open>The number of digits.\<close>

lemma length_itoa_nat_le: "n < 10 ^ k \<Longrightarrow> 0 < k \<Longrightarrow> length (itoa_nat n) \<le> k"
proof (induction k arbitrary: n)
  case (Suc k)
  show ?case
  proof (cases "n < 10")
    case False
    with Suc.prems have k: "0 < k" by (cases k) auto
    from Suc.prems have "n div 10 < 10 ^ k" by (simp add: less_mult_imp_div_less)
    with Suc.IH k have "length (itoa_nat (n div 10)) \<le> k" by blast
    with False show ?thesis by (simp add: itoa_nat.simps [of n])
  qed (simp add: itoa_nat.simps [of n])
qed simp

lemma length_itoa_pad:
  "0 \<le> w \<Longrightarrow> 0 \<le> n \<Longrightarrow> length (itoa_pad w n) = max (nat w) (length (itoa_nat (nat n)))"
  by (simp add: itoa_pad_def itoa_def)

section \<open>Splitting, trimming, case\<close>

text \<open>\<open>strings.Split(s, sep)\<close> for a one-byte separator: always at least one piece.\<close>

fun split_on :: "char \<Rightarrow> string \<Rightarrow> string list" where
  "split_on sep [] = [[]]"
| "split_on sep (c # cs) =
     (if c = sep then [] # split_on sep cs
      else case split_on sep cs of [] \<Rightarrow> [[c]] | p # ps \<Rightarrow> (c # p) # ps)"

text \<open>\<open>strings.Join(parts, sep)\<close>.\<close>

fun join :: "string \<Rightarrow> string list \<Rightarrow> string" where
  "join sep [] = []"
| "join sep [p] = p"
| "join sep (p # q # ps) = p @ sep @ join sep (q # ps)"

text \<open>The ASCII white space of \<open>unicode.IsSpace\<close>.\<close>

definition is_space :: "char \<Rightarrow> bool" where
  "is_space c \<longleftrightarrow> c = CHR '' '' \<or> (of_char c :: nat) \<in> {9, 10, 11, 12, 13}"

definition trim_space :: "string \<Rightarrow> string" where
  "trim_space s = rev (dropWhile is_space (rev (dropWhile is_space s)))"

definition lower_char :: "char \<Rightarrow> char" where
  "lower_char c = (if CHR ''A'' \<le> c \<and> c \<le> CHR ''Z'' then char_of ((of_char c :: nat) + 32) else c)"

definition to_lower :: "string \<Rightarrow> string" where
  "to_lower s = map lower_char s"

text \<open>\<open>strings.HasPrefix\<close>.\<close>

definition has_prefix :: "string \<Rightarrow> string \<Rightarrow> bool" where
  "has_prefix s p \<longleftrightarrow> take (length p) s = p"

text \<open>\<open>strings.Contains\<close>.\<close>

fun contains :: "string \<Rightarrow> string \<Rightarrow> bool" where
  "contains [] sub = (sub = [])"
| "contains (c # cs) sub = (has_prefix (c # cs) sub \<or> contains cs sub)"

lemma split_on_nonempty [simp]: "split_on sep s \<noteq> []"
  by (induction s) (auto split: list.splits)

lemma split_on_no_sep: "sep \<notin> set s \<Longrightarrow> split_on sep s = [s]"
  by (induction s) auto

lemma split_on_pieces: "p \<in> set (split_on sep s) \<Longrightarrow> sep \<notin> set p"
proof (induction s arbitrary: p)
  case (Cons c cs)
  then show ?case by (cases "split_on sep cs") (auto split: if_splits)
qed simp

lemma split_on_append: "sep \<notin> set p \<Longrightarrow> split_on sep (p @ sep # s) = p # split_on sep s"
  by (induction p) auto

lemma split_on_join:
  "ps \<noteq> [] \<Longrightarrow> \<forall>p \<in> set ps. sep \<notin> set p \<Longrightarrow> split_on sep (join [sep] ps) = ps"
  by (induction "[sep]" ps rule: join.induct) (simp_all add: split_on_no_sep split_on_append)

lemma dropWhile_hd: "\<not> P (hd xs) \<Longrightarrow> dropWhile P xs = xs"
  by (cases xs) simp_all

lemma trim_space_Nil [simp]: "trim_space [] = []"
  by (simp add: trim_space_def)

lemma set_trim_space: "set (trim_space s) \<subseteq> set s"
  unfolding trim_space_def by (auto dest!: set_dropWhileD)

lemma trim_space_id: "\<not> is_space (hd s) \<Longrightarrow> \<not> is_space (last s) \<Longrightarrow> trim_space s = s"
  by (cases "s = []") (simp_all add: trim_space_def dropWhile_hd hd_rev)

lemma trim_space_no_space:
  assumes ne: "trim_space s \<noteq> []"
  shows "\<not> is_space (hd (trim_space s)) \<and> \<not> is_space (last (trim_space s))"
proof -
  let ?d = "dropWhile is_space s" and ?e = "dropWhile is_space (rev (dropWhile is_space s))"
  have t: "trim_space s = rev ?e" by (simp add: trim_space_def)
  then have e: "?e \<noteq> []" using ne by simp
  have d: "?d \<noteq> []" using e by (metis dropWhile.simps(1) rev.simps(1))
  have "rev ?d = takeWhile is_space (rev ?d) @ ?e" by simp
  then have "?d = rev ?e @ rev (takeWhile is_space (rev ?d))"
    by (metis rev_append rev_rev_ident)
  then have "hd ?d = hd (rev ?e)" using e by (metis hd_append2 rev_is_Nil_conv)
  then have "\<not> is_space (hd (trim_space s))" using hd_dropWhile [OF d] t by simp
  moreover have "\<not> is_space (last (trim_space s))" using hd_dropWhile [OF e] e t by (simp add: last_rev)
  ultimately show ?thesis ..
qed

lemma trim_space_idem [simp]: "trim_space (trim_space s) = trim_space s"
  by (cases "trim_space s = []") (auto intro: trim_space_id dest: trim_space_no_space)

lemma lower_char_idem [simp]: "lower_char (lower_char c) = lower_char c"
  by (auto simp: lower_char_def less_eq_char_def)

lemma to_lower_idem [simp]: "to_lower (to_lower s) = to_lower s"
  by (simp add: to_lower_def)

section \<open>Quoting\<close>

text \<open>\<open>%q\<close> on printable text: quotes, backslashes and control characters are escaped.\<close>

definition hex_digit :: "nat \<Rightarrow> char" where
  "hex_digit d = (if d < 10 then digit_char d else char_of (87 + d))"

definition quote_char :: "char \<Rightarrow> string" where
  "quote_char c =
     (let n = (of_char c :: nat) in
      if n = 34 \<or> n = 92 then [char_of (92::nat), c]
      else if 7 \<le> n \<and> n \<le> 13 then [char_of (92::nat), ''abtnvfr'' ! (n - 7)]
      else if n < 32 \<or> n = 127 then char_of (92::nat) # ''x'' @ [hex_digit (n div 16), hex_digit (n mod 16)]
      else [c])"

definition go_quote :: "string \<Rightarrow> string" where
  "go_quote s = [char_of (34::nat)] @ concat (map quote_char s) @ [char_of (34::nat)]"

end
