(* ===== verification/Model.thy ===== *)
theory Model
  imports Float64 GoText
begin

text \<open>
  \<open>internal/model/model.go\<close>: the domain types (profile specs, profiles, connections,
  deployments, managed VMs, runs, schedules, discovered VMs), the validation and default
  rules of a spec, the VM naming scheme, and the placement's datastore list. Each struct is
  a record whose fields carry a prefix for the struct (\<open>d_\<close> deployment, \<open>v_\<close> managed VM,
  \<open>r_\<close> run, ...); time stamps are Unix seconds, as the store keeps them; a status string is a
  datatype whose constructors are the source's constants.
\<close>

section \<open>Errors\<close>

text \<open>
  The error values of the controller: \<open>store.ErrNotFound\<close>, \<open>store.ErrConflict\<close>, the three
  typed errors of \<open>orch\<close>, errors carrying only a text, and \<open>fmt.Errorf("...: %w", err)\<close>.
  \<open>ErrPanic\<close> is not an error value but a run-time panic: it ends the goroutine.
\<close>

datatype go_error =
    ErrNotFound
  | ErrConflict string
  | ErrBusy string
  | ErrNotRunning string
  | ErrPrecondition string
  | ErrOther string
  | ErrPanic string
  | ErrWrap string go_error

fun error_text :: "go_error \<Rightarrow> string" where
  "error_text ErrNotFound = ''not found''"
| "error_text (ErrConflict r) = r"
| "error_text (ErrBusy _) = ''a job is already running for this deployment''"
| "error_text (ErrNotRunning _) = ''no job is running for this deployment''"
| "error_text (ErrPrecondition r) = r"
| "error_text (ErrOther m) = m"
| "error_text (ErrPanic m) = m"
| "error_text (ErrWrap p e) = p @ error_text e"

text \<open>What \<open>errors.As\<close> and \<open>errors.Is\<close> see at the end of a chain of wrapped errors.\<close>

fun error_root :: "go_error \<Rightarrow> go_error" where
  "error_root (ErrWrap _ e) = error_root e"
| "error_root e = e"

definition is_busy :: "go_error \<Rightarrow> bool" where
  "is_busy e = (case error_root e of ErrBusy _ \<Rightarrow> True | _ \<Rightarrow> False)"

text \<open>The JSON documents the code writes into a run's stats.\<close>

datatype json = JNull | JBool bool | JInt int | JFloat f64 | JStr string | JObj "(string \<times> json) list"

section \<open>Profile specs\<close>

record profile_spec =
  VMCount :: int
  NamePrefix :: string
  NamePad :: int
  VCPUs :: int
  MemoryMiB :: int
  DisksPerVM :: int
  DiskSizeGiB :: int
  DataPerDiskGiB :: int
  Thick :: bool
  CompressPercent :: f64
  DedupePercent :: f64
  CrossVMDedupePercent :: f64
  ChangePercent :: f64
  GrowthPercent :: f64
  Tag :: string
  AfterFill :: string
  RateLimitMBps :: int
  MaxParallelVMs :: int

definition AfterFillShutdown :: string where "AfterFillShutdown = ''shutdown''"
definition AfterFillKeepRunning :: string where "AfterFillKeepRunning = ''keep-running''"

text \<open>\<open>^[a-z][a-z0-9-]{0,31}$\<close>\<close>

definition is_lower :: "char \<Rightarrow> bool" where
  "is_lower c \<longleftrightarrow> CHR ''a'' \<le> c \<and> c \<le> CHR ''z''"

definition namePrefixRe :: "string \<Rightarrow> bool" where
  "namePrefixRe s = (case s of [] \<Rightarrow> False
     | c # cs \<Rightarrow> is_lower c \<and> length cs \<le> 31
                \<and> list_all (\<lambda>c. is_lower c \<or> is_digit c \<or> c = CHR ''-'') cs)"

text \<open>\<open>^[\w.-]+(=[\w.-]+)?$\<close>\<close>

definition tag_char :: "char \<Rightarrow> bool" where
  "tag_char c \<longleftrightarrow> is_digit c \<or> is_lower c \<or> (CHR ''A'' \<le> c \<and> c \<le> CHR ''Z'')
     \<or> c = CHR ''_'' \<or> c = CHR ''.'' \<or> c = CHR ''-''"

definition tagRe :: "string \<Rightarrow> bool" where
  "tagRe s = (takeWhile tag_char s \<noteq> [] \<and>
     (case dropWhile tag_char s of [] \<Rightarrow> True
      | c # cs \<Rightarrow> c = CHR ''='' \<and> cs \<noteq> [] \<and> list_all tag_char cs))"

definition ApplyDefaults :: "profile_spec \<Rightarrow> profile_spec" where
  "ApplyDefaults s =
     (let s = (if NamePad s = 0 then s\<lparr>NamePad := 4\<rparr> else s);
          s = (if VCPUs s = 0 then s\<lparr>VCPUs := 2\<rparr> else s);
          s = (if MemoryMiB s = 0 then s\<lparr>MemoryMiB := 2048\<rparr> else s)
      in if AfterFill s = '''' then s\<lparr>AfterFill := AfterFillShutdown\<rparr> else s)"

datatype spec_error =
    BadVMCount int
  | BadNamePrefix string
  | BadNamePad int
  | BadVCPUs int
  | BadMemoryMiB int
  | BadDisksPerVM int
  | BadDiskSizeGiB int
  | BadDataPerDiskGiB int int
  | BadCompressPercent f64
  | BadDedupePercent f64
  | BadCrossVMDedupePercent f64
  | BadDedupeSum f64
  | BadChangePercent f64
  | BadGrowthPercent f64
  | BadTag string
  | BadAfterFill string
  | BadRateLimitMBps int
  | BadMaxParallelVMs int int

text \<open>The first violated constraint, in the order of the source's \<open>switch\<close>; \<open>None\<close> is nil.\<close>

definition Validate :: "profile_spec \<Rightarrow> spec_error option" where
  "Validate s =
     (if VMCount s < 1 \<or> VMCount s > 1000 then Some (BadVMCount (VMCount s))
      else if \<not> namePrefixRe (NamePrefix s) then Some (BadNamePrefix (NamePrefix s))
      else if NamePad s < 1 \<or> NamePad s > 8 then Some (BadNamePad (NamePad s))
      else if VCPUs s < 1 \<or> VCPUs s > 64 then Some (BadVCPUs (VCPUs s))
      else if MemoryMiB s < 512 \<or> MemoryMiB s > 262144 then Some (BadMemoryMiB (MemoryMiB s))
      else if DisksPerVM s < 1 \<or> DisksPerVM s > 60 then Some (BadDisksPerVM (DisksPerVM s))
      else if DiskSizeGiB s < 1 \<or> DiskSizeGiB s > 62 * 1024 then Some (BadDiskSizeGiB (DiskSizeGiB s))
      else if DataPerDiskGiB s < 0 \<or> DataPerDiskGiB s > DiskSizeGiB s
        then Some (BadDataPerDiskGiB (DiskSizeGiB s) (DataPerDiskGiB s))
      else if CompressPercent s < 0 \<or> CompressPercent s > 100 then Some (BadCompressPercent (CompressPercent s))
      else if DedupePercent s < 0 \<or> DedupePercent s > 100 then Some (BadDedupePercent (DedupePercent s))
      else if CrossVMDedupePercent s < 0 \<or> CrossVMDedupePercent s > 100
        then Some (BadCrossVMDedupePercent (CrossVMDedupePercent s))
      else if f_add (DedupePercent s) (CrossVMDedupePercent s) > 100
        then Some (BadDedupeSum (f_add (DedupePercent s) (CrossVMDedupePercent s)))
      else if ChangePercent s < 0 \<or> ChangePercent s > 100 then Some (BadChangePercent (ChangePercent s))
      else if GrowthPercent s < 0 \<or> GrowthPercent s > 1000 then Some (BadGrowthPercent (GrowthPercent s))
      else if Tag s \<noteq> '''' \<and> \<not> tagRe (Tag s) then Some (BadTag (Tag s))
      else if AfterFill s \<noteq> AfterFillShutdown \<and> AfterFill s \<noteq> AfterFillKeepRunning
        then Some (BadAfterFill (AfterFill s))
      else if RateLimitMBps s < 0 then Some (BadRateLimitMBps (RateLimitMBps s))
      else if MaxParallelVMs s < 0 \<or> MaxParallelVMs s > VMCount s
        then Some (BadMaxParallelVMs (VMCount s) (MaxParallelVMs s))
      else None)"

definition VMName :: "profile_spec \<Rightarrow> int \<Rightarrow> string" where
  "VMName s n = NamePrefix s @ ''-'' @ itoa_pad (NamePad s) n"

definition TotalDataGiB :: "profile_spec \<Rightarrow> int" where
  "TotalDataGiB s = i64 (i64 (VMCount s * DisksPerVM s) * DataPerDiskGiB s)"

section \<open>Placement\<close>

type_synonym placement = "string \<rightharpoonup> string"

text \<open>Reading a missing key of a Go map gives the empty string.\<close>

definition placement_get :: "placement \<Rightarrow> string \<Rightarrow> string" where
  "placement_get p k = (case p k of None \<Rightarrow> '''' | Some v \<Rightarrow> v)"

definition Datastores :: "placement \<Rightarrow> string list" where
  "Datastores p = filter (\<lambda>s. s \<noteq> []) (map trim_space (split_on CHR 0x0A (placement_get p ''datastore'')))"

definition WithDatastore :: "placement \<Rightarrow> string \<Rightarrow> placement" where
  "WithDatastore p name = p(''datastore'' \<mapsto> name)"

section \<open>Stored entities\<close>

record connection =
  c_ID :: string
  c_Name :: string
  c_Plugin :: string
  c_Endpoint :: string
  c_Username :: string
  c_InsecureTLS :: bool
  c_CreatedAt :: int
  c_UpdatedAt :: int

definition KnownPlugins :: "string list" where
  "KnownPlugins = [''vsphere'']"

record profile =
  p_ID :: string
  p_Name :: string
  p_CurrentVersion :: int
  p_Spec :: profile_spec
  p_CreatedAt :: int
  p_UpdatedAt :: int

record profile_version =
  pv_ProfileID :: string
  pv_Version :: int
  pv_Spec :: profile_spec
  pv_CreatedAt :: int

datatype deployment_status =
    DeploymentUnset \<comment> \<open>the empty string, before the store fills it in\<close>
  | DeploymentNew | DeploymentDeploying | DeploymentReady
  | DeploymentError | DeploymentDeleting | DeploymentDeleted

datatype origin = OriginCreated | OriginAdopted

record deployment =
  d_ID :: string
  d_Name :: string
  d_ProfileID :: string
  d_ProfileVersion :: int
  d_ConnectionID :: string
  d_Spec :: profile_spec
  d_Placement :: placement
  d_Status :: deployment_status
  d_CreatedAt :: int
  d_UpdatedAt :: int
  d_Origin :: origin

text \<open>The deploy request's \<open>onConflict\<close>; every unknown value behaves as abort.\<close>

datatype on_conflict = OnConflictAbort | OnConflictAdopt | OnConflictClean | OnConflictOther string

record vm_conflict =
  vc_Name :: string
  vc_Ref :: string
  vc_OwnerID :: string
  vc_OwnerName :: string
  vc_OwnerKnown :: bool
  vc_OwnerSince :: "int option"

datatype agent_status = AgentUnset | AgentNone | AgentOnline
datatype data_state = DataUnknown | DataEmpty | DataPartial | DataFilled
datatype fill_status = FillUnset | FillPending | FillWorking | FillDone | FillFailed

record managed_vm =
  v_ID :: string
  v_DeploymentID :: string
  v_Name :: string
  v_Ref :: string
  v_DiskCount :: int
  v_DiskSizeGiB :: int
  v_MAC :: string
  v_BootToken :: string
  v_AgentStatus :: agent_status
  v_AgentSeenAt :: "int option"
  v_DataState :: data_state
  v_DataRunID :: string
  v_DataManifest :: bool
  v_DataSeenAt :: "int option"
  v_FillRunID :: string
  v_FillStatus :: fill_status
  v_BytesWritten :: int
  v_BytesTotal :: int
  v_MBps :: f64
  v_FillError :: string
  v_CreatedAt :: int

datatype run_type =
    RunDeploy | RunInitialFill | RunIncremental | RunVerify
  | RunScaleUp | RunTeardown | RunPowerOn | RunPowerOff
  | RunUnknown string

datatype run_status = RunPending | RunRunning | RunSucceeded | RunFailed | RunCancelled

record run =
  r_ID :: string
  r_DeploymentID :: string
  r_Type :: run_type
  r_Status :: run_status
  r_StartedAt :: "int option"
  r_FinishedAt :: "int option"
  r_Stats :: json
  r_TriggeredBy :: string
  r_CreatedAt :: int

datatype schedule_kind = ScheduleEvery | ScheduleDaily | ScheduleOnce | ScheduleOther string

record schedule =
  sc_ID :: string
  sc_DeploymentID :: string
  sc_Action :: run_type
  sc_Kind :: schedule_kind
  sc_Spec :: string
  sc_Timezone :: string
  sc_Enabled :: bool
  sc_NextRunAt :: "int option"
  sc_LastFiredAt :: "int option"
  sc_LastRunID :: string
  sc_LastResult :: string
  sc_CreatedAt :: int
  sc_UpdatedAt :: int

definition ScheduleActions :: "run_type list" where
  "ScheduleActions = [RunIncremental, RunVerify, RunPowerOn, RunPowerOff, RunTeardown]"

datatype discovered_status = DiscoveredNew | DiscoveredAdopted

section \<open>What a validated spec guarantees\<close>

lemma if_Some_eq_None: "((if c then Some x else t) = None) \<longleftrightarrow> \<not> c \<and> t = None"
  by simp

lemmas Validate_None = Validate_def [THEN arg_cong [where f = "\<lambda>r. r = None"], unfolded if_Some_eq_None]

text \<open>The constraints of \<open>Validate\<close>, one fact each.\<close>

lemma ValidateD:
  assumes "Validate s = None"
  shows "1 \<le> VMCount s" "VMCount s \<le> 1000" "namePrefixRe (NamePrefix s)"
    "1 \<le> NamePad s" "NamePad s \<le> 8" "1 \<le> VCPUs s" "512 \<le> MemoryMiB s"
    "1 \<le> DisksPerVM s" "DisksPerVM s \<le> 60" "1 \<le> DiskSizeGiB s" "DiskSizeGiB s \<le> 63488"
    "0 \<le> DataPerDiskGiB s" "DataPerDiskGiB s \<le> DiskSizeGiB s"
    "0 \<le> CompressPercent s" "CompressPercent s \<le> 100" "0 \<le> DedupePercent s" "DedupePercent s \<le> 100"
    "0 \<le> CrossVMDedupePercent s" "CrossVMDedupePercent s \<le> 100"
    "0 \<le> ChangePercent s" "ChangePercent s \<le> 100" "0 \<le> GrowthPercent s" "GrowthPercent s \<le> 1000"
    "AfterFill s = AfterFillShutdown \<or> AfterFill s = AfterFillKeepRunning"
    "0 \<le> RateLimitMBps s" "0 \<le> MaxParallelVMs s" "MaxParallelVMs s \<le> VMCount s"
  using assms unfolding Validate_None by (simp_all only: not_less not_le de_Morgan_disj) auto

lemma Validate_None_DataPerDisk: "Validate s = None \<Longrightarrow> DataPerDiskGiB s \<le> 63488"
  using ValidateD(11,13) [of s] by linarith

text \<open>A spec with every field set, for the witnesses.\<close>

definition sample_spec :: profile_spec where
  "sample_spec = \<lparr>VMCount = 2, NamePrefix = ''gf'', NamePad = 4, VCPUs = 2, MemoryMiB = 2048,
     DisksPerVM = 2, DiskSizeGiB = 10, DataPerDiskGiB = 4, Thick = False,
     CompressPercent = 50, DedupePercent = 25, CrossVMDedupePercent = 25,
     ChangePercent = 10, GrowthPercent = 5, Tag = ''backup=ghostfleet'',
     AfterFill = ''shutdown'', RateLimitMBps = 100, MaxParallelVMs = 1\<rparr>"

lemma sample_spec_valid: "Validate sample_spec = None"
  using fl64_of_int [of 50]
  by (simp add: Validate_None sample_spec_def namePrefixRe_def tagRe_def tag_char_def
      is_lower_def is_digit_def AfterFillShutdown_def f_add_def)

text \<open>
  On a validated spec the fleet-wide payload total is computed without wrapping around:
  it is the exact product of VM count, disks per VM and GiB per disk, and not negative.
\<close>

theorem total_data_exact:
  assumes "Validate s = None"
  shows "TotalDataGiB s = VMCount s * DisksPerVM s * DataPerDiskGiB s \<and> 0 \<le> TotalDataGiB s"
proof -
  note v = ValidateD [OF assms] Validate_None_DataPerDisk [OF assms]
  have vd: "VMCount s * DisksPerVM s \<le> 1000 * 60" using v by (intro mult_mono) simp_all
  have vd0: "0 \<le> VMCount s * DisksPerVM s" using v by simp
  have "VMCount s * DisksPerVM s * DataPerDiskGiB s \<le> (1000 * 60) * 63488"
    using v vd vd0 by (intro mult_mono) simp_all
  moreover have "0 \<le> VMCount s * DisksPerVM s * DataPerDiskGiB s" using v vd0 by simp
  ultimately show ?thesis using vd vd0 by (simp add: TotalDataGiB_def i64_small abs_le_iff)
qed

theorem total_data_exact_witness: "TotalDataGiB sample_spec = 16"
  using total_data_exact [OF sample_spec_valid] by (simp add: sample_spec_def)

lemma VMName_inj: "0 \<le> NamePad s \<Longrightarrow> 0 \<le> i \<Longrightarrow> 0 \<le> j \<Longrightarrow> VMName s i = VMName s j \<Longrightarrow> i = j"
  by (simp add: VMName_def) (metis itoa_pad_inj)

lemma VMName_inj_on: "0 \<le> NamePad s \<Longrightarrow> inj_on (VMName s) {1..n}"
  by (intro inj_onI) (auto intro: VMName_inj)

text \<open>The characters of VM names: what the prefix pattern and the counter produce.\<close>

definition vm_name_char :: "char \<Rightarrow> bool" where
  "vm_name_char c \<longleftrightarrow> is_lower c \<or> is_digit c \<or> c = CHR ''-''"

lemma namePrefixRe_chars: "namePrefixRe p \<Longrightarrow> c \<in> set p \<Longrightarrow> vm_name_char c"
  by (auto simp: namePrefixRe_def vm_name_char_def list_all_iff split: list.splits)

lemma namePrefixRe_length: "namePrefixRe p \<Longrightarrow> p \<noteq> [] \<and> length p \<le> 32"
  by (auto simp: namePrefixRe_def split: list.splits)

lemma VMName_shape:
  assumes v: "Validate s = None" and i: "1 \<le> i" "i \<le> VMCount s"
  shows "list_all vm_name_char (VMName s i) \<and> length (VMName s i) \<le> 41"
proof -
  note V = ValidateD [OF v]
  have "length (itoa_nat (nat i)) \<le> 4" using V(2) i by (intro length_itoa_nat_le) simp_all
  then have "length (itoa_pad (NamePad s) i) \<le> 8" using V i by (simp add: length_itoa_pad)
  then have "length (VMName s i) \<le> 41"
    using namePrefixRe_length [OF V(3)] by (simp add: VMName_def)
  moreover have "\<forall>c \<in> set (VMName s i). vm_name_char c"
    using namePrefixRe_chars [OF V(3)] itoa_pad_digits [of "NamePad s" i] V(4) i
    by (auto simp: VMName_def vm_name_char_def)
  ultimately show ?thesis by (simp add: list_all_iff)
qed

text \<open>
  C39. The names a validated spec gives its VMs are pairwise distinct, consist of lower-case
  letters, digits and dashes only, and have at most 41 characters.
\<close>

theorem vm_names_distinct:
  assumes "Validate s = None"
  shows "distinct (map (VMName s) [1..VMCount s])
    \<and> list_all (\<lambda>n. list_all vm_name_char n \<and> length n \<le> 41) (map (VMName s) [1..VMCount s])"
  using VMName_inj_on [of s "VMCount s"] VMName_shape [OF assms] ValidateD(4) [OF assms]
  by (auto simp: distinct_map list_all_iff)

theorem vm_names_distinct_witness: "distinct (map (VMName sample_spec) [1..VMCount sample_spec])"
  using vm_names_distinct [OF sample_spec_valid] by blast

text \<open>
  Applying the defaults twice is the same as applying them once, and a spec that
  validates is left alone by them: storing, exporting and re-importing it changes nothing.
\<close>

theorem apply_defaults_stable:
  "ApplyDefaults (ApplyDefaults s) = ApplyDefaults s \<and> (Validate s = None \<longrightarrow> ApplyDefaults s = s)"
proof -
  have "Validate s = None \<longrightarrow> ApplyDefaults s = s"
    using ValidateD(4,6,7,24) [of s]
    by (auto simp: ApplyDefaults_def Let_def AfterFillShutdown_def AfterFillKeepRunning_def)
  moreover have "ApplyDefaults (ApplyDefaults s) = ApplyDefaults s"
    by (simp add: ApplyDefaults_def Let_def AfterFillShutdown_def)
  ultimately show ?thesis by blast
qed

theorem apply_defaults_stable_witness: "ApplyDefaults sample_spec = sample_spec"
  using apply_defaults_stable [of sample_spec] sample_spec_valid by blast

lemma Datastores_pieces:
  "d \<in> set (Datastores p) \<Longrightarrow> d \<noteq> [] \<and> trim_space d = d \<and> CHR 0x0A \<notin> set d"
  using split_on_pieces set_trim_space by (fastforce simp: Datastores_def)

lemma Datastores_single:
  "d \<noteq> [] \<Longrightarrow> trim_space d = d \<Longrightarrow> CHR 0x0A \<notin> set d \<Longrightarrow> Datastores (p(''datastore'' \<mapsto> d)) = [d]"
  by (simp add: Datastores_def placement_get_def split_on_no_sep)

lemma Datastores_join:
  assumes "\<forall>d \<in> set ds. d \<noteq> [] \<and> trim_space d = d \<and> CHR 0x0A \<notin> set d"
  shows "Datastores (p(''datastore'' \<mapsto> join [CHR 0x0A] ds)) = ds"
proof (cases "ds = []")
  case True
  then show ?thesis by (simp add: Datastores_def placement_get_def)
next
  case False
  have "map trim_space ds = ds" using assms by (simp add: map_idI)
  moreover have "filter (\<lambda>s. s \<noteq> []) ds = ds" using assms by (simp add: filter_id_conv)
  ultimately show ?thesis
    using False assms by (simp add: Datastores_def placement_get_def split_on_join)
qed

text \<open>
  The placement's datastore list survives being written and read: joining the names
  that \<open>Datastores\<close> returned with newlines gives a placement with the same list, and
  pinning a placement to one of its datastores makes that the only one while every other
  placement key keeps its value.
\<close>

theorem datastores_roundtrip:
  assumes "d \<in> set (Datastores p)"
  shows "Datastores (WithDatastore p (join [CHR 0x0A] (Datastores p))) = Datastores p
    \<and> Datastores (WithDatastore p d) = [d]
    \<and> (k \<noteq> ''datastore'' \<longrightarrow> placement_get (WithDatastore p d) k = placement_get p k)"
  using assms Datastores_pieces
  by (simp add: WithDatastore_def Datastores_join Datastores_single placement_get_def)

theorem datastores_roundtrip_witness:
  "Datastores (WithDatastore [''datastore'' \<mapsto> ''ds1'' @ CHR 0x0A # '' ds2''] ''ds2'') = [''ds2'']"
proof -
  have "''ds2'' \<in> set (Datastores [''datastore'' \<mapsto> ''ds1'' @ CHR 0x0A # '' ds2''])"
    by code_simp
  from datastores_roundtrip [OF this] show ?thesis by blast
qed

end
