(* ===== verification/Prog.thy ===== *)
theory Prog
  imports Model
begin

text \<open>
  Operations that may fail and change a state: a Go function \<open>func (s *T) F(...) (A, error)\<close>
  is a function from the state to either an error or a value, together with the state it
  leaves behind. \<open>seq\<close> is the \<open>if err != nil { return err }\<close> idiom, \<open>attempt\<close> a call whose
  error is inspected or dropped instead of returned. \<open>keeps I m\<close> says that \<open>m\<close> preserves \<open>I\<close>;
  \<open>valid P m Q\<close> is the total-correctness triple over both outcomes.
\<close>

type_synonym ('s, 'a) prog = "'s \<Rightarrow> (go_error + 'a) \<times> 's"

definition ret :: "'a \<Rightarrow> ('s, 'a) prog" where
  "ret x s = (Inr x, s)"

definition fail :: "go_error \<Rightarrow> ('s, 'a) prog" where
  "fail e s = (Inl e, s)"

definition attempt :: "('s, 'a) prog \<Rightarrow> (go_error + 'a \<Rightarrow> ('s, 'b) prog) \<Rightarrow> ('s, 'b) prog" where
  "attempt m k s = (case m s of (r, s') \<Rightarrow> k r s')"

definition seq :: "('s, 'a) prog \<Rightarrow> ('a \<Rightarrow> ('s, 'b) prog) \<Rightarrow> ('s, 'b) prog" where
  "seq m k = attempt m (\<lambda>r. case r of Inl e \<Rightarrow> fail e | Inr x \<Rightarrow> k x)"

definition look :: "('s \<Rightarrow> 'a) \<Rightarrow> ('s, 'a) prog" where
  "look f s = (Inr (f s), s)"

definition change :: "('s \<Rightarrow> 's) \<Rightarrow> ('s, unit) prog" where
  "change f s = (Inr (), f s)"

text \<open>Running an operation of a component on the part of a larger state that holds it.\<close>

definition on_part :: "('t \<Rightarrow> 's) \<Rightarrow> (('s \<Rightarrow> 's) \<Rightarrow> 't \<Rightarrow> 't) \<Rightarrow> ('s, 'a) prog \<Rightarrow> ('t, 'a) prog" where
  "on_part getf putf m t = (case m (getf t) of (r, s') \<Rightarrow> (r, putf (\<lambda>_. s') t))"

text \<open>\<open>for _, x := range xs { if err := f(x); err != nil { return err } }\<close>\<close>

fun for_each :: "'x list \<Rightarrow> ('x \<Rightarrow> ('s, unit) prog) \<Rightarrow> ('s, unit) prog" where
  "for_each [] f = ret ()"
| "for_each (x # xs) f = seq (f x) (\<lambda>_. for_each xs f)"

text \<open>\<open>fold_prog\<close>: a loop that carries local variables through its body.\<close>

fun fold_prog :: "'x list \<Rightarrow> ('x \<Rightarrow> 'l \<Rightarrow> ('s, 'l) prog) \<Rightarrow> 'l \<Rightarrow> ('s, 'l) prog" where
  "fold_prog [] f l = ret l"
| "fold_prog (x # xs) f l = seq (f x l) (\<lambda>l'. fold_prog xs f l')"

section \<open>Evaluation\<close>

lemmas prog_defs = ret_def fail_def attempt_def seq_def look_def change_def on_part_def

lemma seq_simps [simp]:
  "seq (ret x) k = k x"
  "seq (fail e) k = fail e"
  by (auto simp: prog_defs fun_eq_iff)

lemma seq_eq: "seq m k s = (case m s of (Inl e, s') \<Rightarrow> (Inl e, s') | (Inr x, s') \<Rightarrow> k x s')"
  by (auto simp: prog_defs split: prod.splits sum.splits)

lemma seq_look [simp]: "seq (look f) k s = k (f s) s"
  by (simp add: seq_eq look_def)

lemma seq_InrE:
  assumes "seq m k s = (Inr y, s')"
  obtains x t where "m s = (Inr x, t)" "k x t = (Inr y, s')"
  using assms by (auto simp: seq_eq split: prod.splits sum.splits)

lemma seq_assoc: "seq (seq m k) l = seq m (\<lambda>x. seq (k x) l)"
  by (auto simp: seq_eq fun_eq_iff split: prod.splits sum.splits)

section \<open>Invariants\<close>

definition keeps :: "('s \<Rightarrow> bool) \<Rightarrow> ('s, 'a) prog \<Rightarrow> bool" where
  "keeps I m \<longleftrightarrow> (\<forall>s. I s \<longrightarrow> I (snd (m s)))"

lemma keepsI: "(\<And>s. I s \<Longrightarrow> I (snd (m s))) \<Longrightarrow> keeps I m"
  by (simp add: keeps_def)

lemma keepsD: "keeps I m \<Longrightarrow> I s \<Longrightarrow> I (snd (m s))"
  by (simp add: keeps_def)

lemma keeps_ret [inv_intros]: "keeps I (ret x)"
  by (simp add: keeps_def ret_def)

lemma keeps_fail [inv_intros]: "keeps I (fail e)"
  by (simp add: keeps_def fail_def)

lemma keeps_look [inv_intros]: "keeps I (look f)"
  by (simp add: keeps_def look_def)

lemma keeps_change: "(\<And>s. I s \<Longrightarrow> I (f s)) \<Longrightarrow> keeps I (change f)"
  by (simp add: keeps_def change_def)

lemma keeps_attempt [inv_intros]:
  assumes "keeps I m" and "\<And>r. keeps I (k r)"
  shows "keeps I (attempt m k)"
proof (rule keepsI)
  fix s assume "I s"
  obtain r t where m: "m s = (r, t)" by fastforce
  then have "I t" using keepsD [OF assms(1) \<open>I s\<close>] by simp
  then show "I (snd (attempt m k s))"
    using keepsD [OF assms(2), of t r] by (simp add: attempt_def m)
qed

lemma keeps_seq [inv_intros]:
  assumes "keeps I m" and "\<And>x. keeps I (k x)"
  shows "keeps I (seq m k)"
  unfolding seq_def using assms by (intro keeps_attempt) (auto split: sum.splits intro: keeps_fail)

lemma keeps_if [inv_intros]: "keeps I m \<Longrightarrow> keeps I n \<Longrightarrow> keeps I (if c then m else n)"
  by simp

lemma keeps_option [inv_intros]:
  "keeps I m \<Longrightarrow> (\<And>x. keeps I (n x)) \<Longrightarrow> keeps I (case z of None \<Rightarrow> m | Some x \<Rightarrow> n x)"
  by (cases z) simp_all

lemma keeps_sum [inv_intros]:
  "(\<And>x. keeps I (m x)) \<Longrightarrow> (\<And>x. keeps I (n x)) \<Longrightarrow> keeps I (case z of Inl x \<Rightarrow> m x | Inr x \<Rightarrow> n x)"
  by (cases z) simp_all

lemma keeps_prod [inv_intros]:
  "(\<And>x y. keeps I (m x y)) \<Longrightarrow> keeps I (case z of (x, y) \<Rightarrow> m x y)"
  by (cases z) simp

lemma keeps_Let [inv_intros]: "(\<And>x. keeps I (m x)) \<Longrightarrow> keeps I (Let z m)"
  by (simp add: Let_def)

lemma keeps_for_each [inv_intros]: "(\<And>x. keeps I (f x)) \<Longrightarrow> keeps I (for_each xs f)"
  by (induction xs) (auto intro: inv_intros)

lemma keeps_fold_prog [inv_intros]: "(\<And>x l. keeps I (f x l)) \<Longrightarrow> keeps I (fold_prog xs f l)"
  by (induction xs arbitrary: l) (auto intro: inv_intros)

lemma keeps_on_part:
  assumes "\<And>t s'. I t \<Longrightarrow> J (getf t)"
    and "keeps J m" and "\<And>t s'. I t \<Longrightarrow> J s' \<Longrightarrow> I (putf (\<lambda>_. s') t)"
  shows "keeps I (on_part getf putf m)"
  using assms by (auto simp: keeps_def on_part_def split: prod.splits) (metis snd_conv)

section \<open>Triples\<close>

definition valid :: "('s \<Rightarrow> bool) \<Rightarrow> ('s, 'a) prog \<Rightarrow> (go_error + 'a \<Rightarrow> 's \<Rightarrow> bool) \<Rightarrow> bool" where
  "valid P m Q \<longleftrightarrow> (\<forall>s. P s \<longrightarrow> (case m s of (r, s') \<Rightarrow> Q r s'))"

lemma validI: "(\<And>s r s'. P s \<Longrightarrow> m s = (r, s') \<Longrightarrow> Q r s') \<Longrightarrow> valid P m Q"
  by (auto simp: valid_def)

lemma validD: "valid P m Q \<Longrightarrow> P s \<Longrightarrow> m s = (r, s') \<Longrightarrow> Q r s'"
  by (auto simp: valid_def)

lemma valid_seq:
  assumes "valid P m (\<lambda>r t. case r of Inl e \<Rightarrow> Q (Inl e) t | Inr x \<Rightarrow> R x t)"
    and "\<And>x. valid (R x) (k x) Q"
  shows "valid P (seq m k) Q"
proof (rule validI)
  fix s r s' assume "P s" and run: "seq m k s = (r, s')"
  obtain q t where m: "m s = (q, t)" by fastforce
  note b = validD [OF assms(1) \<open>P s\<close> m]
  show "Q r s'"
  proof (cases q)
    case (Inl e)
    with run b m show ?thesis by (auto simp: seq_eq)
  next
    case (Inr x)
    with run b m show ?thesis using validD [OF assms(2), of x t r s'] by (auto simp: seq_eq)
  qed
qed

text \<open>A loop invariant indexed by what has been processed and what is still to come.\<close>

lemma valid_for_each:
  assumes "\<And>done x todo. xs = done @ x # todo \<Longrightarrow>
      valid (I done) (f x) (\<lambda>r s. case r of Inl e \<Rightarrow> E e s | Inr _ \<Rightarrow> I (done @ [x]) s)"
  shows "valid (I []) (for_each xs f) (\<lambda>r s. case r of Inl e \<Rightarrow> E e s | Inr _ \<Rightarrow> I xs s)"
proof -
  have "valid (I pre) (for_each todo f) (\<lambda>r s. case r of Inl e \<Rightarrow> E e s | Inr _ \<Rightarrow> I xs s)"
    if "xs = pre @ todo" for pre todo
    using that
  proof (induction todo arbitrary: pre)
    case Nil
    then show ?case by (auto simp: valid_def ret_def)
  next
    case (Cons x todo)
    have "valid (I pre) (f x) (\<lambda>r s. case r of Inl e \<Rightarrow> E e s | Inr _ \<Rightarrow> I (pre @ [x]) s)"
      using Cons.prems by (intro assms)
    moreover have "valid (I (pre @ [x])) (for_each todo f) (\<lambda>r s. case r of Inl e \<Rightarrow> E e s | Inr _ \<Rightarrow> I xs s)"
      using Cons.prems by (intro Cons.IH) simp
    ultimately show ?case
      by (simp, intro valid_seq [where R = "\<lambda>_. I (pre @ [x])"]) (auto simp: valid_def split: sum.splits)
  qed
  from this [of "[]" xs] show ?thesis by simp
qed

text \<open>More rules for triples: a call whose error is inspected, and reading a triple off \<open>keeps\<close>.\<close>

lemma valid_attempt:
  assumes "valid P m R" and "\<And>r. valid (R r) (k r) Q"
  shows "valid P (attempt m k) Q"
  using assms by (fastforce simp: valid_def attempt_def split: prod.splits)

lemma valid_keeps: "keeps I m \<Longrightarrow> valid I m (\<lambda>_. I)"
  using keepsD [of I m] by (fastforce simp: valid_def split: prod.splits)

lemma valid_weaken: "valid P m Q \<Longrightarrow> (\<And>s. P' s \<Longrightarrow> P s) \<Longrightarrow> (\<And>r s. Q r s \<Longrightarrow> Q' r s) \<Longrightarrow> valid P' m Q'"
  by (fastforce simp: valid_def split: prod.splits)

lemma valid_ret: "(\<And>s. P s \<Longrightarrow> Q (Inr x) s) \<Longrightarrow> valid P (ret x) Q"
  by (simp add: valid_def ret_def)

lemma valid_if: "(c \<Longrightarrow> valid P m Q) \<Longrightarrow> (\<not> c \<Longrightarrow> valid P n Q) \<Longrightarrow> valid P (if c then m else n) Q"
  by simp

section \<open>Operations that cannot fail\<close>

text \<open>The functions without an \<open>error\<close> result.\<close>

definition nofail :: "('s, 'a) prog \<Rightarrow> bool" where
  "nofail m \<longleftrightarrow> (\<forall>s. \<exists>x s'. m s = (Inr x, s'))"

lemma nofailD: "nofail m \<Longrightarrow> \<exists>x s'. m s = (Inr x, s')"
  by (simp add: nofail_def)

lemma nofail_basic [nofail_intros]: "nofail (ret x)" "nofail (look f)" "nofail (change g)"
  by (simp_all add: nofail_def ret_def look_def change_def)

lemma nofail_attempt [nofail_intros]: "(\<And>r. nofail (k r)) \<Longrightarrow> nofail (attempt m k)"
  by (auto simp: nofail_def attempt_def split: prod.splits)

lemma nofail_seq [nofail_intros]: "nofail m \<Longrightarrow> (\<And>x. nofail (k x)) \<Longrightarrow> nofail (seq m k)"
  unfolding nofail_def seq_eq by (metis (mono_tags, lifting) case_prod_conv sum.simps(6))

lemma nofail_cases [nofail_intros]:
  "nofail m \<Longrightarrow> nofail n \<Longrightarrow> nofail (if c then m else n)"
  "nofail m \<Longrightarrow> (\<And>x. nofail (f x)) \<Longrightarrow> nofail (case p of None \<Rightarrow> m | Some x \<Rightarrow> f x)"
  "(\<And>e. nofail (g e)) \<Longrightarrow> (\<And>x. nofail (f x)) \<Longrightarrow> nofail (case q of Inl e \<Rightarrow> g e | Inr x \<Rightarrow> f x)"
  "(\<And>x y. nofail (h x y)) \<Longrightarrow> nofail (case t of (x, y) \<Rightarrow> h x y)"
  "(\<And>x. nofail (f x)) \<Longrightarrow> nofail (Let z f)"
  by (auto split: option.splits sum.splits prod.splits)

lemma nofail_loops [nofail_intros]:
  "(\<And>x. nofail (f x)) \<Longrightarrow> nofail (for_each xs f)"
  "(\<And>x l. nofail (g x l)) \<Longrightarrow> nofail (fold_prog xs g l)"
proof -
  show "nofail (for_each xs f)" if "\<And>x. nofail (f x)"
    using that by (induction xs) (auto intro!: nofail_intros)
  show "nofail (fold_prog xs g l)" if "\<And>x l. nofail (g x l)"
    using that by (induction xs arbitrary: l) (auto intro!: nofail_intros)
qed

lemma seq_nofailE:
  assumes "seq m k s = (q, t)" and "nofail m"
  obtains x u where "m s = (Inr x, u)" "k x u = (q, t)"
  using assms nofailD [of m s] by (auto simp: seq_eq)

section \<open>Errors dropped or wrapped\<close>

definition ignore :: "('s, 'a) prog \<Rightarrow> ('s, unit) prog" where
  "ignore m = attempt m (\<lambda>_. ret ())"

lemma nofail_ignore [nofail_intros]: "nofail (ignore m)"
  unfolding ignore_def by (intro nofail_intros)

text \<open>\<open>fmt.Errorf(p + "%w", err)\<close>\<close>

definition wrap :: "string \<Rightarrow> ('s, 'a) prog \<Rightarrow> ('s, 'a) prog" where
  "wrap p m = attempt m (\<lambda>r. case r of Inl e \<Rightarrow> fail (ErrWrap p e) | Inr x \<Rightarrow> ret x)"

lemma wrap_InrD: "wrap p m s = (Inr x, t) \<Longrightarrow> m s = (Inr x, t)"
  by (auto simp: wrap_def attempt_def ret_def fail_def split: prod.splits sum.splits)

lemma keeps_wrap [inv_intros]: "keeps I m \<Longrightarrow> keeps I (wrap p m)"
  unfolding wrap_def by (intro inv_intros)

lemma keeps_ignore [inv_intros]: "keeps I m \<Longrightarrow> keeps I (ignore m)"
  unfolding ignore_def by (intro inv_intros)

lemma wrap_cases: "wrap p m x = (r, x') \<Longrightarrow> \<exists>q. m x = (q, x') \<and> (case q of Inl e \<Rightarrow> r = Inl (ErrWrap p e) | Inr y \<Rightarrow> r = Inr y)"
  by (auto simp: wrap_def attempt_def ret_def fail_def split: prod.splits sum.splits)

end
