(* ===== verification/Datagen.thy ===== *)
theory Datagen
  imports Model
begin

unbundle bit_operations_syntax

text \<open>
  \<open>internal/datagen/datagen.go\<close>: the planner that turns a deployment's effective config
  into one VM's work order (seeds, byte split, fio knobs), and the summary of a disk
  inspection. Seeds are 64-bit words; byte counts are \<open>int64\<close>; the cross-VM share is
  computed in binary64 as the source does.
\<close>

section \<open>Work orders\<close>

definition FileSizeBytes :: int where "FileSizeBytes = 2 ^ 30"
definition BlockSize :: string where "BlockSize = ''1M''"
definition gib :: int where "gib = 2 ^ 30"

record disk_work =
  dw_Index :: int
  dw_SizeGiB :: int
  dw_GlobalBytes :: int
  dw_LocalBytes :: int
  dw_GlobalSeed :: "64 word"
  dw_LocalSeed :: "64 word"

record identity_marker =
  im_DeploymentID :: string
  im_DeploymentName :: string
  im_VMName :: string
  im_DiskIndex :: int
  im_Spec :: profile_spec

record discovery_disk =
  dd_Device :: string
  dd_SizeGiB :: int
  dd_Filesystem :: string
  dd_Identity :: "identity_marker option"
  dd_RunID :: string
  dd_RunBytes :: int
  dd_Manifest :: bool
  dd_FileCount :: int

record discovery_report =
  rp_Disks :: "discovery_disk list"

record work_order =
  wo_RunID :: string
  wo_RunType :: run_type
  wo_VMName :: string
  wo_Filesystem :: string
  wo_CompressPercent :: int
  wo_DedupePercent :: int
  wo_BlockSize :: string
  wo_FileSizeBytes :: int
  wo_RateLimitKBps :: int
  wo_Disks :: "disk_work list"
  wo_ChangePercent :: f64
  wo_GrowthPercent :: f64
  wo_RunSeed :: "64 word"
  wo_Identity :: "identity_marker option"

text \<open>\<open>hash/fnv\<close>'s 64-bit FNV-1a.\<close>

definition fnv_offset :: "64 word" where "fnv_offset = 14695981039346656037"
definition fnv_prime :: "64 word" where "fnv_prime = 1099511628211"

definition fnv_byte :: "64 word \<Rightarrow> char \<Rightarrow> 64 word" where
  "fnv_byte h c = (h XOR word_of_nat (of_char c)) * fnv_prime"

definition fnv_write :: "64 word \<Rightarrow> string \<Rightarrow> 64 word" where
  "fnv_write h bs = foldl fnv_byte h bs"

definition seed :: "string list \<Rightarrow> 64 word" where
  "seed parts = foldl (\<lambda>h p. fnv_write (fnv_write h p) [CHR 0x00]) fnv_offset parts
     AND 0x7FFFFFFFFFFFFFFF"

definition pct :: "f64 \<Rightarrow> int" where
  "pct v = (let r = f_trunc (f_add v (1/2)) in if r < 0 then 0 else if r > 100 then 100 else r)"

definition BuildWorkOrder ::
  "string \<Rightarrow> string \<Rightarrow> string \<Rightarrow> run_type \<Rightarrow> string \<Rightarrow> profile_spec \<Rightarrow> work_order" where
  "BuildWorkOrder deploymentID deploymentName runID runType vmName spec =
     (let dataBytes = i64 (DataPerDiskGiB spec * gib);
          globalBytes = f_trunc (f_div (f_mul (f_of_int dataBytes) (CrossVMDedupePercent spec)) 100);
          localBytes = i64 (dataBytes - globalBytes)
      in \<lparr>wo_RunID = runID, wo_RunType = runType, wo_VMName = vmName, wo_Filesystem = ''xfs'',
          wo_CompressPercent = pct (CompressPercent spec),
          wo_DedupePercent = pct (DedupePercent spec),
          wo_BlockSize = BlockSize, wo_FileSizeBytes = FileSizeBytes,
          wo_RateLimitKBps = 0,
          wo_Disks = map (\<lambda>i.
             \<lparr>dw_Index = i, dw_SizeGiB = DiskSizeGiB spec,
              dw_GlobalBytes = globalBytes, dw_LocalBytes = localBytes,
              dw_GlobalSeed = seed [deploymentID, ''global'', runID, itoa i],
              dw_LocalSeed = seed [deploymentID, vmName, ''local'', runID, itoa i]\<rparr>)
             [0..DisksPerVM spec - 1],
          wo_ChangePercent = ChangePercent spec, wo_GrowthPercent = GrowthPercent spec,
          wo_RunSeed = seed [deploymentID, ''run'', runID],
          wo_Identity = Some \<lparr>im_DeploymentID = deploymentID, im_DeploymentName = deploymentName,
             im_VMName = vmName, im_DiskIndex = 0, im_Spec = spec\<rparr>\<rparr>)"

section \<open>Disk inspections\<close>

text \<open>The loop of \<open>DataState\<close>: marked disks so far, run ID so far, manifest flag so far.\<close>

definition disk_marked :: "discovery_disk \<Rightarrow> bool" where
  "disk_marked d \<longleftrightarrow> \<not> (dd_Identity d = None \<and> dd_RunID d = '''')"

fun data_state_loop :: "discovery_disk list \<Rightarrow> nat \<times> string \<times> bool \<Rightarrow> nat \<times> string \<times> bool" where
  "data_state_loop [] acc = acc"
| "data_state_loop (d # ds) (marked, runID, manifest) =
     (if \<not> disk_marked d then data_state_loop ds (marked, runID, manifest)
      else data_state_loop ds
        (Suc marked, if runID = '''' then dd_RunID d else runID, manifest \<and> dd_Manifest d))"

definition DataState :: "discovery_disk list \<Rightarrow> data_state \<times> string \<times> bool" where
  "DataState disks =
     (if disks = [] then (DataUnknown, '''', False)
      else case data_state_loop disks (0, '''', True) of (marked, runID, manifest) \<Rightarrow>
        if marked = 0 then (DataEmpty, '''', False)
        else if marked = length disks then (DataFilled, runID, manifest)
        else (DataPartial, runID, manifest))"

fun first_identity :: "discovery_disk list \<Rightarrow> identity_marker option" where
  "first_identity [] = None"
| "first_identity (d # ds) = (case dd_Identity d of Some m \<Rightarrow> Some m | None \<Rightarrow> first_identity ds)"

definition GhostIdentity :: "discovery_report \<Rightarrow> identity_marker option" where
  "GhostIdentity r = first_identity (rp_Disks r)"

section \<open>The byte split\<close>

lemma global_bytes_bounds:
  assumes D: "0 \<le> D" "D \<le> 63488" and p: "0 \<le> p" "p \<le> 100"
  shows "0 \<le> f_trunc (f_div (f_mul (f_of_int (D * 2 ^ 30)) p) 100)"
    and "f_trunc (f_div (f_mul (f_of_int (D * 2 ^ 30)) p) 100) \<le> D * 2 ^ 30"
proof -
  let ?d = "of_int D * 2 ^ 30 :: rat"
  have d: "f_of_int (D * 2 ^ 30) = ?d"
    using fl64_scaled [of D 30] D by (simp add: f_of_int_def)
  let ?x = "f_mul (f_of_int (D * 2 ^ 30)) p"
  have x: "?x = fl64 (?d * p)" by (simp only: d f_mul_def)
  have x0: "0 \<le> ?x" unfolding x using D p by (intro fl64_nonneg) simp
  have "?d * p \<le> of_int (100 * D) * 2 ^ 30"
    using D p mult_left_mono [of p 100 ?d] by (simp add: mult.commute)
  then have x1: "?x \<le> of_int (100 * D) * 2 ^ 30"
    unfolding x using D p by (intro fl64_le_int) simp_all
  let ?y = "f_div ?x 100"
  have y0: "0 \<le> ?y" using x0 by (simp add: f_div_def fl64_nonneg)
  have "?x / 100 \<le> of_int D * 2 ^ 30" using x1 by simp
  then have y1: "?y \<le> of_int D * 2 ^ 30"
    unfolding f_div_def using x0 D by (intro fl64_le_int) simp_all
  show "0 \<le> f_trunc ?y" using y0 by (simp add: f_trunc_nonneg)
  have "of_int \<lfloor>?y\<rfloor> \<le> (of_int (D * 2 ^ 30) :: rat)"
    using y1 of_int_floor_le [of ?y] by (simp del: of_int_floor_le)
  then show "f_trunc ?y \<le> D * 2 ^ 30" using y0 by (simp only: f_trunc_nonneg of_int_le_iff)
qed

lemma data_bytes_exact: "0 \<le> D \<Longrightarrow> D \<le> 63488 \<Longrightarrow> i64 (D * gib) = D * 2 ^ 30"
  by (simp add: gib_def i64_small)

text \<open>The share of a disk that comes from the stream all VMs have in common.\<close>

definition global_share :: "profile_spec \<Rightarrow> int" where
  "global_share s = f_trunc (f_div (f_mul (f_of_int (DataPerDiskGiB s * 2 ^ 30)) (CrossVMDedupePercent s)) 100)"

lemma global_share_bounds:
  assumes "Validate s = None"
  shows "0 \<le> global_share s" and "global_share s \<le> DataPerDiskGiB s * 2 ^ 30"
  using global_bytes_bounds [of "DataPerDiskGiB s" "CrossVMDedupePercent s"]
    ValidateD [OF assms] Validate_None_DataPerDisk [OF assms]
  by (simp_all add: global_share_def)

lemma BuildWorkOrder_disks:
  assumes "Validate s = None"
  shows "wo_Disks (BuildWorkOrder dep dn run rt vm s) = map (\<lambda>i.
      \<lparr>dw_Index = i, dw_SizeGiB = DiskSizeGiB s, dw_GlobalBytes = global_share s,
       dw_LocalBytes = DataPerDiskGiB s * 2 ^ 30 - global_share s,
       dw_GlobalSeed = seed [dep, ''global'', run, itoa i],
       dw_LocalSeed = seed [dep, vm, ''local'', run, itoa i]\<rparr>) [0..DisksPerVM s - 1]"
proof -
  note V = ValidateD [OF assms] Validate_None_DataPerDisk [OF assms]
  have "DataPerDiskGiB s * 2 ^ 30 \<le> 63488 * 2 ^ 30" using V by simp
  then have "i64 (DataPerDiskGiB s * 2 ^ 30 - global_share s) = DataPerDiskGiB s * 2 ^ 30 - global_share s"
    using global_share_bounds [OF assms] by (intro i64_small) (simp add: abs_le_iff)
  moreover have "i64 (DataPerDiskGiB s * gib) = DataPerDiskGiB s * 2 ^ 30"
    using V by (intro data_bytes_exact) simp_all
  ultimately show ?thesis
    by (simp only: BuildWorkOrder_def Let_def global_share_def [symmetric] work_order.simps)
qed

text \<open>
  C30. For every validated spec a work order has one entry per disk, in index order, and each
  splits the disk's payload exactly: global and local bytes are not negative and add up to
  \<open>dataPerDiskGiB\<close> GiB, whatever rounding the cross-VM percentage goes through.
\<close>

theorem work_order_split:
  assumes "Validate s = None"
  shows "map dw_Index (wo_Disks (BuildWorkOrder dep dn run rt vm s)) = [0..DisksPerVM s - 1]
    \<and> list_all (\<lambda>d. 0 \<le> dw_GlobalBytes d \<and> 0 \<le> dw_LocalBytes d
          \<and> dw_GlobalBytes d + dw_LocalBytes d = DataPerDiskGiB s * 2 ^ 30)
        (wo_Disks (BuildWorkOrder dep dn run rt vm s))"
  using global_share_bounds [OF assms]
  by (simp add: BuildWorkOrder_disks [OF assms] list_all_iff comp_def)

theorem work_order_split_witness:
  "map dw_Index (wo_Disks (BuildWorkOrder ''d'' ''demo'' ''r'' RunInitialFill ''gf-0001'' sample_spec)) = [0, 1]"
proof -
  have "[0..DisksPerVM sample_spec - 1] = [0, 1]" by (simp add: sample_spec_def upto.simps)
  then show ?thesis using work_order_split [OF sample_spec_valid] by metis
qed

section \<open>Distinct streams\<close>

text \<open>A seed keeps the low 63 bits of the hash state; the hash acts on them alone.\<close>

definition low :: "64 word \<Rightarrow> 63 word" where "low h = ucast h"

lemma low_alt: "low h = word_of_int (uint h)"
  by (simp add: low_def)

definition low_byte :: "63 word \<Rightarrow> char \<Rightarrow> 63 word" where
  "low_byte w c = (w XOR word_of_int (of_char c)) * 1099511628211"

lemma low_take: "word_of_int (take_bit 64 x) = (word_of_int x :: 63 word)"
  by (simp add: word_of_int_eq_iff)

lemma low_mult: "low (a * b) = low a * low b"
proof -
  have "uint (a * b) = take_bit 64 (uint a * uint b)"
    by (simp add: uint_word_ariths take_bit_eq_mod)
  then show ?thesis by (simp only: low_alt low_take of_int_mult)
qed

lemma low_xor: "low (a XOR b) = low a XOR low b"
  by (simp add: low_def unsigned_xor_eq)

lemma low_char: "low (word_of_nat (of_char c)) = word_of_int (of_char c)"
proof -
  have "(word_of_nat (of_char c) :: 64 word) = word_of_int (of_char c)"
    by (metis of_char_of of_int_of_nat_eq of_nat_of_char)
  then show ?thesis by (simp add: low_def unsigned_of_int low_take)
qed

lemma low_fnv_byte: "low (fnv_byte h c) = low_byte (low h) c"
  by (simp add: fnv_byte_def low_byte_def low_mult low_xor low_char) (simp add: low_def fnv_prime_def)

lemma xor_right_inj:
  fixes x y a :: "'a::semiring_bit_operations"
  assumes "x XOR a = y XOR a"
  shows "x = y"
proof -
  have "(x XOR a) XOR a = (y XOR a) XOR a" using assms by (simp only:)
  then show ?thesis by (simp only: xor.assoc xor_self_eq xor.right_neutral)
qed

lemma low_byte_inj: "low_byte w c = low_byte w' c \<Longrightarrow> w = w'"
proof -
  assume eq: "low_byte w c = low_byte w' c"
  have inv: "(1099511628211 * 5662801919009527163 :: 63 word) = 1" by simp
  have "low_byte w c * 5662801919009527163 = w XOR word_of_int (of_char c)" for w
    unfolding low_byte_def mult.assoc inv mult_1_right ..
  with eq have "w XOR word_of_int (of_char c) = w' XOR word_of_int (of_char c)" by metis
  then show "w = w'" by (rule xor_right_inj)
qed

lemma low_seed: "x AND 0x7FFFFFFFFFFFFFFF = y AND 0x7FFFFFFFFFFFFFFF \<longleftrightarrow> low x = low y"
proof -
  have m: "(0x7FFFFFFFFFFFFFFF :: 64 word) = mask 63" by (simp add: mask_numeral)
  have "take_bit 63 x = take_bit 63 y \<longleftrightarrow> take_bit 63 (uint x) = take_bit 63 (uint y)"
    by (simp add: word_uint_eq_iff unsigned_take_bit_eq)
  also have "\<dots> \<longleftrightarrow> low x = low y"
    by (simp only: low_alt word_of_int_eq_iff) simp
  finally show ?thesis by (simp only: m take_bit_eq_mask)
qed

text \<open>Exclusive or with a byte below 64 moves the state by less than 64, with a digit's low bits by less than 16.\<close>

lemma same_block:
  fixes x y :: int
  assumes "x div m = y div m" and "0 < m"
  shows "\<bar>x - y\<bar> < m"
proof -
  have "x - y = x mod m - y mod m"
    using assms(1) minus_div_mult_eq_mod [of x m] minus_div_mult_eq_mod [of y m] by simp
  moreover have "0 \<le> x mod m" "x mod m < m" "0 \<le> y mod m" "y mod m < m" using assms(2) by simp_all
  ultimately show ?thesis by linarith
qed

lemma xor_small:
  fixes w :: int
  assumes "0 \<le> a" "a < 64"
  shows "\<bar>(w XOR a) - w\<bar> < 64"
proof (rule same_block)
  have "drop_bit 6 (w XOR a) = drop_bit 6 w"
    using assms by (simp add: drop_bit_xor) (simp add: drop_bit_eq_div)
  then show "(w XOR a) div 64 = w div 64" by (simp add: drop_bit_eq_div)
qed simp

lemma xor_digits:
  fixes w :: int
  assumes "a div 16 = b div 16"
  shows "\<bar>(w XOR a) - (w XOR b)\<bar> < 16"
proof (rule same_block)
  have "drop_bit 4 (w XOR a) = drop_bit 4 (w XOR b)"
    using assms by (simp add: drop_bit_xor) (simp add: drop_bit_eq_div)
  then show "(w XOR a) div 16 = (w XOR b) div 16" by (simp add: drop_bit_eq_div)
qed simp

lemma low_byte_xor: "low_byte w c = word_of_int (uint w XOR of_char c) * 1099511628211"
proof -
  have "w XOR word_of_int (of_char c) = word_of_int (uint w XOR of_char c)"
    by (rule bit_word_eqI) (simp add: bit_simps)
  then show ?thesis by (simp only: low_byte_def)
qed

lemma digit_range: "is_digit c \<Longrightarrow> 48 \<le> (of_char c :: int) \<and> (of_char c :: int) \<le> 57"
  unfolding is_digit_iff by (metis of_nat_le_iff of_nat_numeral of_nat_of_char)

text \<open>One step on the difference of two states: it is multiplied by the prime and moves by \<open>e\<close>.\<close>

lemma diff_first:
  assumes "is_digit a" "is_digit b" "a \<noteq> b"
  obtains e :: int where "e \<noteq> 0" "\<bar>e\<bar> \<le> 15"
    "low_byte w a - low_byte w b = of_int e * 1099511628211"
proof -
  let ?e = "(uint w XOR of_char a) - (uint w XOR of_char b) :: int"
  have "(of_char a :: int) div 16 = of_char b div 16" using assms(1,2)[THEN digit_range] by presburger
  from xor_digits [OF this, of "uint w"] have "\<bar>?e\<bar> \<le> 15" by linarith
  moreover have "?e \<noteq> 0"
    using assms(3) xor_right_inj [of "of_char a :: int" "uint w" "of_char b"]
    by (auto simp: xor.commute)
  moreover have "low_byte w a - low_byte w b = of_int ?e * 1099511628211"
    by (simp only: low_byte_xor of_int_diff left_diff_distrib)
  ultimately show thesis using that by blast
qed

lemma diff_step:
  assumes "is_digit a" "is_digit b"
  obtains e :: int where "\<bar>e\<bar> \<le> 126"
    "low_byte w a - low_byte w' b = (w - w' + of_int e) * 1099511628211"
proof -
  let ?d = "(uint w XOR of_char a) - uint w :: int" and ?d' = "(uint w' XOR of_char b) - uint w' :: int"
  have "\<bar>?d\<bar> < 64" "\<bar>?d'\<bar> < 64" using assms[THEN digit_range] by (intro xor_small; linarith)+
  then have "\<bar>?d - ?d'\<bar> \<le> 126" by linarith
  moreover have "low_byte w a - low_byte w' b = (w - w' + of_int (?d - ?d')) * 1099511628211"
    by (simp only: low_byte_xor of_int_diff word_of_int_uint) (simp add: algebra_simps)
  ultimately show thesis by (rule that)
qed

lemma low_prime_neq: "x \<noteq> 0 \<Longrightarrow> x * 1099511628211 \<noteq> (0 :: 63 word)"
proof
  have inv: "(1099511628211 * 5662801919009527163 :: 63 word) = 1" by simp
  assume "x * 1099511628211 = 0"
  then have "x * (1099511628211 * 5662801919009527163) = 0" by (simp only: mult.assoc [symmetric]) simp
  then show "x \<noteq> 0 \<Longrightarrow> False" unfolding inv by simp
qed

text \<open>
  Differences of at most four digits do not cancel modulo \<open>2 ^ 63\<close>: with \<open>p\<close> the prime,
  \<open>p^2\<close> and \<open>p^3\<close> leave remainders so far apart that no small combination vanishes.
\<close>

lemma of_int_63_eq_0: "(of_int x :: 63 word) = 0 \<longleftrightarrow> 2 ^ 63 dvd x"
  by (simp add: word_of_int_eq_0_iff)

lemma digits_neq_1:
  fixes e :: int
  assumes "e \<noteq> 0" "\<bar>e\<bar> \<le> 15"
  shows "of_int e * 1099511628211 \<noteq> (0 :: 63 word)"
proof (rule low_prime_neq, rule notI)
  assume "of_int e = (0 :: 63 word)"
  then have "2 ^ 63 dvd e" by (metis of_int_63_eq_0)
  with assms show False by (auto dest: zdvd_imp_le)
qed

lemma digits_neq_2:
  fixes e f :: int
  assumes "e \<noteq> 0" "\<bar>e\<bar> \<le> 15" "\<bar>f\<bar> \<le> 126"
  shows "(of_int e * 1099511628211 + of_int f) * 1099511628211 \<noteq> (0 :: 63 word)"
proof (rule low_prime_neq, rule notI)
  assume "(of_int e * 1099511628211 + of_int f) = (0 :: 63 word)"
  then have "(of_int (e * 1099511628211 + f) :: 63 word) = 0" by simp
  then obtain k where "e * 1099511628211 + f = 2 ^ 63 * k" by (metis of_int_63_eq_0 dvdE)
  then have "\<exists>j. e * 1099511628211 + f = 9223372036854775808 * j" by (intro exI [of _ k]) simp
  then obtain j where j: "e * 1099511628211 + f = 9223372036854775808 * j" by blast
  consider "e \<le> -1" | "1 \<le> e" using assms(1) by linarith
  moreover have "j = 0" using j assms(2-) by linarith
  ultimately show False using j assms(2-) by cases linarith+
qed

lemma digits_neq_3:
  fixes e f g :: int
  assumes "e \<noteq> 0" "\<bar>e\<bar> \<le> 15" "\<bar>f\<bar> \<le> 126" "\<bar>g\<bar> \<le> 126"
  shows "((of_int e * 1099511628211 + of_int f) * 1099511628211 + of_int g) * 1099511628211 \<noteq> (0 :: 63 word)"
proof (rule low_prime_neq, rule notI)
  assume "((of_int e * 1099511628211 + of_int f) * 1099511628211 + of_int g) = (0 :: 63 word)"
  then have "(of_int ((e * 1099511628211 + f) * 1099511628211 + g) :: 63 word) = 0" by simp
  then obtain k where "(e * 1099511628211 + f) * 1099511628211 + g = 2 ^ 63 * k" by (metis of_int_63_eq_0 dvdE)
  then have "\<exists>j. e * 956575116354345 + f * 1099511628211 + g = 9223372036854775808 * j" by (intro exI [of _ "k - e * 131072"]) (simp add: algebra_simps)
  then obtain j where j: "e * 956575116354345 + f * 1099511628211 + g = 9223372036854775808 * j" by blast
  consider "e \<le> -1" | "1 \<le> e" using assms(1) by linarith
  moreover have "j = 0" using j assms(2-) by linarith
  ultimately show False using j assms(2-) by cases linarith+
qed

lemma digits_neq_4:
  fixes e f g h :: int
  assumes "e \<noteq> 0" "\<bar>e\<bar> \<le> 15" "\<bar>f\<bar> \<le> 126" "\<bar>g\<bar> \<le> 126" "\<bar>h\<bar> \<le> 126"
  shows "(((of_int e * 1099511628211 + of_int f) * 1099511628211 + of_int g) * 1099511628211 + of_int h) * 1099511628211 \<noteq> (0 :: 63 word)"
proof (rule low_prime_neq, rule notI)
  assume "(((of_int e * 1099511628211 + of_int f) * 1099511628211 + of_int g) * 1099511628211 + of_int h) = (0 :: 63 word)"
  then have "(of_int (((e * 1099511628211 + f) * 1099511628211 + g) * 1099511628211 + h) :: 63 word) = 0" by simp
  then obtain k where "((e * 1099511628211 + f) * 1099511628211 + g) * 1099511628211 + h = 2 ^ 63 * k" by (metis of_int_63_eq_0 dvdE)
  then have "\<exists>j. e * 624165263380053675 + f * 956575116354345 + g * 1099511628211 + h = 9223372036854775808 * j" 
    by (intro exI [of _ "k - e * 144115188246904832 - f * 131072"]) (simp add: algebra_simps)
  then obtain j where j: "e * 624165263380053675 + f * 956575116354345 + g * 1099511628211 + h = 9223372036854775808 * j" by blast
  have b: "f \<le> 126" "-126 \<le> f" "g \<le> 126" "-126 \<le> g" "h \<le> 126" "-126 \<le> h"
    using assms(3-) by linarith+
  consider "e = 15" | "e = -15" | "e \<le> -1" "-14 \<le> e" | "1 \<le> e" "e \<le> 14"
    using assms(1,2) by linarith
  then show False
  proof cases
    case 1
    consider "j \<le> 0" | "j = 1" | "2 \<le> j" by linarith
    then show ?thesis using 1 j b by cases linarith+
  next
    case 2
    consider "j \<le> -2" | "j = -1" | "0 \<le> j" by linarith
    then show ?thesis using 2 j b by cases linarith+
  next
    case 3
    consider "j \<le> -1" | "0 \<le> j" by linarith
    then show ?thesis using 3 j b by cases linarith+
  next
    case 4
    consider "j \<le> 0" | "1 \<le> j" by linarith
    then show ?thesis using 4 j b by cases linarith+
  qed
qed

text \<open>Two digit strings of the same length, at most four, lead to different states.\<close>

abbreviation low_bytes :: "63 word \<Rightarrow> string \<Rightarrow> 63 word" where
  "low_bytes w s \<equiv> foldl low_byte w s"

lemma low_bytes_inj: "low_bytes w s = low_bytes w' s \<Longrightarrow> w = w'"
  by (induction s arbitrary: w w') (auto dest: low_byte_inj)

text \<open>After the first differing digit, with at most three digits to come.\<close>

lemma low_bytes_diff:
  assumes d: "is_digit a" "is_digit b" "a \<noteq> b"
    and xs: "\<forall>c \<in> set xs. is_digit c" "\<forall>c \<in> set ys. is_digit c" "length ys = length xs" "length xs \<le> 3"
  shows "low_bytes (low_byte w a) xs \<noteq> low_bytes (low_byte w b) ys"
proof -
  let ?p = "1099511628211 :: 63 word"
  obtain e :: int where e: "e \<noteq> 0" "\<bar>e\<bar> \<le> 15" "low_byte w a - low_byte w b = of_int e * ?p"
    using d by (rule diff_first)
  consider "xs = []" "ys = []"
    | x y where "xs = [x]" "ys = [y]"
    | x y x' y' where "xs = [x, x']" "ys = [y, y']"
    | x y x' y' x'' y'' where "xs = [x, x', x'']" "ys = [y, y', y'']"
    using xs(3,4) by (auto simp: le_Suc_eq length_Suc_conv numeral_3_eq_3)
  then have "low_bytes (low_byte w a) xs - low_bytes (low_byte w b) ys \<noteq> 0"
  proof cases
    case 1
    with e digits_neq_1 [of e] show ?thesis by simp
  next
    case 2
    then obtain f :: int where "\<bar>f\<bar> \<le> 126"
      "low_byte (low_byte w a) x - low_byte (low_byte w b) y = (of_int e * ?p + of_int f) * ?p"
      using xs diff_step [of x y "low_byte w a" "low_byte w b"] unfolding e(3) by auto
    with 2 e digits_neq_2 [of e f] show ?thesis by (simp only: foldl.simps simp_thms)
  next
    case 3
    obtain f :: int where f: "\<bar>f\<bar> \<le> 126"
      "low_byte (low_byte w a) x - low_byte (low_byte w b) y = (of_int e * ?p + of_int f) * ?p"
      using 3 xs diff_step [of x y "low_byte w a" "low_byte w b"] unfolding e(3) by auto
    obtain g :: int where "\<bar>g\<bar> \<le> 126"
      "low_byte (low_byte (low_byte w a) x) x' - low_byte (low_byte (low_byte w b) y) y'
         = ((of_int e * ?p + of_int f) * ?p + of_int g) * ?p"
      using 3 xs diff_step [of x' y' "low_byte (low_byte w a) x" "low_byte (low_byte w b) y"]
      unfolding f(2) by auto
    with 3 e f digits_neq_3 [of e f g] show ?thesis by (simp only: foldl.simps simp_thms)
  next
    case 4
    obtain f :: int where f: "\<bar>f\<bar> \<le> 126"
      "low_byte (low_byte w a) x - low_byte (low_byte w b) y = (of_int e * ?p + of_int f) * ?p"
      using 4 xs diff_step [of x y "low_byte w a" "low_byte w b"] unfolding e(3) by auto
    obtain g :: int where g: "\<bar>g\<bar> \<le> 126"
      "low_byte (low_byte (low_byte w a) x) x' - low_byte (low_byte (low_byte w b) y) y'
         = ((of_int e * ?p + of_int f) * ?p + of_int g) * ?p"
      using 4 xs diff_step [of x' y' "low_byte (low_byte w a) x" "low_byte (low_byte w b) y"]
      unfolding f(2) by auto
    obtain h :: int where "\<bar>h\<bar> \<le> 126"
      "low_byte (low_byte (low_byte (low_byte w a) x) x') x'' - low_byte (low_byte (low_byte (low_byte w b) y) y') y''
         = (((of_int e * ?p + of_int f) * ?p + of_int g) * ?p + of_int h) * ?p"
      using 4 xs diff_step [of x'' y'' "low_byte (low_byte (low_byte w a) x) x'" "low_byte (low_byte (low_byte w b) y) y'"]
      unfolding g(2) by auto
    with 4 e f g digits_neq_4 [of e f g h] show ?thesis by (simp only: foldl.simps simp_thms)
  qed
  then show ?thesis by simp
qed

lemma low_bytes_digits:
  assumes "\<forall>c \<in> set xs. is_digit c" "\<forall>c \<in> set ys. is_digit c" "length ys = length xs" "length xs \<le> 4"
    and "xs \<noteq> ys"
  shows "low_bytes w xs \<noteq> low_bytes w ys"
  using assms
proof (induction xs arbitrary: ys w)
  case (Cons x xs)
  then obtain y ys' where y: "ys = y # ys'" by (cases ys) auto
  show ?case
  proof (cases "x = y")
    case True
    then show ?thesis using Cons y by auto
  next
    case False
    then show ?thesis using low_bytes_diff [of x y xs ys' w] Cons.prems y by auto
  qed
qed simp

lemma low_bytes_prefix:
  assumes "low_bytes w (p @ xs @ q) = low_bytes w (p @ ys @ q)"
  shows "low_bytes (low_bytes w p) xs = low_bytes (low_bytes w p) ys"
  using assms by (auto dest: low_bytes_inj)

lemma itoa_pad_4:
  assumes "4 \<le> w" "0 \<le> n" "n \<le> 1000"
  shows "itoa_pad w n = replicate (nat w - 4) CHR ''0'' @ itoa_pad 4 n"
proof -
  have "length (itoa_nat (nat n)) \<le> 4" using assms by (intro length_itoa_nat_le) simp_all
  then have "nat w - length (itoa_nat (nat n)) = (nat w - 4) + (4 - length (itoa_nat (nat n)))"
    using assms by linarith
  then show ?thesis using assms by (simp add: itoa_pad_def itoa_def replicate_add [symmetric])
qed

lemma low_fnv_write: "low (fnv_write h s) = low_bytes (low h) s"
  by (induction s arbitrary: h) (simp_all add: fnv_write_def low_fnv_byte)

lemma seed_low: "seed ps = seed qs \<longleftrightarrow>
    low_bytes (low fnv_offset) (concat (map (\<lambda>p. p @ [CHR 0x00]) ps))
      = low_bytes (low fnv_offset) (concat (map (\<lambda>p. p @ [CHR 0x00]) qs))"
proof -
  have "low (foldl (\<lambda>h p. fnv_write (fnv_write h p) [CHR 0x00]) h ps)
      = low_bytes (low h) (concat (map (\<lambda>p. p @ [CHR 0x00]) ps))" for h ps
    by (induction ps arbitrary: h) (simp_all add: low_fnv_write)
  then show ?thesis by (simp only: seed_def low_seed)
qed

lemma local_seed_neq:
  assumes "4 \<le> NamePad s" and i: "1 \<le> i" "i \<le> 1000" and j: "1 \<le> j" "j \<le> 1000" and "i \<noteq> j"
  shows "seed [dep, VMName s i, ''local'', run, d] \<noteq> seed [dep, VMName s j, ''local'', run, d]"
proof
  let ?pre = "dep @ [CHR 0x00] @ NamePrefix s @ ''-'' @ replicate (nat (NamePad s) - 4) CHR ''0''"
  let ?post = "[CHR 0x00] @ ''local'' @ [CHR 0x00] @ run @ [CHR 0x00] @ d @ [CHR 0x00]"
  have n: "VMName s n = NamePrefix s @ ''-'' @ replicate (nat (NamePad s) - 4) CHR ''0'' @ itoa_pad 4 n"
    if "1 \<le> n" "n \<le> 1000" for n
    using that assms(1) by (simp only: VMName_def itoa_pad_4 [of "NamePad s" n])
  have len: "length (itoa_pad 4 n) = 4" if "1 \<le> n" "n \<le> 1000" for n
    using that length_itoa_nat_le [of "nat n" 4] by (simp add: length_itoa_pad)
  assume "seed [dep, VMName s i, ''local'', run, d] = seed [dep, VMName s j, ''local'', run, d]"
  then have "low_bytes (low fnv_offset) (?pre @ itoa_pad 4 i @ ?post)
      = low_bytes (low fnv_offset) (?pre @ itoa_pad 4 j @ ?post)"
    by (simp add: seed_low n i j del: foldl_append)
  from low_bytes_prefix [OF this]
  have "itoa_pad 4 i = itoa_pad 4 j \<or> \<not> (\<forall>c \<in> set (itoa_pad 4 i). is_digit c)
      \<or> \<not> (\<forall>c \<in> set (itoa_pad 4 j). is_digit c)"
    using low_bytes_digits [of "itoa_pad 4 i" "itoa_pad 4 j"] len [OF i] len [OF j] by auto
  moreover have "\<forall>c \<in> set (itoa_pad 4 n). is_digit c" if "1 \<le> n" for n
    using itoa_pad_digits [of 4 n] that by simp
  ultimately have "itoa_pad 4 i = itoa_pad 4 j" using i j by blast
  then show False using itoa_pad_inj [of 4 i j] i j assms by simp
qed



section \<open>Percentages\<close>

lemma pct_mono:
  assumes "0 \<le> v" "v \<le> w" shows "pct v \<le> pct w"
proof -
  have "0 \<le> f_add v (1/2)" "f_add v (1/2) \<le> f_add w (1/2)"
    using assms unfolding f_add_def by (auto intro!: fl64_mono fl64_nonneg)
  then have "f_trunc (f_add v (1/2)) \<le> f_trunc (f_add w (1/2))"
    by (simp add: f_trunc_nonneg floor_mono)
  then show ?thesis by (simp add: pct_def Let_def)
qed

lemma pct_whole:
  assumes "0 \<le> i" "i \<le> 100" shows "pct (of_int i) = i"
proof -
  have "fl64 (of_int (2 * i + 1) * 2 powi (-1)) = of_int (2 * i + 1) * 2 powi (-1)"
    using assms by (intro fl64_exact) simp_all
  moreover have "(of_int i + 1/2 :: rat) = of_int (2 * i + 1) * 2 powi (-1)"
    by (simp add: power_int_minus field_simps)
  ultimately have "f_add (of_int i) (1/2) = of_int i + 1/2" by (simp only: f_add_def)
  moreover have "\<lfloor>of_int i + 1/2 :: rat\<rfloor> = i" by linarith
  ultimately show ?thesis using assms by (simp add: pct_def Let_def f_trunc_nonneg)
qed

text \<open>
  The percentages handed to fio are always within 0 to 100, grow with the configured
  percentage, and are exact when that is a whole number.
\<close>

theorem fio_percentages:
  "0 \<le> pct v \<and> pct v \<le> 100 \<and> (0 \<le> v \<and> v \<le> w \<longrightarrow> pct v \<le> pct w)
    \<and> (i \<in> {0..100} \<longrightarrow> pct (of_int i) = i)"
  using pct_mono pct_whole by (auto simp: pct_def Let_def)

theorem fio_percentages_witness: "pct 25 \<le> pct 50 \<and> pct 50 = 50"
  using fio_percentages [of 25 50 50] by simp

section \<open>What an inspection says\<close>

lemma data_state_loop_eq:
  "data_state_loop ds (m, r, f) =
     (m + length (filter disk_marked ds),
      (case dropWhile (\<lambda>s. s = '''') (r # map dd_RunID (filter disk_marked ds)) of [] \<Rightarrow> '''' | s # _ \<Rightarrow> s),
      f \<and> list_all (\<lambda>d. disk_marked d \<longrightarrow> dd_Manifest d) ds)"
  by (induction ds arbitrary: m r f) auto

text \<open>
  An inspection is reported filled exactly when there are disks and all are marked, empty
  exactly when none is marked, partial otherwise, and unknown only without disks; the
  manifest flag is reported only when every marked disk has one, and a run ID that is
  reported stands on one of the marked disks.
\<close>

theorem data_state_summary:
  assumes "DataState ds = (st, run, mf)"
  shows "(st = DataUnknown \<longleftrightarrow> ds = [])
    \<and> (st = DataFilled \<longleftrightarrow> ds \<noteq> [] \<and> list_all disk_marked ds)
    \<and> (st = DataEmpty \<longleftrightarrow> ds \<noteq> [] \<and> \<not> list_ex disk_marked ds)
    \<and> (mf \<longleftrightarrow> list_ex disk_marked ds \<and> list_all (\<lambda>d. disk_marked d \<longrightarrow> dd_Manifest d) ds)
    \<and> (run \<noteq> '''' \<longrightarrow> list_ex (\<lambda>d. disk_marked d \<and> dd_RunID d = run) ds)"
proof -
  let ?M = "filter disk_marked ds"
  have full: "length ?M = length ds \<longleftrightarrow> list_all disk_marked ds"
    by (simp add: list_all_iff) (metis filter_True filter_id_conv filter_cong length_filter_less nat_neq_iff)
  have none: "?M = [] \<longleftrightarrow> \<not> list_ex disk_marked ds"
    by (auto simp: filter_empty_conv list_ex_iff)
  have run: "s \<in> set (map dd_RunID ?M)" if "dropWhile (\<lambda>s. s = '''') ('''' # map dd_RunID ?M) = s # r" for s r
    using that set_dropWhileD [of s "\<lambda>s. s = ''''" "map dd_RunID ?M"] by auto
  show ?thesis
  proof (cases "ds = [] \<or> ?M = []")
    case True
    then have "(st, run, mf) = (if ds = [] then DataUnknown else DataEmpty, '''', False)"
      using assms by (auto simp: DataState_def data_state_loop_eq)
    then show ?thesis using True none by (cases ds) auto
  next
    case False
    then have "st = (if list_all disk_marked ds then DataFilled else DataPartial)"
      and "mf = list_all (\<lambda>d. disk_marked d \<longrightarrow> dd_Manifest d) ds"
      and r: "run = (case dropWhile (\<lambda>s. s = '''') ('''' # map dd_RunID ?M) of [] \<Rightarrow> '''' | s # _ \<Rightarrow> s)"
      using assms full by (auto simp: DataState_def data_state_loop_eq split: if_splits)
    moreover have "run \<noteq> '''' \<longrightarrow> list_ex (\<lambda>d. disk_marked d \<and> dd_RunID d = run) ds"
    proof (cases "dropWhile (\<lambda>s. s = '''') ('''' # map dd_RunID ?M)")
      case (Cons s t)
      with r run have "run \<in> set (map dd_RunID ?M)" by (metis list.simps(5))
      then show ?thesis by (auto simp: list_ex_iff)
    next
      case Nil
      then have "run = ''''" using r by (simp only: list.case)
      then show ?thesis by simp
    qed
    ultimately show ?thesis using False none by auto
  qed
qed

theorem data_state_summary_witness:
  "fst (DataState [\<lparr>dd_Device = ''sdb'', dd_SizeGiB = 10, dd_Filesystem = ''xfs'', dd_Identity = None,
     dd_RunID = ''r'', dd_RunBytes = 0, dd_Manifest = True, dd_FileCount = 4\<rparr>]) = DataFilled"
proof -
  let ?ds = "[\<lparr>dd_Device = ''sdb'', dd_SizeGiB = 10, dd_Filesystem = ''xfs'', dd_Identity = None,
     dd_RunID = ''r'', dd_RunBytes = 0, dd_Manifest = True, dd_FileCount = 4\<rparr>]"
  have "list_all disk_marked ?ds" by (simp add: disk_marked_def)
  then show ?thesis
    using data_state_summary [of ?ds "fst (DataState ?ds)" "fst (snd (DataState ?ds))" "snd (snd (DataState ?ds))"]
    by simp
qed

end
