(* ===== verification/Store.thy ===== *)
theory Store
  imports Prog Datagen
begin

text \<open>
  \<open>internal/store/store.go\<close> and the migrations: the database behind the repositories.
  A table is the list of its rows in insertion order; the constraints of the schema
  (primary keys, \<open>UNIQUE\<close>, \<open>REFERENCES\<close>) are checked by the statements, as SQLite with
  \<open>foreign_keys(1)\<close> does. Every SQL statement can fail: \<open>st_faults\<close> says which of the next
  ones do. \<open>newID\<close> draws the next identifier of the random source \<open>st_rand\<close>; the clock
  \<open>st_now\<close> (Unix seconds, as \<open>now()\<close> truncates) stands still within one operation and is
  moved by the environment between operations. \<open>db_wf\<close> is the schema's invariant.
\<close>

section \<open>The database\<close>

record conn_row = connection +
  c_SecretEnc :: string

record profile_row =
  pr_ID :: string
  pr_Name :: string
  pr_CurrentVersion :: int
  pr_CreatedAt :: int
  pr_UpdatedAt :: int

record run_sample =
  rs_RunID :: string
  rs_TS :: int
  rs_MBps :: f64
  rs_BytesWritten :: int

text \<open>\<open>dv_Inspection\<close> is the decoded JSON column; \<open>None\<close> is the empty string.\<close>

record discovered_vm =
  dv_ID :: string
  dv_MAC :: string
  dv_Token :: string
  dv_Status :: discovered_status
  dv_Inspection :: "discovery_report option"
  dv_FirstSeenAt :: int
  dv_LastSeenAt :: int
  dv_AgentSeenAt :: "int option"

record store =
  st_conns :: "conn_row list"
  st_profiles :: "profile_row list"
  st_versions :: "profile_version list"
  st_deps :: "deployment list"
  st_runs :: "run list"
  st_samples :: "run_sample list"
  st_vms :: "managed_vm list"
  st_scheds :: "schedule list"
  st_disc :: "discovered_vm list"
  st_now :: int
  st_rand :: "nat \<Rightarrow> string"
  st_drawn :: nat
  st_faults :: "bool list"

type_synonym 'a store_op = "(store, 'a) prog"

section \<open>Statements\<close>

definition unique_failed :: go_error where
  "unique_failed = ErrOther ''constraint failed: UNIQUE constraint failed''"

definition fk_failed :: go_error where
  "fk_failed = ErrOther ''constraint failed: FOREIGN KEY constraint failed''"

definition db_failed :: go_error where
  "db_failed = ErrOther ''database error''"

definition isUniqueViolation :: "go_error \<Rightarrow> bool" where
  "isUniqueViolation e \<longleftrightarrow> e = unique_failed"

text \<open>One round trip to the database: it fails when the next fault says so.\<close>

definition next_fault :: "store \<Rightarrow> bool" where
  "next_fault s = (case st_faults s of [] \<Rightarrow> False | b # _ \<Rightarrow> b)"

definition pop_fault :: "store \<Rightarrow> store" where
  "pop_fault s = s\<lparr>st_faults := tl (st_faults s)\<rparr>"

definition sql :: "'a store_op \<Rightarrow> 'a store_op" where
  "sql f s = (if next_fault s then (Inl db_failed, pop_fault s) else f (pop_fault s))"

definition newID :: "string store_op" where
  "newID s = (Inr (st_rand s (st_drawn s)), s\<lparr>st_drawn := Suc (st_drawn s)\<rparr>)"

definition now :: "int store_op" where
  "now = look st_now"

text \<open>\<open>INSERT\<close>: the unique keys and the references are checked on the new row.\<close>

definition sql_insert :: "(store \<Rightarrow> 'r list) \<Rightarrow> (('r list \<Rightarrow> 'r list) \<Rightarrow> store \<Rightarrow> store)
    \<Rightarrow> ('r list \<Rightarrow> bool) \<Rightarrow> ('r \<Rightarrow> store \<Rightarrow> bool) \<Rightarrow> 'r \<Rightarrow> unit store_op" where
  "sql_insert tbl put uniq refs row = sql (\<lambda>s.
     if \<not> uniq (tbl s @ [row]) then (Inl unique_failed, s)
     else if \<not> refs row s then (Inl fk_failed, s)
     else (Inr (), put (\<lambda>rows. rows @ [row]) s))"

text \<open>\<open>UPDATE ... SET f WHERE p\<close>, returning \<open>RowsAffected\<close>; with a unique column among those
  set, the keys are checked on the result.\<close>

definition sql_update_key :: "(store \<Rightarrow> 'r list) \<Rightarrow> (('r list \<Rightarrow> 'r list) \<Rightarrow> store \<Rightarrow> store)
    \<Rightarrow> ('r list \<Rightarrow> bool) \<Rightarrow> ('r \<Rightarrow> bool) \<Rightarrow> ('r \<Rightarrow> 'r) \<Rightarrow> nat store_op" where
  "sql_update_key tbl put uniq p f = sql (\<lambda>s.
     if \<not> uniq (update_where p f (tbl s)) then (Inl unique_failed, s)
     else (Inr (count_where p (tbl s)), put (update_where p f) s))"

definition sql_update :: "(store \<Rightarrow> 'r list) \<Rightarrow> (('r list \<Rightarrow> 'r list) \<Rightarrow> store \<Rightarrow> store)
    \<Rightarrow> ('r \<Rightarrow> bool) \<Rightarrow> ('r \<Rightarrow> 'r) \<Rightarrow> nat store_op" where
  "sql_update tbl put p f = sql_update_key tbl put (\<lambda>_. True) p f"

text \<open>\<open>DELETE FROM ... WHERE p\<close> on a table no other table references.\<close>

definition sql_delete :: "(store \<Rightarrow> 'r list) \<Rightarrow> (('r list \<Rightarrow> 'r list) \<Rightarrow> store \<Rightarrow> store)
    \<Rightarrow> ('r \<Rightarrow> bool) \<Rightarrow> nat store_op" where
  "sql_delete tbl put p = sql (\<lambda>s. (Inr (count_where p (tbl s)), put (delete_where p) s))"

definition sql_select :: "(store \<Rightarrow> 'a) \<Rightarrow> 'a store_op" where
  "sql_select q = sql (look q)"

text \<open>\<open>QueryRow(...).Scan\<close>: the first row, or \<open>ErrNotFound\<close> for \<open>sql.ErrNoRows\<close>.\<close>

definition query_row :: "(store \<Rightarrow> 'r list) \<Rightarrow> ('r \<Rightarrow> bool) \<Rightarrow> 'r store_op" where
  "query_row tbl p = seq (sql_select (\<lambda>s. find p (tbl s)))
     (\<lambda>r. case r of None \<Rightarrow> fail ErrNotFound | Some x \<Rightarrow> ret x)"

text \<open>\<open>if n == 0 { return ErrNotFound }\<close>\<close>

definition must_affect :: "nat store_op \<Rightarrow> unit store_op" where
  "must_affect m = seq m (\<lambda>n. if n = 0 then fail ErrNotFound else ret ())"

text \<open>\<open>Begin\<close> ... \<open>Commit\<close> with the deferred \<open>Rollback\<close>: on an error the tables are as before.
  (No transaction of the program draws an identifier.)\<close>

definition tx :: "'a store_op \<Rightarrow> 'a store_op" where
  "tx body s =
     (case seq (sql (ret ())) (\<lambda>_. seq body (\<lambda>x. seq (sql (ret ())) (\<lambda>_. ret x))) s of
        (Inl e, s') \<Rightarrow> (Inl e, s\<lparr>st_faults := st_faults s'\<rparr>)
      | (Inr x, s') \<Rightarrow> (Inr x, s'))"

section \<open>Keys of the schema\<close>

definition conns_unique :: "conn_row list \<Rightarrow> bool" where
  "conns_unique rows \<longleftrightarrow> distinct (map c_ID rows) \<and> distinct (map c_Name rows)"

definition profiles_unique :: "profile_row list \<Rightarrow> bool" where
  "profiles_unique rows \<longleftrightarrow> distinct (map pr_ID rows) \<and> distinct (map pr_Name rows)"

definition versions_unique :: "profile_version list \<Rightarrow> bool" where
  "versions_unique rows \<longleftrightarrow> distinct (map (\<lambda>v. (pv_ProfileID v, pv_Version v)) rows)"

definition deps_unique :: "deployment list \<Rightarrow> bool" where
  "deps_unique rows \<longleftrightarrow> distinct (map d_ID rows) \<and> distinct (map d_Name rows)"

definition runs_unique :: "run list \<Rightarrow> bool" where
  "runs_unique rows \<longleftrightarrow> distinct (map r_ID rows)"

definition vms_unique :: "managed_vm list \<Rightarrow> bool" where
  "vms_unique rows \<longleftrightarrow> distinct (map v_ID rows) \<and> distinct (map (\<lambda>v. (v_DeploymentID v, v_Name v)) rows)"

definition scheds_unique :: "schedule list \<Rightarrow> bool" where
  "scheds_unique rows \<longleftrightarrow> distinct (map sc_ID rows)"

definition disc_unique :: "discovered_vm list \<Rightarrow> bool" where
  "disc_unique rows \<longleftrightarrow> distinct (map dv_ID rows) \<and> distinct (map dv_MAC rows)"

lemmas unique_defs = conns_unique_def profiles_unique_def versions_unique_def deps_unique_def
  runs_unique_def vms_unique_def scheds_unique_def disc_unique_def

definition conn_ids :: "store \<Rightarrow> string set" where "conn_ids s = set (map c_ID (st_conns s))"
definition profile_ids :: "store \<Rightarrow> string set" where "profile_ids s = set (map pr_ID (st_profiles s))"
definition dep_ids :: "store \<Rightarrow> string set" where "dep_ids s = set (map d_ID (st_deps s))"
definition run_ids :: "store \<Rightarrow> string set" where "run_ids s = set (map r_ID (st_runs s))"

lemmas ids_defs = conn_ids_def profile_ids_def dep_ids_def run_ids_def

section \<open>The invariant\<close>

definition keys_ok :: "store \<Rightarrow> bool" where
  "keys_ok s \<longleftrightarrow> conns_unique (st_conns s) \<and> profiles_unique (st_profiles s)
     \<and> versions_unique (st_versions s) \<and> deps_unique (st_deps s) \<and> runs_unique (st_runs s)
     \<and> vms_unique (st_vms s) \<and> scheds_unique (st_scheds s) \<and> disc_unique (st_disc s)"

definition refs_ok :: "store \<Rightarrow> bool" where
  "refs_ok s \<longleftrightarrow> set (map d_ConnectionID (st_deps s)) \<subseteq> conn_ids s
     \<and> set (map d_ProfileID (st_deps s)) \<subseteq> insert '''' (profile_ids s)
     \<and> set (map pv_ProfileID (st_versions s)) \<subseteq> profile_ids s
     \<and> set (map r_DeploymentID (st_runs s)) \<subseteq> dep_ids s
     \<and> set (map rs_RunID (st_samples s)) \<subseteq> run_ids s
     \<and> set (map v_DeploymentID (st_vms s)) \<subseteq> dep_ids s
     \<and> set (map sc_DeploymentID (st_scheds s)) \<subseteq> dep_ids s"

text \<open>A profile's versions are numbered from 1 to its current one, without gaps.\<close>

definition versions_of :: "string \<Rightarrow> store \<Rightarrow> int set" where
  "versions_of i s = {n. (i, n) \<in> set (map (\<lambda>v. (pv_ProfileID v, pv_Version v)) (st_versions s))}"

definition versions_ok :: "store \<Rightarrow> bool" where
  "versions_ok s \<longleftrightarrow> (\<forall>(i, n) \<in> set (map (\<lambda>p. (pr_ID p, pr_CurrentVersion p)) (st_profiles s)).
      1 \<le> n \<and> versions_of i s = {1..n})"

text \<open>Identifiers come from the random source, which does not repeat; tokens are never shared.\<close>

definition drawn :: "store \<Rightarrow> string set" where
  "drawn s = st_rand s ` {..<st_drawn s}"

definition tokens :: "store \<Rightarrow> string list" where
  "tokens s = map v_BootToken (st_vms s) @ map dv_Token (st_disc s)"

definition all_ids :: "store \<Rightarrow> string set" where
  "all_ids s = conn_ids s \<union> profile_ids s \<union> dep_ids s \<union> run_ids s \<union> set (map v_ID (st_vms s))
     \<union> set (map sc_ID (st_scheds s)) \<union> set (map dv_ID (st_disc s))"

definition ids_ok :: "store \<Rightarrow> bool" where
  "ids_ok s \<longleftrightarrow> inj (st_rand s) \<and> distinct (tokens s) \<and> set (tokens s) \<union> all_ids s \<subseteq> drawn s"

definition db_wf :: "store \<Rightarrow> bool" where
  "db_wf s \<longleftrightarrow> keys_ok s \<and> refs_ok s \<and> versions_ok s \<and> ids_ok s"

lemmas db_wf_defs = db_wf_def keys_ok_def refs_ok_def versions_ok_def versions_of_def ids_ok_def
  drawn_def tokens_def all_ids_def ids_defs

lemma db_wfD:
  assumes "db_wf s"
  shows "conns_unique (st_conns s)" "profiles_unique (st_profiles s)" "versions_unique (st_versions s)"
    "deps_unique (st_deps s)" "runs_unique (st_runs s)" "vms_unique (st_vms s)"
    "scheds_unique (st_scheds s)" "disc_unique (st_disc s)" "distinct (tokens s)" "versions_ok s" "refs_ok s"
  using assms by (simp_all add: db_wf_def keys_ok_def ids_ok_def)


section \<open>Statements and the invariant\<close>

lemma db_wf_faults [simp]:
  "db_wf (s\<lparr>st_faults := fs\<rparr>) = db_wf s" "db_wf (s\<lparr>st_now := t\<rparr>) = db_wf s"
  by (simp_all add: db_wf_defs)

lemma drawn_Suc: "drawn (s\<lparr>st_drawn := Suc (st_drawn s)\<rparr>) = insert (st_rand s (st_drawn s)) (drawn s)"
  by (auto simp: drawn_def lessThan_Suc)

lemma db_wf_drawn: "db_wf s \<Longrightarrow> st_drawn s \<le> n \<Longrightarrow> db_wf (s\<lparr>st_drawn := n\<rparr>)"
proof -
  assume wf: "db_wf s" and n: "st_drawn s \<le> n"
  let ?t = "s\<lparr>st_drawn := n\<rparr>"
  have "drawn s \<subseteq> drawn ?t" using n by (auto simp: drawn_def)
  moreover have "tokens ?t = tokens s" "all_ids ?t = all_ids s"
    by (simp_all add: tokens_def all_ids_def ids_defs)
  ultimately have "ids_ok ?t" using wf subset_trans by (simp add: db_wf_def ids_ok_def) blast
  then show ?thesis using wf
    by (simp add: db_wf_def keys_ok_def refs_ok_def versions_ok_def versions_of_def ids_defs)
qed

text \<open>A freshly drawn identifier is on none of the rows.\<close>

lemma fresh_not_drawn: "db_wf s \<Longrightarrow> st_rand s (st_drawn s) \<notin> drawn s"
  by (auto simp: db_wf_def ids_ok_def drawn_def dest: injD)

lemma keeps_sql [inv_intros]: "keeps db_wf m \<Longrightarrow> keeps db_wf (sql m)"
  by (auto simp: keeps_def sql_def pop_fault_def)

lemma keeps_now [inv_intros]: "keeps db_wf now"
  by (simp add: now_def keeps_look)

lemma keeps_newID [inv_intros]: "keeps db_wf newID"
  by (simp add: keeps_def newID_def db_wf_drawn)

lemma keeps_select [inv_intros]: "keeps db_wf (sql_select q)"
  by (auto simp: sql_select_def intro: inv_intros)

lemma keeps_query_row [inv_intros]: "keeps db_wf (query_row tbl p)"
  by (auto simp: query_row_def intro: inv_intros split: option.splits)

lemma keeps_must_affect [inv_intros]: "keeps db_wf m \<Longrightarrow> keeps db_wf (must_affect m)"
  by (auto simp: must_affect_def intro: inv_intros)

lemma keeps_update:
  assumes "\<And>s. db_wf s \<Longrightarrow> uniq (update_where p f (tbl s)) \<Longrightarrow> db_wf (put (update_where p f) s)"
  shows "keeps db_wf (sql_update_key tbl put uniq p f)"
  unfolding sql_update_key_def using assms by (intro keeps_sql) (auto simp: keeps_def)

text \<open>Updates that leave a table's keys and references alone keep the invariant.\<close>

lemma keeps_update_vms [inv_intros]:
  assumes "\<And>v. v_ID (f v) = v_ID v" "\<And>v. v_DeploymentID (f v) = v_DeploymentID v"
    "\<And>v. v_Name (f v) = v_Name v" "\<And>v. v_BootToken (f v) = v_BootToken v"
  shows "keeps db_wf (sql_update st_vms st_vms_update p f)"
  unfolding sql_update_def using assms
  by (intro keeps_update) (simp add: db_wf_defs unique_defs map_update_where del: set_map)

lemma keeps_update_deps_key [inv_intros]:
  assumes "\<And>d. d_ID (f d) = d_ID d" "\<And>d. d_ConnectionID (f d) = d_ConnectionID d"
    "\<And>d. d_ProfileID (f d) = d_ProfileID d"
  shows "keeps db_wf (sql_update_key st_deps st_deps_update deps_unique p f)"
  using assms by (intro keeps_update) (simp add: db_wf_defs map_update_where del: set_map)

lemma keeps_update_deps [inv_intros]:
  assumes "\<And>d. d_ID (f d) = d_ID d" "\<And>d. d_ConnectionID (f d) = d_ConnectionID d"
    "\<And>d. d_ProfileID (f d) = d_ProfileID d" "\<And>d. d_Name (f d) = d_Name d"
  shows "keeps db_wf (sql_update st_deps st_deps_update p f)"
  unfolding sql_update_def using assms
  by (intro keeps_update) (simp add: db_wf_defs deps_unique_def map_update_where del: set_map)

lemma keeps_update_runs [inv_intros]:
  assumes "\<And>r. r_ID (f r) = r_ID r" "\<And>r. r_DeploymentID (f r) = r_DeploymentID r"
  shows "keeps db_wf (sql_update st_runs st_runs_update p f)"
  unfolding sql_update_def using assms
  by (intro keeps_update) (simp add: db_wf_defs unique_defs map_update_where del: set_map)

lemma keeps_update_scheds [inv_intros]:
  assumes "\<And>r. sc_ID (f r) = sc_ID r" "\<And>r. sc_DeploymentID (f r) = sc_DeploymentID r"
  shows "keeps db_wf (sql_update st_scheds st_scheds_update p f)"
  unfolding sql_update_def using assms
  by (intro keeps_update) (simp add: db_wf_defs unique_defs map_update_where del: set_map)

lemma keeps_update_disc [inv_intros]:
  assumes "\<And>r. dv_ID (f r) = dv_ID r" "\<And>r. dv_MAC (f r) = dv_MAC r" "\<And>r. dv_Token (f r) = dv_Token r"
  shows "keeps db_wf (sql_update st_disc st_disc_update p f)"
  unfolding sql_update_def using assms
  by (intro keeps_update) (simp add: db_wf_defs unique_defs map_update_where del: set_map)

lemma keeps_update_conns [inv_intros]:
  assumes "\<And>r. c_ID (f r) = c_ID r"
  shows "keeps db_wf (sql_update_key st_conns st_conns_update conns_unique p f)"
  using assms by (intro keeps_update) (simp add: db_wf_defs unique_defs map_update_where del: set_map)

lemma keeps_update_profiles [inv_intros]:
  assumes "\<And>r. pr_ID (f r) = pr_ID r" "\<And>r. pr_CurrentVersion (f r) = pr_CurrentVersion r"
  shows "keeps db_wf (sql_update_key st_profiles st_profiles_update profiles_unique p f)"
  using assms by (intro keeps_update) (simp add: db_wf_defs unique_defs map_update_where del: set_map)

text \<open>Deleting rows that nothing references.\<close>

lemma keeps_delete_vms [inv_intros]: "keeps db_wf (sql_delete st_vms st_vms_update p)"
  unfolding sql_delete_def
  by (intro keeps_sql) (auto simp: keeps_def db_wf_defs unique_defs row_simps)

lemma keeps_delete_scheds [inv_intros]: "keeps db_wf (sql_delete st_scheds st_scheds_update p)"
  unfolding sql_delete_def
  by (intro keeps_sql) (auto simp: keeps_def db_wf_defs unique_defs row_simps)

lemma keeps_delete_disc [inv_intros]: "keeps db_wf (sql_delete st_disc st_disc_update p)"
  unfolding sql_delete_def
  by (intro keeps_sql) (auto simp: keeps_def db_wf_defs unique_defs row_simps)

lemma keeps_tx [inv_intros]:
  assumes "keeps db_wf body"
  shows "keeps db_wf (tx body)"
proof (rule keepsI)
  let ?m = "seq (sql (ret ())) (\<lambda>_. seq body (\<lambda>x. seq (sql (ret ())) (\<lambda>_. ret x)))"
  fix s assume "db_wf s"
  moreover have "keeps db_wf ?m" using assms by (intro inv_intros)
  ultimately have "db_wf (snd (?m s))" by (simp add: keepsD)
  then show "db_wf (snd (tx body s))"
    using \<open>db_wf s\<close> by (auto simp: tx_def split: prod.splits sum.splits)
qed

text \<open>A failed transaction has no effect on the tables.\<close>

lemma tx_rollback: "tx body s = (Inl e, s') \<Longrightarrow> \<exists>fs. s' = s\<lparr>st_faults := fs\<rparr>"
  by (auto simp: tx_def split: prod.splits sum.splits)

section \<open>Statements that succeed\<close>

lemma pop_fault_sel [simp]:
  "st_conns (pop_fault s) = st_conns s" "st_profiles (pop_fault s) = st_profiles s"
  "st_versions (pop_fault s) = st_versions s" "st_deps (pop_fault s) = st_deps s"
  "st_runs (pop_fault s) = st_runs s" "st_samples (pop_fault s) = st_samples s"
  "st_vms (pop_fault s) = st_vms s" "st_scheds (pop_fault s) = st_scheds s"
  "st_disc (pop_fault s) = st_disc s" "st_now (pop_fault s) = st_now s"
  "st_rand (pop_fault s) = st_rand s" "st_drawn (pop_fault s) = st_drawn s"
  by (simp_all add: pop_fault_def)

lemma db_wf_pop [simp]: "db_wf (pop_fault s) = db_wf s"
  by (simp add: pop_fault_def)

lemma pop_fault_nil [simp]: "st_faults s = [] \<Longrightarrow> pop_fault s = s"
  by (simp add: pop_fault_def)

lemma no_fault [simp]: "st_faults s = [] \<Longrightarrow> \<not> next_fault s"
  by (simp add: next_fault_def)

text \<open>Without pending faults a statement is what it computes.\<close>

lemma sql_ok [simp]: "st_faults s = [] \<Longrightarrow> sql f s = f s"
  by (simp add: sql_def)

text \<open>\<open>if isUniqueViolation(err) { return ErrConflict{...} }\<close>\<close>

definition on_unique :: "string \<Rightarrow> 'a store_op \<Rightarrow> 'a store_op" where
  "on_unique msg m = attempt m (\<lambda>r. case r of
      Inl e \<Rightarrow> fail (if isUniqueViolation e then ErrConflict msg else e)
    | Inr x \<Rightarrow> ret x)"

lemma keeps_on_unique [inv_intros]: "keeps I m \<Longrightarrow> keeps I (on_unique msg m)"
  unfolding on_unique_def by (intro inv_intros)

lemma on_unique_eq: "on_unique msg m s = (case m s of
    (Inl e, s') \<Rightarrow> (Inl (if isUniqueViolation e then ErrConflict msg else e), s') | r \<Rightarrow> r)"
  by (auto simp: on_unique_def prog_defs split: prod.splits sum.splits)


section \<open>Inserting a row under a fresh identifier\<close>

lemma drawn_pop [simp]: "drawn (pop_fault s) = drawn s" "tokens (pop_fault s) = tokens s"
  by (simp_all add: drawn_def tokens_def)

lemma newID_eq: "newID s = (Inr (st_rand s (st_drawn s)), s\<lparr>st_drawn := Suc (st_drawn s)\<rparr>)"
  by (simp add: newID_def)

lemma seq_newID [simp]:
  "seq newID k s = k (st_rand s (st_drawn s)) (s\<lparr>st_drawn := Suc (st_drawn s)\<rparr>)"
  by (simp add: seq_eq newID_eq)

lemma seq_now [simp]: "seq now k s = k (st_now s) s"
  by (simp add: now_def)

lemma db_wf_Suc [simp]: "db_wf s \<Longrightarrow> db_wf (s\<lparr>st_drawn := Suc (st_drawn s)\<rparr>)"
  by (simp add: db_wf_drawn)

lemma insert_conn_wf:
  "db_wf s \<Longrightarrow> conns_unique (st_conns s @ [r]) \<Longrightarrow> c_ID r \<in> drawn s
    \<Longrightarrow> db_wf (st_conns_update (\<lambda>rows. rows @ [r]) s)"
  by (auto simp: db_wf_defs)

lemma versions_of_foreign: "db_wf s \<Longrightarrow> i \<notin> profile_ids s \<Longrightarrow> versions_of i s = {}"
  by (auto simp: db_wf_def refs_ok_def versions_of_def)

lemma insert_profile_wf:
  assumes wf: "db_wf s" and u: "profiles_unique (st_profiles s @ [r])" and i: "pr_ID r \<in> drawn s"
    and r: "pr_CurrentVersion r = 1" and v: "pv_ProfileID v = pr_ID r" "pv_Version v = 1"
  shows "db_wf (st_versions_update (\<lambda>rows. rows @ [v]) (st_profiles_update (\<lambda>rows. rows @ [r]) s))"
    (is "db_wf ?t")
proof -
  have new: "pr_ID r \<notin> profile_ids s" using u by (auto simp: profiles_unique_def profile_ids_def)
  have "versions_of (pr_ID r) ?t = {1}"
    using versions_of_foreign [OF wf new] v by (auto simp: versions_of_def)
  moreover have "versions_of j ?t = versions_of j s" if "j \<noteq> pr_ID r" for j
    using that v by (auto simp: versions_of_def)
  moreover have "pr_ID p \<noteq> pr_ID r" if "p \<in> set (st_profiles s)" for p
    using that new by (metis image_eqI profile_ids_def set_map)
  ultimately have "versions_ok ?t"
    using db_wfD(10) [OF wf] r by (auto simp: versions_ok_def)
  moreover have "versions_unique (st_versions s @ [v])"
    using db_wfD(3) [OF wf] new wf v
    by (force simp: versions_unique_def db_wf_def refs_ok_def)
  moreover have "refs_ok ?t" using wf v by (auto simp: db_wf_def refs_ok_def ids_defs)
  moreover have "ids_ok ?t" using wf i by (auto simp: db_wf_def ids_ok_def all_ids_def ids_defs drawn_def tokens_def)
  ultimately show ?thesis using wf u by (simp add: db_wf_def keys_ok_def)
qed

lemma version_range:
  assumes "db_wf s" "p \<in> set (st_profiles s)" "v \<in> set (st_versions s)" "pv_ProfileID v = pr_ID p"
  shows "1 \<le> pv_Version v \<and> pv_Version v \<le> pr_CurrentVersion p"
proof -
  have "(pr_ID p, pv_Version v) \<in> set (map (\<lambda>v. (pv_ProfileID v, pv_Version v)) (st_versions s))"
    using key_in_rows [OF assms(3), of "\<lambda>v. (pv_ProfileID v, pv_Version v)"] assms(4) by simp
  then have "pv_Version v \<in> versions_of (pr_ID p) s" by (simp only: versions_of_def mem_Collect_eq)
  moreover have "versions_of (pr_ID p) s = {1..pr_CurrentVersion p}"
    using db_wfD(10) [OF assms(1)] assms(2) by (auto simp: versions_ok_def)
  ultimately show ?thesis by simp
qed

text \<open>The next version of a profile.\<close>

lemma insert_version_wf:
  assumes wf: "db_wf s" and p: "p \<in> set (st_profiles s)" and v: "pv_ProfileID v = pr_ID p"
    "pv_Version v = pr_CurrentVersion p + 1"
    and f: "\<And>q. pr_ID (f q) = pr_ID q" "\<And>q. pr_Name (f q) = pr_Name q"
      "\<And>q. pr_CurrentVersion (f q) = pr_CurrentVersion p + 1"
  shows "db_wf (st_profiles_update (update_where (\<lambda>q. pr_ID q = pr_ID p) f)
      (st_versions_update (\<lambda>rows. rows @ [v]) s))" (is "db_wf ?t")
proof -
  note vp = db_wfD(10) [OF wf]
  have p1: "1 \<le> pr_CurrentVersion p" "versions_of (pr_ID p) s = {1..pr_CurrentVersion p}"
    using vp p by (auto simp: versions_ok_def)
  have of_p: "versions_of (pr_ID p) ?t = insert (pr_CurrentVersion p + 1) (versions_of (pr_ID p) s)"
    using v by (auto simp: versions_of_def)
  have others: "versions_of j ?t = versions_of j s" if "j \<noteq> pr_ID p" for j
    using that v by (auto simp: versions_of_def)
  have "versions_of (pr_ID p) ?t = {1..pr_CurrentVersion p + 1}"
    unfolding of_p p1(2) using p1(1) by auto
  with others p1 have "versions_ok ?t"
    using vp f by (auto simp: versions_ok_def row_simps)
  moreover have "(pr_ID p, pr_CurrentVersion p + 1) \<notin> set (map (\<lambda>v. (pv_ProfileID v, pv_Version v)) (st_versions s))"
  proof
    assume "(pr_ID p, pr_CurrentVersion p + 1) \<in> set (map (\<lambda>v. (pv_ProfileID v, pv_Version v)) (st_versions s))"
    then have "pr_CurrentVersion p + 1 \<in> versions_of (pr_ID p) s" by (simp only: versions_of_def mem_Collect_eq)
    then show False unfolding p1(2) by simp
  qed
  then have "versions_unique (st_versions s @ [v])"
    using db_wfD(3) [OF wf] v by (simp add: versions_unique_def)
  moreover have "profiles_unique (update_where (\<lambda>q. pr_ID q = pr_ID p) f (st_profiles s))"
    using db_wfD(2) [OF wf] f by (simp add: profiles_unique_def map_update_where)
  moreover have ids: "profile_ids ?t = profile_ids s"
    using f by (simp add: profile_ids_def map_update_where del: set_map)
  have "refs_ok ?t"
    using wf v p ids by (auto simp: db_wf_def refs_ok_def conn_ids_def dep_ids_def run_ids_def) (auto simp: profile_ids_def)
  moreover have "ids_ok ?t"
    using wf ids by (simp add: db_wf_def ids_ok_def all_ids_def conn_ids_def dep_ids_def run_ids_def drawn_def tokens_def)
  ultimately show ?thesis using wf by (simp add: db_wf_def keys_ok_def)
qed

lemma insert_dep_wf:
  "db_wf s \<Longrightarrow> deps_unique (st_deps s @ [r]) \<Longrightarrow> d_ID r \<in> drawn s
    \<Longrightarrow> d_ConnectionID r \<in> conn_ids s \<Longrightarrow> d_ProfileID r = '''' \<or> d_ProfileID r \<in> profile_ids s
    \<Longrightarrow> db_wf (st_deps_update (\<lambda>rows. rows @ [r]) s)"
  by (auto simp: db_wf_defs)

lemma insert_run_wf:
  "db_wf s \<Longrightarrow> runs_unique (st_runs s @ [r]) \<Longrightarrow> r_ID r \<in> drawn s \<Longrightarrow> r_DeploymentID r \<in> dep_ids s
    \<Longrightarrow> db_wf (st_runs_update (\<lambda>rows. rows @ [r]) s)"
  by (auto simp: db_wf_defs)

lemma insert_sample_wf:
  "db_wf s \<Longrightarrow> rs_RunID r \<in> run_ids s \<Longrightarrow> db_wf (st_samples_update (\<lambda>rows. rows @ [r]) s)"
  by (auto simp: db_wf_defs)

lemma insert_vm_wf:
  "db_wf s \<Longrightarrow> vms_unique (st_vms s @ [r]) \<Longrightarrow> v_ID r \<in> drawn s \<Longrightarrow> v_DeploymentID r \<in> dep_ids s
    \<Longrightarrow> v_BootToken r \<in> drawn s \<Longrightarrow> v_BootToken r \<notin> set (tokens s)
    \<Longrightarrow> db_wf (st_vms_update (\<lambda>rows. rows @ [r]) s)"
  by (auto simp: db_wf_defs)

lemma insert_sched_wf:
  "db_wf s \<Longrightarrow> scheds_unique (st_scheds s @ [r]) \<Longrightarrow> sc_ID r \<in> drawn s \<Longrightarrow> sc_DeploymentID r \<in> dep_ids s
    \<Longrightarrow> db_wf (st_scheds_update (\<lambda>rows. rows @ [r]) s)"
  by (auto simp: db_wf_defs)

lemma insert_disc_wf:
  "db_wf s \<Longrightarrow> disc_unique (st_disc s @ [r]) \<Longrightarrow> dv_ID r \<in> drawn s
    \<Longrightarrow> dv_Token r \<in> drawn s \<Longrightarrow> dv_Token r \<notin> set (tokens s)
    \<Longrightarrow> db_wf (st_disc_update (\<lambda>rows. rows @ [r]) s)"
  by (auto simp: db_wf_defs)

lemmas insert_wf = insert_conn_wf insert_profile_wf insert_dep_wf insert_run_wf insert_sample_wf
  insert_vm_wf insert_sched_wf insert_disc_wf

lemma fresh_not_token:
  "db_wf s \<Longrightarrow> st_drawn s \<le> n \<Longrightarrow> st_rand s n \<notin> set (tokens s)"
  by (auto simp: db_wf_def ids_ok_def drawn_def dest!: subsetD dest: injD)

lemmas eval_simps = prog_defs newID_eq now_def sql_def sql_insert_def sql_select_def query_row_def
  must_affect_def sql_update_def sql_update_key_def sql_delete_def on_unique_def

section \<open>Outcomes of statements\<close>

lemma sql_insert_InrD:
  "sql_insert tbl put uniq refs row s = (Inr x, t) \<Longrightarrow>
     uniq (tbl (pop_fault s) @ [row]) \<and> refs row (pop_fault s) \<and> t = put (\<lambda>rows. rows @ [row]) (pop_fault s)"
  by (auto simp: sql_insert_def sql_def split: if_splits)

lemma sql_update_InrD:
  "sql_update tbl put p f s = (Inr n, t) \<Longrightarrow>
     n = count_where p (tbl (pop_fault s)) \<and> t = put (update_where p f) (pop_fault s)"
  by (auto simp: sql_update_def sql_update_key_def sql_def split: if_splits)

lemma sql_update_key_InrD:
  "sql_update_key tbl put uniq p f s = (Inr n, t) \<Longrightarrow>
     uniq (update_where p f (tbl (pop_fault s))) \<and> n = count_where p (tbl (pop_fault s))
       \<and> t = put (update_where p f) (pop_fault s)"
  by (auto simp: sql_update_key_def sql_def split: if_splits)

lemma sql_delete_InrD:
  "sql_delete tbl put p s = (Inr n, t) \<Longrightarrow>
     n = count_where p (tbl (pop_fault s)) \<and> t = put (delete_where p) (pop_fault s)"
  by (auto simp: sql_delete_def sql_def split: if_splits)

lemma sql_select_InrD: "sql_select q s = (Inr x, t) \<Longrightarrow> x = q (pop_fault s) \<and> t = pop_fault s"
  by (auto simp: sql_select_def sql_def look_def split: if_splits)

lemma query_row_InrD:
  "query_row tbl p s = (Inr x, t) \<Longrightarrow> find p (tbl (pop_fault s)) = Some x \<and> t = pop_fault s"
  by (auto simp: query_row_def seq_eq ret_def fail_def dest!: sql_select_InrD split: prod.splits sum.splits option.splits)

lemma must_affect_InrD: "must_affect m s = (Inr x, t) \<Longrightarrow> \<exists>n > 0. m s = (Inr n, t)"
  by (auto simp: must_affect_def seq_eq ret_def fail_def split: prod.splits sum.splits if_splits)

lemma on_unique_InrD: "on_unique msg m s = (Inr x, t) \<Longrightarrow> m s = (Inr x, t)"
  by (auto simp: on_unique_eq split: prod.splits sum.splits)

lemma newID_InrD: "newID s = (Inr i, t) \<Longrightarrow> i = st_rand s (st_drawn s) \<and> t = s\<lparr>st_drawn := Suc (st_drawn s)\<rparr>"
  by (simp add: newID_def)

lemma now_InrD: "now s = (Inr x, t) \<Longrightarrow> x = st_now s \<and> t = s"
  by (auto simp: now_def look_def)

lemmas stmt_InrD = sql_insert_InrD sql_update_InrD sql_update_key_InrD sql_delete_InrD sql_select_InrD
  query_row_InrD must_affect_InrD on_unique_InrD newID_InrD now_InrD

text \<open>A transaction that commits ran its body to the end; one that does not changes nothing.\<close>

lemma tx_InrE:
  assumes "tx body s = (Inr x, t)"
  obtains u where "body (pop_fault s) = (Inr x, u)" "t = pop_fault u"
  using assms
  by (auto simp: tx_def seq_eq ret_def sql_def split: prod.splits sum.splits if_splits)

lemma tx_wf:
  assumes "db_wf s" and "\<And>x u. body (pop_fault s) = (Inr x, u) \<Longrightarrow> db_wf u"
  shows "db_wf (snd (tx body s))"
proof (cases "tx body s")
  case (Pair r t)
  show ?thesis
  proof (cases r)
    case (Inl e)
    then show ?thesis using Pair tx_rollback [of body s e t] assms(1) by auto
  next
    case (Inr x)
    with Pair obtain u where "body (pop_fault s) = (Inr x, u)" "t = pop_fault u" by (auto elim: tx_InrE)
    with assms(2) Pair show ?thesis by simp
  qed
qed


section \<open>A new database\<close>

text \<open>After the migrations every table is empty; \<open>x0\<close>, \<open>x1\<close>, ... stand for the random
  identifiers where a concrete source is needed.\<close>

definition new_store :: "(nat \<Rightarrow> string) \<Rightarrow> int \<Rightarrow> bool list \<Rightarrow> store" where
  "new_store rand t faults = \<lparr>st_conns = [], st_profiles = [], st_versions = [], st_deps = [], st_runs = [],
     st_samples = [], st_vms = [], st_scheds = [], st_disc = [], st_now = t, st_rand = rand, st_drawn = 0,
     st_faults = faults\<rparr>"

definition demo_rand :: "nat \<Rightarrow> string" where
  "demo_rand n = CHR ''x'' # itoa_nat n"

lemma inj_demo_rand: "inj demo_rand"
  by (auto simp: demo_rand_def intro!: injI dest: itoa_nat_inj)

lemma new_store_wf: "inj rand \<Longrightarrow> db_wf (new_store rand t faults)"
  by (simp add: new_store_def db_wf_defs unique_defs)

abbreviation demo_store :: store where
  "demo_store \<equiv> new_store demo_rand 0 []"

lemma demo_store_wf: "db_wf demo_store"
  by (rule new_store_wf [OF inj_demo_rand])

lemma demo_store_faults: "st_faults demo_store = []"
  by (simp add: new_store_def)

lemma fresh_ids: "db_wf s \<Longrightarrow> st_rand s (st_drawn s) \<notin> all_ids s"
  using fresh_not_drawn [of s] by (auto simp: db_wf_def ids_ok_def)

end
