(* ===== verification/StoreConfig.thy ===== *)
theory StoreConfig
  imports Store
begin

text \<open>
  \<open>internal/store/connections.go\<close> and \<open>internal/store/profiles.go\<close>: hypervisor connections
  with their encrypted secret, and profiles with immutable, numbered spec versions.
\<close>

section \<open>Connections\<close>

definition conn_name_taken :: "string \<Rightarrow> string" where
  "conn_name_taken n = ''connection name '' @ go_quote n @ '' already exists''"

definition CreateConnection :: "connection \<Rightarrow> string \<Rightarrow> connection store_op" where
  "CreateConnection c secretEnc =
     seq newID (\<lambda>i. seq now (\<lambda>t.
       let c' = c\<lparr>c_ID := i, c_CreatedAt := t, c_UpdatedAt := t\<rparr> in
       seq (on_unique (conn_name_taken (c_Name c))
              (sql_insert st_conns st_conns_update conns_unique (\<lambda>_ _. True)
                 (connection.extend c' \<lparr>c_SecretEnc = secretEnc\<rparr>)))
         (\<lambda>_. ret c')))"

definition UpdateConnection :: "connection \<Rightarrow> string option \<Rightarrow> unit store_op" where
  "UpdateConnection c secretEnc =
     seq now (\<lambda>t. must_affect (on_unique (conn_name_taken (c_Name c))
       (sql_update_key st_conns st_conns_update conns_unique (\<lambda>r. c_ID r = c_ID c)
         (\<lambda>r. (case secretEnc of Some b \<Rightarrow> r\<lparr>c_SecretEnc := b\<rparr> | None \<Rightarrow> r)
              \<lparr>c_Name := c_Name c, c_Plugin := c_Plugin c, c_Endpoint := c_Endpoint c,
               c_Username := c_Username c, c_InsecureTLS := c_InsecureTLS c, c_UpdatedAt := t\<rparr>))))"

definition GetConnection :: "string \<Rightarrow> connection store_op" where
  "GetConnection i = seq (query_row st_conns (\<lambda>r. c_ID r = i)) (\<lambda>r. ret (connection.truncate r))"

definition GetConnectionSecret :: "string \<Rightarrow> string store_op" where
  "GetConnectionSecret i = seq (query_row st_conns (\<lambda>r. c_ID r = i)) (\<lambda>r. ret (c_SecretEnc r))"

text \<open>\<open>ORDER BY created_at DESC\<close>; rows of the same second stay in insertion order.\<close>

definition ListConnections :: "connection list store_op" where
  "ListConnections =
     sql_select (\<lambda>s. map connection.truncate (sort_key (\<lambda>r. - c_CreatedAt r) (st_conns s)))"

definition conn_in_use :: "nat \<Rightarrow> string" where
  "conn_in_use n = ''connection is used by '' @ itoa_nat n @ '' active deployment(s)''"

text \<open>The delete fails on the reference that deployments hold on a connection, which has no
  \<open>ON DELETE\<close> clause.\<close>

definition DeleteConnection :: "string \<Rightarrow> unit store_op" where
  "DeleteConnection i =
     seq (sql_select (\<lambda>s. count_where (\<lambda>d. d_ConnectionID d = i \<and> d_Status d \<noteq> DeploymentDeleted) (st_deps s)))
       (\<lambda>inUse. if inUse > 0 then fail (ErrConflict (conn_in_use inUse))
        else must_affect (sql (\<lambda>s.
          if list_ex (\<lambda>r. c_ID r = i) (st_conns s) \<and> list_ex (\<lambda>d. d_ConnectionID d = i) (st_deps s)
          then (Inl fk_failed, s)
          else (Inr (count_where (\<lambda>r. c_ID r = i) (st_conns s)),
                s\<lparr>st_conns := delete_where (\<lambda>r. c_ID r = i) (st_conns s)\<rparr>))))"

section \<open>Profiles\<close>

definition profile_name_taken :: "string \<Rightarrow> string" where
  "profile_name_taken n = ''profile name '' @ go_quote n @ '' already exists''"

definition insert_version :: "profile_version \<Rightarrow> unit store_op" where
  "insert_version = sql_insert st_versions st_versions_update versions_unique
     (\<lambda>v s. pv_ProfileID v \<in> profile_ids s)"

definition CreateProfile :: "string \<Rightarrow> profile_spec \<Rightarrow> profile store_op" where
  "CreateProfile name spec =
     seq newID (\<lambda>i. seq now (\<lambda>ts.
       seq (tx (seq (on_unique (profile_name_taken name)
              (sql_insert st_profiles st_profiles_update profiles_unique (\<lambda>_ _. True)
                 \<lparr>pr_ID = i, pr_Name = name, pr_CurrentVersion = 1, pr_CreatedAt = ts, pr_UpdatedAt = ts\<rparr>))
            (\<lambda>_. insert_version
                 \<lparr>pv_ProfileID = i, pv_Version = 1, pv_Spec = spec, pv_CreatedAt = ts\<rparr>)))
       (\<lambda>_. ret \<lparr>p_ID = i, p_Name = name, p_CurrentVersion = 1, p_Spec = spec,
                p_CreatedAt = ts, p_UpdatedAt = ts\<rparr>)))"

text \<open>The join of a profile with its current version.\<close>

definition join_profile :: "store \<Rightarrow> profile_row \<Rightarrow> profile option" where
  "join_profile s p = map_option
     (\<lambda>v. \<lparr>p_ID = pr_ID p, p_Name = pr_Name p, p_CurrentVersion = pr_CurrentVersion p,
           p_Spec = pv_Spec v, p_CreatedAt = pr_CreatedAt p, p_UpdatedAt = pr_UpdatedAt p\<rparr>)
     (find (\<lambda>v. pv_ProfileID v = pr_ID p \<and> pv_Version v = pr_CurrentVersion p) (st_versions s))"

definition GetProfile :: "string \<Rightarrow> profile store_op" where
  "GetProfile i =
     seq (sql_select (\<lambda>s. Option.bind (find (\<lambda>p. pr_ID p = i) (st_profiles s)) (join_profile s)))
       (\<lambda>r. case r of None \<Rightarrow> fail ErrNotFound | Some p \<Rightarrow> ret p)"

text \<open>The body of the transaction: the next version, and the profile's pointer to it.\<close>

definition next_version :: "string \<Rightarrow> profile_spec \<Rightarrow> int \<Rightarrow> unit store_op" where
  "next_version i spec ts =
     seq (query_row st_profiles (\<lambda>p. pr_ID p = i)) (\<lambda>p.
       let nxt = pr_CurrentVersion p + 1 in
       seq (insert_version \<lparr>pv_ProfileID = i, pv_Version = nxt, pv_Spec = spec, pv_CreatedAt = ts\<rparr>) (\<lambda>_.
       seq (sql_update st_profiles st_profiles_update (\<lambda>p. pr_ID p = i)
             (\<lambda>p. p\<lparr>pr_CurrentVersion := nxt, pr_UpdatedAt := ts\<rparr>)) (\<lambda>_. ret ())))"

definition UpdateProfileSpec :: "string \<Rightarrow> profile_spec \<Rightarrow> profile store_op" where
  "UpdateProfileSpec i spec = seq now (\<lambda>ts. seq (tx (next_version i spec ts)) (\<lambda>_. GetProfile i))"

definition RenameProfile :: "string \<Rightarrow> string \<Rightarrow> unit store_op" where
  "RenameProfile i name =
     seq now (\<lambda>t. must_affect (on_unique (profile_name_taken name)
       (sql_update_key st_profiles st_profiles_update profiles_unique (\<lambda>p. pr_ID p = i)
         (\<lambda>p. p\<lparr>pr_Name := name, pr_UpdatedAt := t\<rparr>))))"

definition ListProfiles :: "profile list store_op" where
  "ListProfiles = sql_select (\<lambda>s.
     List.map_filter (join_profile s) (sort_key (\<lambda>p. - pr_CreatedAt p) (st_profiles s)))"

definition profile_in_use :: "nat \<Rightarrow> string" where
  "profile_in_use n = ''profile is referenced by '' @ itoa_nat n @ '' active deployment(s)''"

text \<open>Deleting a profile cascades to its versions and clears the references of deployments.\<close>

definition DeleteProfile :: "string \<Rightarrow> unit store_op" where
  "DeleteProfile i =
     seq (sql_select (\<lambda>s. count_where (\<lambda>d. d_ProfileID d = i \<and> i \<noteq> '''' \<and> d_Status d \<noteq> DeploymentDeleted) (st_deps s)))
       (\<lambda>inUse. if inUse > 0 then fail (ErrConflict (profile_in_use inUse))
        else must_affect (sql (\<lambda>s.
          (Inr (count_where (\<lambda>p. pr_ID p = i) (st_profiles s)),
           s\<lparr>st_profiles := delete_where (\<lambda>p. pr_ID p = i) (st_profiles s),
             st_versions := delete_where (\<lambda>v. pv_ProfileID v = i) (st_versions s),
             st_deps := update_where (\<lambda>d. d_ProfileID d = i) (\<lambda>d. d\<lparr>d_ProfileID := ''''\<rparr>) (st_deps s)\<rparr>))))"

definition GetProfileVersion :: "string \<Rightarrow> int \<Rightarrow> profile_version store_op" where
  "GetProfileVersion i n = query_row st_versions (\<lambda>v. pv_ProfileID v = i \<and> pv_Version v = n)"

definition ListProfileVersions :: "string \<Rightarrow> profile_version list store_op" where
  "ListProfileVersions i = sql_select (\<lambda>s.
     sort_key (\<lambda>v. - pv_Version v) (filter (\<lambda>v. pv_ProfileID v = i) (st_versions s)))"


section \<open>The invariant\<close>

lemma keeps_CreateConnection [inv_intros]: "keeps db_wf (CreateConnection c b)"
  by (rule keepsI)
    (auto simp: CreateConnection_def eval_simps Let_def drawn_Suc connection.defs intro!: insert_conn_wf split: prod.splits sum.splits)

lemma keeps_UpdateConnection [inv_intros]: "keeps db_wf (UpdateConnection c b)"
  unfolding UpdateConnection_def by (intro inv_intros) (simp split: option.splits)

lemma keeps_connection_reads [inv_intros]:
  "keeps db_wf (GetConnection i)" "keeps db_wf (GetConnectionSecret i)" "keeps db_wf ListConnections"
  unfolding GetConnection_def GetConnectionSecret_def ListConnections_def by (intro inv_intros)+

lemma delete_conn_wf:
  assumes wf: "db_wf s" and unused: "\<not> list_ex (\<lambda>d. d_ConnectionID d = i) (st_deps s)"
  shows "db_wf (s\<lparr>st_conns := delete_where (\<lambda>r. c_ID r = i) (st_conns s)\<rparr>)" (is "db_wf ?t")
proof -
  have "conn_ids ?t = conn_ids s - {i}" by (auto simp: conn_ids_def row_simps)
  moreover have "i \<notin> set (map d_ConnectionID (st_deps s))" using unused by (auto simp: list_ex_iff)
  moreover have "conns_unique (st_conns ?t)"
    using db_wfD(1) [OF wf] by (simp add: conns_unique_def distinct_map_delete_where)
  moreover have "versions_ok ?t = versions_ok s" by (simp add: versions_ok_def versions_of_def)
  ultimately show ?thesis using wf
    by (auto simp: db_wf_def keys_ok_def refs_ok_def ids_ok_def drawn_def tokens_def all_ids_def
        profile_ids_def dep_ids_def run_ids_def)
qed

lemma keeps_DeleteConnection [inv_intros]: "keeps db_wf (DeleteConnection i)"
  unfolding DeleteConnection_def
  by (intro inv_intros keeps_sql keepsI) (auto simp: row_simps list_ex_iff delete_where_def
      intro: delete_conn_wf [unfolded delete_where_def] split: if_splits)

lemma keeps_profile_reads [inv_intros]:
  "keeps db_wf (GetProfile i)" "keeps db_wf ListProfiles" "keeps db_wf (GetProfileVersion i n)"
  "keeps db_wf (ListProfileVersions i)"
  unfolding GetProfile_def ListProfiles_def GetProfileVersion_def ListProfileVersions_def
  by (intro inv_intros)+

lemma insert_version_InrD:
  "insert_version v s = (Inr x, t) \<Longrightarrow> pv_ProfileID v \<in> profile_ids s
     \<and> versions_unique (st_versions s @ [v]) \<and> t = st_versions_update (\<lambda>rows. rows @ [v]) (pop_fault s)"
  by (auto simp: insert_version_def profile_ids_def dest!: sql_insert_InrD)

lemma keeps_CreateProfile [inv_intros]: "keeps db_wf (CreateProfile n spec)"
proof (rule keepsI)
  fix s assume wf: "db_wf s"
  let ?t = "s\<lparr>st_drawn := Suc (st_drawn s)\<rparr>" and ?i = "st_rand s (st_drawn s)"
  let ?r = "\<lparr>pr_ID = ?i, pr_Name = n, pr_CurrentVersion = 1, pr_CreatedAt = st_now s, pr_UpdatedAt = st_now s\<rparr>"
  let ?v = "\<lparr>pv_ProfileID = ?i, pv_Version = 1, pv_Spec = spec, pv_CreatedAt = st_now s\<rparr>"
  let ?body = "seq (on_unique (profile_name_taken n)
      (sql_insert st_profiles st_profiles_update profiles_unique (\<lambda>_ _. True) ?r)) (\<lambda>_. insert_version ?v)"
  have "db_wf (snd (tx ?body ?t))"
  proof (rule tx_wf)
    fix x u assume "?body (pop_fault ?t) = (Inr x, u)"
    then have u: "u = st_versions_update (\<lambda>rows. rows @ [?v])
        (pop_fault (st_profiles_update (\<lambda>rows. rows @ [?r]) (pop_fault (pop_fault ?t))))"
      and "profiles_unique (st_profiles s @ [?r])"
      by (auto elim!: seq_InrE dest!: stmt_InrD insert_version_InrD)
    moreover have "pop_fault (st_profiles_update f s') = st_profiles_update f (pop_fault s')" for f s'
      by (simp add: pop_fault_def)
    ultimately show "db_wf u"
      using wf by (auto simp: drawn_Suc intro!: insert_profile_wf)
  qed (use wf in simp)
  then show "db_wf (snd (CreateProfile n spec s))"
    by (auto simp: CreateProfile_def seq_eq [of "tx _"] ret_def split: prod.splits sum.splits)
qed

lemma pop_commute:
  "pop_fault (st_versions_update f s) = st_versions_update f (pop_fault s)"
  "pop_fault (st_profiles_update g s) = st_profiles_update g (pop_fault s)"
  by (simp_all add: pop_fault_def)

lemma next_version_InrD:
  assumes "next_version i spec ts s = (Inr x, u)"
  shows "\<exists>p. find (\<lambda>p. pr_ID p = i) (st_profiles s) = Some p
    \<and> u = st_profiles_update (update_where (\<lambda>p. pr_ID p = i)
             (\<lambda>q. q\<lparr>pr_CurrentVersion := pr_CurrentVersion p + 1, pr_UpdatedAt := ts\<rparr>))
           (st_versions_update (\<lambda>rows. rows @
              [\<lparr>pv_ProfileID = i, pv_Version = pr_CurrentVersion p + 1, pv_Spec = spec, pv_CreatedAt = ts\<rparr>])
             (pop_fault (pop_fault (pop_fault s))))"
  using assms
  by (auto simp: next_version_def Let_def ret_def pop_commute elim!: seq_InrE dest!: stmt_InrD insert_version_InrD)

lemma keeps_UpdateProfileSpec [inv_intros]: "keeps db_wf (UpdateProfileSpec i spec)"
proof -
  have "keeps db_wf (tx (next_version i spec ts))" for ts
  proof (rule keepsI, rule tx_wf)
    fix s x u assume wf: "db_wf s" and "next_version i spec ts (pop_fault s) = (Inr x, u)"
    then obtain p where p: "find (\<lambda>p. pr_ID p = i) (st_profiles s) = Some p"
      and u: "u = st_profiles_update (update_where (\<lambda>p. pr_ID p = i)
             (\<lambda>q. q\<lparr>pr_CurrentVersion := pr_CurrentVersion p + 1, pr_UpdatedAt := ts\<rparr>))
           (st_versions_update (\<lambda>rows. rows @
              [\<lparr>pv_ProfileID = i, pv_Version = pr_CurrentVersion p + 1, pv_Spec = spec, pv_CreatedAt = ts\<rparr>])
             (pop_fault (pop_fault (pop_fault (pop_fault s)))))"
      using next_version_InrD by fastforce
    then show "db_wf u"
      using wf find_SomeD [OF p] unfolding u by (auto intro!: insert_version_wf)
  qed
  then show ?thesis unfolding UpdateProfileSpec_def
    by (intro keeps_seq keeps_now keeps_profile_reads)
qed

lemma keeps_RenameProfile [inv_intros]: "keeps db_wf (RenameProfile i n)"
  unfolding RenameProfile_def by (intro inv_intros) simp_all

lemma delete_profile_wf:
  assumes wf: "db_wf s"
  shows "db_wf (s\<lparr>st_profiles := delete_where (\<lambda>p. pr_ID p = i) (st_profiles s),
             st_versions := delete_where (\<lambda>v. pv_ProfileID v = i) (st_versions s),
             st_deps := update_where (\<lambda>d. d_ProfileID d = i) (\<lambda>d. d\<lparr>d_ProfileID := ''''\<rparr>) (st_deps s)\<rparr>)"
    (is "db_wf ?t")
proof -
  have P: "profile_ids ?t = profile_ids s - {i}" by (auto simp: profile_ids_def row_simps)
  have d: "map d_ID (st_deps ?t) = map d_ID (st_deps s)" "map d_Name (st_deps ?t) = map d_Name (st_deps s)"
    "map d_ConnectionID (st_deps ?t) = map d_ConnectionID (st_deps s)"
    by (simp_all add: map_update_where)
  have I: "dep_ids ?t = dep_ids s" "conn_ids ?t = conn_ids s" "run_ids ?t = run_ids s"
    by (simp_all add: ids_defs map_update_where del: set_map)
  have A: "set (map d_ProfileID (st_deps ?t)) \<subseteq> insert '''' (set (map d_ProfileID (st_deps s)) - {i})"
    by (auto simp: row_simps)
  have B: "set (map pv_ProfileID (st_versions ?t)) = set (map pv_ProfileID (st_versions s)) - {i}"
    by (auto simp: row_simps)
  have U: "versions_unique (st_versions ?t)" "profiles_unique (st_profiles ?t)" "deps_unique (st_deps ?t)"
    using db_wfD(2-4) [OF wf] d
    by (simp_all add: versions_unique_def profiles_unique_def deps_unique_def distinct_map_delete_where)
  have "versions_of j ?t = versions_of j s" if "j \<noteq> i" for j
    using that by (auto simp: versions_of_def row_simps)
  then have V: "versions_ok ?t" using db_wfD(10) [OF wf] by (auto simp: versions_ok_def row_simps)
  have R: "refs_ok s" "ids_ok s" using wf by (simp_all add: db_wf_def)
  have "set (map d_ProfileID (st_deps s)) \<subseteq> insert '''' (profile_ids s)"
    "set (map pv_ProfileID (st_versions s)) \<subseteq> profile_ids s" using R(1) by (simp_all add: refs_ok_def)
  then have "set (map d_ProfileID (st_deps ?t)) \<subseteq> insert '''' (profile_ids ?t)"
    "set (map pv_ProfileID (st_versions ?t)) \<subseteq> profile_ids ?t"
    using A unfolding P B by blast+
  then have "refs_ok ?t" using R(1) unfolding refs_ok_def I d by simp
  moreover have "ids_ok ?t"
    using R(2) unfolding ids_ok_def all_ids_def I P by (auto simp: drawn_def tokens_def)
  ultimately show ?thesis using wf U V by (simp add: db_wf_def keys_ok_def)
qed

lemma keeps_DeleteProfile [inv_intros]: "keeps db_wf (DeleteProfile i)"
  unfolding DeleteProfile_def
  by (intro inv_intros keepsI) (simp add: delete_profile_wf)

section \<open>Connections: what the operations promise\<close>

lemma conns_unique_snoc:
  "db_wf s \<Longrightarrow> c_ID r \<notin> conn_ids s \<Longrightarrow> conns_unique (st_conns s @ [r]) \<longleftrightarrow> c_Name r \<notin> set (map c_Name (st_conns s))"
  using db_wfD(1) [of s] by (auto simp: conns_unique_def conn_ids_def)

text \<open>
  Creating a connection under a free name succeeds, and the connection and its encrypted
  secret are then read back as stored; under a name in use it fails with a conflict and
  leaves every table as it was.
\<close>

theorem create_connection_roundtrip:
  assumes "db_wf s" "st_faults s = []"
  shows "case CreateConnection c b s of
      (Inr c', t) \<Rightarrow> c_Name c \<notin> set (map c_Name (st_conns s))
        \<and> c' = c\<lparr>c_ID := c_ID c', c_CreatedAt := st_now s, c_UpdatedAt := st_now s\<rparr>
        \<and> fst (GetConnection (c_ID c') t) = Inr c' \<and> fst (GetConnectionSecret (c_ID c') t) = Inr b
    | (Inl e, t) \<Rightarrow> c_Name c \<in> set (map c_Name (st_conns s)) \<and> e = ErrConflict (conn_name_taken (c_Name c))
        \<and> st_conns t = st_conns s"
proof -
  let ?i = "st_rand s (st_drawn s)"
  have i: "?i \<notin> conn_ids s" using fresh_ids [OF assms(1)] by (simp add: all_ids_def)
  then have none: "find (\<lambda>r. c_ID r = ?i) (st_conns s) = None"
    unfolding conn_ids_def by (rule find_key_None)
  let ?r = "connection.extend (c\<lparr>c_ID := ?i, c_CreatedAt := st_now s, c_UpdatedAt := st_now s\<rparr>) \<lparr>c_SecretEnc = b\<rparr>"
  have "conns_unique (st_conns s @ [?r]) \<longleftrightarrow> c_Name c \<notin> set (map c_Name (st_conns s))"
    using conns_unique_snoc [OF assms(1), of ?r] i by (simp add: connection.defs)
  then show ?thesis
    using assms(2) none
    by (auto simp: CreateConnection_def GetConnection_def GetConnectionSecret_def eval_simps Let_def find_append
        isUniqueViolation_def connection.defs)
qed

theorem create_connection_roundtrip_witness:
  "\<exists>t c'. CreateConnection \<lparr>c_ID = '''', c_Name = ''lab'', c_Plugin = ''vsphere'', c_Endpoint = ''vc'', c_Username = ''u'',
      c_InsecureTLS = False, c_CreatedAt = 0, c_UpdatedAt = 0\<rparr> ''s3cret'' demo_store = (Inr c', t)
    \<and> fst (GetConnectionSecret (c_ID c') t) = Inr ''s3cret''"
  using create_connection_roundtrip [OF demo_store_wf demo_store_faults,
      of "\<lparr>c_ID = '''', c_Name = ''lab'', c_Plugin = ''vsphere'', c_Endpoint = ''vc'', c_Username = ''u'',
      c_InsecureTLS = False, c_CreatedAt = 0, c_UpdatedAt = 0\<rparr>" "''s3cret''"]
  by (auto simp: new_store_def split: prod.splits sum.splits)

text \<open>
  A connection can be deleted exactly when it exists and no deployment refers to it,
  not even a deleted one: an active deployment makes the delete fail with a conflict, a
  deleted one (whose row is kept for history) with the database's reference error, and
  then nothing is changed.
\<close>

theorem delete_connection_outcome:
  assumes "st_faults s = []"
  shows "DeleteConnection i s =
    (let act = count_where (\<lambda>d. d_ConnectionID d = i \<and> d_Status d \<noteq> DeploymentDeleted) (st_deps s) in
     if act > 0 then (Inl (ErrConflict (conn_in_use act)), s)
     else if i \<notin> conn_ids s then (Inl ErrNotFound, s)
     else if i \<in> set (map d_ConnectionID (st_deps s)) then (Inl fk_failed, s)
     else (Inr (), s\<lparr>st_conns := delete_where (\<lambda>r. c_ID r = i) (st_conns s)\<rparr>))"
proof -
  have c: "i \<in> conn_ids s \<longleftrightarrow> list_ex (\<lambda>r. c_ID r = i) (st_conns s)"
    "i \<in> conn_ids s \<longleftrightarrow> count_where (\<lambda>r. c_ID r = i) (st_conns s) \<noteq> 0"
    "i \<in> set (map d_ConnectionID (st_deps s)) \<longleftrightarrow> list_ex (\<lambda>d. d_ConnectionID d = i) (st_deps s)"
    by (auto simp: conn_ids_def list_ex_iff row_simps)
  have d: "i \<notin> conn_ids s \<Longrightarrow> delete_where (\<lambda>r. c_ID r = i) (st_conns s) = st_conns s"
    by (auto simp: c(1) list_ex_iff delete_where_def intro!: filter_True)
  show ?thesis
    using assms c d by (auto simp: DeleteConnection_def eval_simps Let_def)
qed

theorem delete_connection_outcome_witness:
  "fst (DeleteConnection ''nope'' demo_store) = Inl ErrNotFound"
  using delete_connection_outcome [OF demo_store_faults, of "''nope''"]
  by (simp add: new_store_def conn_ids_def)

section \<open>Profiles: what the operations promise\<close>

text \<open>
  C32. Updating a profile's spec is atomic and never touches history: whatever happens
  (database errors included), the version table afterwards is the old one or the old one
  with exactly one version appended, the next number with the new spec, and the profile's
  current version moves if and only if that version was appended.
\<close>

theorem update_profile_atomic:
  assumes wf: "db_wf s" and run: "UpdateProfileSpec i spec s = (r, t)"
  shows "(st_versions t = st_versions s \<and> st_profiles t = st_profiles s \<and> (\<exists>e. r = Inl e))
    \<or> (\<exists>p \<in> set (st_profiles s). pr_ID p = i
        \<and> st_versions t = st_versions s @ [\<lparr>pv_ProfileID = i, pv_Version = pr_CurrentVersion p + 1,
             pv_Spec = spec, pv_CreatedAt = st_now s\<rparr>]
        \<and> st_profiles t = update_where (\<lambda>q. pr_ID q = i)
            (\<lambda>q. q\<lparr>pr_CurrentVersion := pr_CurrentVersion p + 1, pr_UpdatedAt := st_now s\<rparr>) (st_profiles s)
        \<and> (\<forall>q. r = Inr q \<longrightarrow> p_ID q = i \<and> p_Spec q = spec \<and> p_CurrentVersion q = pr_CurrentVersion p + 1))"
proof (cases "tx (next_version i spec (st_now s)) s")
  case (Pair q u)
  have run': "seq (tx (next_version i spec (st_now s))) (\<lambda>_. GetProfile i) s = (r, t)"
    using run by (simp add: UpdateProfileSpec_def)
  show ?thesis
  proof (cases q)
    case (Inl e)
    with Pair run' have "t = u" "r = Inl e" by (simp_all add: seq_eq)
    moreover have "\<exists>fs. u = s\<lparr>st_faults := fs\<rparr>" using Pair Inl by (auto intro: tx_rollback)
    ultimately show ?thesis by auto
  next
    case (Inr y)
    with Pair obtain v where v: "next_version i spec (st_now s) (pop_fault s) = (Inr y, v)" "u = pop_fault v"
      by (auto elim: tx_InrE)
    from next_version_InrD [OF v(1)] obtain p where p: "find (\<lambda>p. pr_ID p = i) (st_profiles s) = Some p"
      and vp: "st_profiles v = update_where (\<lambda>q. pr_ID q = i)
            (\<lambda>q. q\<lparr>pr_CurrentVersion := pr_CurrentVersion p + 1, pr_UpdatedAt := st_now s\<rparr>) (st_profiles s)"
      and vv: "st_versions v = st_versions s @ [\<lparr>pv_ProfileID = i, pv_Version = pr_CurrentVersion p + 1,
             pv_Spec = spec, pv_CreatedAt = st_now s\<rparr>]"
      by auto
    have g: "GetProfile i u = (r, t)" using run' Pair Inr by (simp add: seq_eq)
    then have "t = pop_fault u"
      by (auto simp: GetProfile_def eval_simps split: option.splits if_splits)
    moreover have "p_ID q = i \<and> p_Spec q = spec \<and> p_CurrentVersion q = pr_CurrentVersion p + 1"
      if "r = Inr q" for q
    proof -
      have "pr_ID p = i" "p \<in> set (st_profiles s)" using find_SomeD [OF p] by auto
      then have "find (\<lambda>v. pv_ProfileID v = i \<and> pv_Version v = pr_CurrentVersion p + 1) (st_versions s) = None"
        using version_range [OF wf] by (fastforce simp: find_None_iff)
      moreover have "find (\<lambda>q. pr_ID q = i) (st_profiles v)
          = Some (p\<lparr>pr_CurrentVersion := pr_CurrentVersion p + 1, pr_UpdatedAt := st_now s\<rparr>)"
        unfolding vp by (subst find_update_where_key) (simp_all add: p)
      ultimately show ?thesis
        using g that v(2) vv \<open>pr_ID p = i\<close>
        by (auto simp: GetProfile_def eval_simps join_profile_def find_append split: option.splits if_splits)
    qed
    ultimately show ?thesis using v(2) vp vv find_SomeD [OF p] by (intro disjI2 bexI [of _ p]) auto
  qed
qed

theorem update_profile_atomic_witness:
  "st_versions (snd (UpdateProfileSpec ''nope'' sample_spec demo_store)) = []"
  using update_profile_atomic [OF demo_store_wf surjective_pairing, of "''nope''" sample_spec]
  by (auto simp: new_store_def)

end
