(* ===== verification/StoreFleet.thy ===== *)
theory StoreFleet
  imports StoreConfig
begin

text \<open>
  \<open>internal/store/deployments.go\<close>, \<open>managed_vms.go\<close>, \<open>schedules.go\<close> and
  \<open>discovered_vms.go\<close>: deployments and their runs, the VMs of a deployment with their agent,
  fill and data state, the schedules, and the discovered VMs. \<open>fill_updated_at\<close>, which no
  statement reads, is left out.
\<close>

section \<open>Deployments\<close>

definition dep_name_taken :: "string \<Rightarrow> string" where
  "dep_name_taken n = ''deployment name '' @ go_quote n @ '' already exists''"

definition insert_dep :: "deployment \<Rightarrow> unit store_op" where
  "insert_dep = sql_insert st_deps st_deps_update deps_unique
     (\<lambda>d s. d_ConnectionID d \<in> conn_ids s \<and> (d_ProfileID d = '''' \<or> d_ProfileID d \<in> profile_ids s))"

definition CreateDeployment :: "deployment \<Rightarrow> deployment store_op" where
  "CreateDeployment d =
     seq newID (\<lambda>i. seq now (\<lambda>t.
       let d' = d\<lparr>d_ID := i, d_CreatedAt := t, d_UpdatedAt := t,
                  d_Status := (if d_Status d = DeploymentUnset then DeploymentNew else d_Status d)\<rparr> in
       seq (on_unique (dep_name_taken (d_Name d)) (insert_dep d')) (\<lambda>_. ret d')))"

definition UpdateDeploymentSpec :: "string \<Rightarrow> profile_spec \<Rightarrow> unit store_op" where
  "UpdateDeploymentSpec i spec = seq now (\<lambda>t. must_affect
     (sql_update st_deps st_deps_update (\<lambda>d. d_ID d = i) (\<lambda>d. d\<lparr>d_Spec := spec, d_UpdatedAt := t\<rparr>)))"

definition SetDeploymentStatus :: "string \<Rightarrow> deployment_status \<Rightarrow> unit store_op" where
  "SetDeploymentStatus i st = seq now (\<lambda>t. must_affect
     (sql_update st_deps st_deps_update (\<lambda>d. d_ID d = i) (\<lambda>d. d\<lparr>d_Status := st, d_UpdatedAt := t\<rparr>)))"

definition deleted_name :: "deployment \<Rightarrow> string" where
  "deleted_name d = d_Name d @ '' (deleted '' @ take 8 (d_ID d) @ '')''"

definition DeleteDeploymentSchedules :: "string \<Rightarrow> unit store_op" where
  "DeleteDeploymentSchedules i =
     seq (sql_delete st_scheds st_scheds_update (\<lambda>sc. sc_DeploymentID sc = i)) (\<lambda>_. ret ())"

definition MarkDeploymentDeleted :: "string \<Rightarrow> unit store_op" where
  "MarkDeploymentDeleted i = seq now (\<lambda>t.
     seq (must_affect (sql_update_key st_deps st_deps_update deps_unique
            (\<lambda>d. d_ID d = i \<and> d_Status d \<noteq> DeploymentDeleted)
            (\<lambda>d. d\<lparr>d_Status := DeploymentDeleted, d_Name := deleted_name d, d_UpdatedAt := t\<rparr>)))
       (\<lambda>_. DeleteDeploymentSchedules i))"

definition GetDeployment :: "string \<Rightarrow> deployment store_op" where
  "GetDeployment i = query_row st_deps (\<lambda>d. d_ID d = i)"

definition ListDeployments :: "deployment list store_op" where
  "ListDeployments = sql_select (\<lambda>s. sort_key (\<lambda>d. - d_CreatedAt d) (st_deps s))"

section \<open>Runs\<close>

definition insert_run :: "run \<Rightarrow> unit store_op" where
  "insert_run = sql_insert st_runs st_runs_update runs_unique (\<lambda>r s. r_DeploymentID r \<in> dep_ids s)"

definition CreateRun :: "string \<Rightarrow> run_type \<Rightarrow> run store_op" where
  "CreateRun dep rt = seq newID (\<lambda>i. seq now (\<lambda>t.
     let r = \<lparr>r_ID = i, r_DeploymentID = dep, r_Type = rt, r_Status = RunPending, r_StartedAt = None,
              r_FinishedAt = None, r_Stats = JNull, r_TriggeredBy = '''', r_CreatedAt = t\<rparr> in
     seq (insert_run r) (\<lambda>_. ret r)))"

definition succeeded_fill :: "run_type \<Rightarrow> run \<Rightarrow> bool" where
  "succeeded_fill rt r \<longleftrightarrow> r_Type r = rt \<and> r_Status r = RunSucceeded"

definition HasSucceededRun :: "string \<Rightarrow> run_type \<Rightarrow> bool store_op" where
  "HasSucceededRun dep rt = sql_select (\<lambda>s.
     count_where (\<lambda>r. r_DeploymentID r = dep \<and> succeeded_fill rt r) (st_runs s) > 0)"

definition DeploymentFilled :: "string \<Rightarrow> bool store_op" where
  "DeploymentFilled dep = seq (HasSucceededRun dep RunInitialFill) (\<lambda>filled.
     if filled then ret True
     else seq (sql_select (\<lambda>s. let vms = filter (\<lambda>v. v_DeploymentID v = dep) (st_vms s) in
            (length vms, count_where (\<lambda>v. v_DataState v \<noteq> DataFilled) vms)))
       (\<lambda>(vms, unfilled). ret (vms > 0 \<and> unfilled = 0)))"

text \<open>The \<open>UNION\<close> of the two sources, as a list without the duplicates a map drops.\<close>

definition FilledDeploymentIDs :: "string list store_op" where
  "FilledDeploymentIDs = sql_select (\<lambda>s. remdups
     (map r_DeploymentID (filter (succeeded_fill RunInitialFill) (st_runs s))
      @ filter (\<lambda>dep. count_where (\<lambda>v. v_DeploymentID v = dep \<and> v_DataState v \<noteq> DataFilled) (st_vms s) = 0)
          (map v_DeploymentID (st_vms s))))"

definition GetRun :: "string \<Rightarrow> run store_op" where
  "GetRun i = query_row st_runs (\<lambda>r. r_ID r = i)"

definition ListRuns :: "string \<Rightarrow> run list store_op" where
  "ListRuns dep = sql_select (\<lambda>s.
     sort_key (\<lambda>r. - r_CreatedAt r) (filter (\<lambda>r. r_DeploymentID r = dep) (st_runs s)))"

definition ListRunningRuns :: "run list store_op" where
  "ListRunningRuns = sql_select (\<lambda>s.
     sort_key r_CreatedAt (filter (\<lambda>r. r_Status r = RunRunning) (st_runs s)))"

text \<open>\<open>COALESCE(started_at, now)\<close> keeps the start time of a resumed run.\<close>

definition StartRun :: "string \<Rightarrow> unit store_op" where
  "StartRun i = seq now (\<lambda>t. must_affect (sql_update st_runs st_runs_update (\<lambda>r. r_ID r = i)
     (\<lambda>r. r\<lparr>r_Status := RunRunning, r_StartedAt := (case r_StartedAt r of None \<Rightarrow> Some t | Some t0 \<Rightarrow> Some t0)\<rparr>)))"

definition SetRunStats :: "string \<Rightarrow> json \<Rightarrow> unit store_op" where
  "SetRunStats i stats = seq (sql_update st_runs st_runs_update (\<lambda>r. r_ID r = i) (\<lambda>r. r\<lparr>r_Stats := stats\<rparr>))
     (\<lambda>_. ret ())"

definition FinishRun :: "string \<Rightarrow> run_status \<Rightarrow> json \<Rightarrow> unit store_op" where
  "FinishRun i st stats = seq now (\<lambda>t. must_affect (sql_update st_runs st_runs_update (\<lambda>r. r_ID r = i)
     (\<lambda>r. r\<lparr>r_Status := st, r_FinishedAt := Some t, r_Stats := stats\<rparr>)))"

definition SetRunTrigger :: "string \<Rightarrow> string \<Rightarrow> unit store_op" where
  "SetRunTrigger i sched = must_affect (sql_update st_runs st_runs_update (\<lambda>r. r_ID r = i)
     (\<lambda>r. r\<lparr>r_TriggeredBy := sched\<rparr>))"

definition AddRunSample :: "string \<Rightarrow> f64 \<Rightarrow> int \<Rightarrow> unit store_op" where
  "AddRunSample i mbps bytes = seq now (\<lambda>t.
     sql_insert st_samples st_samples_update (\<lambda>_. True) (\<lambda>r s. rs_RunID r \<in> run_ids s)
       \<lparr>rs_RunID = i, rs_TS = t, rs_MBps = mbps, rs_BytesWritten = bytes\<rparr>)"

definition ListRunSamples :: "string \<Rightarrow> run_sample list store_op" where
  "ListRunSamples i = sql_select (\<lambda>s. sort_key rs_TS (filter (\<lambda>r. rs_RunID r = i) (st_samples s)))"

section \<open>Managed VMs\<close>

definition insert_vm :: "managed_vm \<Rightarrow> unit store_op" where
  "insert_vm = sql_insert st_vms st_vms_update vms_unique (\<lambda>v s. v_DeploymentID v \<in> dep_ids s)"

text \<open>The columns the statement does not name get the schema's defaults.\<close>

definition AddManagedVM :: "managed_vm \<Rightarrow> unit store_op" where
  "AddManagedVM v = seq newID (\<lambda>i. seq now (\<lambda>t. seq newID (\<lambda>tok.
     insert_vm \<lparr>v_ID = i, v_DeploymentID = v_DeploymentID v, v_Name = v_Name v, v_Ref = v_Ref v,
       v_DiskCount = v_DiskCount v, v_DiskSizeGiB = v_DiskSizeGiB v, v_MAC = to_lower (v_MAC v),
       v_BootToken = tok,
       v_AgentStatus = (if v_AgentStatus v = AgentUnset then AgentNone else v_AgentStatus v),
       v_AgentSeenAt = None, v_DataState = DataUnknown, v_DataRunID = '''', v_DataManifest = False,
       v_DataSeenAt = None, v_FillRunID = '''', v_FillStatus = FillUnset, v_BytesWritten = 0,
       v_BytesTotal = 0, v_MBps = 0, v_FillError = '''', v_CreatedAt = t\<rparr>)))"

abbreviation update_vm :: "string \<Rightarrow> (managed_vm \<Rightarrow> managed_vm) \<Rightarrow> nat store_op" where
  "update_vm i f \<equiv> sql_update st_vms st_vms_update (\<lambda>v. v_ID v = i) f"

definition UpdateManagedVMDisks :: "string \<Rightarrow> int \<Rightarrow> int \<Rightarrow> unit store_op" where
  "UpdateManagedVMDisks i diskCount diskSizeGiB =
     must_affect (update_vm i (\<lambda>v. v\<lparr>v_DiskCount := diskCount, v_DiskSizeGiB := diskSizeGiB\<rparr>))"

definition TouchAgent :: "string \<Rightarrow> unit store_op" where
  "TouchAgent i = seq now (\<lambda>t.
     must_affect (update_vm i (\<lambda>v. v\<lparr>v_AgentStatus := AgentOnline, v_AgentSeenAt := Some t\<rparr>)))"

definition ResetAgent :: "string \<Rightarrow> unit store_op" where
  "ResetAgent i = must_affect (update_vm i (\<lambda>v. v\<lparr>v_AgentStatus := AgentNone, v_AgentSeenAt := None\<rparr>))"

definition GetManagedVM :: "string \<Rightarrow> managed_vm store_op" where
  "GetManagedVM i = query_row st_vms (\<lambda>v. v_ID v = i)"

definition GetManagedVMByToken :: "string \<Rightarrow> managed_vm store_op" where
  "GetManagedVMByToken tok = query_row st_vms (\<lambda>v. v_BootToken v = tok)"

definition GetManagedVMByMAC :: "string \<Rightarrow> managed_vm store_op" where
  "GetManagedVMByMAC mac = query_row st_vms (\<lambda>v. v_MAC v = to_lower mac)"

definition GetManagedVMByName :: "string \<Rightarrow> string \<Rightarrow> managed_vm store_op" where
  "GetManagedVMByName dep name = query_row st_vms (\<lambda>v. v_DeploymentID v = dep \<and> v_Name v = name)"

definition SetVMDataState :: "string \<Rightarrow> data_state \<Rightarrow> string \<Rightarrow> bool \<Rightarrow> unit store_op" where
  "SetVMDataState i st runID manifest = seq now (\<lambda>t.
     must_affect (update_vm i (\<lambda>v. v\<lparr>v_DataState := st, v_DataRunID := runID, v_DataManifest := manifest,
       v_DataSeenAt := Some t\<rparr>)))"

definition RebindManagedVM :: "string \<Rightarrow> string \<Rightarrow> string \<Rightarrow> unit store_op" where
  "RebindManagedVM i mac ref =
     must_affect (update_vm i (\<lambda>v. v\<lparr>v_MAC := to_lower mac, v_Ref := ref, v_AgentStatus := AgentNone,
       v_AgentSeenAt := None, v_DataState := DataUnknown, v_DataRunID := '''', v_DataManifest := False,
       v_DataSeenAt := None\<rparr>))"

definition DeleteManagedVM :: "string \<Rightarrow> unit store_op" where
  "DeleteManagedVM i = seq (sql_delete st_vms st_vms_update (\<lambda>v. v_ID v = i)) (\<lambda>_. ret ())"

definition vms_of :: "string \<Rightarrow> store \<Rightarrow> managed_vm list" where
  "vms_of dep s = sort_key v_Name (filter (\<lambda>v. v_DeploymentID v = dep) (st_vms s))"

definition ListManagedVMs :: "string \<Rightarrow> managed_vm list store_op" where
  "ListManagedVMs dep = sql_select (vms_of dep)"

definition AssignFill :: "string \<Rightarrow> string \<Rightarrow> int \<Rightarrow> unit store_op" where
  "AssignFill i runID bytesTotal = seq (update_vm i (\<lambda>v. v\<lparr>v_FillRunID := runID, v_FillStatus := FillPending,
     v_BytesWritten := 0, v_BytesTotal := bytesTotal, v_MBps := 0, v_FillError := ''''\<rparr>)) (\<lambda>_. ret ())"

definition SetFillTotal :: "string \<Rightarrow> int \<Rightarrow> unit store_op" where
  "SetFillTotal i bytesTotal =
     seq (sql_update st_vms st_vms_update (\<lambda>v. v_ID v = i \<and> v_BytesTotal v \<noteq> bytesTotal)
       (\<lambda>v. v\<lparr>v_BytesTotal := bytesTotal\<rparr>)) (\<lambda>_. ret ())"

definition CountFillStatus :: "string \<Rightarrow> fill_status \<Rightarrow> nat store_op" where
  "CountFillStatus runID st = sql_select (\<lambda>s.
     count_where (\<lambda>v. v_FillRunID v = runID \<and> v_FillStatus v = st) (st_vms s))"

definition SetFillStatus :: "string \<Rightarrow> fill_status \<Rightarrow> unit store_op" where
  "SetFillStatus i st = seq (update_vm i (\<lambda>v. v\<lparr>v_FillStatus := st\<rparr>)) (\<lambda>_. ret ())"

definition FailFillVM :: "string \<Rightarrow> string \<Rightarrow> unit store_op" where
  "FailFillVM i msg = seq (update_vm i (\<lambda>v. v\<lparr>v_FillStatus := FillFailed, v_FillError := msg\<rparr>)) (\<lambda>_. ret ())"

definition CancelUnfinishedFills :: "string \<Rightarrow> unit store_op" where
  "CancelUnfinishedFills runID = seq (sql_update st_vms st_vms_update
     (\<lambda>v. v_FillRunID v = runID \<and> v_FillStatus v \<in> {FillPending, FillWorking})
     (\<lambda>v. v\<lparr>v_FillStatus := FillFailed, v_FillError := ''cancelled''\<rparr>)) (\<lambda>_. ret ())"

definition report_status :: "bool \<Rightarrow> string \<Rightarrow> fill_status" where
  "report_status fin errMsg = (if errMsg \<noteq> '''' then FillFailed else if fin then FillDone else FillWorking)"

definition fill_run_id :: "store \<Rightarrow> string \<Rightarrow> bool" where
  "fill_run_id s i \<longleftrightarrow> list_ex (\<lambda>r. r_ID r = i \<and> r_Type r \<in> {RunInitialFill, RunIncremental}) (st_runs s)"

text \<open>The second statement selects on \<open>runs\<close>, hence the update that reads the state.\<close>

definition ReportFillProgress :: "string \<Rightarrow> int \<Rightarrow> f64 \<Rightarrow> bool \<Rightarrow> string \<Rightarrow> unit store_op" where
  "ReportFillProgress i bytesWritten mbps fin errMsg =
     seq now (\<lambda>ts. let status = report_status fin errMsg in
     seq (update_vm i (\<lambda>v. v\<lparr>v_BytesWritten := bytesWritten, v_MBps := mbps, v_FillStatus := status,
            v_FillError := errMsg, v_AgentStatus := AgentOnline, v_AgentSeenAt := Some ts\<rparr>)) (\<lambda>_.
     if status \<noteq> FillDone then ret ()
     else seq (look (fill_run_id)) (\<lambda>is_fill.
       seq (sql_update st_vms st_vms_update (\<lambda>v. v_ID v = i \<and> is_fill (v_FillRunID v))
         (\<lambda>v. v\<lparr>v_DataState := DataFilled, v_DataRunID := v_FillRunID v, v_DataManifest := True,
               v_DataSeenAt := Some ts\<rparr>)) (\<lambda>_. ret ()))))"

section \<open>Schedules\<close>

definition insert_sched :: "schedule \<Rightarrow> unit store_op" where
  "insert_sched = sql_insert st_scheds st_scheds_update scheds_unique (\<lambda>sc s. sc_DeploymentID sc \<in> dep_ids s)"

definition CreateSchedule :: "schedule \<Rightarrow> schedule store_op" where
  "CreateSchedule sc = seq newID (\<lambda>i. seq now (\<lambda>t.
     let sc' = sc\<lparr>sc_ID := i, sc_CreatedAt := t, sc_UpdatedAt := t\<rparr> in
     seq (insert_sched (sc'\<lparr>sc_LastFiredAt := None, sc_LastRunID := '''', sc_LastResult := ''''\<rparr>)) (\<lambda>_. ret sc')))"

definition UpdateSchedule :: "schedule \<Rightarrow> unit store_op" where
  "UpdateSchedule sc = seq now (\<lambda>t. must_affect (sql_update st_scheds st_scheds_update (\<lambda>r. sc_ID r = sc_ID sc)
     (\<lambda>r. r\<lparr>sc_Action := sc_Action sc, sc_Kind := sc_Kind sc, sc_Spec := sc_Spec sc, sc_Timezone := sc_Timezone sc,
       sc_Enabled := sc_Enabled sc, sc_NextRunAt := sc_NextRunAt sc, sc_UpdatedAt := t\<rparr>)))"

definition AdvanceSchedule :: "string \<Rightarrow> string \<Rightarrow> string \<Rightarrow> int \<Rightarrow> int option \<Rightarrow> unit store_op" where
  "AdvanceSchedule i result runID firedAt nxt = seq now (\<lambda>t. must_affect
     (sql_update st_scheds st_scheds_update (\<lambda>r. sc_ID r = i)
       (\<lambda>r. r\<lparr>sc_LastFiredAt := Some firedAt, sc_LastRunID := runID, sc_LastResult := result,
         sc_NextRunAt := nxt, sc_Enabled := (nxt \<noteq> None), sc_UpdatedAt := t\<rparr>)))"

definition DeleteSchedule :: "string \<Rightarrow> unit store_op" where
  "DeleteSchedule i = must_affect (sql_delete st_scheds st_scheds_update (\<lambda>r. sc_ID r = i))"

definition GetSchedule :: "string \<Rightarrow> schedule store_op" where
  "GetSchedule i = query_row st_scheds (\<lambda>r. sc_ID r = i)"

definition ListSchedules :: "string \<Rightarrow> schedule list store_op" where
  "ListSchedules dep = sql_select (\<lambda>s.
     sort_key sc_CreatedAt (filter (\<lambda>r. sc_DeploymentID r = dep) (st_scheds s)))"

definition is_due :: "int \<Rightarrow> schedule \<Rightarrow> bool" where
  "is_due t sc = (sc_Enabled sc \<and> (case sc_NextRunAt sc of None \<Rightarrow> False | Some n \<Rightarrow> n \<le> t))"

definition ListDueSchedules :: "int \<Rightarrow> schedule list store_op" where
  "ListDueSchedules t = sql_select (\<lambda>s.
     sort_key (\<lambda>r. the (sc_NextRunAt r)) (filter (is_due t) (st_scheds s)))"

section \<open>Discovered VMs\<close>

text \<open>\<open>INSERT ... ON CONFLICT(mac) DO UPDATE\<close>: both identifiers are drawn in either case.\<close>

definition EnsureDiscoveredVM :: "string \<Rightarrow> discovered_vm store_op" where
  "EnsureDiscoveredVM mac0 = (let mac = to_lower mac0 in
     seq now (\<lambda>ts. seq newID (\<lambda>i. seq newID (\<lambda>tok.
     seq (sql (\<lambda>s. if list_ex (\<lambda>r. dv_MAC r = mac) (st_disc s)
           then (Inr (), st_disc_update (update_where (\<lambda>r. dv_MAC r = mac) (\<lambda>r. r\<lparr>dv_LastSeenAt := ts\<rparr>)) s)
           else let r = \<lparr>dv_ID = i, dv_MAC = mac, dv_Token = tok, dv_Status = DiscoveredNew, dv_Inspection = None,
                         dv_FirstSeenAt = ts, dv_LastSeenAt = ts, dv_AgentSeenAt = None\<rparr> in
             if disc_unique (st_disc s @ [r]) then (Inr (), st_disc_update (\<lambda>rows. rows @ [r]) s)
             else (Inl unique_failed, s)))
     (\<lambda>_. query_row st_disc (\<lambda>r. dv_MAC r = mac))))))"

definition GetDiscoveredVM :: "string \<Rightarrow> discovered_vm store_op" where
  "GetDiscoveredVM i = query_row st_disc (\<lambda>r. dv_ID r = i)"

definition GetDiscoveredVMByToken :: "string \<Rightarrow> discovered_vm store_op" where
  "GetDiscoveredVMByToken tok = query_row st_disc (\<lambda>r. dv_Token r = tok)"

definition ListDiscoveredVMs :: "discovered_vm list store_op" where
  "ListDiscoveredVMs = sql_select (\<lambda>s. sort_key (\<lambda>r. - dv_LastSeenAt r) (st_disc s))"

definition SetDiscoveredInspection :: "string \<Rightarrow> discovery_report \<Rightarrow> unit store_op" where
  "SetDiscoveredInspection i rep = seq now (\<lambda>ts. must_affect (sql_update st_disc st_disc_update (\<lambda>r. dv_ID r = i)
     (\<lambda>r. r\<lparr>dv_Inspection := Some rep, dv_LastSeenAt := ts, dv_AgentSeenAt := Some ts\<rparr>)))"

definition TouchDiscoveredAgent :: "string \<Rightarrow> unit store_op" where
  "TouchDiscoveredAgent i = seq now (\<lambda>ts. seq (sql_update st_disc st_disc_update (\<lambda>r. dv_ID r = i)
     (\<lambda>r. r\<lparr>dv_LastSeenAt := ts, dv_AgentSeenAt := Some ts\<rparr>)) (\<lambda>_. ret ()))"

definition SetDiscoveredStatus :: "string \<Rightarrow> discovered_status \<Rightarrow> unit store_op" where
  "SetDiscoveredStatus i st = must_affect (sql_update st_disc st_disc_update (\<lambda>r. dv_ID r = i)
     (\<lambda>r. r\<lparr>dv_Status := st\<rparr>))"

definition DeleteDiscoveredVM :: "string \<Rightarrow> unit store_op" where
  "DeleteDiscoveredVM i = seq (sql_delete st_disc st_disc_update (\<lambda>r. dv_ID r = i)) (\<lambda>_. ret ())"


section \<open>The invariant\<close>

text \<open>Reads, and the updates that touch no key column.\<close>

lemma keeps_fleet_reads [inv_intros]:
  "keeps db_wf (GetDeployment i)" "keeps db_wf ListDeployments" "keeps db_wf (HasSucceededRun i rt)"
  "keeps db_wf FilledDeploymentIDs" "keeps db_wf (GetRun i)" "keeps db_wf (ListRuns i)"
  "keeps db_wf ListRunningRuns" "keeps db_wf (ListRunSamples i)" "keeps db_wf (GetManagedVM i)"
  "keeps db_wf (GetManagedVMByToken i)" "keeps db_wf (GetManagedVMByMAC i)" "keeps db_wf (GetManagedVMByName i n)"
  "keeps db_wf (ListManagedVMs i)" "keeps db_wf (CountFillStatus i st)" "keeps db_wf (GetSchedule i)"
  "keeps db_wf (ListSchedules i)" "keeps db_wf (ListDueSchedules t)" "keeps db_wf (GetDiscoveredVM i)"
  "keeps db_wf (GetDiscoveredVMByToken i)" "keeps db_wf ListDiscoveredVMs"
  unfolding GetDeployment_def ListDeployments_def HasSucceededRun_def FilledDeploymentIDs_def GetRun_def
    ListRuns_def ListRunningRuns_def ListRunSamples_def GetManagedVM_def GetManagedVMByToken_def
    GetManagedVMByMAC_def GetManagedVMByName_def ListManagedVMs_def CountFillStatus_def GetSchedule_def
    ListSchedules_def ListDueSchedules_def GetDiscoveredVM_def GetDiscoveredVMByToken_def ListDiscoveredVMs_def
  by (intro inv_intros)+

lemma keeps_DeploymentFilled [inv_intros]: "keeps db_wf (DeploymentFilled i)"
  unfolding DeploymentFilled_def by (intro inv_intros)

lemma keeps_dep_updates [inv_intros]:
  "keeps db_wf (UpdateDeploymentSpec i spec)" "keeps db_wf (SetDeploymentStatus i st)"
  "keeps db_wf (DeleteDeploymentSchedules i)" "keeps db_wf (MarkDeploymentDeleted i)"
  unfolding UpdateDeploymentSpec_def SetDeploymentStatus_def DeleteDeploymentSchedules_def MarkDeploymentDeleted_def
  by (intro inv_intros; simp)+

lemma keeps_run_updates [inv_intros]:
  "keeps db_wf (StartRun i)" "keeps db_wf (SetRunStats i stats)" "keeps db_wf (FinishRun i st stats)"
  "keeps db_wf (SetRunTrigger i sched)"
  unfolding StartRun_def SetRunStats_def FinishRun_def SetRunTrigger_def
  by (intro inv_intros; simp)+

lemma keeps_vm_updates [inv_intros]:
  "keeps db_wf (UpdateManagedVMDisks i n g)" "keeps db_wf (TouchAgent i)" "keeps db_wf (ResetAgent i)"
  "keeps db_wf (SetVMDataState i ds r m)" "keeps db_wf (RebindManagedVM i mac ref)"
  "keeps db_wf (DeleteManagedVM i)" "keeps db_wf (AssignFill i r b)" "keeps db_wf (SetFillTotal i b)"
  "keeps db_wf (SetFillStatus i fs)" "keeps db_wf (FailFillVM i msg)" "keeps db_wf (CancelUnfinishedFills r)"
  "keeps db_wf (ReportFillProgress i b mb fin msg)"
  unfolding UpdateManagedVMDisks_def TouchAgent_def ResetAgent_def SetVMDataState_def RebindManagedVM_def
    DeleteManagedVM_def AssignFill_def SetFillTotal_def SetFillStatus_def FailFillVM_def
    CancelUnfinishedFills_def ReportFillProgress_def
  by (intro inv_intros; simp)+

lemma keeps_sched_updates [inv_intros]:
  "keeps db_wf (UpdateSchedule sc)" "keeps db_wf (AdvanceSchedule i res r t nxt)" "keeps db_wf (DeleteSchedule i)"
  unfolding UpdateSchedule_def AdvanceSchedule_def DeleteSchedule_def
  by (intro inv_intros; simp)+

lemma keeps_disc_updates [inv_intros]:
  "keeps db_wf (SetDiscoveredInspection i rep)" "keeps db_wf (TouchDiscoveredAgent i)"
  "keeps db_wf (SetDiscoveredStatus i ds)" "keeps db_wf (DeleteDiscoveredVM i)"
  unfolding SetDiscoveredInspection_def TouchDiscoveredAgent_def SetDiscoveredStatus_def DeleteDiscoveredVM_def
  by (intro inv_intros; simp)+

text \<open>Inserts.\<close>

lemma keeps_CreateDeployment [inv_intros]: "keeps db_wf (CreateDeployment d)"
  by (rule keepsI)
    (auto simp: CreateDeployment_def insert_dep_def eval_simps Let_def drawn_Suc ids_defs intro!: insert_dep_wf)

lemma keeps_CreateRun [inv_intros]: "keeps db_wf (CreateRun i rt)"
  by (rule keepsI)
    (auto simp: CreateRun_def insert_run_def eval_simps Let_def drawn_Suc ids_defs intro!: insert_run_wf)

lemma keeps_AddRunSample [inv_intros]: "keeps db_wf (AddRunSample i mb b)"
  by (rule keepsI) (auto simp: AddRunSample_def eval_simps ids_defs intro!: insert_sample_wf)

lemma keeps_AddManagedVM [inv_intros]: "keeps db_wf (AddManagedVM v)"
proof (rule keepsI)
  fix s assume wf: "db_wf s"
  let ?t = "s\<lparr>st_drawn := Suc (Suc (st_drawn s))\<rparr>"
  have t: "db_wf ?t" using wf by (simp add: db_wf_drawn)
  have "st_rand s (st_drawn s) \<in> drawn ?t" "st_rand s (Suc (st_drawn s)) \<in> drawn ?t"
    "st_rand s (Suc (st_drawn s)) \<notin> set (tokens ?t)"
    using fresh_not_token [OF wf, of "Suc (st_drawn s)"] by (auto simp: drawn_def tokens_def)
  with t show "db_wf (snd (AddManagedVM v s))"
    by (auto simp: AddManagedVM_def insert_vm_def eval_simps ids_defs intro!: insert_vm_wf)
qed

lemma keeps_CreateSchedule [inv_intros]: "keeps db_wf (CreateSchedule sc)"
  by (rule keepsI)
    (auto simp: CreateSchedule_def insert_sched_def eval_simps Let_def drawn_Suc ids_defs intro!: insert_sched_wf)

lemma keeps_EnsureDiscoveredVM [inv_intros]: "keeps db_wf (EnsureDiscoveredVM mac)"
proof (rule keepsI)
  fix s assume wf: "db_wf s"
  let ?t = "s\<lparr>st_drawn := Suc (Suc (st_drawn s))\<rparr>"
  have t: "db_wf ?t" using wf by (simp add: db_wf_drawn)
  have "st_rand s (st_drawn s) \<in> drawn ?t" "st_rand s (Suc (st_drawn s)) \<in> drawn ?t"
    "st_rand s (Suc (st_drawn s)) \<notin> set (tokens ?t)"
    using fresh_not_token [OF wf, of "Suc (st_drawn s)"] by (auto simp: drawn_def tokens_def)
  moreover have "db_wf (st_disc_update (update_where p (\<lambda>r. r\<lparr>dv_LastSeenAt := ts\<rparr>)) u)" if "db_wf u" for p ts u
    using that by (simp add: db_wf_defs unique_defs map_update_where del: set_map)
  ultimately show "db_wf (snd (EnsureDiscoveredVM mac s))"
    using t by (auto simp: EnsureDiscoveredVM_def eval_simps Let_def intro!: insert_disc_wf split: option.splits)
qed

section \<open>Reachable databases\<close>

text \<open>A step of the database is one repository operation, or the environment moving the
  clock and deciding which of the next statements fail.\<close>

inductive db_step :: "store \<Rightarrow> store \<Rightarrow> bool" where
  db_env: "db_step s (s\<lparr>st_now := t, st_faults := fs\<rparr>)"
| "db_step s (snd (CreateConnection c b s))"
| "db_step s (snd (UpdateConnection c b' s))"
| "db_step s (snd (DeleteConnection i s))"
| "db_step s (snd (CreateProfile n spec s))"
| "db_step s (snd (UpdateProfileSpec i spec s))"
| "db_step s (snd (RenameProfile i n s))"
| "db_step s (snd (DeleteProfile i s))"
| "db_step s (snd (CreateDeployment d s))"
| "db_step s (snd (UpdateDeploymentSpec i spec s))"
| "db_step s (snd (SetDeploymentStatus i st s))"
| "db_step s (snd (MarkDeploymentDeleted i s))"
| "db_step s (snd (CreateRun i rt s))"
| "db_step s (snd (StartRun i s))"
| "db_step s (snd (SetRunStats i js s))"
| "db_step s (snd (FinishRun i rs js s))"
| "db_step s (snd (SetRunTrigger i n s))"
| "db_step s (snd (AddRunSample i mb k s))"
| "db_step s (snd (AddManagedVM v s))"
| "db_step s (snd (UpdateManagedVMDisks i k k' s))"
| "db_step s (snd (TouchAgent i s))"
| "db_step s (snd (ResetAgent i s))"
| "db_step s (snd (SetVMDataState i ds n mf s))"
| "db_step s (snd (RebindManagedVM i n n' s))"
| "db_step s (snd (DeleteManagedVM i s))"
| "db_step s (snd (AssignFill i n k s))"
| "db_step s (snd (SetFillTotal i k s))"
| "db_step s (snd (SetFillStatus i fst' s))"
| "db_step s (snd (FailFillVM i n s))"
| "db_step s (snd (CancelUnfinishedFills n s))"
| "db_step s (snd (ReportFillProgress i k mb fin n s))"
| "db_step s (snd (CreateSchedule sc s))"
| "db_step s (snd (UpdateSchedule sc s))"
| "db_step s (snd (AdvanceSchedule i n n' k nxt s))"
| "db_step s (snd (DeleteSchedule i s))"
| "db_step s (snd (DeleteDeploymentSchedules i s))"
| "db_step s (snd (EnsureDiscoveredVM n s))"
| "db_step s (snd (SetDiscoveredInspection i rep s))"
| "db_step s (snd (TouchDiscoveredAgent i s))"
| "db_step s (snd (SetDiscoveredStatus i dst s))"
| "db_step s (snd (DeleteDiscoveredVM i s))"

inductive db_reachable :: "store \<Rightarrow> bool" where
  db_new: "inj rand \<Longrightarrow> db_reachable (new_store rand t fs)"
| db_next: "db_reachable s \<Longrightarrow> db_step s s' \<Longrightarrow> db_reachable s'"

lemma db_step_wf: "db_step s s' \<Longrightarrow> db_wf s \<Longrightarrow> db_wf s'"
  by (induction rule: db_step.induct)
    (simp_all add: inv_intros [THEN keepsD] keeps_dep_updates keepsD)

lemma db_reachable_wf: "db_reachable s \<Longrightarrow> db_wf s"
  by (induction rule: db_reachable.induct) (auto intro: new_store_wf db_step_wf)

text \<open>
  C19. In every database the repositories can produce from an empty one, in whatever order
  they are called and whichever statements fail on the way: names of connections, profiles
  and deployments are unique, and VM names within a deployment; every deployment has its
  connection, and every run, VM and schedule its deployment; a profile's versions are
  exactly 1 to the current one; and no two VMs, managed or discovered, share a token.
\<close>

theorem reachable_db_wf:
  assumes "db_reachable s"
  shows "keys_ok s \<and> refs_ok s \<and> versions_ok s \<and> distinct (tokens s)"
  using db_reachable_wf [OF assms] by (simp add: db_wf_def ids_ok_def)

theorem reachable_db_wf_witness:
  "distinct (tokens (snd (EnsureDiscoveredVM ''AA'' (snd (EnsureDiscoveredVM ''BB'' demo_store)))))"
proof -
  have "db_reachable (snd (EnsureDiscoveredVM ''AA'' (snd (EnsureDiscoveredVM ''BB'' demo_store))))"
    using db_new [OF inj_demo_rand] by (blast intro: db_reachable.intros db_step.intros)
  from reachable_db_wf [OF this] show ?thesis by blast
qed

section \<open>Deleting a deployment\<close>

lemma deleted_name_neq: "deleted_name d \<noteq> d_Name d"
  by (simp add: deleted_name_def)

lemma update_where_cong: "(\<And>r. r \<in> set rows \<Longrightarrow> p r = q r) \<Longrightarrow> update_where p f rows = update_where q f rows"
  by (simp add: update_where_def)

text \<open>
  Marking a deployment deleted: on success the row stays, renamed, its old name is free
  again, its schedules are gone, all other deployments, all runs and all VMs are untouched,
  and repeating the call changes nothing and reports not-found; it fails, changing nothing,
  when the deployment is missing or already deleted, or in the corner case that the
  renamed form is already taken by another deployment.
\<close>

text \<open>Renaming one row makes a name appear twice only when another row has it already.\<close>

lemma renamed_clash:
  assumes u: "deps_unique deps" and d: "d \<in> set deps" "p d" and only: "\<And>d'. d' \<in> set deps \<Longrightarrow> p d' \<Longrightarrow> d' = d"
    and f: "\<And>d. d_ID (f d) = d_ID d" and clash: "\<not> deps_unique (update_where p f deps)"
  shows "\<exists>d' \<in> set deps. d' \<noteq> d \<and> d_Name d' = d_Name (f d)"
proof (rule ccontr)
  assume no: "\<not> (\<exists>d' \<in> set deps. d' \<noteq> d \<and> d_Name d' = d_Name (f d))"
  have "distinct (map d_Name (update_where p f deps))"
    using u no only by (intro distinct_update_one [OF _ d(1)]) (auto simp: deps_unique_def)
  moreover have "map d_ID (update_where p f deps) = map d_ID deps" by (simp add: map_update_where f)
  ultimately show False using u clash by (simp add: deps_unique_def)
qed

text \<open>The old name of a renamed row is free.\<close>

lemma renamed_away:
  assumes u: "deps_unique deps" and d: "d \<in> set deps" "p d" and only: "\<And>d'. d' \<in> set deps \<Longrightarrow> p d' \<Longrightarrow> d' = d"
    and f: "d_Name (f d) \<noteq> d_Name d"
  shows "d_Name d \<notin> set (map d_Name (update_where p f deps))"
proof
  assume "d_Name d \<in> set (map d_Name (update_where p f deps))"
  then obtain r where r: "r \<in> set deps" "d_Name d = d_Name (if p r then f r else r)" by (auto simp: update_where_def)
  then have "\<not> p r" using only f by fastforce
  then have "r \<noteq> d" "d_Name r = d_Name d" using r(2) d by auto
  then show False using distinct_key_eq [of d_Name deps r d] u r(1) d(1) by (simp add: deps_unique_def)
qed

theorem mark_deleted_outcome:
  assumes wf: "db_wf s" and nf: "st_faults s = []"
  shows "case MarkDeploymentDeleted i s of
      (Inr _, t) \<Rightarrow> (\<exists>d \<in> set (st_deps s). d_ID d = i \<and> d_Status d \<noteq> DeploymentDeleted
            \<and> d_Name d \<notin> set (map d_Name (st_deps t))
            \<and> d\<lparr>d_Status := DeploymentDeleted, d_Name := deleted_name d, d_UpdatedAt := st_now s\<rparr> \<in> set (st_deps t))
        \<and> filter (\<lambda>d. d_ID d \<noteq> i) (st_deps t) = filter (\<lambda>d. d_ID d \<noteq> i) (st_deps s)
        \<and> (\<forall>sc \<in> set (st_scheds t). sc_DeploymentID sc \<noteq> i)
        \<and> st_runs t = st_runs s \<and> st_vms t = st_vms s
        \<and> MarkDeploymentDeleted i t = (Inl ErrNotFound, t)
    | (Inl e, t) \<Rightarrow> t = s \<and>
        (e = ErrNotFound \<and> (\<forall>d \<in> set (st_deps s). d_ID d = i \<longrightarrow> d_Status d = DeploymentDeleted)
         \<or> e = unique_failed \<and> (\<exists>d \<in> set (st_deps s). \<exists>d' \<in> set (st_deps s). d_ID d = i \<and> d' \<noteq> d \<and> d_Name d' = deleted_name d))"
proof -
  let ?p = "\<lambda>d. d_ID d = i \<and> d_Status d \<noteq> DeploymentDeleted"
  let ?f = "\<lambda>d. d\<lparr>d_Status := DeploymentDeleted, d_Name := deleted_name d, d_UpdatedAt := st_now s\<rparr>"
  note u = db_wfD(4) [OF wf, unfolded deps_unique_def]
  let ?deps = "update_where ?p ?f (st_deps s)"
  show ?thesis
  proof (cases "\<exists>d \<in> set (st_deps s). ?p d")
    case False
    then have id: "?deps = st_deps s" by (intro update_where_id) auto
    moreover have "count_where ?p (st_deps s) = 0" using False by (auto simp: count_where_0)
    moreover have "deps_unique (st_deps s)" by (rule db_wfD(4) [OF wf])
    ultimately show ?thesis using False nf
      by (auto simp: MarkDeploymentDeleted_def eval_simps)
  next
    case True
    then obtain d where d: "d \<in> set (st_deps s)" "?p d" by blast
    have only: "d' = d" if "d' \<in> set (st_deps s)" "d_ID d' = i" for d'
      using distinct_key_eq [of d_ID "st_deps s" d' d] u d that by simp
    have pos: "0 < count_where ?p (st_deps s)" using d by (auto simp: count_where_pos)
    show ?thesis
    proof (cases "deps_unique ?deps")
      case False
      have "\<exists>d' \<in> set (st_deps s). d' \<noteq> d \<and> d_Name d' = d_Name (?f d)"
        using only by (intro renamed_clash [where p = ?p and f = ?f, OF db_wfD(4) [OF wf] d _ _ False]) auto
      moreover have "MarkDeploymentDeleted i s = (Inl unique_failed, s)"
        using False nf by (simp add: MarkDeploymentDeleted_def eval_simps)
      ultimately show ?thesis using d by auto
    next
      case uniq: True
      have "d_Name d \<notin> set (map d_Name ?deps)"
        using only deleted_name_neq [of d] by (intro renamed_away [where p = ?p and f = ?f, OF db_wfD(4) [OF wf] d]) auto
      moreover have "?f d \<in> set ?deps" using d by (auto simp: set_update_where)
      moreover have "filter (\<lambda>d. d_ID d \<noteq> i) ?deps = filter (\<lambda>d. d_ID d \<noteq> i) (st_deps s)"
        by (rule filter_update_where) simp
      moreover have none: "\<not> ?p r" if "r \<in> set ?deps" for r using that by (rule update_where_settled [rotated]) simp
      have again: "count_where ?p ?deps = 0" "update_where ?p ?f ?deps = ?deps"
        using none by (auto simp: count_where_0 intro!: update_where_id)
      define t where "t = s\<lparr>st_deps := ?deps, st_scheds := delete_where (\<lambda>sc. sc_DeploymentID sc = i) (st_scheds s)\<rparr>"
      have "MarkDeploymentDeleted i s = (Inr (), t)"
        using uniq nf pos by (simp add: MarkDeploymentDeleted_def DeleteDeploymentSchedules_def eval_simps t_def)
      moreover have "st_deps_update (\<lambda>_. ?deps) t = t" by (simp add: t_def)
      then have "MarkDeploymentDeleted i t = (Inl ErrNotFound, t)"
        using uniq nf again by (simp add: MarkDeploymentDeleted_def eval_simps t_def)
      moreover have "\<forall>sc \<in> set (st_scheds t). sc_DeploymentID sc \<noteq> i" by (auto simp: t_def row_simps)
      moreover have "st_deps t = ?deps" "st_runs t = st_runs s" "st_vms t = st_vms s" by (simp_all add: t_def)
      ultimately show ?thesis using d by auto
    qed
  qed
qed

text \<open>A database with one connection and one deployment, for the witnesses.\<close>

definition demo_conn :: connection where
  "demo_conn = \<lparr>c_ID = '''', c_Name = ''lab'', c_Plugin = ''vsphere'', c_Endpoint = ''vc'', c_Username = ''u'',
      c_InsecureTLS = False, c_CreatedAt = 0, c_UpdatedAt = 0\<rparr>"

definition demo_dep :: deployment where
  "demo_dep = \<lparr>d_ID = '''', d_Name = ''fleet'', d_ProfileID = '''', d_ProfileVersion = 0, d_ConnectionID = demo_rand 0,
     d_Spec = sample_spec, d_Placement = [''datastore'' \<mapsto> ''ds1''], d_Status = DeploymentUnset,
     d_CreatedAt = 0, d_UpdatedAt = 0, d_Origin = OriginCreated\<rparr>"

definition fleet_store :: store where
  "fleet_store = snd (CreateDeployment demo_dep (snd (CreateConnection demo_conn ''sec'' demo_store)))"

lemma fleet_store_wf: "db_wf fleet_store"
  unfolding fleet_store_def by (intro keepsD [OF keeps_CreateDeployment] keepsD [OF keeps_CreateConnection] demo_store_wf)

lemma fleet_store_eq:
  "st_deps fleet_store = [demo_dep\<lparr>d_ID := demo_rand 1, d_Status := DeploymentNew\<rparr>]"
  "st_faults fleet_store = []" "st_scheds fleet_store = []" "st_now fleet_store = 0"
  "st_runs fleet_store = []" "st_vms fleet_store = []" "st_disc fleet_store = []"
  "st_rand fleet_store = demo_rand" "st_drawn fleet_store = 2"
  by (simp_all add: fleet_store_def CreateDeployment_def CreateConnection_def insert_dep_def eval_simps Let_def
      new_store_def unique_defs connection.defs demo_conn_def demo_dep_def conn_ids_def)

theorem mark_deleted_outcome_witness:
  "map d_Name (st_deps (snd (MarkDeploymentDeleted (demo_rand 1) fleet_store))) = [''fleet (deleted '' @ demo_rand 1 @ '')'']"
proof -
  obtain r t where m: "MarkDeploymentDeleted (demo_rand 1) fleet_store = (r, t)" by fastforce
  from mark_deleted_outcome [OF fleet_store_wf fleet_store_eq(2), of "demo_rand 1"] m
  have "r = Inr ()" by (cases r) (auto simp: fleet_store_eq)
  then show ?thesis using m
    by (auto simp: MarkDeploymentDeleted_def DeleteDeploymentSchedules_def eval_simps fleet_store_eq unique_defs
        deleted_name_def demo_dep_def split: if_splits) (simp add: demo_rand_def itoa_nat.simps)
qed

section \<open>Filled deployments\<close>

text \<open>
  The set that gates incremental and verify actions over the whole deployment list is
  the per-deployment answer: a deployment is in \<open>FilledDeploymentIDs\<close> exactly when
  \<open>DeploymentFilled\<close> says yes for it, and no ID is listed twice.
\<close>

theorem filled_ids_agree:
  assumes "st_faults s = []"
  shows "\<exists>xs. FilledDeploymentIDs s = (Inr xs, s) \<and> distinct xs
    \<and> (\<forall>dep. DeploymentFilled dep s = (Inr (dep \<in> set xs), s))"
proof -
  let ?r = "\<lambda>dep r. r_DeploymentID r = dep \<and> succeeded_fill RunInitialFill r"
  let ?u = "\<lambda>dep v. v_DeploymentID v = dep \<and> v_DataState v \<noteq> DataFilled"
  let ?xs = "remdups (map r_DeploymentID (filter (succeeded_fill RunInitialFill) (st_runs s))
      @ filter (\<lambda>dep. count_where (?u dep) (st_vms s) = 0) (map v_DeploymentID (st_vms s)))"
  have xs: "FilledDeploymentIDs s = (Inr ?xs, s)"
    using assms by (simp add: FilledDeploymentIDs_def eval_simps)
  have mem: "dep \<in> set ?xs \<longleftrightarrow> 0 < count_where (?r dep) (st_runs s)
      \<or> (\<exists>v \<in> set (st_vms s). v_DeploymentID v = dep) \<and> count_where (?u dep) (st_vms s) = 0" for dep
    by (auto simp: count_where_pos)
  have vms: "filter (\<lambda>v. v_DeploymentID v = dep) (st_vms s) \<noteq> [] \<longleftrightarrow> (\<exists>v \<in> set (st_vms s). v_DeploymentID v = dep)"
    "count_where (\<lambda>v. v_DataState v \<noteq> DataFilled) (filter (\<lambda>v. v_DeploymentID v = dep) (st_vms s))
      = count_where (?u dep) (st_vms s)" for dep
    by (auto simp: filter_empty_conv count_where_def conj_commute)
  have "DeploymentFilled dep s = (Inr (dep \<in> set ?xs), s)" for dep
    unfolding mem using assms vms [of dep]
    by (simp add: DeploymentFilled_def HasSucceededRun_def eval_simps Let_def)
  with xs show ?thesis by (intro exI [of _ ?xs]) simp
qed

theorem filled_ids_agree_witness: "fst (FilledDeploymentIDs fleet_store) \<noteq> Inl db_failed"
  using filled_ids_agree [OF fleet_store_eq(2)] by auto

section \<open>Tokens\<close>

lemma tokens_sel: "v \<in> set (st_vms s) \<Longrightarrow> v_BootToken v \<in> set (tokens s)"
  "r \<in> set (st_disc s) \<Longrightarrow> dv_Token r \<in> set (tokens s)"
  by (simp_all add: tokens_def)

text \<open>
  A boot token authenticates one VM at most and never doubles as a discovery token: the
  VM found for a token is the only one with it, and no discovery record answers to it.
\<close>

theorem token_authenticates_one:
  assumes "db_reachable s" and "GetManagedVMByToken tok s = (Inr v, s')"
  shows "v \<in> set (st_vms s) \<and> (\<forall>w \<in> set (st_vms s). v_BootToken w = tok \<longrightarrow> w = v)
    \<and> (\<exists>e. fst (GetDiscoveredVMByToken tok s) = Inl e)"
proof -
  have d: "distinct (tokens s)" by (rule db_wfD(9) [OF db_reachable_wf [OF assms(1)]])
  have f: "find (\<lambda>v. v_BootToken v = tok) (st_vms s) = Some v"
    using assms(2) by (auto simp: GetManagedVMByToken_def dest: query_row_InrD)
  note v = find_SomeD [OF f]
  have "w = v" if "w \<in> set (st_vms s)" "v_BootToken w = tok" for w
    using d v that distinct_key_eq [of v_BootToken "st_vms s" w v] by (simp add: tokens_def)
  moreover have "find (\<lambda>r. dv_Token r = tok) (st_disc s) = None"
    using d v by (auto simp: tokens_def find_None_iff)
  then have "\<exists>e. fst (GetDiscoveredVMByToken tok s) = Inl e"
    by (auto simp: GetDiscoveredVMByToken_def eval_simps)
  ultimately show ?thesis using v by blast
qed

section \<open>Discovery\<close>

text \<open>
  A booting machine that matches no managed VM gets one discovery record for its MAC,
  whatever the letter case: on first sight a new record with a token no VM and no other
  record has, later the same record with the time of the last sighting moved.
\<close>

theorem discovery_record_per_mac:
  assumes wf: "db_wf s" and nf: "st_faults s = []"
  shows "\<exists>r t. EnsureDiscoveredVM mac s = (Inr r, t)
    \<and> dv_MAC r = to_lower mac \<and> r \<in> set (st_disc t) \<and> dv_LastSeenAt r = st_now s
    \<and> (if to_lower mac \<in> set (map dv_MAC (st_disc s))
       then length (st_disc t) = length (st_disc s) \<and> (\<exists>r0 \<in> set (st_disc s). r = r0\<lparr>dv_LastSeenAt := st_now s\<rparr>)
       else st_disc t = st_disc s @ [r] \<and> dv_Status r = DiscoveredNew \<and> dv_Inspection r = None
         \<and> dv_Token r \<notin> set (tokens s))"
proof (cases "to_lower mac \<in> set (map dv_MAC (st_disc s))")
  case True
  then have ex: "list_ex (\<lambda>r. dv_MAC r = to_lower mac) (st_disc s)" by (auto simp: list_ex_iff)
  then obtain r0 where r0: "find (\<lambda>r. dv_MAC r = to_lower mac) (st_disc s) = Some r0"
    by (cases "find (\<lambda>r. dv_MAC r = to_lower mac) (st_disc s)") (auto simp: find_None_iff list_ex_iff)
  let ?f = "\<lambda>r. r\<lparr>dv_LastSeenAt := st_now s\<rparr>"
  have "find (\<lambda>r. dv_MAC r = to_lower mac) (update_where (\<lambda>r. dv_MAC r = to_lower mac) ?f (st_disc s)) = Some (?f r0)"
    by (subst find_update_where_key) (simp_all add: r0)
  moreover have "?f r0 \<in> set (update_where (\<lambda>r. dv_MAC r = to_lower mac) ?f (st_disc s))"
    using find_SomeD [OF r0] by (auto simp: set_update_where)
  ultimately show ?thesis using ex nf find_SomeD [OF r0] True
    by (auto simp: EnsureDiscoveredVM_def eval_simps Let_def)
next
  case False
  let ?i = "st_rand s (st_drawn s)" and ?tok = "st_rand s (Suc (st_drawn s))"
  let ?r = "\<lparr>dv_ID = ?i, dv_MAC = to_lower mac, dv_Token = ?tok, dv_Status = DiscoveredNew,
    dv_Inspection = None, dv_FirstSeenAt = st_now s, dv_LastSeenAt = st_now s, dv_AgentSeenAt = None\<rparr>"
  have "\<not> list_ex (\<lambda>r. dv_MAC r = to_lower mac) (st_disc s)"
    using False unfolding list_ex_iff by (metis key_in_rows)
  moreover have "?i \<notin> set (map dv_ID (st_disc s))" using fresh_ids [OF wf] by (simp add: all_ids_def)
  then have "disc_unique (st_disc s @ [?r])" using db_wfD(8) [OF wf] False by (simp add: disc_unique_def)
  moreover have "find (\<lambda>r. dv_MAC r = to_lower mac) (st_disc s @ [?r]) = Some ?r"
    using find_key_None [OF False] by (simp add: find_append)
  moreover have "?tok \<notin> set (tokens s)" by (rule fresh_not_token [OF wf]) simp
  ultimately show ?thesis using nf False
    by (auto simp: EnsureDiscoveredVM_def eval_simps Let_def)
qed

theorem discovery_record_per_mac_witness:
  "dv_MAC (hd (st_disc (snd (EnsureDiscoveredVM ''AB'' fleet_store)))) = to_lower ''AB''"
  using discovery_record_per_mac [OF fleet_store_wf fleet_store_eq(2), of "''AB''"]
  by (auto simp: fleet_store_eq)

text \<open>The same database with one VM recorded.\<close>

definition demo_vm :: managed_vm where
  "demo_vm = \<lparr>v_ID = '''', v_DeploymentID = demo_rand 1, v_Name = ''gf-0001'', v_Ref = ''vm-1'', v_DiskCount = 2,
     v_DiskSizeGiB = 10, v_MAC = ''00:50'', v_BootToken = '''', v_AgentStatus = AgentUnset, v_AgentSeenAt = None,
     v_DataState = DataUnknown, v_DataRunID = '''', v_DataManifest = False, v_DataSeenAt = None,
     v_FillRunID = '''', v_FillStatus = FillUnset, v_BytesWritten = 0, v_BytesTotal = 0, v_MBps = 0,
     v_FillError = '''', v_CreatedAt = 0\<rparr>"

definition vm_store :: store where
  "vm_store = snd (AddManagedVM demo_vm fleet_store)"

lemma vm_store_eq:
  "st_vms vm_store = [demo_vm\<lparr>v_ID := demo_rand 2, v_MAC := to_lower ''00:50'', v_BootToken := demo_rand 3,
     v_AgentStatus := AgentNone\<rparr>]"
  "st_faults vm_store = []" "st_runs vm_store = []" "st_now vm_store = 0" "st_drawn vm_store = 4"
  "st_rand vm_store = demo_rand" "st_scheds vm_store = []" "st_disc vm_store = []"
  "st_deps vm_store = st_deps fleet_store"
  by (simp_all add: vm_store_def AddManagedVM_def insert_vm_def eval_simps fleet_store_eq demo_vm_def dep_ids_def
      unique_defs numeral_eq_Suc)

lemma fleet_store_reachable: "db_reachable fleet_store"
  unfolding fleet_store_def using db_new [OF inj_demo_rand] by (blast intro: db_reachable.intros db_step.intros)

lemma vm_store_reachable: "db_reachable vm_store"
  unfolding vm_store_def using fleet_store_reachable by (blast intro: db_reachable.intros db_step.intros)

theorem token_authenticates_one_witness:
  "\<exists>v. GetManagedVMByToken (demo_rand 3) vm_store = (Inr v, vm_store)
     \<and> (\<forall>w \<in> set (st_vms vm_store). v_BootToken w = demo_rand 3 \<longrightarrow> w = v)"
proof -
  have "\<exists>v. GetManagedVMByToken (demo_rand 3) vm_store = (Inr v, vm_store)"
    by (simp add: GetManagedVMByToken_def eval_simps vm_store_eq)
  then show ?thesis using token_authenticates_one [OF vm_store_reachable] by metis
qed

end
