(* ===== verification/Hypervisor.thy ===== *)
theory Hypervisor
  imports Prog
begin

text \<open>
  \<open>internal/hypervisor/hypervisor.go\<close>: the platform-neutral driver interface. A driver is the
  record of its methods over the platform's state \<open>'h\<close>; the \<open>context\<close> argument of the Go
  methods is part of that state (a cancelled call is one that returns an error). The locale
  \<open>hypervisor_contract\<close> holds what the interface's comments promise to its callers. A deletion
  that fails may have stopped the VM; whose a created VM is, the comments do not promise.
\<close>

section \<open>The interface\<close>

datatype vm_state = StatePoweredOn | StatePoweredOff

record disk_spec =
  ds_SizeGiB :: int
  ds_Thin :: bool

record vm_spec =
  vs_Name :: string
  vs_VCPUs :: int
  vs_MemoryMiB :: int
  vs_Disks :: "disk_spec list"
  vs_Tag :: string
  vs_DeploymentID :: string
  vs_DeploymentName :: string
  vs_Placement :: placement

record hv_vm =
  h_Ref :: string
  h_Name :: string
  h_State :: vm_state
  h_DiskCount :: int
  h_MAC :: string
  h_OwnerID :: string
  h_OwnerName :: string

text \<open>What connection validation and the placement picker show.\<close>

record hv_info =
  in_Product :: string
  in_Version :: string

record host_option =
  ho_Name :: string
  ho_Cluster :: string

record datastore_option =
  do_Name :: string
  do_FreeBytes :: int
  do_CapacityBytes :: int

record placement_options =
  po_Datacenters :: "string list"
  po_Clusters :: "string list"
  po_Hosts :: "host_option list"
  po_ResourcePools :: "string list"
  po_Datastores :: "datastore_option list"
  po_Networks :: "string list"
  po_Folders :: "string list"

record 'h driver =
  Info :: "('h, hv_info) prog"
  ListPlacement :: "('h, placement_options) prog"
  CreateVM :: "vm_spec \<Rightarrow> ('h, string) prog"
  AddDisks :: "string \<Rightarrow> disk_spec list \<Rightarrow> ('h, unit) prog"
  ExtendDisks :: "string \<Rightarrow> int \<Rightarrow> ('h, unit) prog"
  GetVM :: "string \<Rightarrow> ('h, hv_vm option) prog"
  FindVMs :: "placement \<Rightarrow> string list \<Rightarrow> ('h, hv_vm list) prog"
  FindVMByMAC :: "string \<Rightarrow> ('h, hv_vm option) prog"
  PowerOn :: "string \<Rightarrow> ('h, unit) prog"
  PowerOff :: "string \<Rightarrow> ('h, unit) prog"
  ReadConsole :: "string \<Rightarrow> ('h, string) prog"
  DeleteVM :: "string \<Rightarrow> ('h, unit) prog"

type_synonym 'h factory = "connection \<Rightarrow> string \<Rightarrow> ('h, 'h driver) prog"
type_synonym 'h registry = "string \<rightharpoonup> 'h factory"

text \<open>\<open>Registry.Open\<close>\<close>

definition registry_Open :: "'h registry \<Rightarrow> connection \<Rightarrow> string \<Rightarrow> ('h, 'h driver) prog" where
  "registry_Open reg conn secret = (case reg (c_Plugin conn) of
      None \<Rightarrow> fail (ErrOther (''unknown hypervisor plugin '' @ go_quote (c_Plugin conn)))
    | Some f \<Rightarrow> f conn secret)"

section \<open>The contract\<close>

text \<open>An inventory maps references to VMs. \<open>same_vm\<close>: power state and disks aside, a VM is
  still the one it was.\<close>

type_synonym inventory = "string \<rightharpoonup> hv_vm"

definition same_vm :: "hv_vm option \<Rightarrow> hv_vm option \<Rightarrow> bool" where
  "same_vm a b = (case (a, b) of
      (None, None) \<Rightarrow> True
    | (Some v, Some w) \<Rightarrow> h_Ref v = h_Ref w \<and> h_Name v = h_Name w \<and> h_MAC v = h_MAC w
        \<and> h_OwnerID v = h_OwnerID w \<and> h_OwnerName v = h_OwnerName w
    | _ \<Rightarrow> False)"

lemma same_vm_refl [simp]: "same_vm a a"
  by (cases a) (simp_all add: same_vm_def)

lemma same_vm_None [simp]: "same_vm None b \<longleftrightarrow> b = None"
  by (cases b) (simp_all add: same_vm_def)

lemma same_vm_trans: "same_vm a b \<Longrightarrow> same_vm b c \<Longrightarrow> same_vm a c"
  by (auto simp: same_vm_def split: option.splits)

text \<open>Only the VM behind \<open>ref\<close> may differ.\<close>

definition only_at :: "string \<Rightarrow> inventory \<Rightarrow> inventory \<Rightarrow> bool" where
  "only_at ref i j \<longleftrightarrow> (\<forall>r. r \<noteq> ref \<longrightarrow> j r = i r)"

locale hypervisor_contract =
  fixes drv :: "'h driver" and ok :: "'h \<Rightarrow> bool" and inv :: "'h \<Rightarrow> inventory"
  assumes GetVM_law: "\<And>h ref r h'. ok h \<Longrightarrow> GetVM drv ref h = (r, h') \<Longrightarrow>
      ok h' \<and> inv h' = inv h \<and> (\<forall>v. r = Inr v \<longrightarrow> v = inv h ref)"
    and FindVMs_law: "\<And>h p names r h'. ok h \<Longrightarrow> FindVMs drv p names h = (r, h') \<Longrightarrow>
      ok h' \<and> inv h' = inv h
      \<and> (\<forall>vs. r = Inr vs \<longrightarrow> (\<forall>v \<in> set vs. h_Name v \<in> set names
           \<and> (\<exists>w. inv h (h_Ref v) = Some w \<and> h_Name w = h_Name v \<and> h_OwnerID w = h_OwnerID v)))"
    and FindVMByMAC_law: "\<And>h mac r h'. ok h \<Longrightarrow> FindVMByMAC drv mac h = (r, h') \<Longrightarrow>
      ok h' \<and> inv h' = inv h \<and> (\<forall>v. r = Inr (Some v) \<longrightarrow> inv h (h_Ref v) = Some v)"
    and CreateVM_law: "\<And>h spec r h'. ok h \<Longrightarrow> CreateVM drv spec h = (r, h') \<Longrightarrow>
      ok h' \<and> (\<forall>q. inv h' q \<noteq> inv h q \<longrightarrow> (case inv h q of None \<Rightarrow> True | Some w \<Rightarrow> h_Name w = vs_Name spec))
      \<and> (\<forall>ref. r = Inr ref \<longrightarrow> (\<exists>v. inv h' ref = Some v \<and> h_Name v = vs_Name spec) \<and> only_at ref (inv h) (inv h'))"
    and DeleteVM_law: "\<And>h ref r h'. ok h \<Longrightarrow> DeleteVM drv ref h = (r, h') \<Longrightarrow>
      ok h' \<and> only_at ref (inv h) (inv h') \<and> (inv h' ref = None \<or> same_vm (inv h ref) (inv h' ref))
      \<and> (r = Inr () \<longrightarrow> inv h' ref = None)"
    and AddDisks_law: "\<And>h ref ds r h'. ok h \<Longrightarrow> AddDisks drv ref ds h = (r, h') \<Longrightarrow>
      ok h' \<and> only_at ref (inv h) (inv h') \<and> same_vm (inv h ref) (inv h' ref)"
    and ExtendDisks_law: "\<And>h ref g r h'. ok h \<Longrightarrow> ExtendDisks drv ref g h = (r, h') \<Longrightarrow>
      ok h' \<and> only_at ref (inv h) (inv h') \<and> same_vm (inv h ref) (inv h' ref)"
    and PowerOn_law: "\<And>h ref r h'. ok h \<Longrightarrow> PowerOn drv ref h = (r, h') \<Longrightarrow>
      ok h' \<and> only_at ref (inv h) (inv h') \<and> same_vm (inv h ref) (inv h' ref)
      \<and> (r = Inr () \<longrightarrow> (\<exists>v. inv h' ref = Some v \<and> h_State v = StatePoweredOn))"
    and PowerOff_law: "\<And>h ref r h'. ok h \<Longrightarrow> PowerOff drv ref h = (r, h') \<Longrightarrow>
      ok h' \<and> only_at ref (inv h) (inv h') \<and> same_vm (inv h ref) (inv h' ref)
      \<and> (r = Inr () \<longrightarrow> (\<exists>v. inv h' ref = Some v \<and> h_State v = StatePoweredOff))"

text \<open>A platform on which hard-stopping a VM that exists succeeds.\<close>

locale reliable_hypervisor = hypervisor_contract drv ok inv
  for drv :: "'h driver" and ok :: "'h \<Rightarrow> bool" and inv :: "'h \<Rightarrow> inventory" +
  assumes PowerOff_succeeds: "\<And>h ref. ok h \<Longrightarrow> inv h ref \<noteq> None \<Longrightarrow> fst (PowerOff drv ref h) = Inr ()"

lemma only_at_refl [simp]: "only_at ref i i"
  by (simp add: only_at_def)

lemma only_at_trans: "only_at ref i j \<Longrightarrow> only_at ref j k \<Longrightarrow> only_at ref i k"
  by (simp add: only_at_def)

lemma only_atD: "only_at ref i j \<Longrightarrow> r \<noteq> ref \<Longrightarrow> j r = i r"
  by (simp add: only_at_def)

end
