(* ===== verification/FakeDriver.thy ===== *)
theory FakeDriver
  imports Hypervisor
begin

text \<open>
  \<open>internal/hypervisor/fake/fake.go\<close>: the in-memory driver. The map of VMs is an association
  list whose order stands for the order in which Go happens to range over the map. The
  driver is shown to satisfy the hypervisor contract.
\<close>

section \<open>State\<close>

record fake_vm =
  fk_vm :: hv_vm
  fk_disks :: "disk_spec list"
  fk_tag :: string
  fk_placement :: placement
  fk_ownerID :: string
  fk_ownerName :: string

record fake =
  fk_nextID :: nat
  fk_vms :: "(string \<times> fake_vm) list"
  fk_FailCreates :: nat
  fk_powerOps :: "string list"

definition New :: fake where
  "New = \<lparr>fk_nextID = 0, fk_vms = [], fk_FailCreates = 0, fk_powerOps = []\<rparr>"

definition fake_ref :: "nat \<Rightarrow> string" where
  "fake_ref n = ''fake-vm-'' @ itoa_nat n"

text \<open>\<open>%02x\<close> of the low byte\<close>

definition fake_mac :: "nat \<Rightarrow> string" where
  "fake_mac n = ''00:50:56:fa:ke:'' @ [hex_digit (n mod 256 div 16), hex_digit (n mod 16)]"

section \<open>Methods\<close>

text \<open>Writing through the pointer \<open>r\<close> of an entry of the map.\<close>

definition fake_set :: "string \<Rightarrow> (fake_vm \<Rightarrow> fake_vm) \<Rightarrow> fake \<Rightarrow> fake" where
  "fake_set ref f d = d\<lparr>fk_vms := update_where (\<lambda>e. fst e = ref) (apsnd f) (fk_vms d)\<rparr>"

definition no_vm :: "string \<Rightarrow> go_error" where
  "no_vm ref = ErrOther (''fake: no vm '' @ go_quote ref)"

definition fake_CreateVM :: "vm_spec \<Rightarrow> (fake, string) prog" where
  "fake_CreateVM spec d =
     (if fk_FailCreates d > 0
      then (Inl (ErrOther ''fake: injected create failure''), d\<lparr>fk_FailCreates := fk_FailCreates d - 1\<rparr>)
      else case find (\<lambda>(ref, r). h_Name (fk_vm r) = vs_Name spec) (fk_vms d) of
        Some (ref, _) \<Rightarrow>
          (Inr ref, fake_set ref (\<lambda>r. r\<lparr>fk_ownerID := vs_DeploymentID spec, fk_ownerName := vs_DeploymentName spec\<rparr>) d)
      | None \<Rightarrow>
          (let n = Suc (fk_nextID d); ref = fake_ref n in
           (Inr ref, d\<lparr>fk_nextID := n, fk_vms := fk_vms d @ [(ref,
              \<lparr>fk_vm = \<lparr>h_Ref = ref, h_Name = vs_Name spec, h_State = StatePoweredOff,
                 h_DiskCount = int (length (vs_Disks spec)), h_MAC = fake_mac n, h_OwnerID = '''', h_OwnerName = ''''\<rparr>,
               fk_disks = vs_Disks spec, fk_tag = vs_Tag spec, fk_placement = vs_Placement spec,
               fk_ownerID = vs_DeploymentID spec, fk_ownerName = vs_DeploymentName spec\<rparr>)]\<rparr>)))"

text \<open>A method that looks its VM up first.\<close>

definition with_vm :: "string \<Rightarrow> (fake_vm \<Rightarrow> fake \<Rightarrow> fake) \<Rightarrow> (fake, unit) prog" where
  "with_vm ref f d = (case map_of (fk_vms d) ref of
      None \<Rightarrow> (Inl (no_vm ref), d)
    | Some r \<Rightarrow> (Inr (), f r d))"

definition fake_AddDisks :: "string \<Rightarrow> disk_spec list \<Rightarrow> (fake, unit) prog" where
  "fake_AddDisks ref disks = with_vm ref (\<lambda>_. fake_set ref (\<lambda>r. let ds = fk_disks r @ disks in
     r\<lparr>fk_disks := ds, fk_vm := (fk_vm r)\<lparr>h_DiskCount := int (length ds)\<rparr>\<rparr>))"

definition fake_ExtendDisks :: "string \<Rightarrow> int \<Rightarrow> (fake, unit) prog" where
  "fake_ExtendDisks ref sizeGiB = with_vm ref (\<lambda>_. fake_set ref (\<lambda>r.
     r\<lparr>fk_disks := map (\<lambda>k. if ds_SizeGiB k < sizeGiB then k\<lparr>ds_SizeGiB := sizeGiB\<rparr> else k) (fk_disks r)\<rparr>))"

definition owned :: "fake_vm \<Rightarrow> hv_vm" where
  "owned r = (fk_vm r)\<lparr>h_OwnerID := fk_ownerID r, h_OwnerName := fk_ownerName r\<rparr>"

definition fake_GetVM :: "string \<Rightarrow> (fake, hv_vm option) prog" where
  "fake_GetVM ref = look (\<lambda>d. map_option owned (map_of (fk_vms d) ref))"

text \<open>\<open>FindVMs\<close> fills in only reference, name and owner.\<close>

definition fake_FindVMs :: "placement \<Rightarrow> string list \<Rightarrow> (fake, hv_vm list) prog" where
  "fake_FindVMs p names = look (\<lambda>d.
     map (\<lambda>(_, r). \<lparr>h_Ref = h_Ref (fk_vm r), h_Name = h_Name (fk_vm r), h_State = StatePoweredOff,
         h_DiskCount = 0, h_MAC = '''', h_OwnerID = fk_ownerID r, h_OwnerName = fk_ownerName r\<rparr>)
       (filter (\<lambda>(_, r). h_Name (fk_vm r) \<in> set names) (fk_vms d)))"

definition fake_FindVMByMAC :: "string \<Rightarrow> (fake, hv_vm option) prog" where
  "fake_FindVMByMAC mac = look (\<lambda>d.
     map_option (owned \<circ> snd) (find (\<lambda>(_, r). h_MAC (fk_vm r) = mac) (fk_vms d)))"

definition fake_ReadConsole :: "string \<Rightarrow> (fake, string) prog" where
  "fake_ReadConsole ref = look (\<lambda>d. case map_of (fk_vms d) ref of None \<Rightarrow> ''''
     | Some _ \<Rightarrow> ''[fake] console output is only available on real hypervisors'' @ [CHR 0x0A])"

definition setState :: "string \<Rightarrow> string \<Rightarrow> vm_state \<Rightarrow> (fake, unit) prog" where
  "setState ref op st = with_vm ref (\<lambda>r d.
     (fake_set ref (\<lambda>r. r\<lparr>fk_vm := (fk_vm r)\<lparr>h_State := st\<rparr>\<rparr>) d)
       \<lparr>fk_powerOps := fk_powerOps d @ [op @ '':'' @ h_Name (fk_vm r)]\<rparr>)"

definition fake_PowerOn :: "string \<Rightarrow> (fake, unit) prog" where
  "fake_PowerOn ref = setState ref ''on'' StatePoweredOn"

definition fake_PowerOff :: "string \<Rightarrow> (fake, unit) prog" where
  "fake_PowerOff ref = setState ref ''off'' StatePoweredOff"

definition fake_DeleteVM :: "string \<Rightarrow> (fake, unit) prog" where
  "fake_DeleteVM ref = change (\<lambda>d. d\<lparr>fk_vms := delete_where (\<lambda>e. fst e = ref) (fk_vms d)\<rparr>)"

definition AddRawVM :: "string \<Rightarrow> string \<Rightarrow> nat \<Rightarrow> (fake, string) prog" where
  "AddRawVM name mac diskCount d = (let n = Suc (fk_nextID d); ref = fake_ref n in
     (Inr ref, d\<lparr>fk_nextID := n, fk_vms := fk_vms d @ [(ref,
        \<lparr>fk_vm = \<lparr>h_Ref = ref, h_Name = name, h_State = StatePoweredOff, h_DiskCount = int diskCount,
           h_MAC = mac, h_OwnerID = '''', h_OwnerName = ''''\<rparr>,
         fk_disks = replicate diskCount \<lparr>ds_SizeGiB = 0, ds_Thin = False\<rparr>, fk_tag = '''',
         fk_placement = Map.empty, fk_ownerID = '''', fk_ownerName = ''''\<rparr>)]\<rparr>))"

definition fake_Info :: "(fake, hv_info) prog" where
  "fake_Info = ret \<lparr>in_Product = ''FakeVisor'', in_Version = ''1.0''\<rparr>"

definition fake_ListPlacement :: "(fake, placement_options) prog" where
  "fake_ListPlacement = ret \<lparr>po_Datacenters = [''DC0''], po_Clusters = [''C0''],
     po_Hosts = [\<lparr>ho_Name = ''esx-01.lab'', ho_Cluster = ''C0''\<rparr>],
     po_ResourcePools = [''/DC0/host/C0/Resources/ghostfleet''],
     po_Datastores = [\<lparr>do_Name = ''LocalDS_0'', do_FreeBytes = 500 * 2 ^ 30, do_CapacityBytes = 2 ^ 40\<rparr>],
     po_Networks = [''VM Network'', ''isolated''], po_Folders = []\<rparr>"

definition fake_driver :: "fake driver" where
  "fake_driver = \<lparr>Info = fake_Info, ListPlacement = fake_ListPlacement, CreateVM = fake_CreateVM, AddDisks = fake_AddDisks, ExtendDisks = fake_ExtendDisks,
     GetVM = fake_GetVM, FindVMs = fake_FindVMs, FindVMByMAC = fake_FindVMByMAC, PowerOn = fake_PowerOn,
     PowerOff = fake_PowerOff, ReadConsole = fake_ReadConsole, DeleteVM = fake_DeleteVM\<rparr>"

section \<open>The contract holds\<close>

text \<open>References are distinct, are those the VMs carry, and are below the counter.\<close>

definition fake_ok :: "fake \<Rightarrow> bool" where
  "fake_ok d \<longleftrightarrow> distinct (map fst (fk_vms d))
     \<and> (\<forall>(ref, r) \<in> set (fk_vms d). h_Ref (fk_vm r) = ref \<and> (\<exists>n \<le> fk_nextID d. ref = fake_ref n))"

lemma fake_ok_code [code]: "fake_ok d \<longleftrightarrow> distinct (map fst (fk_vms d))
     \<and> (\<forall>(ref, r) \<in> set (fk_vms d). h_Ref (fk_vm r) = ref \<and> (\<exists>n \<in> set [0..<Suc (fk_nextID d)]. ref = fake_ref n))"
  by (simp add: fake_ok_def less_Suc_eq_le Bex_def del: upt_Suc)

definition fake_inv :: "fake \<Rightarrow> inventory" where
  "fake_inv d ref = map_option owned (map_of (fk_vms d) ref)"

lemma fake_ref_inj: "fake_ref m = fake_ref n \<Longrightarrow> m = n"
  by (simp add: fake_ref_def itoa_nat_inj)

lemma map_of_update: "map_of (update_where (\<lambda>e. fst e = ref) (apsnd f) xs) q
    = (if q = ref then map_option f (map_of xs q) else map_of xs q)"
  by (induction xs) auto

lemma map_of_delete: "map_of (delete_where (\<lambda>e. fst e = ref) xs) q = (if q = ref then None else map_of xs q)"
  by (induction xs) (auto simp: delete_where_def)

lemma fake_ok_set:
  assumes "fake_ok d" and "\<And>r. h_Ref (fk_vm (f r)) = h_Ref (fk_vm r)"
  shows "fake_ok (fake_set ref f d)"
  using assms by (auto simp: fake_ok_def fake_set_def map_update_where set_update_where)

lemma fake_inv_set: "fake_inv (fake_set ref f d) q
    = (if q = ref then map_option (owned \<circ> f) (map_of (fk_vms d) q) else fake_inv d q)"
  by (simp add: fake_inv_def fake_set_def map_of_update option.map_comp)

lemma fake_ok_keep [simp]: "fake_ok (d\<lparr>fk_FailCreates := n\<rparr>) = fake_ok d" "fake_ok (d\<lparr>fk_powerOps := ops\<rparr>) = fake_ok d"
  by (simp_all add: fake_ok_def)

lemma fake_inv_keep [simp]: "fake_inv (d\<lparr>fk_FailCreates := n\<rparr>) = fake_inv d" "fake_inv (d\<lparr>fk_powerOps := ops\<rparr>) = fake_inv d"
  by (simp_all add: fake_inv_def fun_eq_iff)

lemma fake_mem:
  assumes "fake_ok d" "(ref, r) \<in> set (fk_vms d)"
  shows "map_of (fk_vms d) ref = Some r" "fake_inv d ref = Some (owned r)" "h_Ref (fk_vm r) = ref"
  using assms by (auto simp: fake_ok_def fake_inv_def)

lemma fake_new_ref:
  assumes ok: "fake_ok d"
  shows "fake_ref (Suc (fk_nextID d)) \<notin> fst ` set (fk_vms d)"
proof
  assume "fake_ref (Suc (fk_nextID d)) \<in> fst ` set (fk_vms d)"
  then obtain n where "n \<le> fk_nextID d" "fake_ref (Suc (fk_nextID d)) = fake_ref n"
    using ok unfolding fake_ok_def by fastforce
  then show False by (auto dest: fake_ref_inj)
qed

lemma fake_fresh: "fake_ok d \<Longrightarrow> fake_inv d (fake_ref (Suc (fk_nextID d))) = None"
  using fake_new_ref by (simp add: fake_inv_def map_of_eq_None_iff)

lemma fake_append:
  assumes ok: "fake_ok d" and r: "h_Ref (fk_vm r) = fake_ref (Suc (fk_nextID d))"
  shows "fake_ok (d\<lparr>fk_nextID := Suc (fk_nextID d), fk_vms := fk_vms d @ [(fake_ref (Suc (fk_nextID d)), r)]\<rparr>)"
    and "fake_inv (d\<lparr>fk_nextID := Suc (fk_nextID d), fk_vms := fk_vms d @ [(fake_ref (Suc (fk_nextID d)), r)]\<rparr>)
      = (fake_inv d)(fake_ref (Suc (fk_nextID d)) \<mapsto> owned r)"
proof -
  show "fake_ok (d\<lparr>fk_nextID := Suc (fk_nextID d), fk_vms := fk_vms d @ [(fake_ref (Suc (fk_nextID d)), r)]\<rparr>)"
    using ok r fake_new_ref [OF ok] by (auto simp: fake_ok_def le_Suc_eq)
  have "map_of (fk_vms d) (fake_ref (Suc (fk_nextID d))) = None"
    using fake_new_ref [OF ok] by (simp add: map_of_eq_None_iff)
  then show "fake_inv (d\<lparr>fk_nextID := Suc (fk_nextID d), fk_vms := fk_vms d @ [(fake_ref (Suc (fk_nextID d)), r)]\<rparr>)
      = (fake_inv d)(fake_ref (Suc (fk_nextID d)) \<mapsto> owned r)"
    by (auto simp: fake_inv_def fun_eq_iff map_add_def split: option.splits)
qed

lemma fake_AddRawVM_ok: "fake_ok d \<Longrightarrow> fake_ok (snd (AddRawVM name mac n d))"
  unfolding AddRawVM_def Let_def snd_conv by (rule fake_append) simp_all

lemma fake_New_ok: "fake_ok New"
  by (simp add: fake_ok_def New_def)

lemma fake_CreateVM_cases:
  assumes ok: "fake_ok d" and run: "fake_CreateVM spec d = (r, d')"
  obtains (injected) e where "r = Inl e" "fake_ok d'" "fake_inv d' = fake_inv d"
    | (made) ref where "r = Inr ref" "fake_ok d'" "only_at ref (fake_inv d) (fake_inv d')"
        "\<exists>v. fake_inv d' ref = Some v \<and> h_Name v = vs_Name spec \<and> h_OwnerID v = vs_DeploymentID spec"
        "case fake_inv d ref of None \<Rightarrow> True | Some w \<Rightarrow> h_Name w = vs_Name spec"
proof (cases "fk_FailCreates d > 0")
  case True
  then show thesis using run ok by (intro injected) (auto simp: fake_CreateVM_def)
next
  case False
  show thesis
  proof (cases "find (\<lambda>(ref, r). h_Name (fk_vm r) = vs_Name spec) (fk_vms d)")
    case None
    then show thesis using run ok False fake_fresh [OF ok]
      by (intro made [of "fake_ref (Suc (fk_nextID d))"])
        (auto simp: fake_CreateVM_def Let_def fake_append [OF ok] only_at_def owned_def)
  next
    case (Some p)
    then obtain ref v where p: "p = (ref, v)" "(ref, v) \<in> set (fk_vms d)" "h_Name (fk_vm v) = vs_Name spec"
      by (cases p) (auto dest: find_SomeD)
    let ?f = "\<lambda>r. r\<lparr>fk_ownerID := vs_DeploymentID spec, fk_ownerName := vs_DeploymentName spec\<rparr>"
    have d': "r = Inr ref" "d' = fake_set ref ?f d" using run Some p(1) False by (auto simp: fake_CreateVM_def)
    show thesis
    proof (rule made [OF d'(1)])
      show "fake_ok d'" unfolding d' by (rule fake_ok_set [OF ok]) simp
      show "only_at ref (fake_inv d) (fake_inv d')" by (simp add: d' only_at_def fake_inv_set)
      show "\<exists>v. fake_inv d' ref = Some v \<and> h_Name v = vs_Name spec \<and> h_OwnerID v = vs_DeploymentID spec"
        using fake_mem [OF ok p(2)] p(3) by (simp add: d' fake_inv_set owned_def)
      show "case fake_inv d ref of None \<Rightarrow> True | Some w \<Rightarrow> h_Name w = vs_Name spec"
        using fake_mem [OF ok p(2)] p(3) by (simp add: owned_def)
    qed
  qed
qed

lemma with_vm_set:
  assumes ok: "fake_ok d" and run: "with_vm ref (\<lambda>_. fake_set ref f) d = (r, d')"
    and f: "\<And>v. h_Ref (fk_vm (f v)) = h_Ref (fk_vm v)"
      "\<And>v. same_vm (Some (owned v)) (Some (owned (f v)))"
  shows "fake_ok d' \<and> only_at ref (fake_inv d) (fake_inv d') \<and> same_vm (fake_inv d ref) (fake_inv d' ref)"
proof (cases "map_of (fk_vms d) ref")
  case None
  then show ?thesis using run ok by (auto simp: with_vm_def)
next
  case (Some v)
  then have "d' = fake_set ref f d" using run by (simp add: with_vm_def)
  then show ?thesis using ok f Some fake_ok_set [OF ok f(1)]
    by (simp add: only_at_def fake_inv_set) (simp add: fake_inv_def)
qed

lemma setState_law:
  assumes ok: "fake_ok d" and run: "setState ref op st d = (r, d')"
  shows "fake_ok d' \<and> only_at ref (fake_inv d) (fake_inv d') \<and> same_vm (fake_inv d ref) (fake_inv d' ref)
    \<and> (r = Inr () \<longrightarrow> (\<exists>v. fake_inv d' ref = Some v \<and> h_State v = st))"
proof (cases "map_of (fk_vms d) ref")
  case None
  then show ?thesis using run ok by (auto simp: setState_def with_vm_def)
next
  case (Some v)
  let ?f = "\<lambda>r. r\<lparr>fk_vm := (fk_vm r)\<lparr>h_State := st\<rparr>\<rparr>"
  have "d' = (fake_set ref ?f d)\<lparr>fk_powerOps := fk_powerOps d @ [op @ '':'' @ h_Name (fk_vm v)]\<rparr>"
    using run Some by (simp add: setState_def with_vm_def)
  then show ?thesis using Some fake_ok_set [OF ok, of ?f ref]
    by (simp add: only_at_def fake_inv_set) (simp add: fake_inv_def same_vm_def owned_def)
qed

interpretation fk: hypervisor_contract fake_driver fake_ok fake_inv
proof
  show "fake_ok h' \<and> fake_inv h' = fake_inv h \<and> (\<forall>v. r = Inr v \<longrightarrow> v = fake_inv h ref)"
    if "fake_ok h" "GetVM fake_driver ref h = (r, h')" for h ref r h'
    using that by (auto simp: fake_driver_def fake_GetVM_def look_def fake_inv_def)
next
  fix h p names r h' assume ok: "fake_ok h" and run: "FindVMs fake_driver p names h = (r, h')"
  have "(h_Name v \<in> set names \<and> (\<exists>w. fake_inv h (h_Ref v) = Some w \<and> h_Name w = h_Name v \<and> h_OwnerID w = h_OwnerID v))"
    if vs: "r = Inr vs" "v \<in> set vs" for vs v
  proof -
    from run vs obtain ref x where x: "(ref, x) \<in> set (fk_vms h)" "h_Name (fk_vm x) \<in> set names"
      "h_Ref v = h_Ref (fk_vm x)" "h_Name v = h_Name (fk_vm x)" "h_OwnerID v = fk_ownerID x"
      by (auto simp: fake_driver_def fake_FindVMs_def look_def)
    then show ?thesis using fake_mem [OF ok x(1)] by (auto simp: owned_def)
  qed
  then show "fake_ok h' \<and> fake_inv h' = fake_inv h \<and> (\<forall>vs. r = Inr vs \<longrightarrow> (\<forall>v \<in> set vs. h_Name v \<in> set names
           \<and> (\<exists>w. fake_inv h (h_Ref v) = Some w \<and> h_Name w = h_Name v \<and> h_OwnerID w = h_OwnerID v)))"
    using ok run by (auto simp: fake_driver_def fake_FindVMs_def look_def)
next
  fix h mac r h' assume ok: "fake_ok h" and run: "FindVMByMAC fake_driver mac h = (r, h')"
  have "fake_inv h (h_Ref v) = Some v" if "r = Inr (Some v)" for v
  proof -
    from run that obtain ref x where x: "(ref, x) \<in> set (fk_vms h)" "v = owned x"
      by (auto simp: fake_driver_def fake_FindVMByMAC_def look_def dest: find_SomeD)
    then show ?thesis using fake_mem [OF ok x(1)] by (simp add: owned_def)
  qed
  then show "fake_ok h' \<and> fake_inv h' = fake_inv h \<and> (\<forall>v. r = Inr (Some v) \<longrightarrow> fake_inv h (h_Ref v) = Some v)"
    using ok run by (auto simp: fake_driver_def fake_FindVMByMAC_def look_def)
next
  fix h spec r h' assume ok: "fake_ok h" and "CreateVM fake_driver spec h = (r, h')"
  then have "fake_CreateVM spec h = (r, h')" by (simp add: fake_driver_def)
  with ok show "fake_ok h'
      \<and> (\<forall>q. fake_inv h' q \<noteq> fake_inv h q \<longrightarrow> (case fake_inv h q of None \<Rightarrow> True | Some w \<Rightarrow> h_Name w = vs_Name spec))
      \<and> (\<forall>ref. r = Inr ref \<longrightarrow> (\<exists>v. fake_inv h' ref = Some v \<and> h_Name v = vs_Name spec)
           \<and> only_at ref (fake_inv h) (fake_inv h'))"
  proof (cases rule: fake_CreateVM_cases)
    case (made ref)
    then have "q = ref" if "fake_inv h' q \<noteq> fake_inv h q" for q using that by (auto simp: only_at_def)
    with made show ?thesis by auto
  qed auto
next
  show "fake_ok h' \<and> only_at ref (fake_inv h) (fake_inv h') \<and> (fake_inv h' ref = None \<or> same_vm (fake_inv h ref) (fake_inv h' ref))
      \<and> (r = Inr () \<longrightarrow> fake_inv h' ref = None)"
    if "fake_ok h" "DeleteVM fake_driver ref h = (r, h')" for h ref r h'
    using that by (auto simp: fake_driver_def fake_DeleteVM_def change_def fake_ok_def fake_inv_def only_at_def
        map_of_delete row_simps)
next
  show "fake_ok h' \<and> only_at ref (fake_inv h) (fake_inv h') \<and> same_vm (fake_inv h ref) (fake_inv h' ref)"
    if "fake_ok h" "AddDisks fake_driver ref ds h = (r, h')" for h ref ds r h'
    using that unfolding fake_driver_def fake_AddDisks_def driver.simps
    by (rule with_vm_set) (simp_all add: Let_def same_vm_def owned_def)
next
  show "fake_ok h' \<and> only_at ref (fake_inv h) (fake_inv h') \<and> same_vm (fake_inv h ref) (fake_inv h' ref)"
    if "fake_ok h" "ExtendDisks fake_driver ref g h = (r, h')" for h ref g r h'
    using that unfolding fake_driver_def fake_ExtendDisks_def driver.simps
    by (rule with_vm_set) (simp_all add: same_vm_def owned_def)
next
  show "fake_ok h' \<and> only_at ref (fake_inv h) (fake_inv h') \<and> same_vm (fake_inv h ref) (fake_inv h' ref)
      \<and> (r = Inr () \<longrightarrow> (\<exists>v. fake_inv h' ref = Some v \<and> h_State v = StatePoweredOn))"
    if "fake_ok h" "PowerOn fake_driver ref h = (r, h')" for h ref r h'
    using that unfolding fake_driver_def fake_PowerOn_def driver.simps by (rule setState_law)
next
  show "fake_ok h' \<and> only_at ref (fake_inv h) (fake_inv h') \<and> same_vm (fake_inv h ref) (fake_inv h' ref)
      \<and> (r = Inr () \<longrightarrow> (\<exists>v. fake_inv h' ref = Some v \<and> h_State v = StatePoweredOff))"
    if "fake_ok h" "PowerOff fake_driver ref h = (r, h')" for h ref r h'
    using that unfolding fake_driver_def fake_PowerOff_def driver.simps by (rule setState_law)
qed

interpretation fkr: reliable_hypervisor fake_driver fake_ok fake_inv
  by unfold_locales (auto simp: fake_driver_def fake_PowerOff_def setState_def with_vm_def fake_inv_def split: option.splits)

end
