(* ===== verification/Orchestrator.thy ===== *)
theory Orchestrator
  imports StoreFleet FakeDriver
begin

text \<open>
  \<open>internal/orch/orchestrator.go\<close>: starting, cancelling and resuming jobs, and the jobs that
  reconcile, tear down or power a deployment. The state holds the database, the platform
  behind the drivers, the active map (deployment ID to \<open>context\<close> cancelled or not) and the
  goroutines spawned and not yet finished. A job body runs as one step; what time and
  cancellation do to it meanwhile is an argument (\<open>ctxErr\<close>: is \<open>ctx.Err()\<close> set when the job
  fails; \<open>dur\<close>: what \<open>time.Since(start)\<close> gives; \<open>ord\<close>: the order in which the goroutines that
  create VMs take their turns). Decryption and the registered drivers are parameters.
\<close>

section \<open>State\<close>

datatype job_kind = JReconcile on_conflict | JTeardown | JPower bool | JFill "managed_vm list"

record job =
  j_dep :: deployment
  j_run :: run
  j_kind :: job_kind

record 'h orch =
  o_store :: store
  o_hv :: 'h
  o_active :: "string \<rightharpoonup> bool"
  o_jobs :: "job list"

record 'h env =
  e_decrypt :: "string \<Rightarrow> go_error + string"
  e_registry :: "'h registry"

definition db :: "'a store_op \<Rightarrow> ('h orch, 'a) prog" where
  "db m = on_part o_store o_store_update m"

definition hv :: "('h, 'a) prog \<Rightarrow> ('h orch, 'a) prog" where
  "hv m = on_part o_hv o_hv_update m"

definition OpenDriver :: "'h env \<Rightarrow> string \<Rightarrow> ('h orch, 'h driver) prog" where
  "OpenDriver env connectionID =
     seq (db (GetConnection connectionID)) (\<lambda>conn.
     seq (db (GetConnectionSecret connectionID)) (\<lambda>blob.
     case e_decrypt env blob of
       Inl e \<Rightarrow> fail e
     | Inr secret \<Rightarrow> hv (registry_Open (e_registry env) conn secret)))"

section \<open>Active jobs\<close>

definition acquire :: "string \<Rightarrow> ('h orch, unit) prog" where
  "acquire dep ob = (if o_active ob dep \<noteq> None then (Inl (ErrBusy dep), ob)
     else (Inr (), ob\<lparr>o_active := (o_active ob)(dep \<mapsto> False)\<rparr>))"

definition release :: "string \<Rightarrow> ('h orch, unit) prog" where
  "release dep = change (\<lambda>ob. ob\<lparr>o_active := (o_active ob)(dep := None)\<rparr>)"

definition Cancel :: "string \<Rightarrow> ('h orch, unit) prog" where
  "Cancel dep ob = (case o_active ob dep of
      None \<Rightarrow> (Inl (ErrNotRunning dep), ob)
    | Some _ \<Rightarrow> (Inr (), ob\<lparr>o_active := (o_active ob)(dep \<mapsto> True)\<rparr>))"

definition IsActive :: "'h orch \<Rightarrow> string \<Rightarrow> bool" where
  "IsActive ob dep \<longleftrightarrow> o_active ob dep \<noteq> None"

text \<open>\<open>Stop\<close> up to the wait: every running job's context is cancelled.\<close>

definition Stop :: "'h orch \<Rightarrow> 'h orch" where
  "Stop ob = ob\<lparr>o_active := (\<lambda>dep. map_option (\<lambda>_. True) (o_active ob dep))\<rparr>"

definition spawn :: "job \<Rightarrow> ('h orch, unit) prog" where
  "spawn j = change (\<lambda>ob. ob\<lparr>o_jobs := o_jobs ob @ [j]\<rparr>)"

text \<open>The \<open>o.release(d.ID); return nil, err\<close> of the entry points.\<close>

definition or_release :: "string \<Rightarrow> ('h orch, 'a) prog \<Rightarrow> ('h orch, 'a) prog" where
  "or_release dep m = attempt m (\<lambda>r. case r of Inl e \<Rightarrow> seq (release dep) (\<lambda>_. fail e) | Inr x \<Rightarrow> ret x)"

definition StartDeploy :: "deployment \<Rightarrow> on_conflict \<Rightarrow> ('h orch, run) prog" where
  "StartDeploy d onConflict =
     (if d_Origin d = OriginAdopted
      then fail (ErrPrecondition ''adopted deployments cannot be deployed or scaled: their VMs join via adoption'')
      else seq (acquire (d_ID d)) (\<lambda>_.
        seq (or_release (d_ID d) (db (ListManagedVMs (d_ID d)))) (\<lambda>existing.
        seq (or_release (d_ID d) (db (CreateRun (d_ID d) (if existing = [] then RunDeploy else RunScaleUp)))) (\<lambda>r.
        seq (ignore (db (SetDeploymentStatus (d_ID d) DeploymentDeploying))) (\<lambda>_.
        seq (spawn \<lparr>j_dep = d, j_run = r, j_kind = JReconcile onConflict\<rparr>) (\<lambda>_. ret r))))))"

definition StartTeardown :: "deployment \<Rightarrow> ('h orch, run) prog" where
  "StartTeardown d =
     seq (acquire (d_ID d)) (\<lambda>_.
     seq (or_release (d_ID d) (db (CreateRun (d_ID d) RunTeardown))) (\<lambda>r.
     seq (ignore (db (SetDeploymentStatus (d_ID d) DeploymentDeleting))) (\<lambda>_.
     seq (spawn \<lparr>j_dep = d, j_run = r, j_kind = JTeardown\<rparr>) (\<lambda>_. ret r))))"

definition StartPower :: "deployment \<Rightarrow> bool \<Rightarrow> ('h orch, run) prog" where
  "StartPower d on =
     seq (acquire (d_ID d)) (\<lambda>_.
     seq (or_release (d_ID d) (db (CreateRun (d_ID d) (if on then RunPowerOn else RunPowerOff)))) (\<lambda>r.
     seq (spawn \<lparr>j_dep = d, j_run = r, j_kind = JPower on\<rparr>) (\<lambda>_. ret r)))"

section \<open>Job bodies\<close>

record job_stats =
  js_VMsCreated :: int
  js_DisksAdded :: int
  js_DisksExtended :: int
  js_VMsDeleted :: int
  js_VMsPowered :: int

definition no_stats :: job_stats where
  "no_stats = \<lparr>js_VMsCreated = 0, js_DisksAdded = 0, js_DisksExtended = 0, js_VMsDeleted = 0, js_VMsPowered = 0\<rparr>"

text \<open>The JSON of \<open>jobStats\<close> with its \<open>omitempty\<close> fields.\<close>

definition omitempty :: "string \<Rightarrow> int \<Rightarrow> (string \<times> json) list" where
  "omitempty k n = (if n = 0 then [] else [(k, JInt n)])"

definition stats_json :: "job_stats \<Rightarrow> f64 \<Rightarrow> json" where
  "stats_json js dur = JObj (omitempty ''vmsCreated'' (js_VMsCreated js)
     @ omitempty ''disksAdded'' (js_DisksAdded js) @ omitempty ''disksExtended'' (js_DisksExtended js)
     @ omitempty ''vmsDeleted'' (js_VMsDeleted js) @ omitempty ''vmsPowered'' (js_VMsPowered js)
     @ [(''durationSec'', JFloat dur)])"

type_synonym ('h, 'a) jprog = "('h orch \<times> job_stats, 'a) prog"

definition jlift :: "('h orch, 'a) prog \<Rightarrow> ('h, 'a) jprog" where
  "jlift m = on_part fst apfst m"

abbreviation jdb :: "'a store_op \<Rightarrow> ('h, 'a) jprog" where "jdb m \<equiv> jlift (db m)"
abbreviation jhv :: "('h, 'a) prog \<Rightarrow> ('h, 'a) jprog" where "jhv m \<equiv> jlift (hv m)"

definition bump :: "(job_stats \<Rightarrow> job_stats) \<Rightarrow> ('h, unit) jprog" where
  "bump f = change (apsnd f)"

definition powerFunc :: "bool \<Rightarrow> deployment \<Rightarrow> 'h driver \<Rightarrow> ('h, unit) jprog" where
  "powerFunc on d drv =
     seq (jdb (ListManagedVMs (d_ID d))) (\<lambda>vms. for_each vms (\<lambda>vm.
       seq (wrap (''power VM '' @ v_Name vm @ '': '')
              (jhv ((if on then PowerOn drv else PowerOff drv) (v_Ref vm))))
         (\<lambda>_. bump (\<lambda>js. js\<lparr>js_VMsPowered := js_VMsPowered js + 1\<rparr>))))"

definition teardown :: "deployment \<Rightarrow> 'h driver \<Rightarrow> ('h, unit) jprog" where
  "teardown d drv =
     seq (jdb (ListManagedVMs (d_ID d))) (\<lambda>vms. for_each vms (\<lambda>vm.
       seq (wrap (''deleting VM '' @ v_Name vm @ '': '') (jhv (DeleteVM drv (v_Ref vm)))) (\<lambda>_.
       seq (jdb (DeleteManagedVM (v_ID vm))) (\<lambda>_.
       bump (\<lambda>js. js\<lparr>js_VMsDeleted := js_VMsDeleted js + 1\<rparr>)))))"

definition diskSpecs :: "int \<Rightarrow> int \<Rightarrow> bool \<Rightarrow> disk_spec list" where
  "diskSpecs n sizeGiB thin = replicate (nat n) \<lparr>ds_SizeGiB = sizeGiB, ds_Thin = thin\<rparr>"

subsection \<open>Conflicts\<close>

definition target_names :: "deployment \<Rightarrow> string list" where
  "target_names d = map (VMName (d_Spec d)) [1..VMCount (d_Spec d)]"

text \<open>One VM found under a target name: nothing when it is ours, else the conflict, with what
  the store knows of its owner.\<close>

definition conflict_of :: "deployment \<Rightarrow> hv_vm \<Rightarrow> vm_conflict list \<Rightarrow> ('h orch, vm_conflict list) prog" where
  "conflict_of d vm acc =
     (if h_OwnerID vm = d_ID d then ret acc
      else let c = \<lparr>vc_Name = h_Name vm, vc_Ref = h_Ref vm, vc_OwnerID = h_OwnerID vm,
                    vc_OwnerName = h_OwnerName vm, vc_OwnerKnown = False, vc_OwnerSince = None\<rparr> in
        if h_OwnerID vm = '''' then ret (acc @ [c])
        else attempt (db (GetDeployment (h_OwnerID vm))) (\<lambda>r. ret (acc @ [case r of
            Inr owner \<Rightarrow> c\<lparr>vc_OwnerKnown := True, vc_OwnerName := d_Name owner, vc_OwnerSince := Some (d_CreatedAt owner)\<rparr>
          | Inl _ \<Rightarrow> c])))"

definition findConflicts :: "deployment \<Rightarrow> 'h driver \<Rightarrow> string set \<Rightarrow> ('h orch, vm_conflict list) prog" where
  "findConflicts d drv recorded =
     (let names = filter (\<lambda>n. n \<notin> recorded) (target_names d) in
      if names = [] then ret []
      else seq (hv (FindVMs drv (d_Placement d) names)) (\<lambda>found. fold_prog found (conflict_of d) []))"

definition DetectConflicts :: "'h env \<Rightarrow> deployment \<Rightarrow> ('h orch, vm_conflict list) prog" where
  "DetectConflicts env d =
     seq (OpenDriver env (d_ConnectionID d)) (\<lambda>drv.
     seq (db (ListManagedVMs (d_ID d))) (\<lambda>actual. findConflicts d drv (set (map v_Name actual))))"

text \<open>At most five names, then an ellipsis (both symbols in UTF-8).\<close>

definition summary_part :: "vm_conflict \<Rightarrow> string" where
  "summary_part c = vc_Name c @ [CHR 0xE2, CHR 0x86, CHR 0x92]
     @ (if vc_OwnerName c = '''' then ''unknown'' else vc_OwnerName c)"

fun summary_loop :: "nat \<Rightarrow> vm_conflict list \<Rightarrow> string list \<Rightarrow> string list" where
  "summary_loop n [] parts = parts"
| "summary_loop n (c # cs) parts =
     (let parts = parts @ [summary_part c] in
      if length parts = 5 \<and> n > 5 then parts @ [[CHR 0xE2, CHR 0x80, CHR 0xA6]]
      else summary_loop n cs parts)"

definition conflictSummary :: "vm_conflict list \<Rightarrow> string" where
  "conflictSummary cs = join '', '' (summary_loop (length cs) cs [])"

subsection \<open>Reconciling\<close>

definition new_managed_vm :: "deployment \<Rightarrow> string \<Rightarrow> string \<Rightarrow> string \<Rightarrow> managed_vm" where
  "new_managed_vm d name ref mac = \<lparr>v_ID = '''', v_DeploymentID = d_ID d, v_Name = name, v_Ref = ref,
     v_DiskCount = DisksPerVM (d_Spec d), v_DiskSizeGiB = DiskSizeGiB (d_Spec d), v_MAC = mac, v_BootToken = '''',
     v_AgentStatus = AgentUnset, v_AgentSeenAt = None, v_DataState = DataUnknown, v_DataRunID = '''',
     v_DataManifest = False, v_DataSeenAt = None, v_FillRunID = '''', v_FillStatus = FillUnset,
     v_BytesWritten = 0, v_BytesTotal = 0, v_MBps = 0, v_FillError = '''', v_CreatedAt = 0\<rparr>"

definition vm_placement :: "deployment \<Rightarrow> int \<Rightarrow> placement" where
  "vm_placement d i = (let ds = Datastores (d_Placement d) in
     if ds = [] then d_Placement d
     else WithDatastore (d_Placement d) (ds ! nat ((i - 1) mod int (length ds))))"

definition create_spec :: "deployment \<Rightarrow> int \<Rightarrow> vm_spec" where
  "create_spec d i = (let s = d_Spec d in
     \<lparr>vs_Name = VMName s i, vs_VCPUs = VCPUs s, vs_MemoryMiB = MemoryMiB s,
      vs_Disks = diskSpecs (DisksPerVM s) (DiskSizeGiB s) (\<not> Thick s), vs_Tag = Tag s,
      vs_DeploymentID = d_ID d, vs_DeploymentName = d_Name d, vs_Placement = vm_placement d i\<rparr>)"

text \<open>One of the goroutines that create VMs; \<open>firstErr\<close> is the variable they share.\<close>

definition create_one :: "deployment \<Rightarrow> 'h driver \<Rightarrow> int \<Rightarrow> go_error option \<Rightarrow> ('h, go_error option) jprog" where
  "create_one d drv i firstErr =
     (let name = VMName (d_Spec d) i in
      attempt (jhv (CreateVM drv (create_spec d i))) (\<lambda>r. case r of
        Inl e \<Rightarrow> ret (if firstErr = None then Some (ErrWrap (''creating VM '' @ name @ '': '') e) else firstErr)
      | Inr ref \<Rightarrow> attempt (jhv (GetVM drv ref)) (\<lambda>g.
          let mac = (case g of Inr (Some vm) \<Rightarrow> h_MAC vm | _ \<Rightarrow> '''') in
          attempt (jdb (AddManagedVM (new_managed_vm d name ref mac))) (\<lambda>a.
            case (a, firstErr) of
              (Inl e, None) \<Rightarrow> ret (Some (ErrWrap (''recording VM '' @ name @ '': '') e))
            | _ \<Rightarrow> seq (bump (\<lambda>js. js\<lparr>js_VMsCreated := js_VMsCreated js + 1\<rparr>)) (\<lambda>_. ret firstErr)))))"

definition grow_one :: "deployment \<Rightarrow> 'h driver \<Rightarrow> managed_vm \<Rightarrow> ('h, unit) jprog" where
  "grow_one d drv vm =
     (let s = d_Spec d; add = DisksPerVM s - v_DiskCount vm in
      seq (if add > 0
           then seq (wrap (''adding disks to '' @ v_Name vm @ '': '')
                      (jhv (AddDisks drv (v_Ref vm) (diskSpecs add (DiskSizeGiB s) (\<not> Thick s)))))
                  (\<lambda>_. bump (\<lambda>js. js\<lparr>js_DisksAdded := js_DisksAdded js + add\<rparr>))
           else ret ()) (\<lambda>_.
      seq (if v_DiskSizeGiB vm < DiskSizeGiB s
           then seq (wrap (''extending disks of '' @ v_Name vm @ '': '')
                      (jhv (ExtendDisks drv (v_Ref vm) (DiskSizeGiB s))))
                  (\<lambda>_. bump (\<lambda>js. js\<lparr>js_DisksExtended := js_DisksExtended js + 1\<rparr>))
           else ret ()) (\<lambda>_.
      if v_DiskCount vm \<noteq> DisksPerVM s \<or> v_DiskSizeGiB vm \<noteq> DiskSizeGiB s
      then jdb (UpdateManagedVMDisks (v_ID vm) (DisksPerVM s) (DiskSizeGiB s))
      else ret ())))"

definition resolve :: "'h driver \<Rightarrow> on_conflict \<Rightarrow> vm_conflict list \<Rightarrow> ('h, unit) jprog" where
  "resolve drv onConflict conflicts =
     (if conflicts = [] then ret ()
      else case onConflict of
        OnConflictClean \<Rightarrow> for_each conflicts (\<lambda>c.
          seq (wrap (''cleaning conflicting VM '' @ vc_Name c @ '': '') (jhv (DeleteVM drv (vc_Ref c))))
            (\<lambda>_. bump (\<lambda>js. js\<lparr>js_VMsDeleted := js_VMsDeleted js + 1\<rparr>)))
      | OnConflictAdopt \<Rightarrow> ret ()
      | _ \<Rightarrow> fail (ErrOther (itoa_nat (length conflicts) @ '' VM name(s) already exist owned by another deployment (''
               @ conflictSummary conflicts @ ''); deploy with adopt or clean to resolve'')))"

definition missing :: "deployment \<Rightarrow> managed_vm list \<Rightarrow> int list" where
  "missing d actual = filter (\<lambda>i. VMName (d_Spec d) i \<notin> set (map v_Name actual)) [1..VMCount (d_Spec d)]"

definition reconcileCore ::
  "(int list \<Rightarrow> int list) \<Rightarrow> on_conflict \<Rightarrow> deployment \<Rightarrow> 'h driver \<Rightarrow> ('h, unit) jprog" where
  "reconcileCore ord onConflict d drv =
     seq (jdb (ListManagedVMs (d_ID d))) (\<lambda>actual.
     seq (wrap ''checking for conflicting VMs: '' (jlift (findConflicts d drv (set (map v_Name actual))))) (\<lambda>conflicts.
     seq (resolve drv onConflict conflicts) (\<lambda>_.
     seq (fold_prog (ord (missing d actual)) (create_one d drv) None) (\<lambda>firstErr.
     case firstErr of
       Some e \<Rightarrow> fail e
     | None \<Rightarrow> for_each actual (grow_one d drv)))))"

section \<open>Running a job\<close>

definition is_power :: "run \<Rightarrow> bool" where
  "is_power r \<longleftrightarrow> r_Type r = RunPowerOn \<or> r_Type r = RunPowerOff"

definition job_failed :: "deployment \<Rightarrow> run \<Rightarrow> bool \<Rightarrow> f64 \<Rightarrow> job_stats \<Rightarrow> go_error \<Rightarrow> ('h orch, unit) prog" where
  "job_failed d r ctxErr dur js e =
     seq (ignore (db (if ctxErr
         then FinishRun (r_ID r) RunCancelled (JObj [(''error'', JStr ''cancelled by user''), (''partial'', stats_json js dur)])
         else FinishRun (r_ID r) RunFailed (JObj [(''error'', JStr (error_text e)), (''partial'', stats_json js dur)]))))
       (\<lambda>_. if is_power r then ret () else ignore (db (SetDeploymentStatus (d_ID d) DeploymentError)))"

definition job_succeeded :: "deployment \<Rightarrow> run \<Rightarrow> f64 \<Rightarrow> job_stats \<Rightarrow> ('h orch, unit) prog" where
  "job_succeeded d r dur js =
     seq (ignore (db (FinishRun (r_ID r) RunSucceeded (stats_json js dur)))) (\<lambda>_.
       if is_power r then ret ()
       else if r_Type r = RunTeardown then ignore (db (MarkDeploymentDeleted (d_ID d)))
       else ignore (db (SetDeploymentStatus (d_ID d) DeploymentReady)))"

text \<open>The call of the job's function: its outcome and the statistics it leaves.\<close>

definition run_body :: "('h, unit) jprog \<Rightarrow> ('h orch, (go_error + unit) \<times> job_stats) prog" where
  "run_body fn ob = (case fn (ob, no_stats) of (r, (ob', js)) \<Rightarrow> (Inr (r, js), ob'))"

definition runJob :: "'h env \<Rightarrow> bool \<Rightarrow> f64 \<Rightarrow> deployment \<Rightarrow> run
    \<Rightarrow> (deployment \<Rightarrow> 'h driver \<Rightarrow> ('h, unit) jprog) \<Rightarrow> ('h orch, unit) prog" where
  "runJob env ctxErr dur d r fn =
     seq (ignore (db (StartRun (r_ID r)))) (\<lambda>_.
     seq (attempt (OpenDriver env (d_ConnectionID d)) (\<lambda>q. case q of
         Inl e \<Rightarrow> job_failed d r ctxErr dur no_stats (ErrWrap ''opening hypervisor connection: '' e)
       | Inr drv \<Rightarrow> seq (run_body (fn d drv)) (\<lambda>(res, js). case res of
             Inl e \<Rightarrow> job_failed d r ctxErr dur js e
           | Inr _ \<Rightarrow> job_succeeded d r dur js)))
       (\<lambda>_. release (d_ID d)))"

text \<open>The job functions by kind (fills run outside \<open>runJob\<close>).\<close>

definition job_fn :: "(int list \<Rightarrow> int list) \<Rightarrow> job_kind \<Rightarrow> deployment \<Rightarrow> 'h driver \<Rightarrow> ('h, unit) jprog" where
  "job_fn ord k = (case k of
      JReconcile c \<Rightarrow> reconcileCore ord c
    | JTeardown \<Rightarrow> teardown
    | JPower on \<Rightarrow> powerFunc on
    | JFill _ \<Rightarrow> (\<lambda>_ _. ret ()))"

section \<open>Resuming\<close>

definition failFill :: "run \<Rightarrow> go_error \<Rightarrow> ('h orch, unit) prog" where
  "failFill r e = ignore (db (FinishRun (r_ID r) RunFailed (JObj [(''error'', JStr (error_text e))])))"

definition orphan :: "run \<Rightarrow> string \<Rightarrow> ('h orch, unit) prog" where
  "orphan r why = ignore (db (FinishRun (r_ID r) RunFailed
     (JObj [(''error'', JStr (''interrupted (controller restart); '' @ why))])))"

definition resume_run :: "run \<Rightarrow> ('h orch, unit) prog" where
  "resume_run r = attempt (db (GetDeployment (r_DeploymentID r))) (\<lambda>q. case q of
      Inl _ \<Rightarrow> orphan r ''deployment missing''
    | Inr d \<Rightarrow> attempt (acquire (d_ID d)) (\<lambda>a. case a of
        Inl _ \<Rightarrow> ret ()
      | Inr _ \<Rightarrow> (case r_Type r of
          RunDeploy \<Rightarrow> spawn \<lparr>j_dep = d, j_run = r, j_kind = JReconcile OnConflictAbort\<rparr>
        | RunScaleUp \<Rightarrow> spawn \<lparr>j_dep = d, j_run = r, j_kind = JReconcile OnConflictAbort\<rparr>
        | RunTeardown \<Rightarrow> spawn \<lparr>j_dep = d, j_run = r, j_kind = JTeardown\<rparr>
        | RunPowerOn \<Rightarrow> spawn \<lparr>j_dep = d, j_run = r, j_kind = JPower True\<rparr>
        | RunPowerOff \<Rightarrow> spawn \<lparr>j_dep = d, j_run = r, j_kind = JPower False\<rparr>
        | RunUnknown _ \<Rightarrow> seq (release (d_ID d)) (\<lambda>_. orphan r ''unknown run type'')
        | _ \<Rightarrow> attempt (db (ListManagedVMs (d_ID d))) (\<lambda>v. case v of
            Inl e \<Rightarrow> seq (release (d_ID d)) (\<lambda>_. failFill r (ErrWrap ''resume: listing VMs: '' e))
          | Inr vms \<Rightarrow> spawn \<lparr>j_dep = d, j_run = r, j_kind = JFill vms\<rparr>))))"

definition ResumeInterrupted :: "('h orch, unit) prog" where
  "ResumeInterrupted = attempt (db ListRunningRuns) (\<lambda>q. case q of
      Inl _ \<Rightarrow> ret ()
    | Inr runs \<Rightarrow> for_each runs resume_run)"

section \<open>Lifting\<close>

lemma db_eq: "db m ob = (case m (o_store ob) of (r, s) \<Rightarrow> (r, ob\<lparr>o_store := s\<rparr>))"
  by (simp add: db_def on_part_def)

lemma db_InrD: "db m ob = (Inr x, ob') \<Longrightarrow> \<exists>s'. m (o_store ob) = (Inr x, s') \<and> ob' = ob\<lparr>o_store := s'\<rparr>"
  by (auto simp: db_eq split: prod.splits)

lemma hv_eq: "hv m ob = (case m (o_hv ob) of (r, h) \<Rightarrow> (r, ob\<lparr>o_hv := h\<rparr>))"
  by (simp add: hv_def on_part_def)

lemma jlift_eq: "jlift m (ob, js) = (case m ob of (r, ob') \<Rightarrow> (r, (ob', js)))"
  by (simp add: jlift_def on_part_def)

lemma bump_eq [simp]: "bump f (ob, js) = (Inr (), (ob, f js))"
  by (simp add: bump_def change_def)

lemma keeps_db [inv_intros]: "keeps I m \<Longrightarrow> keeps (\<lambda>ob. I (o_store ob)) (db m)"
  using keepsD [of I m] by (fastforce simp: keeps_def db_eq split: prod.splits)

lemma keeps_hv_store [inv_intros]: "keeps (\<lambda>ob. I (o_store ob)) (hv m)"
  by (auto simp: keeps_def hv_eq split: prod.splits)

lemma keeps_jlift [inv_intros]: "keeps J m \<Longrightarrow> keeps (\<lambda>x. J (fst x)) (jlift m)"
  using keepsD [of J m] by (fastforce simp: keeps_def jlift_def on_part_def split: prod.splits)

lemma keeps_bump [inv_intros]: "keeps (\<lambda>x. J (fst x)) (bump f)"
  by (auto simp: keeps_def bump_def change_def)

text \<open>The operations on the active map and the goroutines leave database and platform alone.\<close>

lemma keeps_active [inv_intros]:
  "keeps (\<lambda>ob. I (o_store ob)) (acquire dep)" "keeps (\<lambda>ob. I (o_store ob)) (release dep)"
  "keeps (\<lambda>ob. I (o_store ob)) (Cancel dep)" "keeps (\<lambda>ob. I (o_store ob)) (spawn j)"
  by (auto simp: keeps_def acquire_def release_def Cancel_def spawn_def change_def split: option.splits)

lemma keeps_or_release [inv_intros]:
  "keeps (\<lambda>ob. I (o_store ob)) m \<Longrightarrow> keeps (\<lambda>ob. I (o_store ob)) (or_release dep m)"
  unfolding or_release_def by (intro inv_intros)

section \<open>The database invariant\<close>

lemma keeps_wf_OpenDriver [inv_intros]: "keeps (\<lambda>ob. db_wf (o_store ob)) (OpenDriver env c)"
  unfolding OpenDriver_def by (intro inv_intros)

lemma keeps_wf_starts [inv_intros]:
  "keeps (\<lambda>ob. db_wf (o_store ob)) (StartDeploy d c)" "keeps (\<lambda>ob. db_wf (o_store ob)) (StartTeardown d)"
  "keeps (\<lambda>ob. db_wf (o_store ob)) (StartPower d on)"
  unfolding StartDeploy_def StartTeardown_def StartPower_def by (intro inv_intros)+

lemma keeps_wf_conflicts [inv_intros]: "keeps (\<lambda>ob. db_wf (o_store ob)) (findConflicts d drv recorded)"
  unfolding findConflicts_def conflict_of_def by (intro inv_intros)

lemma keeps_on_conflict [inv_intros]:
  "keeps I a \<Longrightarrow> keeps I b \<Longrightarrow> keeps I c \<Longrightarrow> (\<And>x. keeps I (e x)) \<Longrightarrow>
    keeps I (case k of OnConflictAbort \<Rightarrow> a | OnConflictAdopt \<Rightarrow> b | OnConflictClean \<Rightarrow> c | OnConflictOther x \<Rightarrow> e x)"
  by (cases k) simp_all

lemma keeps_wf_power [inv_intros]: "keeps (\<lambda>x. db_wf (o_store (fst x))) (powerFunc on d drv)"
  unfolding powerFunc_def by (intro inv_intros)

lemma keeps_wf_teardown [inv_intros]: "keeps (\<lambda>x. db_wf (o_store (fst x))) (teardown d drv)"
  unfolding teardown_def by (intro inv_intros)

lemma keeps_wf_reconcile [inv_intros]: "keeps (\<lambda>x. db_wf (o_store (fst x))) (reconcileCore ord c d drv)"
  unfolding reconcileCore_def resolve_def create_one_def grow_one_def by (intro inv_intros)

lemma keeps_run_body [inv_intros]: "keeps (\<lambda>x. J (fst x)) fn \<Longrightarrow> keeps J (run_body fn)"
  by (auto simp: keeps_def run_body_def split: prod.splits) (metis fst_conv snd_conv)

lemma keeps_wf_outcome [inv_intros]:
  "keeps (\<lambda>ob. db_wf (o_store ob)) (job_failed d r c dur js e)"
  "keeps (\<lambda>ob. db_wf (o_store ob)) (job_succeeded d r dur js)"
  unfolding job_failed_def job_succeeded_def by (intro inv_intros)+

lemma keeps_wf_job_fn [inv_intros]: "keeps (\<lambda>x. db_wf (o_store (fst x))) (job_fn ord k d drv)"
  unfolding job_fn_def by (cases k; simp; intro inv_intros)

lemma keeps_wf_runJob [inv_intros]:
  "(\<And>drv. keeps (\<lambda>x. db_wf (o_store (fst x))) (fn d drv)) \<Longrightarrow>
    keeps (\<lambda>ob. db_wf (o_store ob)) (runJob env c dur d r fn)"
  unfolding runJob_def by (intro inv_intros)

lemma keeps_wf_resume [inv_intros]: "keeps (\<lambda>ob. db_wf (o_store ob)) ResumeInterrupted"
proof -
  have "keeps (\<lambda>ob. db_wf (o_store ob)) (resume_run r)" for r
    unfolding resume_run_def orphan_def failFill_def
    by (cases "r_Type r"; simp; intro inv_intros)
  then show ?thesis unfolding ResumeInterrupted_def by (intro inv_intros)
qed

end
