(* ===== verification/Fill.thy ===== *)
theory Fill
  imports Orchestrator
begin

text \<open>
  \<open>internal/orch/fill.go\<close>: fill, incremental and verify runs. The job's loop polls the
  database every few seconds; between two polls the rest of the system (agents, the API)
  moves on. A \<open>tick\<close> is one turn of the loop's \<open>select\<close>: the instant at which it wakes
  (nanoseconds), what the rest of the system did to the controller's state meanwhile, and
  whether the select took \<open>ctx.Done()\<close>. One reading of the clock serves a whole poll. The
  database's clock is the same instant in whole seconds.
\<close>

section \<open>Constants and text\<close>

definition ns_sec :: int where "ns_sec = 10 ^ 9"
definition fillTimeout :: int where "fillTimeout = 12 * 3600 * ns_sec"
definition agentSilenceLimit :: int where "agentSilenceLimit = 90 * ns_sec"
definition fillStallLimit :: int where "fillStallLimit = 600 * ns_sec"
definition agentFreshLimit :: int where "agentFreshLimit = 30 * ns_sec"
definition bootTimeout :: int where "bootTimeout = 300 * ns_sec"
definition maxBootAttempts :: nat where "maxBootAttempts = 3"

lemmas fill_limits = ns_sec_def fillTimeout_def agentSilenceLimit_def fillStallLimit_def agentFreshLimit_def
  bootTimeout_def maxBootAttempts_def

text \<open>\<open>Duration.Seconds\<close>, \<open>round1\<close>, and \<open>%.1f\<close>, which rounds the exact value half to even.\<close>

definition seconds :: "int \<Rightarrow> f64" where
  "seconds d = (let s = go_div d ns_sec in f_add (f_of_int s) (f_div (f_of_int (d - s * ns_sec)) (10 ^ 9)))"

definition round1 :: "f64 \<Rightarrow> f64" where
  "round1 f = f_div (f_of_int (f_trunc (f_add (f_mul f 10) (1/2)))) 10"

definition fmt_1 :: "f64 \<Rightarrow> string" where
  "fmt_1 x = (let n = rne (\<bar>x\<bar> * 10) in
     (if x < 0 then ''-'' else '''') @ itoa (n div 10) @ ''.'' @ itoa (n mod 10))"

definition em_dash :: string where "em_dash = [CHR 0xE2, CHR 0x80, CHR 0x94]"

fun run_type_text :: "run_type \<Rightarrow> string" where
  "run_type_text RunDeploy = ''deploy''"
| "run_type_text RunInitialFill = ''initial-fill''"
| "run_type_text RunIncremental = ''incremental''"
| "run_type_text RunVerify = ''verify''"
| "run_type_text RunScaleUp = ''scale-up''"
| "run_type_text RunTeardown = ''teardown''"
| "run_type_text RunPowerOn = ''power-on''"
| "run_type_text RunPowerOff = ''power-off''"
| "run_type_text (RunUnknown s) = s"

section \<open>Starting a fill\<close>

definition bytesPerVM :: "profile_spec \<Rightarrow> run_type \<Rightarrow> int" where
  "bytesPerVM spec rt = (let data = i64 (i64 (DisksPerVM spec * DataPerDiskGiB spec) * gib) in
     if rt = RunIncremental
     then f_trunc (f_mul (f_of_int data) (f_div (f_add (ChangePercent spec) (GrowthPercent spec)) 100))
     else data)"

text \<open>Incremental and verify runs need data on the disks.\<close>

definition needs_data :: "deployment \<Rightarrow> run_type \<Rightarrow> ('h orch, unit) prog" where
  "needs_data d rt =
     (if rt = RunIncremental \<or> rt = RunVerify
      then seq (db (DeploymentFilled (d_ID d))) (\<lambda>filled.
        if \<not> filled \<and> d_Origin d \<noteq> OriginAdopted
        then fail (ErrPrecondition (''run an initial fill before a '' @ run_type_text rt))
        else ret ())
      else ret ())"

definition StartFill :: "deployment \<Rightarrow> run_type \<Rightarrow> ('h orch, run) prog" where
  "StartFill d rt =
     seq (acquire (d_ID d)) (\<lambda>_.
     seq (or_release (d_ID d) (seq (db (ListManagedVMs (d_ID d))) (\<lambda>vms.
        if vms = [] then fail (ErrPrecondition ''nothing to fill: deploy the VMs first'')
        else seq (needs_data d rt) (\<lambda>_.
             seq (db (CreateRun (d_ID d) rt)) (\<lambda>r. ret (vms, r)))))) (\<lambda>(vms, r).
     seq (for_each vms (\<lambda>vm. ignore (db (AssignFill (v_ID vm) (r_ID r) (bytesPerVM (d_Spec d) rt))))) (\<lambda>_.
     seq (ignore (db (StartRun (r_ID r)))) (\<lambda>_.
     seq (spawn \<lparr>j_dep = d, j_run = r, j_kind = JFill vms\<rparr>) (\<lambda>_. ret r)))))"

section \<open>Power\<close>

definition powerCycle :: "'h driver \<Rightarrow> managed_vm \<Rightarrow> ('h orch, unit) prog" where
  "powerCycle drv vm =
     attempt (hv (GetVM drv (v_Ref vm))) (\<lambda>g.
     seq (case g of
         Inr (Some v) \<Rightarrow> if h_State v = StatePoweredOn then ignore (hv (PowerOff drv (v_Ref vm))) else ret ()
       | _ \<Rightarrow> ret ())
       (\<lambda>_. ignore (hv (PowerOn drv (v_Ref vm)))))"

definition agent_fresh :: "int \<Rightarrow> managed_vm \<Rightarrow> bool" where
  "agent_fresh t vm = (case v_AgentSeenAt vm of None \<Rightarrow> False | Some s \<Rightarrow> t - s * ns_sec < agentFreshLimit)"

definition bootVM :: "'h driver \<Rightarrow> int \<Rightarrow> managed_vm \<Rightarrow> ('h orch, unit) prog" where
  "bootVM drv t vm = attempt (hv (GetVM drv (v_Ref vm))) (\<lambda>g. case g of
      Inl _ \<Rightarrow> powerCycle drv vm
    | Inr (Some v) \<Rightarrow>
        if h_State v = StatePoweredOn then (if agent_fresh t vm then ret () else powerCycle drv vm)
        else ignore (hv (PowerOn drv (v_Ref vm)))
    | Inr None \<Rightarrow> ignore (hv (PowerOn drv (v_Ref vm))))"

definition applyAfterFill :: "'h driver \<Rightarrow> deployment \<Rightarrow> managed_vm list \<Rightarrow> ('h orch, unit) prog" where
  "applyAfterFill drv d vms =
     (if AfterFill (d_Spec d) \<noteq> AfterFillShutdown then ret ()
      else for_each vms (\<lambda>vm. attempt (hv (PowerOff drv (v_Ref vm))) (\<lambda>r. case r of
          Inl _ \<Rightarrow> ret ()
        | Inr _ \<Rightarrow> ignore (db (ResetAgent (v_ID vm))))))"

section \<open>One poll\<close>

text \<open>The counters the loop body computes from the freshly listed fleet.\<close>

record tally =
  ta_done :: nat
  ta_failed :: nat
  ta_working :: nat
  ta_written :: int
  ta_total :: int
  ta_MBps :: f64
  ta_silent :: string
  ta_pending :: "managed_vm list"

definition no_tally :: tally where
  "no_tally = \<lparr>ta_done = 0, ta_failed = 0, ta_working = 0, ta_written = 0, ta_total = 0, ta_MBps = 0,
     ta_silent = '''', ta_pending = []\<rparr>"

definition silent_text :: "int \<Rightarrow> int \<Rightarrow> managed_vm \<Rightarrow> string" where
  "silent_text t s vm = v_Name vm @ '' (silent '' @ itoa (f_trunc (seconds (t - s * ns_sec))) @ ''s, last at ''
     @ fmt_1 (f_div (f_of_int (v_BytesWritten vm)) (2 ^ 30)) @ '' GiB)''"

definition tally_vm :: "run \<Rightarrow> int \<Rightarrow> managed_vm \<Rightarrow> tally \<Rightarrow> tally" where
  "tally_vm r t vm ta =
     (if v_FillRunID vm \<noteq> r_ID r then ta
      else let ta = ta\<lparr>ta_written := i64 (ta_written ta + v_BytesWritten vm), ta_total := i64 (ta_total ta + v_BytesTotal vm)\<rparr> in
        case v_FillStatus vm of
          FillDone \<Rightarrow> ta\<lparr>ta_done := ta_done ta + 1\<rparr>
        | FillFailed \<Rightarrow> ta\<lparr>ta_failed := ta_failed ta + 1\<rparr>
        | FillPending \<Rightarrow> ta\<lparr>ta_pending := ta_pending ta @ [vm]\<rparr>
        | FillWorking \<Rightarrow> ta\<lparr>ta_working := ta_working ta + 1, ta_MBps := f_add (ta_MBps ta) (v_MBps vm),
            ta_silent := (case v_AgentSeenAt vm of
               Some s \<Rightarrow> if t - s * ns_sec > agentSilenceLimit then silent_text t s vm else ta_silent ta
             | None \<Rightarrow> ta_silent ta)\<rparr>
        | FillUnset \<Rightarrow> ta)"

definition tally_of :: "run \<Rightarrow> int \<Rightarrow> managed_vm list \<Rightarrow> tally" where
  "tally_of r t cur = fold (tally_vm r t) cur no_tally"

text \<open>The loop's variables. The two maps are total: reading a missing key of a Go map gives the
  zero value, here the zero time and no attempt.\<close>

record fill_state =
  fs_bootAt :: "string \<Rightarrow> int"
  fs_bootTries :: "string \<Rightarrow> nat"
  fs_writeStart :: "int option"
  fs_lastProgress :: int
  fs_prevWritten :: int

definition zero_time :: int where "zero_time = - 62135596800 * ns_sec"

definition init_fill :: "int \<Rightarrow> managed_vm list \<Rightarrow> fill_state" where
  "init_fill start vms = \<lparr>fs_bootAt = (\<lambda>i. if i \<in> set (map v_ID vms) then start else zero_time),
     fs_bootTries = (\<lambda>i. if i \<in> set (map v_ID vms) then 1 else 0),
     fs_writeStart = None, fs_lastProgress = start, fs_prevWritten = 0\<rparr>"

text \<open>The boot watchdog's turn for one pending VM.\<close>

definition seen_since :: "int \<Rightarrow> managed_vm \<Rightarrow> bool" where
  "seen_since boot vm = (case v_AgentSeenAt vm of None \<Rightarrow> False | Some s \<Rightarrow> s * ns_sec > boot)"

definition no_boot_msg :: "nat \<Rightarrow> string" where
  "no_boot_msg tries = ''agent never registered after '' @ itoa_nat tries @ '' boot attempts '' @ em_dash
     @ '' check the VM console''"

definition watch_one :: "'h driver \<Rightarrow> int \<Rightarrow> managed_vm \<Rightarrow> fill_state \<Rightarrow> ('h orch, fill_state) prog" where
  "watch_one drv t vm fs = (let i = v_ID vm in
     if seen_since (fs_bootAt fs i) vm then ret fs
     else if t - fs_bootAt fs i < bootTimeout then ret fs
     else if fs_bootTries fs i \<ge> maxBootAttempts
     then seq (ignore (db (FailFillVM i (no_boot_msg (fs_bootTries fs i))))) (\<lambda>_. ret fs)
     else seq (powerCycle drv vm) (\<lambda>_. ret (fs\<lparr>fs_bootAt := (fs_bootAt fs)(i := t),
            fs_bootTries := (fs_bootTries fs)(i := fs_bootTries fs i + 1), fs_lastProgress := t\<rparr>)))"

definition failFillWithStats :: "run \<Rightarrow> string \<Rightarrow> tally \<Rightarrow> nat \<Rightarrow> int \<Rightarrow> ('h orch, unit) prog" where
  "failFillWithStats r msg ta n dur = ignore (db (FinishRun (r_ID r) RunFailed (JObj
     [(''bytesWritten'', JInt (ta_written ta)), (''durationSec'', JFloat (round1 (seconds dur))), (''error'', JStr msg),
      (''vmsDone'', JInt (int (ta_done ta))), (''vmsFailed'', JInt (int (ta_failed ta))), (''vmsTotal'', JInt (int n))])))"

definition publishFillStats :: "run \<Rightarrow> tally \<Rightarrow> nat \<Rightarrow> int \<Rightarrow> ('h orch, unit) prog" where
  "publishFillStats r ta n dur = ignore (db (SetRunStats (r_ID r) (JObj
     [(''aggMBps'', JFloat (round1 (ta_MBps ta))), (''bytesTotal'', JInt (ta_total ta)),
      (''bytesWritten'', JInt (ta_written ta)), (''durationSec'', JFloat (round1 (seconds dur))),
      (''vmsDone'', JInt (int (ta_done ta))), (''vmsFailed'', JInt (int (ta_failed ta))), (''vmsTotal'', JInt (int n))])))"

definition failure_reasons :: "run \<Rightarrow> managed_vm list \<Rightarrow> string list" where
  "failure_reasons r vms = map (\<lambda>vm. v_Name vm @ '': '' @ v_FillError vm)
     (filter (\<lambda>vm. v_FillRunID vm = r_ID r \<and> v_FillStatus vm = FillFailed) vms)"

definition finishFill :: "'h driver \<Rightarrow> deployment \<Rightarrow> run \<Rightarrow> managed_vm list \<Rightarrow> tally \<Rightarrow> int \<Rightarrow> ('h orch, unit) prog" where
  "finishFill drv d r vms ta dur =
     seq (applyAfterFill drv d vms) (\<lambda>_.
     let secs = seconds dur in
     if ta_failed ta > 0
     then ignore (db (FinishRun (r_ID r) RunFailed (JObj
        [(''bytesWritten'', JInt (ta_written ta)), (''durationSec'', JFloat (round1 secs)),
         (''error'', JStr (itoa_nat (ta_failed ta) @ ''/'' @ itoa_nat (length vms) @ '' VMs failed '' @ em_dash @ '' ''
            @ join ''; '' (failure_reasons r vms))),
         (''vmsDone'', JInt (int (ta_done ta))), (''vmsFailed'', JInt (int (ta_failed ta)))])))
     else let mbAvg = (if secs > 0 then f_div (f_div (f_of_int (ta_written ta)) (1024 * 1024)) secs else 0) in
       ignore (db (FinishRun (r_ID r) RunSucceeded (JObj
        [(''avgMBps'', JFloat (round1 mbAvg)), (''bytesWritten'', JInt (ta_written ta)),
         (''durationSec'', JFloat (round1 secs)), (''vmsDone'', JInt (int (ta_done ta)))]))))"

definition cancelFill :: "run \<Rightarrow> ('h orch, unit) prog" where
  "cancelFill r = seq (ignore (db (CancelUnfinishedFills (r_ID r)))) (\<lambda>_.
     ignore (db (FinishRun (r_ID r) RunCancelled (JObj [(''error'', JStr ''cancelled by user'')]))))"

definition give_up :: "'h driver \<Rightarrow> deployment \<Rightarrow> run \<Rightarrow> managed_vm list \<Rightarrow> tally \<Rightarrow> nat \<Rightarrow> int \<Rightarrow> string
    \<Rightarrow> ('h orch, fill_state option) prog" where
  "give_up drv d r cur ta n dur msg =
     seq (failFillWithStats r msg ta n dur) (\<lambda>_. seq (applyAfterFill drv d cur) (\<lambda>_. ret None))"

definition silent_msg :: "tally \<Rightarrow> string" where
  "silent_msg ta = ''agent went silent: '' @ ta_silent ta @ '' '' @ em_dash
     @ '' check the VM'' @ [CHR 0x27] @ ''s console.log on the datastore''"

definition stall_msg :: "tally \<Rightarrow> string" where
  "stall_msg ta = (if ta_pending ta = []
     then ''fill stalled: no VM progressed for 10m0s '' @ em_dash @ '' check VM boot / agent registration on the console''
     else ''fill stalled: no VM progressed for 10m0s; never started: '' @ join '', '' (map v_Name (ta_pending ta)))"

definition timeout_msg :: "tally \<Rightarrow> nat \<Rightarrow> string" where
  "timeout_msg ta n = ''fill timed out after 12h0m0s ('' @ itoa_nat (ta_done ta) @ ''/'' @ itoa_nat n @ '' VMs done)''"

text \<open>The body of the loop after the wait, at the instant \<open>t\<close>: \<open>None\<close> when it returns. First the
  two updates of the loop's variables.\<close>

definition progress_made :: "tally \<Rightarrow> int \<Rightarrow> fill_state \<Rightarrow> fill_state" where
  "progress_made ta t fs = fs\<lparr>fs_lastProgress := (if ta_working ta > 0 \<or> ta_written ta > fs_prevWritten fs
       then t else fs_lastProgress fs), fs_prevWritten := ta_written ta\<rparr>"

definition write_started :: "tally \<Rightarrow> int \<Rightarrow> fill_state \<Rightarrow> fill_state" where
  "write_started ta t fs = (if ta_written ta > 0 \<and> fs_writeStart fs = None then fs\<lparr>fs_writeStart := Some t\<rparr> else fs)"

text \<open>After the boot watchdog: silence, stall, publishing, completion and deadline.\<close>

definition poll_verdict :: "'h driver \<Rightarrow> deployment \<Rightarrow> run \<Rightarrow> nat \<Rightarrow> int \<Rightarrow> int \<Rightarrow> managed_vm list \<Rightarrow> tally \<Rightarrow> fill_state
    \<Rightarrow> ('h orch, fill_state option) prog" where
  "poll_verdict drv d r n start t cur ta fs =
     (if ta_silent ta \<noteq> '''' \<and> t - start > agentSilenceLimit
      then give_up drv d r cur ta n (t - start) (silent_msg ta)
      else (let fs = progress_made ta t fs in
        if t - fs_lastProgress fs > fillStallLimit
        then give_up drv d r cur ta n (t - start) (stall_msg ta)
        else (let fs = write_started ta t fs in
          seq (publishFillStats r ta n (t - start)) (\<lambda>_.
          seq (ignore (db (AddRunSample (r_ID r) (round1 (ta_MBps ta)) (ta_written ta)))) (\<lambda>_.
          if ta_done ta + ta_failed ta \<ge> n
          then seq (finishFill drv d r cur ta (case fs_writeStart fs of None \<Rightarrow> t - start | Some w \<Rightarrow> t - w)) (\<lambda>_. ret None)
          else if t > start + fillTimeout
          then give_up drv d r cur ta n (t - start) (timeout_msg ta n)
          else ret (Some fs))))))"

definition poll :: "'h driver \<Rightarrow> deployment \<Rightarrow> run \<Rightarrow> nat \<Rightarrow> int \<Rightarrow> int \<Rightarrow> fill_state
    \<Rightarrow> ('h orch, fill_state option) prog" where
  "poll drv d r n start t fs =
     attempt (db (ListManagedVMs (d_ID d))) (\<lambda>q. case q of
       Inl e \<Rightarrow> seq (failFill r e) (\<lambda>_. ret None)
     | Inr cur \<Rightarrow>
         let ta = tally_of r t cur in
         seq (fold_prog (ta_pending ta) (watch_one drv t) fs) (poll_verdict drv d r n start t cur ta))"

section \<open>The loop\<close>

record 'h tick =
  t_now :: int
  t_world :: "'h orch \<Rightarrow> 'h orch"
  t_done :: bool

definition clock :: "int \<Rightarrow> ('h orch, unit) prog" where
  "clock t = change (\<lambda>ob. ob\<lparr>o_store := (o_store ob)\<lparr>st_now := t div ns_sec\<rparr>\<rparr>)"

text \<open>Whether the loop returned within the given ticks.\<close>

fun fill_loop :: "'h driver \<Rightarrow> deployment \<Rightarrow> run \<Rightarrow> nat \<Rightarrow> int \<Rightarrow> 'h tick list \<Rightarrow> fill_state \<Rightarrow> ('h orch, bool) prog" where
  "fill_loop drv d r n start [] fs = ret False"
| "fill_loop drv d r n start (k # ks) fs =
     seq (change (t_world k)) (\<lambda>_. seq (clock (t_now k)) (\<lambda>_.
     if t_done k then seq (cancelFill r) (\<lambda>_. ret True)
     else seq (poll drv d r n start (t_now k) fs) (\<lambda>res. case res of
         None \<Rightarrow> ret True
       | Some fs \<Rightarrow> fill_loop drv d r n start ks fs)))"

definition runFill :: "'h env \<Rightarrow> deployment \<Rightarrow> run \<Rightarrow> managed_vm list \<Rightarrow> int \<Rightarrow> 'h tick list \<Rightarrow> ('h orch, bool) prog" where
  "runFill env d r vms start ks =
     seq (clock start) (\<lambda>_.
     seq (attempt (OpenDriver env (d_ConnectionID d)) (\<lambda>q. case q of
         Inl e \<Rightarrow> seq (failFill r (ErrWrap ''opening hypervisor connection: '' e)) (\<lambda>_. ret True)
       | Inr drv \<Rightarrow> seq (for_each vms (bootVM drv start)) (\<lambda>_.
           fill_loop drv d r (length vms) start ks (init_fill start vms)))) (\<lambda>ended.
     if ended then seq (release (d_ID d)) (\<lambda>_. ret True) else ret False))"

section \<open>Work orders for agents\<close>

definition perVMRateKBps :: "profile_spec \<Rightarrow> int" where
  "perVMRateKBps spec =
     (if RateLimitMBps spec \<le> 0 then 0
      else let par = (if MaxParallelVMs spec > 0 \<and> MaxParallelVMs spec < VMCount spec
                      then MaxParallelVMs spec else VMCount spec);
               par = (if par < 1 then 1 else par)
           in go_div (i64 (RateLimitMBps spec * 1024)) par)"

text \<open>The concurrency gate; the error of the count is dropped, and the count is then 0.\<close>

definition claim_slot :: "deployment \<Rightarrow> run \<Rightarrow> managed_vm \<Rightarrow> bool store_op" where
  "claim_slot d r vm =
     (let cap = MaxParallelVMs (d_Spec d) in
      seq (if cap > 0
           then attempt (CountFillStatus (r_ID r) FillWorking) (\<lambda>c.
             let working = (case c of Inl _ \<Rightarrow> 0 | Inr k \<Rightarrow> int k) in ret (working \<ge> cap))
           else ret False) (\<lambda>full.
      if full then ret False
      else seq (ignore (SetFillStatus (v_ID vm) FillWorking)) (\<lambda>_. ret True)))"

text \<open>\<open>None\<close> is the action "idle", \<open>Some\<close> the action "fill" with its work order.\<close>

definition WorkOrderForToken :: "managed_vm \<Rightarrow> work_order option store_op" where
  "WorkOrderForToken vm =
     (if v_FillRunID vm = '''' \<or> v_FillStatus vm = FillDone \<or> v_FillStatus vm = FillFailed then ret None
      else attempt (GetRun (v_FillRunID vm)) (\<lambda>q. case q of
        Inl _ \<Rightarrow> ret None
      | Inr r \<Rightarrow> if r_Status r \<noteq> RunRunning then ret None
          else attempt (GetDeployment (v_DeploymentID vm)) (\<lambda>q. case q of
            Inl _ \<Rightarrow> ret None
          | Inr d \<Rightarrow> seq (if v_FillStatus vm = FillPending then claim_slot d r vm else ret True) (\<lambda>go.
              if \<not> go then ret None
              else ret (Some ((BuildWorkOrder (d_ID d) (d_Name d) (r_ID r) (r_Type r) (v_Name vm) (d_Spec d))
                     \<lparr>wo_RateLimitKBps := perVMRateKBps (d_Spec d)\<rparr>))))))"

section \<open>The database invariant\<close>

lemma keeps_wf_StartFill [inv_intros]: "keeps (\<lambda>ob. db_wf (o_store ob)) (StartFill d rt)"
  unfolding StartFill_def needs_data_def by (intro inv_intros)

lemma keeps_wf_poll [inv_intros]:
  "keeps (\<lambda>ob. db_wf (o_store ob)) (bootVM drv t vm)" "keeps (\<lambda>ob. db_wf (o_store ob)) (poll drv d r n start t fs)"
  "keeps (\<lambda>ob. db_wf (o_store ob)) (cancelFill r)" "keeps (\<lambda>ob. db_wf (o_store ob)) (failFill r e)"
proof -
  show f: "keeps (\<lambda>ob. db_wf (o_store ob)) (failFill r e)" for r e unfolding failFill_def by (intro inv_intros)
  show "keeps (\<lambda>ob. db_wf (o_store ob)) (bootVM drv t vm)" unfolding bootVM_def powerCycle_def by (intro inv_intros)
  show "keeps (\<lambda>ob. db_wf (o_store ob)) (cancelFill r)" unfolding cancelFill_def by (intro inv_intros)
  have [inv_intros]: "keeps (\<lambda>ob. db_wf (o_store ob)) (poll_verdict drv d r n start t cur ta fs)" for cur ta fs
    unfolding poll_verdict_def give_up_def failFillWithStats_def finishFill_def publishFillStats_def applyAfterFill_def
    by (intro inv_intros)
  have [inv_intros]: "keeps (\<lambda>ob. db_wf (o_store ob)) (watch_one drv t v fs)" for v fs
    unfolding watch_one_def powerCycle_def by (intro inv_intros)
  show "keeps (\<lambda>ob. db_wf (o_store ob)) (poll drv d r n start t fs)"
    unfolding poll_def by (intro inv_intros f)
qed

lemma keeps_wf_WorkOrder [inv_intros]: "keeps db_wf (WorkOrderForToken vm)"
  unfolding WorkOrderForToken_def claim_slot_def by (intro inv_intros)

end
