(* ===== verification/Reconciling.thy ===== *)
theory Reconciling
  imports Orchestrator
begin

text \<open>
  What the deploy and teardown jobs of \<open>internal/orch/orchestrator.go\<close> achieve: a successful
  reconcile leaves every VM of the effective config recorded in its shape and is then a
  no-op; a teardown removes records only after their VMs. What the jobs do on the platform
  is proved once inside the hypervisor contract and read off for the in-memory driver.
\<close>

section \<open>Reads\<close>

text \<open>Reading statements change nothing but the pending faults.\<close>

definition fault_free :: "(store \<Rightarrow> bool) \<Rightarrow> bool" where
  "fault_free I \<longleftrightarrow> (\<forall>s. I s \<longrightarrow> I (pop_fault s))"

lemma keeps_read [inv_intros]:
  "fault_free I \<Longrightarrow> keeps I (sql_select q)" "fault_free I \<Longrightarrow> keeps I (query_row tbl p)"
  by (auto simp: fault_free_def keeps_def eval_simps split: option.splits)

lemma keeps_lists [inv_intros]:
  "fault_free I \<Longrightarrow> keeps I (ListManagedVMs i)" "fault_free I \<Longrightarrow> keeps I (GetDeployment i)"
  unfolding ListManagedVMs_def GetDeployment_def by (auto intro: keeps_read)

abbreviation vms_in :: "'h orch \<times> job_stats \<Rightarrow> managed_vm list" where
  "vms_in x \<equiv> st_vms (o_store (fst x))"

lemma fault_free_vms: "fault_free (\<lambda>s. st_vms s = V)"
  by (simp add: fault_free_def)

lemma keeps_vms_find: "keeps (\<lambda>ob. st_vms (o_store ob) = V) (findConflicts d drv recorded)"
proof -
  note [inv_intros] = keeps_db [where I = "\<lambda>s. st_vms s = V"] keeps_hv_store [where I = "\<lambda>s. st_vms s = V"] fault_free_vms
  show ?thesis unfolding findConflicts_def conflict_of_def by (intro inv_intros)
qed

lemma keeps_vms_resolve: "keeps (\<lambda>x. vms_in x = V) (resolve drv c cs)"
proof -
  note [inv_intros] = keeps_jlift [where J = "\<lambda>ob. st_vms (o_store ob) = V"]
    keeps_hv_store [where I = "\<lambda>s. st_vms s = V"] keeps_bump [where J = "\<lambda>ob. st_vms (o_store ob) = V"]
  show ?thesis unfolding resolve_def by (intro inv_intros)
qed

lemma list_read:
  "jdb (ListManagedVMs i) x = (Inr vms, x') \<Longrightarrow> vms = vms_of i (o_store (fst x)) \<and> vms_in x' = vms_in x \<and> snd x' = snd x
    \<and> o_hv (fst x') = o_hv (fst x)"
  by (cases x) (auto simp: jlift_eq db_eq ListManagedVMs_def vms_of_def split: prod.splits dest!: sql_select_InrD)

section \<open>Creating the missing VMs\<close>

definition in_shape :: "profile_spec \<Rightarrow> managed_vm \<Rightarrow> bool" where
  "in_shape s v \<longleftrightarrow> v_DiskCount v = DisksPerVM s \<and> v_DiskSizeGiB v = DiskSizeGiB s"

lemma AddManagedVM_InrD:
  assumes "AddManagedVM v s = (Inr x, t)"
  shows "\<exists>r. st_vms t = st_vms s @ [r] \<and> v_Name r = v_Name v \<and> v_DeploymentID r = v_DeploymentID v
    \<and> v_Ref r = v_Ref v \<and> v_DiskCount r = v_DiskCount v \<and> v_DiskSizeGiB r = v_DiskSizeGiB v"
  using assms by (auto simp: AddManagedVM_def insert_vm_def dest!: sql_insert_InrD)

lemma create_one_InrD:
  assumes "create_one d drv i fe x = (Inr None, x')"
  shows "fe = None \<and> (\<exists>r. vms_in x' = vms_in x @ [r] \<and> v_Name r = VMName (d_Spec d) i
    \<and> v_DeploymentID r = d_ID d \<and> in_shape (d_Spec d) r)"
proof -
  obtain ob js where x: "x = (ob, js)" by fastforce
  obtain q h where c: "CreateVM drv (create_spec d i) (o_hv ob) = (q, h)" by fastforce
  show ?thesis
  proof (cases q)
    case (Inl e)
    with assms show ?thesis
      by (auto simp: x create_one_def Let_def attempt_def jlift_eq hv_eq c ret_def split: if_splits)
  next
    case (Inr ref)
    obtain g h2 where g: "GetVM drv ref h = (g, h2)" by fastforce
    let ?mac = "case g of Inr (Some vm) \<Rightarrow> h_MAC vm | _ \<Rightarrow> ''''"
    obtain a s where a: "AddManagedVM (new_managed_vm d (VMName (d_Spec d) i) ref ?mac) (o_store ob) = (a, s)" by fastforce
    from assms have "fe = None \<and> (\<exists>y. a = Inr y) \<and> vms_in x' = st_vms s"
      by (cases a; cases fe)
        (auto simp: x create_one_def Let_def attempt_def jlift_eq hv_eq db_eq c g a Inr ret_def seq_eq)
    moreover from this a have "\<exists>r. st_vms s = st_vms (o_store ob) @ [r] \<and> v_Name r = VMName (d_Spec d) i
        \<and> v_DeploymentID r = d_ID d \<and> in_shape (d_Spec d) r"
      by (auto simp: new_managed_vm_def in_shape_def dest!: AddManagedVM_InrD)
    ultimately show ?thesis by (simp add: x)
  qed
qed

lemma create_all_InrD:
  assumes "fold_prog is (create_one d drv) fe x = (Inr None, x')"
  shows "\<exists>rows. vms_in x' = vms_in x @ rows \<and> map v_Name rows = map (VMName (d_Spec d)) is
    \<and> (\<forall>r \<in> set rows. v_DeploymentID r = d_ID d \<and> in_shape (d_Spec d) r)"
proof -
  have "fe = None \<and> ?thesis" if "fold_prog is (create_one d drv) fe x = (Inr None, x')" for fe
    using that
  proof (induction "is" arbitrary: x fe)
    case Nil
    then show ?case by (auto simp: ret_def)
  next
    case (Cons i "is")
    from Cons.prems obtain fe1 x1 where s: "create_one d drv i fe x = (Inr fe1, x1)"
      and r: "fold_prog is (create_one d drv) fe1 x1 = (Inr None, x')"
      by (auto elim: seq_InrE)
    from Cons.IH [OF r] obtain rows where "fe1 = None" "vms_in x' = vms_in x1 @ rows"
      "map v_Name rows = map (VMName (d_Spec d)) is" "\<forall>r \<in> set rows. v_DeploymentID r = d_ID d \<and> in_shape (d_Spec d) r"
      by blast
    with create_one_InrD [of d drv i fe x x1] s obtain r where "fe = None" "vms_in x' = vms_in x @ r # rows"
      "v_Name r = VMName (d_Spec d) i" "v_DeploymentID r = d_ID d" "in_shape (d_Spec d) r" by auto
    then show ?case
      using \<open>map v_Name rows = _\<close> \<open>\<forall>r \<in> set rows. _\<close> by (intro conjI exI [of _ "r # rows"]) auto
  qed
  then show ?thesis using assms by blast
qed

section \<open>Growing the existing VMs\<close>

definition reshape :: "profile_spec \<Rightarrow> managed_vm \<Rightarrow> managed_vm" where
  "reshape s v = v\<lparr>v_DiskCount := DisksPerVM s, v_DiskSizeGiB := DiskSizeGiB s\<rparr>"

lemma jhv_InrD: "jhv m x = (r, x') \<Longrightarrow> vms_in x' = vms_in x"
  by (cases x) (auto simp: jlift_eq hv_eq split: prod.splits)

lemma bump_InrD: "bump f x = (r, x') \<Longrightarrow> vms_in x' = vms_in x"
  by (cases x) auto

lemma UpdateDisks_InrD:
  "jdb (UpdateManagedVMDisks i n g) x = (Inr y, x') \<Longrightarrow>
    vms_in x' = update_where (\<lambda>v. v_ID v = i) (\<lambda>v. v\<lparr>v_DiskCount := n, v_DiskSizeGiB := g\<rparr>) (vms_in x)"
  by (cases x) (auto simp: jlift_eq db_eq UpdateManagedVMDisks_def split: prod.splits dest!: stmt_InrD)

lemma grow_one_InrD:
  assumes "grow_one d drv vm x = (Inr u, x')"
  shows "vms_in x' = (if in_shape (d_Spec d) vm then vms_in x
    else update_where (\<lambda>v. v_ID v = v_ID vm) (reshape (d_Spec d)) (vms_in x))"
  using assms unfolding grow_one_def Let_def in_shape_def reshape_def
  by (auto elim!: seq_InrE dest!: wrap_InrD jhv_InrD bump_InrD UpdateDisks_InrD simp: ret_def split: if_splits)

lemma grow_all_InrD:
  assumes "for_each vms (grow_one d drv) x = (Inr u, x')"
  shows "vms_in x' = map (\<lambda>v. if \<exists>w \<in> set vms. v_ID w = v_ID v \<and> \<not> in_shape (d_Spec d) w
    then reshape (d_Spec d) v else v) (vms_in x)"
  using assms
proof (induction vms arbitrary: x)
  case Nil
  then show ?case by (simp add: ret_def)
next
  case (Cons w vms)
  then obtain y x1 where s: "grow_one d drv w x = (Inr y, x1)" and r: "for_each vms (grow_one d drv) x1 = (Inr u, x')"
    by (auto elim: seq_InrE)
  show ?case
    unfolding Cons.IH [OF r] grow_one_InrD [OF s] by (auto simp: update_where_def reshape_def)
qed

lemma reconcile_stages:
  assumes "reconcileCore ord c d drv x = (Inr u, y)"
  shows "\<exists>x1 cs x2 x3 x4. let actual = vms_of (d_ID d) (o_store (fst x)) in
      jdb (ListManagedVMs (d_ID d)) x = (Inr actual, x1)
    \<and> jlift (findConflicts d drv (set (map v_Name actual))) x1 = (Inr cs, x2)
    \<and> resolve drv c cs x2 = (Inr (), x3)
    \<and> fold_prog (ord (missing d actual)) (create_one d drv) None x3 = (Inr None, x4)
    \<and> for_each actual (grow_one d drv) x4 = (Inr (), y)"
proof -
  obtain vms x1 where l: "jdb (ListManagedVMs (d_ID d)) x = (Inr vms, x1)"
    and rest: "seq (wrap ''checking for conflicting VMs: '' (jlift (findConflicts d drv (set (map v_Name vms))))) (\<lambda>conflicts.
     seq (resolve drv c conflicts) (\<lambda>_.
     seq (fold_prog (ord (missing d vms)) (create_one d drv) None) (\<lambda>firstErr.
     case firstErr of Some e \<Rightarrow> fail e | None \<Rightarrow> for_each vms (grow_one d drv)))) x1 = (Inr u, y)"
    using assms unfolding reconcileCore_def by (rule seq_InrE)
  have "vms = vms_of (d_ID d) (o_store (fst x))" using list_read [OF l] by simp
  with l rest show ?thesis
    by (auto elim!: seq_InrE dest!: wrap_InrD simp: fail_def Let_def split: option.splits)
qed

text \<open>The table after a reconcile: the old rows \<open>V\<close> and the new ones, with the ones that were not in
  shape reshaped. \<open>actual\<close> is what the deployment had of \<open>V\<close>.\<close>

definition reshaped :: "profile_spec \<Rightarrow> managed_vm list \<Rightarrow> managed_vm \<Rightarrow> managed_vm" where
  "reshaped spec actual v = (if \<exists>w \<in> set actual. v_ID w = v_ID v \<and> \<not> in_shape spec w then reshape spec v else v)"

lemma reshaped_key [simp]:
  "v_ID (reshaped spec actual v) = v_ID v" "v_Name (reshaped spec actual v) = v_Name v"
  "v_DeploymentID (reshaped spec actual v) = v_DeploymentID v"
  by (simp_all add: reshaped_def reshape_def)

lemma reshaped_in_shape:
  assumes "in_shape spec v \<or> v \<in> set actual"
  shows "in_shape spec (reshaped spec actual v)"
  using assms by (cases "in_shape spec v") (auto simp: reshaped_def reshape_def in_shape_def)

lemma reshaped_others:
  assumes act: "set actual = {v \<in> set V. v_DeploymentID v = dep}" and ids: "distinct (map v_ID V)"
    and rows: "\<forall>r \<in> set rows. v_DeploymentID r = dep"
  shows "filter (\<lambda>v. v_DeploymentID v \<noteq> dep) (map (reshaped spec actual) (V @ rows)) = filter (\<lambda>v. v_DeploymentID v \<noteq> dep) V"
proof -
  have same: "reshaped spec actual v = v" if "v \<in> set V" "v_DeploymentID v \<noteq> dep" for v
    using distinct_key_eq [OF ids] that act by (auto simp: reshaped_def)
  have "filter (\<lambda>v. v_DeploymentID v \<noteq> dep) (map (reshaped spec actual) (V @ rows))
      = map (reshaped spec actual) (filter (\<lambda>v. v_DeploymentID v \<noteq> dep) (V @ rows))"
    by (simp add: filter_map comp_def)
  also have "filter (\<lambda>v. v_DeploymentID v \<noteq> dep) (V @ rows) = filter (\<lambda>v. v_DeploymentID v \<noteq> dep) V"
    using rows by (auto simp: filter_empty_conv)
  also have "map (reshaped spec actual) (filter (\<lambda>v. v_DeploymentID v \<noteq> dep) V) = filter (\<lambda>v. v_DeploymentID v \<noteq> dep) V"
    by (rule map_idI) (rule same, auto)
  finally show ?thesis .
qed

lemma reconcile_post:
  assumes wf: "db_wf (o_store ob)" and ord: "\<And>xs. set (ord xs) = set xs"
    and run: "reconcileCore ord c d drv (ob, js) = (Inr (), (ob', js'))"
  shows "\<forall>i \<in> {1..VMCount (d_Spec d)}. \<exists>v \<in> set (st_vms (o_store ob')).
        v_DeploymentID v = d_ID d \<and> v_Name v = VMName (d_Spec d) i"
    and "\<forall>v \<in> set (st_vms (o_store ob')). v_DeploymentID v = d_ID d \<longrightarrow> in_shape (d_Spec d) v"
    and "set (map v_ID (st_vms (o_store ob))) \<subseteq> set (map v_ID (st_vms (o_store ob')))"
    and "filter (\<lambda>v. v_DeploymentID v \<noteq> d_ID d) (st_vms (o_store ob'))
        = filter (\<lambda>v. v_DeploymentID v \<noteq> d_ID d) (st_vms (o_store ob))"
proof -
  let ?s = "d_Spec d" and ?V = "st_vms (o_store ob)"
  let ?actual = "vms_of (d_ID d) (o_store ob)"
  have act: "set ?actual = {v \<in> set ?V. v_DeploymentID v = d_ID d}" by (auto simp: vms_of_def)
  from run obtain x1 cs x2 x3 x4 where
    l: "jdb (ListManagedVMs (d_ID d)) (ob, js) = (Inr ?actual, x1)"
    and f: "jlift (findConflicts d drv (set (map v_Name ?actual))) x1 = (Inr cs, x2)"
    and r: "resolve drv c cs x2 = (Inr (), x3)"
    and cr: "fold_prog (ord (missing d ?actual)) (create_one d drv) None x3 = (Inr None, x4)"
    and g: "for_each ?actual (grow_one d drv) x4 = (Inr (), (ob', js'))"
    using reconcile_stages [OF run] by (auto simp: Let_def)
  have V1: "vms_in x1 = ?V" using list_read [OF l] by simp
  have V2: "vms_in x2 = ?V"
    using keepsD [OF keeps_jlift [OF keeps_vms_find] V1, of d drv "set (map v_Name ?actual)"] unfolding f by simp
  have V3: "vms_in x3 = ?V"
    using keepsD [OF keeps_vms_resolve V2, of drv c cs] unfolding r by simp
  obtain rows where V4: "vms_in x4 = ?V @ rows"
    and names: "map v_Name rows = map (VMName ?s) (ord (missing d ?actual))"
    and rows: "\<forall>r \<in> set rows. v_DeploymentID r = d_ID d \<and> in_shape ?s r"
    using create_all_InrD [OF cr] unfolding V3 by blast
  let ?g = "reshaped ?s ?actual"
  have V': "st_vms (o_store ob') = map ?g (?V @ rows)"
    using grow_all_InrD [OF g] unfolding V4 reshaped_def [abs_def] by simp
  have E: "\<exists>v \<in> set (?V @ rows). v_DeploymentID v = d_ID d \<and> v_Name v = VMName ?s i" if "i \<in> {1..VMCount ?s}" for i
  proof (cases "VMName ?s i \<in> set (map v_Name ?actual)")
    case True
    then show ?thesis using act by auto
  next
    case False
    then have "VMName ?s i \<in> set (map v_Name rows)" unfolding names using that ord by (auto simp: missing_def)
    then show ?thesis using rows by auto
  qed
  show "\<forall>i \<in> {1..VMCount (d_Spec d)}. \<exists>v \<in> set (st_vms (o_store ob')).
        v_DeploymentID v = d_ID d \<and> v_Name v = VMName (d_Spec d) i" unfolding V'
  proof
    fix i assume "i \<in> {1..VMCount ?s}"
    from E [OF this] obtain v where "v \<in> set (?V @ rows)" "v_DeploymentID v = d_ID d \<and> v_Name v = VMName ?s i" by blast
    then show "\<exists>v \<in> set (map ?g (?V @ rows)). v_DeploymentID v = d_ID d \<and> v_Name v = VMName ?s i"
      by (intro bexI [of _ "?g v"]) auto
  qed
  have "in_shape ?s (?g v)" if "v \<in> set (?V @ rows)" "v_DeploymentID v = d_ID d" for v
    using that act rows by (intro reshaped_in_shape) auto
  then show "\<forall>v \<in> set (st_vms (o_store ob')). v_DeploymentID v = d_ID d \<longrightarrow> in_shape (d_Spec d) v"
    unfolding V' by auto
  show "set (map v_ID (st_vms (o_store ob))) \<subseteq> set (map v_ID (st_vms (o_store ob')))" unfolding V' by (auto simp: image_iff)
  show "filter (\<lambda>v. v_DeploymentID v \<noteq> d_ID d) (st_vms (o_store ob'))
        = filter (\<lambda>v. v_DeploymentID v \<noteq> d_ID d) (st_vms (o_store ob))"
    unfolding V' using db_wfD(6) [OF wf] rows by (intro reshaped_others [OF act]) (auto simp: vms_unique_def)
qed

text \<open>
  C9. When a deploy or scale-up job succeeds, in whatever order its creations ran, every VM
  name of the effective config is recorded for the deployment, every VM recorded for it has
  the disk count and size of the config, no record is lost, and the VMs of other
  deployments are exactly as before.
\<close>

theorem reconcile_success:
  assumes wf: "db_wf (o_store ob)" and ord: "\<And>xs. set (ord xs) = set xs"
    and run: "reconcileCore ord c d drv (ob, js) = (Inr (), (ob', js'))"
  shows "(\<forall>i \<in> {1..VMCount (d_Spec d)}. \<exists>v \<in> set (st_vms (o_store ob')).
        v_DeploymentID v = d_ID d \<and> v_Name v = VMName (d_Spec d) i)
    \<and> (\<forall>v \<in> set (st_vms (o_store ob')). v_DeploymentID v = d_ID d \<longrightarrow> in_shape (d_Spec d) v)
    \<and> set (map v_ID (st_vms (o_store ob))) \<subseteq> set (map v_ID (st_vms (o_store ob')))
    \<and> filter (\<lambda>v. v_DeploymentID v \<noteq> d_ID d) (st_vms (o_store ob'))
        = filter (\<lambda>v. v_DeploymentID v \<noteq> d_ID d) (st_vms (o_store ob))"
  using reconcile_post [OF assms] by blast

text \<open>The deployment of the demonstration database, and a controller with an empty platform.\<close>

definition fleet_dep :: deployment where
  "fleet_dep = demo_dep\<lparr>d_ID := demo_rand 1, d_Status := DeploymentNew\<rparr>"

definition demo_orch :: "fake orch" where
  "demo_orch = \<lparr>o_store = fleet_store, o_hv = New, o_active = Map.empty, o_jobs = []\<rparr>"

lemma demo_reconcile: "fst (reconcileCore (\<lambda>xs. xs) OnConflictAbort fleet_dep fake_driver (demo_orch, no_stats)) = Inr ()"
  by code_simp

theorem reconcile_success_witness:
  "\<exists>ob' js'. reconcileCore (\<lambda>xs. xs) OnConflictAbort fleet_dep fake_driver (demo_orch, no_stats) = (Inr (), (ob', js'))
    \<and> (\<forall>v \<in> set (st_vms (o_store ob')). v_DeploymentID v = demo_rand 1 \<longrightarrow> v_DiskCount v = 2)"
proof -
  obtain ob' js' where run: "reconcileCore (\<lambda>xs. xs) OnConflictAbort fleet_dep fake_driver (demo_orch, no_stats) = (Inr (), (ob', js'))"
    using demo_reconcile by (metis prod.collapse)
  have "db_wf (o_store demo_orch)" by (simp add: demo_orch_def fleet_store_wf)
  from reconcile_success [OF this _ run] run show ?thesis
    by (auto simp: in_shape_def fleet_dep_def demo_dep_def sample_spec_def)
qed

section \<open>Convergence\<close>

lemma reconcile_noop:
  assumes nf: "st_faults (o_store ob) = []" and ord: "ord [] = []"
    and names: "\<forall>i \<in> {1..VMCount (d_Spec d)}. VMName (d_Spec d) i \<in> set (map v_Name (vms_of (d_ID d) (o_store ob)))"
    and shape: "\<forall>v \<in> set (vms_of (d_ID d) (o_store ob)). in_shape (d_Spec d) v"
  shows "reconcileCore ord c d drv (ob, js) = (Inr (), (ob, js))"
proof -
  let ?actual = "vms_of (d_ID d) (o_store ob)"
  have "missing d ?actual = []" using names by (auto simp: missing_def filter_empty_conv)
  moreover have "filter (\<lambda>n. n \<notin> set (map v_Name ?actual)) (target_names d) = []"
    using names by (auto simp: target_names_def filter_empty_conv)
  moreover have "for_each vms (grow_one d drv) x = (Inr (), x)" if "set vms \<subseteq> set ?actual" for vms x
    using that
  proof (induction vms)
    case (Cons v vms)
    then have "in_shape (d_Spec d) v" using shape by auto
    then have "grow_one d drv v x = (Inr (), x)" by (simp add: grow_one_def in_shape_def ret_def)
    with Cons show ?case by (simp add: seq_eq)
  qed (simp add: ret_def)
  moreover have "jdb (ListManagedVMs (d_ID d)) (ob, js) = (Inr ?actual, (ob, js))"
    using nf by (simp add: jlift_eq db_eq ListManagedVMs_def sql_select_def look_def)
  ultimately show ?thesis
    using ord by (simp add: reconcileCore_def seq_eq findConflicts_def wrap_def attempt_def jlift_eq ret_def resolve_def)
qed

text \<open>
  C10. Deploying converges: once a reconcile has succeeded, running it again (as a resumed or
  repeated job does) succeeds at once and changes nothing, neither in the database nor on
  the platform nor in the job's statistics.
\<close>

theorem reconcile_converges:
  assumes wf: "db_wf (o_store ob)" and ord: "\<And>xs. set (ord xs) = set xs"
    and run: "reconcileCore ord c d drv (ob, js) = (Inr (), (ob', js'))" and nf: "st_faults (o_store ob') = []"
  shows "reconcileCore ord c' d drv (ob', js'') = (Inr (), (ob', js''))"
proof (rule reconcile_noop [OF nf])
  show "ord [] = []" using ord [of "[]"] by simp
  have *: "set (vms_of (d_ID d) (o_store ob')) = {v \<in> set (st_vms (o_store ob')). v_DeploymentID v = d_ID d}"
    by (auto simp: vms_of_def)
  note post = reconcile_post [OF wf ord run]
  show "\<forall>i \<in> {1..VMCount (d_Spec d)}. VMName (d_Spec d) i \<in> set (map v_Name (vms_of (d_ID d) (o_store ob')))"
    using post(1) * by force
  show "\<forall>v \<in> set (vms_of (d_ID d) (o_store ob')). in_shape (d_Spec d) v"
    using post(2) * by auto
qed

lemma demo_reconcile_faults:
  "st_faults (o_store (fst (snd (reconcileCore (\<lambda>xs. xs) OnConflictAbort fleet_dep fake_driver (demo_orch, no_stats))))) = []"
  by code_simp

theorem reconcile_converges_witness:
  "let x = snd (reconcileCore (\<lambda>xs. xs) OnConflictAbort fleet_dep fake_driver (demo_orch, no_stats)) in
     reconcileCore (\<lambda>xs. xs) OnConflictAbort fleet_dep fake_driver (fst x, no_stats) = (Inr (), (fst x, no_stats))"
proof -
  obtain ob' js' where run: "reconcileCore (\<lambda>xs. xs) OnConflictAbort fleet_dep fake_driver (demo_orch, no_stats) = (Inr (), (ob', js'))"
    using demo_reconcile by (metis prod.collapse)
  have "db_wf (o_store demo_orch)" by (simp add: demo_orch_def fleet_store_wf)
  from reconcile_converges [OF this _ run, of OnConflictAbort no_stats] demo_reconcile_faults run show ?thesis
    by simp
qed

section \<open>What the jobs do on the platform\<close>

lemma jlift_hv: "jhv m x = (r, x') \<Longrightarrow>
    m (o_hv (fst x)) = (r, o_hv (fst x')) \<and> o_store (fst x') = o_store (fst x) \<and> snd x' = snd x"
  by (cases x) (auto simp: jlift_eq hv_eq split: prod.splits)

lemma jlift_db: "jdb m x = (r, x') \<Longrightarrow>
    m (o_store (fst x)) = (r, o_store (fst x')) \<and> o_hv (fst x') = o_hv (fst x) \<and> snd x' = snd x"
  by (cases x) (auto simp: jlift_eq db_eq split: prod.splits)

lemma DeleteManagedVM_cases:
  "DeleteManagedVM i s = (r, s') \<Longrightarrow> (r = Inr () \<and> st_vms s' = filter (\<lambda>v. v_ID v \<noteq> i) (st_vms s))
     \<or> ((\<exists>e. r = Inl e) \<and> st_vms s' = st_vms s)"
  by (auto simp: DeleteManagedVM_def eval_simps delete_where_def split: if_splits)

context hypervisor_contract
begin

text \<open>One VM's turn in the teardown loop.\<close>

definition tear_one :: "managed_vm \<Rightarrow> ('h, unit) jprog" where
  "tear_one vm = seq (wrap (''deleting VM '' @ v_Name vm @ '': '') (jhv (DeleteVM drv (v_Ref vm)))) (\<lambda>_.
       seq (jdb (DeleteManagedVM (v_ID vm))) (\<lambda>_.
       bump (\<lambda>js. js\<lparr>js_VMsDeleted := js_VMsDeleted js + 1\<rparr>)))"

lemma tear_one_cases:
  assumes run: "tear_one vm x = (r, x')" and ok: "ok (o_hv (fst x))"
  shows "ok (o_hv (fst x')) \<and> only_at (v_Ref vm) (inv (o_hv (fst x))) (inv (o_hv (fst x')))
    \<and> (inv (o_hv (fst x')) (v_Ref vm) = None \<or> same_vm (inv (o_hv (fst x)) (v_Ref vm)) (inv (o_hv (fst x')) (v_Ref vm)))
    \<and> (case r of Inl _ \<Rightarrow> vms_in x' = vms_in x
       | Inr _ \<Rightarrow> vms_in x' = filter (\<lambda>v. v_ID v \<noteq> v_ID vm) (vms_in x) \<and> inv (o_hv (fst x')) (v_Ref vm) = None)"
proof -
  obtain q y where w: "wrap (''deleting VM '' @ v_Name vm @ '': '') (jhv (DeleteVM drv (v_Ref vm))) x = (q, y)" by (rule prod.exhaust)
  from wrap_cases [OF w] obtain p where d: "jhv (DeleteVM drv (v_Ref vm)) x = (p, y)"
    and pq: "case p of Inl e \<Rightarrow> q = Inl (ErrWrap (''deleting VM '' @ v_Name vm @ '': '') e) | Inr z \<Rightarrow> q = Inr z" by blast
  note law = DeleteVM_law [OF ok, of "v_Ref vm" p "o_hv (fst y)"] jlift_hv [OF d]
  show ?thesis
  proof (cases p)
    case (Inl e)
    then have "r = Inl (ErrWrap (''deleting VM '' @ v_Name vm @ '': '') e)" "x' = y"
      using run w pq by (auto simp: tear_one_def seq_eq)
    then show ?thesis using law by simp
  next
    case (Inr u)
    obtain a z where a: "jdb (DeleteManagedVM (v_ID vm)) y = (a, z)" by (rule prod.exhaust)
    note dm = DeleteManagedVM_cases [OF conjunct1 [OF jlift_db [OF a]]] jlift_db [OF a]
    have "r = (case a of Inl e \<Rightarrow> Inl e | Inr _ \<Rightarrow> Inr ())" "o_hv (fst x') = o_hv (fst z)" "vms_in x' = vms_in z"
      using run w pq Inr a
      by (cases a; cases z; auto simp: tear_one_def seq_eq)+
    then show ?thesis using law Inr dm by (auto split: sum.splits)
  qed
qed

lemma tear_all_cases:
  assumes "for_each vms tear_one x = (r, x')" and "ok (o_hv (fst x))"
  shows "\<exists>k \<le> length vms.
      vms_in x' = filter (\<lambda>v. v_ID v \<notin> set (map v_ID (take k vms))) (vms_in x)
    \<and> (\<forall>v \<in> set (take k vms). inv (o_hv (fst x')) (v_Ref v) = None)
    \<and> (\<forall>q. inv (o_hv (fst x)) q = None \<longrightarrow> inv (o_hv (fst x')) q = None)
    \<and> (\<forall>q. q \<notin> v_Ref ` set vms \<longrightarrow> inv (o_hv (fst x')) q = inv (o_hv (fst x)) q)
    \<and> (r = Inr () \<longrightarrow> k = length vms)"
  using assms
proof (induction vms arbitrary: x)
  case Nil
  then show ?case by (auto simp: ret_def)
next
  case (Cons vm vms)
  obtain q y where t: "tear_one vm x = (q, y)" by (rule prod.exhaust)
  note one = tear_one_cases [OF t Cons.prems(2)]
  show ?case
  proof (cases q)
    case (Inl e)
    then have "x' = y" "r = Inl e" using Cons.prems(1) t by (auto simp: seq_eq)
    moreover have "inv (o_hv (fst x)) q = None \<longrightarrow> inv (o_hv (fst y)) q = None" for q
      using one \<open>x' = y\<close> by (cases "q = v_Ref vm") (auto simp: only_at_def)
    ultimately show ?thesis using one Inl by (intro exI [of _ 0]) (auto simp: only_at_def)
  next
    case (Inr u)
    then have "for_each vms tear_one y = (r, x')" using Cons.prems(1) t by (auto simp: seq_eq)
    from Cons.IH [OF this conjunct1 [OF one]] obtain k where k: "k \<le> length vms"
      "vms_in x' = filter (\<lambda>v. v_ID v \<notin> set (map v_ID (take k vms))) (vms_in y)"
      "\<forall>v \<in> set (take k vms). inv (o_hv (fst x')) (v_Ref v) = None"
      "\<forall>q. inv (o_hv (fst y)) q = None \<longrightarrow> inv (o_hv (fst x')) q = None"
      "\<forall>q. q \<notin> v_Ref ` set vms \<longrightarrow> inv (o_hv (fst x')) q = inv (o_hv (fst y)) q"
      "r = Inr () \<longrightarrow> k = length vms" by blast
    have y: "vms_in y = filter (\<lambda>v. v_ID v \<noteq> v_ID vm) (vms_in x)" "inv (o_hv (fst y)) (v_Ref vm) = None"
      "\<And>q. q \<noteq> v_Ref vm \<Longrightarrow> inv (o_hv (fst y)) q = inv (o_hv (fst x)) q"
      using one Inr by (auto simp: only_at_def)
    have "vms_in x' = filter (\<lambda>v. v_ID v \<notin> set (map v_ID (take (Suc k) (vm # vms)))) (vms_in x)"
      unfolding k(2) y(1) filter_filter by (rule filter_cong) auto
    moreover have "inv (o_hv (fst x)) q = None \<longrightarrow> inv (o_hv (fst x')) q = None" for q
      using k(4) y(2,3) by (cases "q = v_Ref vm") auto
    ultimately show ?thesis using k y
      by (intro exI [of _ "Suc k"]) auto
  qed
qed

lemma teardown_eq: "teardown d drv = seq (jdb (ListManagedVMs (d_ID d))) (\<lambda>vms. for_each vms tear_one)"
  by (simp add: teardown_def tear_one_def [abs_def])

lemma teardown_outcome:
  assumes run: "teardown d drv (ob, js) = (r, (ob', js'))" and ok: "ok (o_hv ob)"
  shows "\<exists>gone \<subseteq> set (vms_of (d_ID d) (o_store ob)).
      st_vms (o_store ob') = filter (\<lambda>v. v_ID v \<notin> v_ID ` gone) (st_vms (o_store ob))
    \<and> (\<forall>v \<in> gone. inv (o_hv ob') (v_Ref v) = None)
    \<and> (\<forall>q. q \<notin> v_Ref ` set (vms_of (d_ID d) (o_store ob)) \<longrightarrow> inv (o_hv ob') q = inv (o_hv ob) q)
    \<and> (r = Inr () \<longrightarrow> gone = set (vms_of (d_ID d) (o_store ob)))"
proof -
  obtain q y where l: "jdb (ListManagedVMs (d_ID d)) (ob, js) = (q, y)" by (rule prod.exhaust)
  note ly = jlift_db [OF l]
  show ?thesis
  proof (cases q)
    case (Inl e)
    then have "(ob', js') = y" "r = Inl e" using run l by (auto simp: teardown_eq seq_eq)
    moreover have "st_vms (o_store (fst y)) = st_vms (o_store ob)"
      using keepsD [OF keeps_lists(1) [OF fault_free_vms], of "o_store ob" _ "d_ID d"] ly by simp
    ultimately show ?thesis using ly by (intro exI [of _ "{}"]) auto
  next
    case (Inr vms)
    then have v: "vms = vms_of (d_ID d) (o_store ob)" "vms_in y = st_vms (o_store ob)"
      using list_read [of "d_ID d" "(ob, js)" vms y] l by auto
    have "for_each vms tear_one y = (r, (ob', js'))" using run l Inr by (auto simp: teardown_eq seq_eq)
    from tear_all_cases [OF this] obtain k where "k \<le> length vms"
      "st_vms (o_store ob') = filter (\<lambda>v. v_ID v \<notin> set (map v_ID (take k vms))) (vms_in y)"
      "\<forall>v \<in> set (take k vms). inv (o_hv ob') (v_Ref v) = None"
      "\<forall>q. q \<notin> v_Ref ` set vms \<longrightarrow> inv (o_hv ob') q = inv (o_hv (fst y)) q"
      "r = Inr () \<longrightarrow> k = length vms"
      using ok ly by auto
    then show ?thesis using v ly by (intro exI [of _ "set (take k vms)"]) (auto dest: in_set_takeD)
  qed
qed

end

text \<open>
  C11. Tearing down a deployment on a platform that keeps the driver contract, shown for the
  in-memory driver: whatever the outcome, a VM's record is removed only when the VM is gone
  from the platform, VMs of other deployments and every other VM on the platform are left
  alone, and on success no VM of the deployment is left in either place.
\<close>

theorem teardown_removes_vms:
  assumes "teardown d fake_driver (ob, js) = (r, (ob', js'))" and "fake_ok (o_hv ob)"
  shows "\<exists>gone \<subseteq> set (vms_of (d_ID d) (o_store ob)).
      st_vms (o_store ob') = filter (\<lambda>v. v_ID v \<notin> v_ID ` gone) (st_vms (o_store ob))
    \<and> (\<forall>v \<in> gone. fake_inv (o_hv ob') (v_Ref v) = None)
    \<and> (\<forall>q. q \<notin> v_Ref ` set (vms_of (d_ID d) (o_store ob)) \<longrightarrow> fake_inv (o_hv ob') q = fake_inv (o_hv ob) q)
    \<and> (r = Inr () \<longrightarrow> gone = set (vms_of (d_ID d) (o_store ob)))"
  using assms by (rule fk.teardown_outcome)

text \<open>The controller after the demonstration deploy; tearing it down again.\<close>

definition deployed :: "fake orch" where
  "deployed = fst (snd (reconcileCore (\<lambda>xs. xs) OnConflictAbort fleet_dep fake_driver (demo_orch, no_stats)))"

lemma deployed_facts:
  "fake_ok (o_hv deployed) \<and> length (vms_of (demo_rand 1) (o_store deployed)) = 2
    \<and> fst (teardown fleet_dep fake_driver (deployed, no_stats)) = Inr ()"
  by code_simp

theorem teardown_removes_vms_witness:
  "\<exists>ob' js'. teardown fleet_dep fake_driver (deployed, no_stats) = (Inr (), (ob', js'))
    \<and> (\<forall>v \<in> set (vms_of (demo_rand 1) (o_store deployed)). fake_inv (o_hv ob') (v_Ref v) = None)"
proof -
  obtain ob' js' where run: "teardown fleet_dep fake_driver (deployed, no_stats) = (Inr (), (ob', js'))"
    using deployed_facts by (metis prod.collapse)
  from teardown_removes_vms [OF run] deployed_facts have
    "\<forall>v \<in> set (vms_of (d_ID fleet_dep) (o_store deployed)). fake_inv (o_hv ob') (v_Ref v) = None" by blast
  with run show ?thesis by (simp add: fleet_dep_def)
qed

end
