(* ===== verification/Filling.thy ===== *)
theory Filling
  imports Fill Reconciling
begin

text \<open>
  What the fill jobs of \<open>internal/orch/fill.go\<close> guarantee: the loop ends, its verdict is
  honest, its watchdogs hold their limits, the fleet ends in the configured power state, and
  the work orders handed to agents respect the deployment's caps.
\<close>

section \<open>Frames\<close>


lemma nofail_fill [nofail_intros]:
  "nofail (powerCycle drv vm)" "nofail (bootVM drv t vm)" "nofail (applyAfterFill drv d vms)"
  "nofail (watch_one drv t vm fs)" "nofail (failFill r e)" "nofail (failFillWithStats r msg ta n dur)"
  "nofail (publishFillStats r ta n dur)" "nofail (finishFill drv d r vms ta dur)" "nofail (cancelFill r)"
  "nofail (give_up drv d r vms ta n dur msg)" "nofail (clock t)" "nofail (release dep)"
proof -
  show c: "nofail (powerCycle drv vm)" for drv :: "'h driver" and vm
    unfolding powerCycle_def by (intro nofail_intros)
  show a: "nofail (applyAfterFill drv d vms)" for drv :: "'h driver" and d vms
    unfolding applyAfterFill_def by (intro nofail_intros)
  show f: "nofail (failFillWithStats r msg ta n dur)" for r msg ta n dur
    unfolding failFillWithStats_def by (intro nofail_intros)
  show "nofail (bootVM drv t vm)" unfolding bootVM_def by (intro nofail_intros c)
  show "nofail (watch_one drv t vm fs)" unfolding watch_one_def Let_def by (intro nofail_intros c)
  show "nofail (finishFill drv d r vms ta dur)" unfolding finishFill_def by (intro nofail_intros a)
  show "nofail (give_up drv d r vms ta n dur msg)" unfolding give_up_def by (intro nofail_intros a f)
qed (auto simp: failFill_def publishFillStats_def cancelFill_def clock_def release_def intro!: nofail_intros)

lemma nofail_poll [nofail_intros]:
  "nofail (poll_verdict drv d r n start t cur ta fs)" "nofail (poll drv d r n start t fs)"
proof -
  show v: "nofail (poll_verdict drv d r n start t cur ta fs)" for cur ta fs
    unfolding poll_verdict_def by (intro nofail_intros)
  show "nofail (poll drv d r n start t fs)"
    unfolding poll_def by (intro nofail_intros v)
qed

lemma nofail_fill_loop [nofail_intros]: "nofail (fill_loop drv d r n start ks fs)"
  by (induction ks arbitrary: fs) (auto intro!: nofail_intros)

text \<open>Conditions on the database that the statements of a poll cannot break: they read, write
  fill and agent columns, replace a run's stats and append a sample.\<close>

definition quiet :: "(store \<Rightarrow> bool) \<Rightarrow> bool" where
  "quiet I \<longleftrightarrow> fault_free I \<and> (\<forall>s g. I s \<longrightarrow> I (st_vms_update g s)) \<and> (\<forall>s g. I s \<longrightarrow> I (st_samples_update g s))
     \<and> (\<forall>s i j. I s \<longrightarrow> I (st_runs_update (update_where (\<lambda>r. r_ID r = i) (\<lambda>r. r\<lparr>r_Stats := j\<rparr>)) s))"

lemma keeps_quiet:
  assumes "quiet I"
  shows "keeps I (ListManagedVMs i)" "keeps I (FailFillVM i m)" "keeps I (ResetAgent i)" "keeps I (SetRunStats i j)"
    "keeps I (AddRunSample i mb b)" "keeps I (CancelUnfinishedFills i)"
  using assms
  by (auto simp: quiet_def fault_free_def keeps_def ListManagedVMs_def FailFillVM_def ResetAgent_def SetRunStats_def
      AddRunSample_def CancelUnfinishedFills_def eval_simps split: if_splits)

lemma keeps_quiet_fill:
  assumes q: "quiet I"
  shows "keeps (\<lambda>ob. I (o_store ob)) (powerCycle drv vm)" "keeps (\<lambda>ob. I (o_store ob)) (watch_one drv t vm fs)"
    "keeps (\<lambda>ob. I (o_store ob)) (applyAfterFill drv d vms)" "keeps (\<lambda>ob. I (o_store ob)) (publishFillStats r ta n dur)"
proof -
  note [inv_intros] = keeps_db [where I = I] keeps_hv_store [where I = I] keeps_quiet [OF q]
  show c: "keeps (\<lambda>ob. I (o_store ob)) (powerCycle drv vm)" for drv :: "'h driver" and vm
    unfolding powerCycle_def by (intro inv_intros)
  show "keeps (\<lambda>ob. I (o_store ob)) (watch_one drv t vm fs)"
    unfolding watch_one_def by (intro inv_intros c)
  show "keeps (\<lambda>ob. I (o_store ob)) (applyAfterFill drv d vms)"
    unfolding applyAfterFill_def by (intro inv_intros)
  show "keeps (\<lambda>ob. I (o_store ob)) (publishFillStats r ta n dur)"
    unfolding publishFillStats_def by (intro inv_intros)
qed

section \<open>The anatomy of a poll\<close>

lemma poll_cases:
  assumes "poll drv d r n start t fs ob = (q, ob')"
  obtains (unlisted) e ob1 where "db (ListManagedVMs (d_ID d)) ob = (Inl e, ob1)" "failFill r e ob1 = (Inr (), ob')" "q = Inr None"
  | (listed) cur ob1 fs1 ob2 where "db (ListManagedVMs (d_ID d)) ob = (Inr cur, ob1)"
      "fold_prog (ta_pending (tally_of r t cur)) (watch_one drv t) fs ob1 = (Inr fs1, ob2)"
      "poll_verdict drv d r n start t cur (tally_of r t cur) fs1 ob2 = (q, ob')"
proof -
  obtain l ob1 where l: "db (ListManagedVMs (d_ID d)) ob = (l, ob1)" by fastforce
  show ?thesis
  proof (cases l)
    case (Inl e)
    have "seq (failFill r e) (\<lambda>_. ret None) ob1 = (q, ob')"
      using assms by (simp add: poll_def attempt_def l Inl)
    then show ?thesis by (rule seq_nofailE) (auto simp: ret_def intro: nofail_intros unlisted l [unfolded Inl])
  next
    case (Inr cur)
    have "seq (fold_prog (ta_pending (tally_of r t cur)) (watch_one drv t) fs)
        (poll_verdict drv d r n start t cur (tally_of r t cur)) ob1 = (q, ob')"
      using assms by (simp add: poll_def attempt_def l Inr Let_def)
    then show ?thesis by (rule seq_nofailE) (auto intro: nofail_intros listed l [unfolded Inr])
  qed
qed

text \<open>The verdict: give up, finish, or go on with the variables brought up to date.\<close>

lemma verdict_cases:
  assumes "poll_verdict drv d r n start t cur ta fs ob = (q, ob')"
  obtains (silent) msg where "q = Inr None" "give_up drv d r cur ta n (t - start) msg ob = (Inr None, ob')"
  | (complete) dur ob1 ob2 where "n \<le> ta_done ta + ta_failed ta" "publishFillStats r ta n (t - start) ob = (Inr (), ob1)"
      "ignore (db (AddRunSample (r_ID r) (round1 (ta_MBps ta)) (ta_written ta))) ob1 = (Inr (), ob2)"
      "finishFill drv d r cur ta dur ob2 = (Inr (), ob')" "q = Inr None"
  | (expired) ob1 ob2 where "publishFillStats r ta n (t - start) ob = (Inr (), ob1)" "t > start + fillTimeout"
      "ignore (db (AddRunSample (r_ID r) (round1 (ta_MBps ta)) (ta_written ta))) ob1 = (Inr (), ob2)"
      "give_up drv d r cur ta n (t - start) (timeout_msg ta n) ob2 = (Inr None, ob')" "q = Inr None"
  | (going) ob1 where "publishFillStats r ta n (t - start) ob = (Inr (), ob1)"
      "ignore (db (AddRunSample (r_ID r) (round1 (ta_MBps ta)) (ta_written ta))) ob1 = (Inr (), ob')"
      "q = Inr (Some (write_started ta t (progress_made ta t fs)))"
      "\<not> (ta_silent ta \<noteq> '''' \<and> t - start > agentSilenceLimit)"
      "t - fs_lastProgress (progress_made ta t fs) \<le> fillStallLimit"
      "ta_done ta + ta_failed ta < n" "t \<le> start + fillTimeout"
proof -
  have gu: "q = Inr None" if "give_up drv d r cur ta n dur msg s = (q, s')" for dur msg s s'
    using that unfolding give_up_def by (elim seq_nofailE) (auto simp: ret_def intro: nofail_intros)
  let ?fs = "progress_made ta t fs"
  show ?thesis
  proof (cases "(ta_silent ta \<noteq> '''' \<and> t - start > agentSilenceLimit) \<or> t - fs_lastProgress ?fs > fillStallLimit")
    case True
    then show ?thesis using assms gu silent unfolding poll_verdict_def Let_def by (auto split: if_splits)
  next
    case False
    let ?k = "if ta_done ta + ta_failed ta \<ge> n
        then seq (finishFill drv d r cur ta (case fs_writeStart (write_started ta t ?fs) of None \<Rightarrow> t - start | Some w \<Rightarrow> t - w)) (\<lambda>_. ret None)
        else if t > start + fillTimeout then give_up drv d r cur ta n (t - start) (timeout_msg ta n)
        else ret (Some (write_started ta t ?fs))"
    have "seq (publishFillStats r ta n (t - start)) (\<lambda>_.
          seq (ignore (db (AddRunSample (r_ID r) (round1 (ta_MBps ta)) (ta_written ta)))) (\<lambda>_. ?k)) ob = (q, ob')"
      using assms False unfolding poll_verdict_def Let_def by auto
    then obtain ob1 ob2 where p: "publishFillStats r ta n (t - start) ob = (Inr (), ob1)"
      "ignore (db (AddRunSample (r_ID r) (round1 (ta_MBps ta)) (ta_written ta))) ob1 = (Inr (), ob2)" and k: "?k ob2 = (q, ob')"
      by (auto elim!: seq_nofailE intro: nofail_intros)
    consider "n \<le> ta_done ta + ta_failed ta" | "ta_done ta + ta_failed ta < n" "t > start + fillTimeout"
      | "ta_done ta + ta_failed ta < n" "t \<le> start + fillTimeout" by linarith
    then show ?thesis
    proof cases
      case 1
      then show ?thesis using k p by (auto elim!: seq_nofailE simp: ret_def intro: nofail_intros complete)
    next
      case 2
      then show ?thesis using k p gu [of "t - start" "timeout_msg ta n" ob2] by (auto intro: expired)
    next
      case 3
      then show ?thesis using k p False by (auto simp: ret_def intro: going)
    qed
  qed
qed

section \<open>The loop ends\<close>

text \<open>A poll after the deadline returns, whatever state it finds.\<close>

lemma poll_deadline:
  assumes "t > start + fillTimeout"
  shows "\<exists>ob'. poll drv d r n start t fs ob = (Inr None, ob')"
proof -
  obtain q ob' where p: "poll drv d r n start t fs ob = (q, ob')" by (rule prod.exhaust)
  from p have "q = Inr None"
    by (cases rule: poll_cases) (use assms in \<open>auto elim: verdict_cases\<close>)
  with p show ?thesis by blast
qed

lemma loop_ends:
  assumes "k \<in> set ks" and "t_done k \<or> t_now k > start + fillTimeout"
  shows "\<exists>ob'. fill_loop drv d r n start ks fs ob = (Inr True, ob')"
  using assms
proof (induction ks arbitrary: fs ob)
  case Nil
  then show ?case by simp
next
  case (Cons k' ks)
  let ?ob = "(t_world k' ob)\<lparr>o_store := (o_store (t_world k' ob))\<lparr>st_now := t_now k' div ns_sec\<rparr>\<rparr>"
  have step: "fill_loop drv d r n start (k' # ks) fs ob
      = (if t_done k' then seq (cancelFill r) (\<lambda>_. ret True)
         else seq (poll drv d r n start (t_now k') fs) (\<lambda>res. case res of
           None \<Rightarrow> ret True | Some fs \<Rightarrow> fill_loop drv d r n start ks fs)) ?ob"
    by (simp add: seq_eq change_def clock_def)
  show ?case
  proof (cases "t_done k'")
    case True
    then show ?thesis unfolding step using nofailD [OF nofail_fill(9), of r ?ob] by (auto simp: seq_eq ret_def)
  next
    case False
    obtain res ob1 where p: "poll drv d r n start (t_now k') fs ?ob = (Inr res, ob1)"
      using nofailD [OF nofail_poll(2)] by blast
    show ?thesis
    proof (cases res)
      case None
      then show ?thesis unfolding step using False p by (simp add: seq_eq ret_def)
    next
      case (Some fs1)
      then have "k' \<noteq> k \<or> \<not> (t_done k \<or> t_now k > start + fillTimeout)"
        using False p poll_deadline [of start "t_now k'" drv d r n fs ?ob] by auto
      with Cons.prems have "k \<in> set ks" by auto
      with Cons.IH [of fs1 ob1] Cons.prems(2) show ?thesis unfolding step using False p Some by (simp add: seq_eq)
    qed
  qed
qed

text \<open>
  C13. A fill job always ends: whatever the rest of the system does between its polls and
  whatever the database and the platform answer, it returns at the latest at the first poll
  after its 12-hour deadline or at the first wake-up that finds its context cancelled, and it
  leaves the deployment free for the next job.
\<close>

theorem fill_run_ends:
  assumes "k \<in> set ks" and "t_done k \<or> t_now k > start + fillTimeout"
  shows "\<exists>ob'. runFill env d r vms start ks ob = (Inr True, ob') \<and> o_active ob' (d_ID d) = None"
proof -
  define body where "body = attempt (OpenDriver env (d_ConnectionID d)) (\<lambda>q. case q of
         Inl e \<Rightarrow> seq (failFill r (ErrWrap ''opening hypervisor connection: '' e)) (\<lambda>_. ret True)
       | Inr drv \<Rightarrow> seq (for_each vms (bootVM drv start)) (\<lambda>_.
           fill_loop drv d r (length vms) start ks (init_fill start vms)))"
  have ends: "\<exists>ob1. body ob = (Inr True, ob1)" for ob
  proof -
    obtain q ob1 where o: "OpenDriver env (d_ConnectionID d) ob = (q, ob1)" by fastforce
    show ?thesis
    proof (cases q)
      case (Inl e)
      then show ?thesis using o nofailD [OF nofail_fill(5), of r "ErrWrap ''opening hypervisor connection: '' e" ob1]
        by (auto simp: body_def attempt_def seq_eq ret_def)
    next
      case (Inr drv)
      obtain ob2 where "for_each vms (bootVM drv start) ob1 = (Inr (), ob2)"
        using nofailD [of "for_each vms (bootVM drv start)" ob1] nofail_loops(1) [of "bootVM drv start" vms] nofail_fill(2) by auto
      then show ?thesis using o Inr loop_ends [OF assms, of drv d r "length vms" "init_fill start vms" ob2]
        by (auto simp: body_def attempt_def seq_eq)
    qed
  qed
  obtain ob1 where "body (ob\<lparr>o_store := (o_store ob)\<lparr>st_now := start div ns_sec\<rparr>\<rparr>) = (Inr True, ob1)"
    using ends by blast
  then have "runFill env d r vms start ks ob = (Inr True, ob1\<lparr>o_active := (o_active ob1)(d_ID d := None)\<rparr>)"
    unfolding runFill_def body_def [symmetric] by (simp add: seq_eq clock_def change_def release_def ret_def)
  then show ?thesis by simp
qed

text \<open>A run of no agents at all: every poll finds the world as it was.\<close>

definition idle_tick :: "int \<Rightarrow> 'h tick" where
  "idle_tick t = \<lparr>t_now = t, t_world = (\<lambda>ob. ob), t_done = False\<rparr>"

definition demo_env :: "fake env" where
  "demo_env = \<lparr>e_decrypt = Inr, e_registry = [''vsphere'' \<mapsto> (\<lambda>_ _. ret fake_driver)]\<rparr>"

theorem fill_run_ends_witness:
  "\<forall>r vms. \<exists>ob'. runFill demo_env fleet_dep r vms 0 [idle_tick (10 * ns_sec), idle_tick (50000 * ns_sec)] demo_orch = (Inr True, ob')
     \<and> o_active ob' (demo_rand 1) = None"
proof (intro allI)
  show "\<exists>ob'. runFill demo_env fleet_dep r vms 0 [idle_tick (10 * ns_sec), idle_tick (50000 * ns_sec)] demo_orch = (Inr True, ob')
     \<and> o_active ob' (demo_rand 1) = None" for r vms
    using fill_run_ends [of "idle_tick (50000 * ns_sec)" "[idle_tick (10 * ns_sec), idle_tick (50000 * ns_sec)]" 0
        demo_env fleet_dep r vms demo_orch]
    by (simp add: idle_tick_def fleet_dep_def fill_limits)
qed

section \<open>The verdict is honest\<close>

text \<open>What run \<open>i\<close> may be: one row with a status in \<open>A\<close>; with \<open>F\<close>, no statement is about to fail.\<close>

definition status_of :: "string \<Rightarrow> store \<Rightarrow> run_status list" where
  "status_of i s = map r_Status (filter (\<lambda>r. r_ID r = i) (st_runs s))"

definition st_in :: "string \<Rightarrow> run_status set \<Rightarrow> bool \<Rightarrow> store \<Rightarrow> bool" where
  "st_in i A F s \<longleftrightarrow> (\<exists>x \<in> A. status_of i s = [x]) \<and> (F \<longrightarrow> st_faults s = [])"

lemma quiet_st_in: "quiet (st_in i A F)"
proof -
  have "map r_Status (filter (\<lambda>r. r_ID r = i) (update_where (\<lambda>r. r_ID r = k) (\<lambda>r. r\<lparr>r_Stats := j\<rparr>) rows))
      = map r_Status (filter (\<lambda>r. r_ID r = i) rows)" for k j rows
    by (induction rows) auto
  then have "status_of i (st_runs_update (update_where (\<lambda>r. r_ID r = k) (\<lambda>r. r\<lparr>r_Stats := j\<rparr>)) s) = status_of i s" for k j s
    by (simp add: status_of_def)
  moreover have "status_of i (st_vms_update g s) = status_of i s" "status_of i (st_samples_update h s) = status_of i s"
    "status_of i (pop_fault s) = status_of i s" for g h s
    by (simp_all add: status_of_def)
  ultimately show ?thesis by (simp add: quiet_def fault_free_def st_in_def)
qed

lemma finish_status:
  assumes "st_in i A F (o_store ob)" and "ignore (db (FinishRun i y j)) ob = (q, ob')"
  shows "st_in i (if F then {y} else insert y A) F (o_store ob')"
proof -
  have u: "map r_Status (filter (\<lambda>r. r_ID r = i) (update_where (\<lambda>r. r_ID r = i)
      (\<lambda>r. r\<lparr>r_Status := y, r_FinishedAt := t, r_Stats := j\<rparr>) rows)) = map (\<lambda>_. y) (filter (\<lambda>r. r_ID r = i) rows)" for t rows
    by (induction rows) auto
  show ?thesis using assms
    by (auto simp: st_in_def status_of_def ignore_def db_eq FinishRun_def eval_simps u split: prod.splits if_splits)
qed

text \<open>The counters count.\<close>

definition in_run :: "run \<Rightarrow> fill_status \<Rightarrow> managed_vm \<Rightarrow> bool" where
  "in_run r st v \<longleftrightarrow> v_FillRunID v = r_ID r \<and> v_FillStatus v = st"

lemma tally_counts:
  "ta_done (tally_of r t cur) = count_where (in_run r FillDone) cur"
  "ta_failed (tally_of r t cur) = count_where (in_run r FillFailed) cur"
  "ta_working (tally_of r t cur) = count_where (in_run r FillWorking) cur"
  "ta_pending (tally_of r t cur) = filter (in_run r FillPending) cur"
proof -
  have step: "ta_done (tally_vm r t v ta) = ta_done ta + (if in_run r FillDone v then 1 else 0)"
    "ta_failed (tally_vm r t v ta) = ta_failed ta + (if in_run r FillFailed v then 1 else 0)"
    "ta_working (tally_vm r t v ta) = ta_working ta + (if in_run r FillWorking v then 1 else 0)"
    "ta_pending (tally_vm r t v ta) = ta_pending ta @ (if in_run r FillPending v then [v] else [])" for v ta
    by (cases "v_FillStatus v"; simp add: tally_vm_def in_run_def Let_def)+
  have *: "ta_done (fold (tally_vm r t) cur ta) = ta_done ta + count_where (in_run r FillDone) cur
    \<and> ta_failed (fold (tally_vm r t) cur ta) = ta_failed ta + count_where (in_run r FillFailed) cur
    \<and> ta_working (fold (tally_vm r t) cur ta) = ta_working ta + count_where (in_run r FillWorking) cur
    \<and> ta_pending (fold (tally_vm r t) cur ta) = ta_pending ta @ filter (in_run r FillPending) cur" for ta
    by (induction cur arbitrary: ta) (simp_all add: step)
  show "ta_done (tally_of r t cur) = count_where (in_run r FillDone) cur"
    "ta_failed (tally_of r t cur) = count_where (in_run r FillFailed) cur"
    "ta_working (tally_of r t cur) = count_where (in_run r FillWorking) cur"
    "ta_pending (tally_of r t cur) = filter (in_run r FillPending) cur"
    using * [of no_tally] by (simp_all add: tally_of_def no_tally_def)
qed

lemma length_filter_insort: "length (filter p (insort_key f x xs)) = (if p x then 1 else 0) + length (filter p xs)"
  by (induction xs) auto

lemma count_vms_of: "count_where p (vms_of dep s) = count_where (\<lambda>v. v_DeploymentID v = dep \<and> p v) (st_vms s)"
proof -
  have "length (filter p (sort_key f xs)) = length (filter p xs)" for f :: "managed_vm \<Rightarrow> string" and xs
    by (induction xs) (simp_all add: length_filter_insort)
  then show ?thesis by (simp add: count_where_def vms_of_def conj_commute)
qed

lemma db_list: "db (ListManagedVMs i) ob = (Inr cur, ob1) \<Longrightarrow> cur = vms_of i (o_store ob)"
  by (auto simp: db_eq ListManagedVMs_def vms_of_def split: prod.splits dest!: sql_select_InrD)

text \<open>Giving up, and finishing, settle the run; the rest of a poll leaves it as it was.\<close>

lemma settle_steps:
  assumes "st_in (r_ID r) {RunRunning} F (o_store ob)"
  shows "give_up drv d r cur ta n dur msg ob = (q, ob') \<Longrightarrow>
      st_in (r_ID r) (if F then {RunFailed} else {RunFailed, RunRunning}) F (o_store ob')"
    and "failFill r e ob = (q', ob') \<Longrightarrow>
      st_in (r_ID r) (if F then {RunFailed} else {RunFailed, RunRunning}) F (o_store ob')"
    and "finishFill drv d r cur ta dur ob = (q'', ob') \<Longrightarrow> (let y = if ta_failed ta > 0 then RunFailed else RunSucceeded in
      st_in (r_ID r) (if F then {y} else {y, RunRunning}) F (o_store ob'))"
proof -
  note k = keepsD [OF keeps_quiet_fill(3) [OF quiet_st_in]]
  show "st_in (r_ID r) (if F then {RunFailed} else {RunFailed, RunRunning}) F (o_store ob')"
    if "give_up drv d r cur ta n dur msg ob = (q, ob')"
  proof -
    from that obtain u ob1 ob2 where f: "failFillWithStats r msg ta n dur ob = (u, ob1)" and "applyAfterFill drv d cur ob1 = (Inr (), ob2)" "ob' = ob2"
      unfolding give_up_def by (auto elim!: seq_nofailE simp: ret_def intro: nofail_intros)
    with k [of _ _ _ ob1] finish_status [OF assms f [unfolded failFillWithStats_def]] show ?thesis by (metis snd_conv)
  qed
  show "st_in (r_ID r) (if F then {RunFailed} else {RunFailed, RunRunning}) F (o_store ob')" if "failFill r e ob = (q', ob')"
    using finish_status [OF assms that [unfolded failFill_def]] by simp
  show "let y = if ta_failed ta > 0 then RunFailed else RunSucceeded in
      st_in (r_ID r) (if F then {y} else {y, RunRunning}) F (o_store ob')" if "finishFill drv d r cur ta dur ob = (q'', ob')"
  proof -
    from that obtain ob1 where a: "applyAfterFill drv d cur ob = (Inr (), ob1)"
      and f: "\<exists>j q. ignore (db (FinishRun (r_ID r) (if ta_failed ta > 0 then RunFailed else RunSucceeded) j)) ob1 = (q, ob')"
      unfolding finishFill_def Let_def by (elim seq_nofailE) (auto intro: nofail_intros split: if_splits)
    have "st_in (r_ID r) {RunRunning} F (o_store ob1)" using k [OF assms, of drv d cur] a by simp
    with f finish_status [where A = "{RunRunning}"] show ?thesis unfolding Let_def by blast
  qed
qed

text \<open>
  C14. The verdict of a poll is honest. While the loop goes on, the run stays running. When it
  returns, the run is recorded as succeeded or failed, unless a database statement failed,
  and it is recorded as succeeded only when the poll found at least as many VMs of the
  deployment done with this run as the job started with, and none failed.
\<close>

theorem fill_verdict:
  assumes run: "poll drv d r n start t fs ob = (Inr res, ob')"
    and running: "status_of (r_ID r) (o_store ob) = [RunRunning]"
  shows "(case res of Some _ \<Rightarrow> status_of (r_ID r) (o_store ob') = [RunRunning]
      | None \<Rightarrow> status_of (r_ID r) (o_store ob') \<in> {[RunSucceeded], [RunFailed]}
          \<or> (status_of (r_ID r) (o_store ob') = [RunRunning] \<and> st_faults (o_store ob) \<noteq> []))
    \<and> (status_of (r_ID r) (o_store ob') = [RunSucceeded] \<longrightarrow>
        n \<le> count_where (\<lambda>v. v_DeploymentID v = d_ID d \<and> in_run r FillDone v) (st_vms (o_store ob))
        \<and> (\<forall>v \<in> set (st_vms (o_store ob)). v_DeploymentID v = d_ID d \<longrightarrow> \<not> in_run r FillFailed v))"
proof -
  define F where "F = (st_faults (o_store ob) = [])"
  let ?st = "\<lambda>A ob. st_in (r_ID r) A F (o_store ob)"
  let ?good = "n \<le> count_where (\<lambda>v. v_DeploymentID v = d_ID d \<and> in_run r FillDone v) (st_vms (o_store ob))
        \<and> (\<forall>v \<in> set (st_vms (o_store ob)). v_DeploymentID v = d_ID d \<longrightarrow> \<not> in_run r FillFailed v)"
  let ?stop = "\<lambda>y. ?st (if F then {y} else {y, RunRunning}) ob'"
  note q = quiet_st_in [of "r_ID r" "{RunRunning}" F]
  have start: "?st {RunRunning} ob" using running by (simp add: st_in_def F_def)
  have "res = None \<and> (?stop RunFailed \<or> (?stop RunSucceeded \<and> ?good)) \<or> (\<exists>f. res = Some f) \<and> ?st {RunRunning} ob'"
    using run
  proof (cases rule: poll_cases)
    case (unlisted e ob1)
    then show ?thesis
      using settle_steps(2) [OF keepsD [OF keeps_db [OF keeps_quiet(1) [OF q]] start, of "d_ID d"]] by simp
  next
    case (listed cur ob1 fs1 ob2)
    have cur: "cur = vms_of (d_ID d) (o_store ob)" using db_list [OF listed(1)] .
    have 1: "?st {RunRunning} ob1"
      using keepsD [OF keeps_db [OF keeps_quiet(1) [OF q]] start, of "d_ID d"] listed(1) by simp
    have 2: "?st {RunRunning} ob2"
      using keepsD [OF keeps_fold_prog [where f = "watch_one drv t" and xs = "ta_pending (tally_of r t cur)" and l = fs, OF keeps_quiet_fill(2) [OF q]] 1] listed(2) by simp
    let ?ta = "tally_of r t cur"
    have pub: "?st {RunRunning} ob4" if "publishFillStats r ?ta n dur ob2 = (x, ob3)"
      "ignore (db (AddRunSample i mb b)) ob3 = (y, ob4)" for dur x y ob3 ob4 i mb b
      using keepsD [OF keeps_ignore [OF keeps_db [OF keeps_quiet(5) [OF q]]] keepsD [OF keeps_quiet_fill(4) [OF q] 2], of i mb b r ?ta n dur]
        that by simp
    have good: ?good if "n \<le> ta_done ?ta + ta_failed ?ta" "\<not> 0 < ta_failed ?ta"
    proof -
      have z: "count_where (\<lambda>v. v_DeploymentID v = d_ID d \<and> in_run r FillFailed v) (st_vms (o_store ob)) = 0"
        using that(2) unfolding tally_counts cur count_vms_of by simp
      have "n \<le> count_where (\<lambda>v. v_DeploymentID v = d_ID d \<and> in_run r FillDone v) (st_vms (o_store ob))"
        using that(1) unfolding tally_counts cur count_vms_of z by simp
      with z show ?thesis by (simp add: count_where_0)
    qed
    from listed(3) show ?thesis
    proof (cases rule: verdict_cases)
      case (silent msg)
      then show ?thesis using settle_steps(1) [OF 2] by blast
    next
      case (complete dur ob3 ob4)
      then show ?thesis using settle_steps(3) [OF pub [OF complete(2,3)] complete(4)] good
        by (cases "ta_failed ?ta > 0") (auto simp: Let_def)
    next
      case (expired ob3 ob4)
      then show ?thesis using settle_steps(1) [OF pub [OF expired(1,3)] expired(4)] by blast
    next
      case (going ob3)
      then show ?thesis using pub [OF going(1,2)] by blast
    qed
  qed
  then show ?thesis by (auto simp: st_in_def F_def split: if_splits)
qed

text \<open>The demonstration database with one VM: an initial fill is started, and its agent reports
  that it is done.\<close>

definition vm_orch :: "fake orch" where
  "vm_orch = \<lparr>o_store = vm_store, o_hv = New, o_active = Map.empty, o_jobs = []\<rparr>"

definition started :: "(go_error + run) \<times> fake orch" where
  "started = StartFill fleet_dep RunInitialFill vm_orch"

definition demo_run :: run where
  "demo_run = (case fst started of Inr r \<Rightarrow> r | Inl _ \<Rightarrow> undefined)"

definition reported :: "fake orch" where
  "reported = snd (db (ReportFillProgress (demo_rand 2) 0 0 True '''') (snd started))"

lemma demo_fill:
  "status_of (r_ID demo_run) (o_store reported) = [RunRunning]
    \<and> (let x = poll fake_driver fleet_dep demo_run 1 0 0 (init_fill 0 []) reported in
        (case fst x of Inr None \<Rightarrow> True | _ \<Rightarrow> False) \<and> status_of (r_ID demo_run) (o_store (snd x)) = [RunSucceeded])"
  by code_simp

theorem fill_verdict_witness:
  "1 \<le> count_where (\<lambda>v. v_DeploymentID v = demo_rand 1 \<and> in_run demo_run FillDone v) (st_vms (o_store reported))"
proof -
  obtain ob' where p: "poll fake_driver fleet_dep demo_run 1 0 0 (init_fill 0 []) reported = (Inr None, ob')"
    and s: "status_of (r_ID demo_run) (o_store ob') = [RunSucceeded]"
    using demo_fill unfolding Let_def by (metis (no_types, lifting) eq_fst_iff option.case_eq_if option.collapse snd_conv sum.case_eq_if sum.collapse(2))
  from fill_verdict [OF p] demo_fill s show ?thesis by (simp add: fleet_dep_def)
qed

section \<open>The watchdogs hold their limits\<close>

text \<open>A pending VM is on time when its agent checked in after its last boot or that boot is recent.\<close>

definition on_time :: "int \<Rightarrow> fill_state \<Rightarrow> managed_vm \<Rightarrow> bool" where
  "on_time t fs v \<longleftrightarrow> seen_since (fs_bootAt fs (v_ID v)) v \<or> t - fs_bootAt fs (v_ID v) < bootTimeout"

definition given_up :: "string \<Rightarrow> store \<Rightarrow> bool" where
  "given_up i s \<longleftrightarrow> (\<forall>w \<in> set (st_vms s). v_ID w = i \<longrightarrow> v_FillStatus w = FillFailed)"

lemma FailFillVM_eq: "FailFillVM k m s = (if next_fault s then (Inl db_failed, pop_fault s)
    else (Inr (), st_vms_update (update_where (\<lambda>v. v_ID v = k) (\<lambda>v. v\<lparr>v_FillStatus := FillFailed, v_FillError := m\<rparr>)) (pop_fault s)))"
  by (simp add: FailFillVM_def eval_simps)

lemma given_up_fail:
  "given_up i s \<or> i = k \<Longrightarrow>
    given_up i (st_vms_update (update_where (\<lambda>v. v_ID v = k) (\<lambda>v. v\<lparr>v_FillStatus := FillFailed, v_FillError := m\<rparr>)) (pop_fault s))"
  by (auto simp: given_up_def update_where_def)

lemma keeps_given_up: "keeps (\<lambda>ob. given_up i (o_store ob)) (watch_one drv t v fs)"
proof -
  have f: "keeps (given_up i) (FailFillVM k m)" for k m
    using given_up_fail [of i _ k m] by (simp add: keeps_def FailFillVM_eq) (simp add: given_up_def)
  have "keeps (\<lambda>ob. given_up i (o_store ob)) (powerCycle drv v)" for drv :: "'h driver" and v
    unfolding powerCycle_def by (intro inv_intros keeps_hv_store [where I = "given_up i"])
  note [inv_intros] = this
  show ?thesis unfolding watch_one_def
    by (intro inv_intros keeps_db [where I = "given_up i"] f)
qed

lemma watch_one_step:
  assumes "watch_one drv t v fs ob = (Inr fs', ob')" and "\<And>i. fs_bootTries fs i \<le> maxBootAttempts"
  shows "fs_bootTries fs' i \<le> maxBootAttempts" and "fs_bootTries fs i \<le> fs_bootTries fs' i"
    and "fs_bootAt fs' i = t \<or> fs_bootAt fs' i = fs_bootAt fs i"
    and "on_time t fs' v \<or> st_faults (o_store ob) \<noteq> [] \<or> given_up (v_ID v) (o_store ob')"
proof -
  have f: "given_up k s'" if "FailFillVM k m s = (q, s')" "st_faults s = []" for k m s s' q
    using that given_up_fail [of k s k m] by (auto simp: FailFillVM_eq)
  have *: "(\<forall>i. fs_bootTries fs' i \<le> maxBootAttempts) \<and> (\<forall>i. fs_bootTries fs i \<le> fs_bootTries fs' i)
      \<and> (\<forall>i. fs_bootAt fs' i = t \<or> fs_bootAt fs' i = fs_bootAt fs i)
      \<and> (on_time t fs' v \<or> st_faults (o_store ob) \<noteq> [] \<or> given_up (v_ID v) (o_store ob'))"
  proof (cases "on_time t fs v")
    case True
    then have "fs' = fs" using assms(1) by (auto simp: watch_one_def on_time_def ret_def Let_def split: if_splits)
    with True assms(2) show ?thesis by simp
  next
    case late: False
    show ?thesis
    proof (cases "fs_bootTries fs (v_ID v) \<ge> maxBootAttempts")
      case True
      then have "fs' = fs" "\<exists>q. FailFillVM (v_ID v) (no_boot_msg (fs_bootTries fs (v_ID v))) (o_store ob) = (q, o_store ob')"
        using assms(1) late
        by (auto simp: watch_one_def on_time_def Let_def seq_eq ret_def ignore_def attempt_def db_eq split: prod.splits)
      with f assms(2) show ?thesis by blast
    next
      case False
      then have "seq (powerCycle drv v) (\<lambda>_. ret (fs\<lparr>fs_bootAt := (fs_bootAt fs)(v_ID v := t),
            fs_bootTries := (fs_bootTries fs)(v_ID v := fs_bootTries fs (v_ID v) + 1), fs_lastProgress := t\<rparr>)) ob = (Inr fs', ob')"
        using assms(1) late by (auto simp: watch_one_def on_time_def Let_def)
      then have "fs' = fs\<lparr>fs_bootAt := (fs_bootAt fs)(v_ID v := t),
            fs_bootTries := (fs_bootTries fs)(v_ID v := fs_bootTries fs (v_ID v) + 1), fs_lastProgress := t\<rparr>"
        by (rule seq_nofailE) (auto simp: ret_def intro: nofail_intros)
      with False assms(2) show ?thesis by (auto simp: on_time_def fill_limits)
    qed
  qed
  show "fs_bootTries fs' i \<le> maxBootAttempts" "fs_bootTries fs i \<le> fs_bootTries fs' i"
    "fs_bootAt fs' i = t \<or> fs_bootAt fs' i = fs_bootAt fs i"
    "on_time t fs' v \<or> st_faults (o_store ob) \<noteq> [] \<or> given_up (v_ID v) (o_store ob')" using * by auto
qed

lemma on_time_later: "on_time t fs v \<Longrightarrow> fs_bootAt fs' (v_ID v) = t \<or> fs_bootAt fs' (v_ID v) = fs_bootAt fs (v_ID v) \<Longrightarrow> on_time t fs' v"
  by (auto simp: on_time_def fill_limits)

lemma watch_all:
  assumes "fold_prog vs (watch_one drv t) fs ob = (Inr fs', ob')" and "\<And>i. fs_bootTries fs i \<le> maxBootAttempts"
  shows "(\<forall>i. fs_bootTries fs' i \<le> maxBootAttempts)
    \<and> (\<forall>i. fs_bootAt fs' i = t \<or> fs_bootAt fs' i = fs_bootAt fs i)
    \<and> (\<forall>v \<in> set vs. on_time t fs' v \<or> st_faults (o_store ob) \<noteq> [] \<or> given_up (v_ID v) (o_store ob'))"
  using assms
proof (induction vs arbitrary: fs ob)
  case Nil
  then show ?case by (simp add: ret_def)
next
  case (Cons v vs)
  from Cons.prems(1) obtain fs1 ob1 where w: "watch_one drv t v fs ob = (Inr fs1, ob1)"
    and rest: "fold_prog vs (watch_one drv t) fs1 ob1 = (Inr fs', ob')"
    by (auto elim!: seq_nofailE intro: nofail_intros)
  note one = watch_one_step [OF w Cons.prems(2)]
  note IH = Cons.IH [OF rest one(1)]
  have q: "st_faults (o_store ob) = [] \<Longrightarrow> st_faults (o_store ob1) = []"
    using keepsD [OF keeps_quiet_fill(2) [where I = "\<lambda>s. st_faults s = []"], of ob drv t v fs] w
    by (auto simp: quiet_def fault_free_def)
  have "on_time t fs' v \<or> st_faults (o_store ob) \<noteq> [] \<or> given_up (v_ID v) (o_store ob')"
  proof (cases "on_time t fs1 v \<or> st_faults (o_store ob) \<noteq> []")
    case True
    then show ?thesis using on_time_later [of t fs1 v fs'] IH by blast
  next
    case False
    then have "given_up (v_ID v) (o_store ob1)" using one(4) by blast
    then have "given_up (v_ID v) (o_store ob')"
      using keepsD [OF keeps_fold_prog [where xs = vs and f = "watch_one drv t" and l = fs1,
          OF keeps_given_up [where i = "v_ID v"]], of ob1] rest by simp
    then show ?thesis by blast
  qed
  moreover have "fs_bootAt fs' i = t \<or> fs_bootAt fs' i = fs_bootAt fs i" for i
    using IH one(3) [of i] by metis
  ultimately show ?case using IH q by auto
qed


lemma demo_watch:
  "st_faults (o_store (snd started)) = [] \<and>
   (case fst (poll fake_driver fleet_dep demo_run 1 0 0 (init_fill 0 []) (snd started)) of
      Inr (Some fs') \<Rightarrow> fs_bootTries fs' (demo_rand 2) = 1 | _ \<Rightarrow> False)"
  by code_simp

lemma inr_someD: "(case q of Inr (Some f) \<Rightarrow> P f | _ \<Rightarrow> False) \<Longrightarrow> \<exists>f. q = Inr (Some f) \<and> P f"
  by (auto split: sum.splits option.splits)


section \<open>Work orders\<close>

definition working_in :: "string \<Rightarrow> store \<Rightarrow> nat" where
  "working_in i s = count_where (\<lambda>v. v_FillRunID v = i \<and> v_FillStatus v = FillWorking) (st_vms s)"

lemma count_update_one:
  assumes "distinct (map g rows)"
  shows "count_where p (update_where (\<lambda>r. g r = k) f rows) \<le> count_where p rows + 1"
  using assms
proof (induction rows)
  case (Cons r rows)
  show ?case
  proof (cases "g r = k")
    case True
    then have "update_where (\<lambda>r. g r = k) f rows = rows" using Cons.prems key_in_rows [of _ rows g]
      by (intro update_where_id) (metis True distinct.simps(2) list.simps(9))
    with True show ?thesis by simp
  qed (use Cons in simp)
qed simp

lemma claim_slot_eq:
  "st_faults s = [] \<Longrightarrow> claim_slot d r vm s =
    (if MaxParallelVMs (d_Spec d) > 0 \<and> int (working_in (r_ID r) s) \<ge> MaxParallelVMs (d_Spec d) then (Inr False, s)
     else (Inr True, st_vms_update (update_where (\<lambda>v. v_ID v = v_ID vm) (\<lambda>v. v\<lparr>v_FillStatus := FillWorking\<rparr>)) s))"
  by (simp add: claim_slot_def attempt_def seq_eq ret_def ignore_def CountFillStatus_def SetFillStatus_def
      sql_update_def sql_update_key_def sql_select_def look_def working_in_def Let_def)

text \<open>What the gate does when no statement fails.\<close>

lemma WorkOrderForToken_cases:
  assumes ok: "st_faults s = []" and run: "WorkOrderForToken vm s = (res, s')"
    and d: "GetDeployment (v_DeploymentID vm) s = (Inr d, s)"
  shows "res = Inr None \<and> s' = s
    \<or> v_FillStatus vm \<noteq> FillPending \<and> s' = s
    \<or> v_FillStatus vm = FillPending \<and> (\<exists>wo. res = Inr (Some wo))
      \<and> s' = st_vms_update (update_where (\<lambda>v. v_ID v = v_ID vm) (\<lambda>v. v\<lparr>v_FillStatus := FillWorking\<rparr>)) s
      \<and> (MaxParallelVMs (d_Spec d) > 0 \<longrightarrow> int (working_in (v_FillRunID vm) s) < MaxParallelVMs (d_Spec d))"
proof -
  obtain q where g: "GetRun (v_FillRunID vm) s = (q, s)"
    and q: "\<And>r. q = Inr r \<Longrightarrow> r_ID r = v_FillRunID vm"
  proof (cases "find (\<lambda>r. r_ID r = v_FillRunID vm) (st_runs s)")
    case None
    then show thesis using ok that [of "Inl ErrNotFound"] by (simp add: GetRun_def eval_simps)
  next
    case (Some r)
    then show thesis using ok that [of "Inr r"] find_SomeD [OF Some] by (simp add: GetRun_def eval_simps)
  qed
  show ?thesis
  proof (cases "v_FillRunID vm = '''' \<or> v_FillStatus vm = FillDone \<or> v_FillStatus vm = FillFailed \<or> (\<nexists>r. q = Inr r \<and> r_Status r = RunRunning)")
    case True
    then have "res = Inr None \<and> s' = s"
      using run g by (cases q) (auto simp: WorkOrderForToken_def attempt_def ret_def split: if_splits)
    then show ?thesis by blast
  next
    case False
    then obtain r where r: "q = Inr r" "r_Status r = RunRunning" "r_ID r = v_FillRunID vm" using q by blast
    define x where "x = (if v_FillStatus vm = FillPending then claim_slot d r vm else ret True) s"
    have "\<exists>go s1. x = (Inr go, s1)" by (auto simp: x_def claim_slot_eq [OF ok] ret_def)
    then obtain go s1 where c: "(if v_FillStatus vm = FillPending then claim_slot d r vm else ret True) s = (Inr go, s1)"
      unfolding x_def by blast
    have "s' = s1 \<and> (if go then \<exists>wo. res = Inr (Some wo) else res = Inr None)"
      using run False g r d c by (auto simp: WorkOrderForToken_def attempt_def ret_def seq_eq)
    then show ?thesis using c r by (auto simp: claim_slot_eq [OF ok] ret_def split: if_splits)
  qed
qed


lemma vm_store_wf: "db_wf vm_store"
  by (rule db_reachable_wf [OF vm_store_reachable])

lemma demo_gate:
  "(case fst (GetDeployment (v_DeploymentID (hd (st_vms (o_store (snd started))))) (o_store (snd started))) of
     Inr d \<Rightarrow> MaxParallelVMs (d_Spec d) = 1 | Inl _ \<Rightarrow> False)
   \<and> r_ID demo_run = v_FillRunID (hd (st_vms (o_store (snd started)))) \<and> st_faults (o_store (snd started)) = []"
  by code_simp


text \<open>
  The rate limit of a valid config is shared out without ever turning into "no limit":
  every VM gets at least 1 KB/s, and as many VMs as may run at once stay together within the
  configured rate.
\<close>

theorem rate_shared:
  assumes valid: "Validate spec = None" and limit: "0 < RateLimitMBps spec" "RateLimitMBps spec < 2 ^ 53"
  shows "1 \<le> perVMRateKBps spec
    \<and> (\<forall>m. 0 \<le> m \<and> m \<le> (if MaxParallelVMs spec > 0 then MaxParallelVMs spec else VMCount spec) \<longrightarrow>
          m * perVMRateKBps spec \<le> RateLimitMBps spec * 1024)"
proof -
  have v: "1 \<le> VMCount spec" "VMCount spec \<le> 1000" "0 \<le> MaxParallelVMs spec" "MaxParallelVMs spec \<le> VMCount spec"
    using ValidateD [OF valid] by auto
  define par where "par = (if MaxParallelVMs spec > 0 then MaxParallelVMs spec else VMCount spec)"
  have par: "1 \<le> par" "par \<le> 1000" using v by (auto simp: par_def)
  have k: "perVMRateKBps spec = RateLimitMBps spec * 1024 div par"
    using v limit by (auto simp: perVMRateKBps_def par_def Let_def)
  have "par * 1 \<le> RateLimitMBps spec * 1024" using par limit by linarith
  then have "1 \<le> perVMRateKBps spec" unfolding k using par pos_imp_zdiv_pos_iff [of par "RateLimitMBps spec * 1024"] by linarith
  moreover have "m * perVMRateKBps spec \<le> RateLimitMBps spec * 1024" if "0 \<le> m" "m \<le> par" for m
  proof -
    have "m * perVMRateKBps spec \<le> par * perVMRateKBps spec"
      using that \<open>1 \<le> perVMRateKBps spec\<close> by (intro mult_right_mono) auto
    also have "\<dots> \<le> RateLimitMBps spec * 1024" unfolding k using par pos_mod_sign [of par "RateLimitMBps spec * 1024"]
      by (simp add: minus_mod_eq_mult_div [symmetric])
    finally show ?thesis .
  qed
  ultimately show ?thesis by (simp add: par_def)
qed

theorem rate_shared_witness:
  "let spec = sample_spec\<lparr>RateLimitMBps := 10, MaxParallelVMs := 2\<rparr> in
    1 \<le> perVMRateKBps spec \<and> 2 * perVMRateKBps spec \<le> 10 * 1024"
proof -
  have "Validate (sample_spec\<lparr>RateLimitMBps := 10, MaxParallelVMs := 2\<rparr>) = None"
    using sample_spec_valid by (simp add: Validate_None sample_spec_def)
  note * = rate_shared [OF this]
  show ?thesis using conjunct1 [OF *] spec [OF conjunct2 [OF *], of 2] by (simp add: sample_spec_def)
qed

section \<open>The fleet ends powered off\<close>

definition agent_reset :: "string \<Rightarrow> store \<Rightarrow> bool" where
  "agent_reset i s \<longleftrightarrow> (\<forall>v \<in> set (st_vms s). v_ID v = i \<longrightarrow> v_AgentStatus v = AgentNone \<and> v_AgentSeenAt v = None)"

context reliable_hypervisor
begin

lemma power_keeps:
  "keeps (\<lambda>ob. ok (o_hv ob) \<and> (\<forall>q \<in> R. inv (o_hv ob) q \<noteq> None)) (powerCycle drv vm)"
  "keeps (\<lambda>ob. ok (o_hv ob) \<and> (\<forall>q \<in> R. inv (o_hv ob) q \<noteq> None)) (watch_one drv t vm fs)"
proof -
  let ?K = "\<lambda>h. ok h \<and> (\<forall>q \<in> R. inv h q \<noteq> None)"
  have st: "keeps (\<lambda>ob. ?K (o_hv ob)) (db m)" for m :: "'b store_op"
    by (auto simp: keeps_def db_eq split: prod.splits)
  have hv: "keeps (\<lambda>ob. ?K (o_hv ob)) (hv m)" if "keeps ?K m" for m :: "('h, 'b) prog"
    using that by (fastforce simp: keeps_def hv_eq split: prod.splits)
  have same: "?K h'" if "?K h" "ok h'" "only_at ref (inv h) (inv h')" "same_vm (inv h ref) (inv h' ref)" for h h' ref
  proof -
    have "inv h' q \<noteq> None" if "q \<in> R" for q
      using that \<open>?K h\<close> \<open>only_at ref _ _\<close> \<open>same_vm _ _\<close>
      by (cases "q = ref") (auto simp: only_at_def same_vm_def split: option.splits)
    then show ?thesis using that by blast
  qed
  have "keeps ?K (GetVM drv ref)" for ref
    by (rule keepsI) (metis GetVM_law prod.collapse)
  moreover have "keeps ?K (PowerOn drv ref)" for ref
    by (rule keepsI) (metis (no_types, lifting) PowerOn_law same prod.collapse)
  moreover have "keeps ?K (PowerOff drv ref)" for ref
    by (rule keepsI) (metis (no_types, lifting) PowerOff_law same prod.collapse)
  ultimately have c: "keeps (\<lambda>ob. ?K (o_hv ob)) (powerCycle drv vm)" for vm
    unfolding powerCycle_def by (intro inv_intros hv)
  then show "keeps (\<lambda>ob. ?K (o_hv ob)) (powerCycle drv vm)" .
  show "keeps (\<lambda>ob. ?K (o_hv ob)) (watch_one drv t vm fs)"
    unfolding watch_one_def by (intro inv_intros st c)
qed

text \<open>What is off, and whose agent state is reset, after the power pass over some VMs.\<close>

definition off :: "string \<Rightarrow> 'h \<Rightarrow> bool" where
  "off ref h \<longleftrightarrow> (\<exists>w. inv h ref = Some w \<and> h_State w = StatePoweredOff)"

lemma PowerOff_off:
  assumes "ok h" "PowerOff drv ref h = (r, h')" and "inv h ref \<noteq> None"
  shows "r = Inr () \<and> ok h' \<and> off ref h' \<and> (off q h \<longrightarrow> off q h') \<and> (inv h q \<noteq> None \<longrightarrow> inv h' q \<noteq> None)"
proof -
  have r: "r = Inr ()" using PowerOff_succeeds [OF assms(1,3)] assms(2) by simp
  from PowerOff_law [OF assms(1,2)] r have "ok h'" "off ref h'" "only_at ref (inv h) (inv h')" by (auto simp: off_def)
  then show ?thesis using r by (cases "q = ref") (auto simp: off_def only_at_def)
qed

lemma after_fill_off:
  assumes "AfterFill (d_Spec d) = AfterFillShutdown" and "applyAfterFill drv d vms ob = (q, ob')" and "ok (o_hv ob)"
    and "st_faults (o_store ob) = []" and "\<forall>v \<in> set vms. inv (o_hv ob) (v_Ref v) \<noteq> None"
  shows "(\<forall>v \<in> set vms. off (v_Ref v) (o_hv ob')) \<and> (\<forall>p. off p (o_hv ob) \<longrightarrow> off p (o_hv ob'))
    \<and> (\<forall>v \<in> set vms. agent_reset (v_ID v) (o_store ob')) \<and> (\<forall>i. agent_reset i (o_store ob) \<longrightarrow> agent_reset i (o_store ob'))"
proof -
  let ?f = "\<lambda>vm. attempt (hv (PowerOff drv (v_Ref vm))) (\<lambda>r. case r of
          Inl _ \<Rightarrow> ret () | Inr _ \<Rightarrow> ignore (db (ResetAgent (v_ID vm))))"
  have "for_each vms ?f ob = (q, ob')" using assms(1,2) by (simp add: applyAfterFill_def)
  then show ?thesis using assms(3-)
  proof (induction vms arbitrary: ob)
    case Nil
    then show ?case by (simp add: ret_def)
  next
    case (Cons vm vms)
    obtain r h where p: "PowerOff drv (v_Ref vm) (o_hv ob) = (r, h)" by fastforce
    have ex: "inv (o_hv ob) (v_Ref vm) \<noteq> None" using Cons.prems by simp
    note off1 = PowerOff_off [OF Cons.prems(2) p ex]
    let ?s = "st_vms_update (update_where (\<lambda>v. v_ID v = v_ID vm) (\<lambda>v. v\<lparr>v_AgentStatus := AgentNone, v_AgentSeenAt := None\<rparr>)) (o_store ob)"
    have "?f vm ob = (Inr (), ob\<lparr>o_hv := h, o_store := ?s\<rparr>)"
      using off1 [of "v_Ref vm"] Cons.prems(3) p
      by (simp add: attempt_def hv_eq db_eq ignore_def ret_def ResetAgent_def eval_simps)
    then have rest: "for_each vms ?f (ob\<lparr>o_hv := h, o_store := ?s\<rparr>) = (q, ob')"
      using Cons.prems(1) by (simp add: seq_eq)
    have "\<forall>v \<in> set vms. inv h (v_Ref v) \<noteq> None" using Cons.prems(4) off1 by simp
    note IH = Cons.IH [OF rest]
    have reset: "agent_reset i ?s" if "i = v_ID vm \<or> agent_reset i (o_store ob)" for i
      using that by (auto simp: agent_reset_def update_where_def)
    show ?case using IH off1 reset Cons.prems(3) \<open>\<forall>v \<in> set vms. inv h (v_Ref v) \<noteq> None\<close> by auto
  qed
qed

text \<open>A platform on which the power pass over \<open>vms\<close> succeeds, and what it leaves.\<close>

definition ready :: "managed_vm list \<Rightarrow> 'h orch \<Rightarrow> bool" where
  "ready vms ob \<longleftrightarrow> ok (o_hv ob) \<and> (\<forall>v \<in> set vms. inv (o_hv ob) (v_Ref v) \<noteq> None) \<and> st_faults (o_store ob) = []"

definition all_off :: "managed_vm list \<Rightarrow> 'h orch \<Rightarrow> bool" where
  "all_off vms ob \<longleftrightarrow> (\<forall>v \<in> set vms. off (v_Ref v) (o_hv ob) \<and> agent_reset (v_ID v) (o_store ob))"

lemma ready_db:
  fixes m :: "unit store_op"
  assumes "ready vms x" "ignore (db m) x = (u, y)" "keeps (\<lambda>s. st_faults s = []) m"
  shows "ready vms y"
  using assms keepsD [OF assms(3), of "o_store x"]
  by (auto simp: ready_def ignore_def attempt_def ret_def db_eq split: prod.splits)

lemma pass_all_off:
  "AfterFill (d_Spec d) = AfterFillShutdown \<Longrightarrow> applyAfterFill drv d vms x = (u, y) \<Longrightarrow> ready vms x \<Longrightarrow> all_off vms y"
  using after_fill_off [of d vms x u y] by (simp add: ready_def all_off_def)

lemma finishFill_off:
  assumes shut: "AfterFill (d_Spec d) = AfterFillShutdown" and run: "finishFill drv d r vms ta dur x = (u, y)" and "ready vms x"
  shows "all_off vms y"
proof -
  from run obtain x1 u1 where a: "applyAfterFill drv d vms x = (u1, x1)"
    and f: "\<exists>i z j u2. ignore (db (FinishRun i z j)) x1 = (u2, y)"
    unfolding finishFill_def Let_def by (elim seq_nofailE) (auto intro: nofail_intros split: if_splits)
  from f pass_all_off [OF shut a assms(3)] show ?thesis
    by (auto simp: all_off_def ignore_def attempt_def ret_def db_eq FinishRun_def agent_reset_def eval_simps split: prod.splits if_splits)
qed

lemma give_up_off:
  assumes shut: "AfterFill (d_Spec d) = AfterFillShutdown" and run: "give_up drv d r vms ta n dur msg x = (u, y)" and "ready vms x"
  shows "all_off vms y"
proof -
  have fin: "keeps (\<lambda>s. st_faults s = []) (FinishRun i z j)" for i z j
    by (auto simp: keeps_def FinishRun_def eval_simps)
  from run obtain x1 u1 where f: "failFillWithStats r msg ta n dur x = (u1, x1)" and a: "\<exists>u2. applyAfterFill drv d vms x1 = (u2, y)"
    unfolding give_up_def by (auto elim!: seq_nofailE simp: ret_def intro: nofail_intros)
  from a pass_all_off [OF shut] ready_db [OF assms(3) f [unfolded failFillWithStats_def] fin] show ?thesis by blast
qed

text \<open>Every way a poll returns, short of failing to list the fleet, runs the power pass.\<close>

lemma poll_end_off:
  assumes shut: "AfterFill (d_Spec d) = AfterFillShutdown" and run: "poll drv d r n start t fs ob = (Inr None, ob')"
    and ok: "ok (o_hv ob)" and quiet: "st_faults (o_store ob) = []"
    and there: "\<forall>v \<in> set (vms_of (d_ID d) (o_store ob)). inv (o_hv ob) (v_Ref v) \<noteq> None"
  shows "all_off (vms_of (d_ID d) (o_store ob)) ob'"
proof -
  let ?V = "vms_of (d_ID d) (o_store ob)"
  let ?H = "\<lambda>ob. ok (o_hv ob) \<and> (\<forall>q \<in> v_Ref ` set ?V. inv (o_hv ob) q \<noteq> None)"
  have ready: "ready ?V x \<longleftrightarrow> ?H x \<and> st_faults (o_store x) = []" for x by (auto simp: ready_def)
  have q: "Filling.quiet (\<lambda>s. st_faults s = [])" by (simp add: Filling.quiet_def fault_free_def)
  from run show ?thesis
  proof (cases rule: poll_cases)
    case (unlisted e ob1)
    then show ?thesis using quiet by (simp add: db_eq ListManagedVMs_def eval_simps)
  next
    case (listed cur ob1 fs1 ob2)
    have cur: "cur = ?V" using db_list [OF listed(1)] .
    have K1: "ready ?V ob1" using listed(1) ok there quiet by (auto simp: ready_def db_eq ListManagedVMs_def eval_simps)
    have "?H ob2" using keepsD [OF keeps_fold_prog [where f = "watch_one drv t" and l = fs and xs = "ta_pending (tally_of r t cur)", OF power_keeps(2)] conjunct1 [OF K1 [unfolded ready]]] listed(2) by simp
    moreover have "st_faults (o_store ob2) = []"
      using keepsD [OF keeps_fold_prog [where f = "watch_one drv t" and l = fs and xs = "ta_pending (tally_of r t cur)", OF keeps_quiet_fill(2) [OF q]] conjunct2 [OF K1 [unfolded ready]]] listed(2) by simp
    ultimately have K2: "ready ?V ob2" unfolding ready by simp
    have pub: "ready ?V y" if "publishFillStats r ta n dur ob2 = (u, x)" "ignore (db (AddRunSample i mb b)) x = (w, y)" for ta dur u w x y i mb b
      using ready_db [OF ready_db [OF K2 that(1) [unfolded publishFillStats_def] keeps_quiet(4) [OF q]] that(2) keeps_quiet(5) [OF q]] .
    from listed(3) [unfolded cur] show ?thesis
    proof (cases rule: verdict_cases)
      case (silent msg)
      then show ?thesis using give_up_off [OF shut _ K2] by blast
    next
      case (complete dur ob3 ob4)
      then show ?thesis using finishFill_off [OF shut complete(4) pub [OF complete(2,3)]] by blast
    next
      case (expired ob3 ob4)
      then show ?thesis using give_up_off [OF shut expired(4) pub [OF expired(1,3)]] by blast
    qed simp
  qed
qed

end


text \<open>The demonstration VM exists on the platform and is running when its fill completes.\<close>

definition powered :: fake where
  "powered = New\<lparr>fk_nextID := 1, fk_vms := [(fake_ref 1, \<lparr>fk_vm = \<lparr>h_Ref = fake_ref 1, h_Name = ''gf-0001'', h_State = StatePoweredOn,
     h_DiskCount = 2, h_MAC = ''00:50'', h_OwnerID = '''', h_OwnerName = ''''\<rparr>, fk_disks = [], fk_tag = '''',
     fk_placement = Map.empty, fk_ownerID = demo_rand 1, fk_ownerName = ''fleet''\<rparr>)]\<rparr>"

definition running :: "fake orch" where
  "running = reported\<lparr>o_hv := powered,
     o_store := st_vms_update (map (\<lambda>v. v\<lparr>v_Ref := fake_ref 1\<rparr>)) (o_store reported)\<rparr>"

lemma demo_running:
  "fake_ok (o_hv running) \<and> st_faults (o_store running) = [] \<and> map v_Ref (vms_of (demo_rand 1) (o_store running)) = [fake_ref 1]
    \<and> (case fake_inv (o_hv running) (fake_ref 1) of Some w \<Rightarrow> h_State w = StatePoweredOn | None \<Rightarrow> False)
    \<and> (case fst (poll fake_driver fleet_dep demo_run 1 0 0 (init_fill 0 []) running) of Inr None \<Rightarrow> True | _ \<Rightarrow> False)"
  by code_simp


end
