(* ===== verification/ScheduleSpec.thy ===== *)
theory ScheduleSpec
  imports Model
begin

text \<open>
  The schedule grammar of \<open>internal/model/model.go\<close>: \<open>Schedule.Validate\<close> and
  \<open>Schedule.NextAfter\<close> with the parts of Go's \<open>time\<close> they use. Instants are nanoseconds since
  1970 (UTC), a calendar date is its day number, and a time zone is its lookup function: from
  an instant in seconds to the offset in force there and the span of that offset. The zone
  database behind \<open>time.LoadLocation\<close> is data outside the repository, hence a parameter.
\<close>

section \<open>time.ParseDuration\<close>

definition ns :: int where "ns = 10 ^ 9"

fun leading_int :: "int \<Rightarrow> string \<Rightarrow> (int \<times> string) option" where
  "leading_int x [] = Some (x, [])"
| "leading_int x (c # cs) =
     (if \<not> is_digit c then Some (x, c # cs)
      else if x > 2 ^ 63 div 10 then None
      else let y = x * 10 + int (digit_val c) in if y > 2 ^ 63 then None else leading_int y cs)"

fun leading_fraction :: "int \<Rightarrow> f64 \<Rightarrow> bool \<Rightarrow> string \<Rightarrow> int \<times> f64 \<times> string" where
  "leading_fraction x scale ovf [] = (x, scale, [])"
| "leading_fraction x scale ovf (c # cs) =
     (if \<not> is_digit c then (x, scale, c # cs)
      else if ovf \<or> x > (2 ^ 63 - 1) div 10 then leading_fraction x scale True cs
      else let y = x * 10 + int (digit_val c) in
        if y > 2 ^ 63 then leading_fraction x scale True cs else leading_fraction y (f_mul scale 10) False cs)"

text \<open>Both spellings of the micro sign are in the unit table.\<close>

definition unit_ns :: "string \<Rightarrow> int option" where
  "unit_ns u = (if u = ''ns'' then Some 1
     else if u = ''us'' \<or> u = [CHR 0xC2, CHR 0xB5, CHR ''s''] \<or> u = [CHR 0xCE, CHR 0xBC, CHR ''s''] then Some 1000
     else if u = ''ms'' then Some 1000000
     else if u = ''s'' then Some 1000000000
     else if u = ''m'' then Some 60000000000
     else if u = ''h'' then Some 3600000000000
     else None)"

definition unit_char :: "char \<Rightarrow> bool" where
  "unit_char c \<longleftrightarrow> \<not> (c = CHR ''.'' \<or> is_digit c)"

text \<open>One number with its unit: the value in nanoseconds (a \<open>uint64\<close> that the checks keep
  below \<open>2 ^ 64\<close>) and the rest of the text.\<close>

definition dur_item :: "string \<Rightarrow> (int \<times> string) option" where
  "dur_item s = (case s of [] \<Rightarrow> None | c # _ \<Rightarrow>
     if unit_char c then None
     else case leading_int 0 s of None \<Rightarrow> None | Some (v, s1) \<Rightarrow>
       let pre = (length s1 \<noteq> length s);
           dotted = (s1 \<noteq> [] \<and> hd s1 = CHR ''.'');
           frac = (if dotted then leading_fraction 0 1 False (tl s1) else (0, 1, s1));
           f = fst frac; scale = fst (snd frac); s3 = snd (snd frac);
           post = (dotted \<and> length s3 \<noteq> length (tl s1));
           u = takeWhile unit_char s3
       in if \<not> pre \<and> \<not> post then None
          else if u = [] then None
          else case unit_ns u of None \<Rightarrow> None | Some unit \<Rightarrow>
            if v > 2 ^ 63 div unit then None
            else let v1 = v * unit;
                     v2 = (if f > 0 then v1 + f_trunc (f_mul (f_of_int f) (f_div (f_of_int unit) scale)) else v1)
                 in if f > 0 \<and> v2 > 2 ^ 63 then None else Some (v2, dropWhile unit_char s3))"

text \<open>The loop over the items; the fuel is the length of the text, of which each item takes at
  least one byte. The sum is a \<open>uint64\<close>.\<close>

fun dur_loop :: "nat \<Rightarrow> int \<Rightarrow> string \<Rightarrow> int option" where
  "dur_loop _ d [] = Some d"
| "dur_loop 0 d (_ # _) = None"
| "dur_loop (Suc k) d (c # cs) = (case dur_item (c # cs) of None \<Rightarrow> None
     | Some (v, rest) \<Rightarrow> let d1 = (d + v) mod 2 ^ 64 in if d1 > 2 ^ 63 then None else dur_loop k d1 rest)"

definition ParseDuration :: "string \<Rightarrow> int option" where
  "ParseDuration s0 =
     (let neg = (s0 \<noteq> [] \<and> hd s0 = CHR ''-'');
          s = (case s0 of c # cs \<Rightarrow> if c = CHR ''-'' \<or> c = CHR ''+'' then cs else s0 | [] \<Rightarrow> [])
      in if s = ''0'' then Some 0
         else if s = [] then None
         else case dur_loop (length s) 0 s of None \<Rightarrow> None | Some d \<Rightarrow>
           if neg then Some (i64 (- d)) else if d > 2 ^ 63 - 1 then None else Some d)"

section \<open>time.Parse(time.RFC3339, ...)\<close>

text \<open>Proleptic Gregorian calendar: the day number of a date.\<close>

definition leap :: "int \<Rightarrow> bool" where
  "leap y \<longleftrightarrow> 4 dvd y \<and> (\<not> 100 dvd y \<or> 400 dvd y)"

definition days_in :: "int \<Rightarrow> int \<Rightarrow> int" where
  "days_in y m = (if m = 2 then (if leap y then 29 else 28) else if m \<in> {4, 6, 9, 11} then 30 else 31)"

definition day_number :: "int \<Rightarrow> int \<Rightarrow> int \<Rightarrow> int" where
  "day_number y0 m d =
     (let y = (if m \<le> 2 then y0 - 1 else y0); era = y div 400; yoe = y - era * 400;
          doy = (153 * (m + (if m > 2 then - 3 else 9)) + 2) div 5 + d - 1;
          doe = yoe * 365 + yoe div 4 - yoe div 100 + doy
      in era * 146097 + doe - 719468)"

text \<open>Exactly \<open>n\<close> digits; a fixed character.\<close>

definition digits :: "nat \<Rightarrow> string \<Rightarrow> (int \<times> string) option" where
  "digits n s = (if length (take n s) = n \<and> list_all is_digit (take n s) then Some (int (atoi (take n s)), drop n s) else None)"

definition expect :: "char \<Rightarrow> string \<Rightarrow> string option" where
  "expect c s = (case s of x # xs \<Rightarrow> if x = c then Some xs else None | [] \<Rightarrow> None)"

text \<open>The hour may have one digit (\<open>getnum\<close> with \<open>fixed = false\<close>).\<close>

definition hour_digits :: "string \<Rightarrow> (int \<times> string) option" where
  "hour_digits s = (case digits 2 s of Some r \<Rightarrow> Some r | None \<Rightarrow> digits 1 s)"

text \<open>A fraction after the seconds is taken although the layout has none; nine digits count.\<close>

definition fraction :: "string \<Rightarrow> int \<times> string" where
  "fraction s = (case s of p # c # cs \<Rightarrow>
       if (p = CHR ''.'' \<or> p = CHR '','') \<and> is_digit c
       then (let ds = takeWhile is_digit (c # cs); k = take 9 ds in
         (int (atoi k) * 10 ^ (9 - length k), dropWhile is_digit (c # cs)))
       else (0, s)
     | _ \<Rightarrow> (0, s))"

definition zone_suffix :: "string \<Rightarrow> (int \<times> string) option" where
  "zone_suffix s = (case s of [] \<Rightarrow> None | c # cs \<Rightarrow>
     if c = CHR ''Z'' then Some (0, cs)
     else if c = CHR ''+'' \<or> c = CHR ''-''
     then Option.bind (digits 2 cs) (\<lambda>(hh, s1). Option.bind (expect CHR '':'' s1) (\<lambda>s2.
          Option.bind (digits 2 s2) (\<lambda>(mm, s3).
            if hh > 24 \<or> mm > 60 then None
            else Some ((if c = CHR ''-'' then - 1 else 1) * (hh * 3600 + mm * 60), s3))))
     else None)"

definition ParseRFC3339 :: "string \<Rightarrow> int option" where
  "ParseRFC3339 s =
     Option.bind (digits 4 s) (\<lambda>(y, s). Option.bind (expect CHR ''-'' s) (\<lambda>s.
     Option.bind (digits 2 s) (\<lambda>(mo, s). Option.bind (expect CHR ''-'' s) (\<lambda>s.
     Option.bind (digits 2 s) (\<lambda>(d, s). Option.bind (expect CHR ''T'' s) (\<lambda>s.
     Option.bind (hour_digits s) (\<lambda>(h, s). Option.bind (expect CHR '':'' s) (\<lambda>s.
     Option.bind (digits 2 s) (\<lambda>(mi, s). Option.bind (expect CHR '':'' s) (\<lambda>s.
     Option.bind (digits 2 s) (\<lambda>(sec, s).
     let fr = fraction s in
     Option.bind (zone_suffix (snd fr)) (\<lambda>(off, s).
       if s \<noteq> [] \<or> mo < 1 \<or> mo > 12 \<or> d < 1 \<or> d > days_in y mo \<or> h \<ge> 24 \<or> mi \<ge> 60 \<or> sec \<ge> 60 then None
       else Some ((day_number y mo d * 86400 + h * 3600 + mi * 60 + sec - off) * ns + fst fr)))))))))))))"

section \<open>Daily specs\<close>

definition is_letter :: "char \<Rightarrow> bool" where
  "is_letter c \<longleftrightarrow> (CHR ''A'' \<le> c \<and> c \<le> CHR ''Z'') \<or> (CHR ''a'' \<le> c \<and> c \<le> CHR ''z'')"

text \<open>Sunday is 0.\<close>

definition weekdayNames :: "string \<Rightarrow> int option" where
  "weekdayNames = map_of [(''sun'', 0), (''mon'', 1), (''tue'', 2), (''wed'', 3), (''thu'', 4), (''fri'', 5), (''sat'', 6)]"

text \<open>The submatches of \<open>dailyRe\<close>: hour, minute, and the weekday names if there are any.\<close>

definition dailyRe :: "string \<Rightarrow> (string \<times> string \<times> string list) option" where
  "dailyRe s = (case s of h1 # h2 # col # m1 # m2 # rest \<Rightarrow>
       if (h1 = CHR ''0'' \<or> h1 = CHR ''1'' \<or> (h1 = CHR ''2'' \<and> h2 \<le> CHR ''3'')) \<and> is_digit h2 \<and> col = CHR '':''
          \<and> CHR ''0'' \<le> m1 \<and> m1 \<le> CHR ''5'' \<and> is_digit m2
       then (case rest of [] \<Rightarrow> Some ([h1, h2], [m1, m2], [])
         | a # names \<Rightarrow> let ps = split_on CHR '','' names in
             if a = CHR ''@'' \<and> list_all (\<lambda>p. length p = 3 \<and> list_all is_letter p) ps
             then Some ([h1, h2], [m1, m2], ps) else None)
       else None
     | _ \<Rightarrow> None)"

datatype schedule_error =
    BadAction run_type | BadDuration string | TooShort int | BadDaily string | UnknownWeekday string
  | UnknownZone string | BadOnce string | BadKind string

fun weekdays :: "string list \<Rightarrow> schedule_error + int list" where
  "weekdays [] = Inr []"
| "weekdays (n # names) = (case weekdayNames (to_lower n) of None \<Rightarrow> Inl (UnknownWeekday n)
     | Some wd \<Rightarrow> (case weekdays names of Inl e \<Rightarrow> Inl e | Inr wds \<Rightarrow> Inr (wd # wds)))"

text \<open>\<open>None\<close> for the days: every weekday is allowed.\<close>

definition parseDailySpec :: "string \<Rightarrow> schedule_error + int \<times> int \<times> int list option" where
  "parseDailySpec spec = (case dailyRe spec of None \<Rightarrow> Inl (BadDaily spec)
     | Some (h, m, names) \<Rightarrow>
         if names = [] then Inr (int (atoi h), int (atoi m), None)
         else (case weekdays names of Inl e \<Rightarrow> Inl e | Inr wds \<Rightarrow> Inr (int (atoi h), int (atoi m), Some wds)))"

section \<open>Time zones\<close>

type_synonym zone = "int \<Rightarrow> int \<times> int \<times> int"

definition utc :: zone where "utc = (\<lambda>_. (0, - (2 ^ 63), 2 ^ 63 - 1))"

definition local_secs :: "zone \<Rightarrow> int \<Rightarrow> int" where
  "local_secs z t = t + fst (z t)"

definition local_day :: "zone \<Rightarrow> int \<Rightarrow> int" where
  "local_day z t = local_secs z t div 86400"

definition weekday :: "zone \<Rightarrow> int \<Rightarrow> int" where
  "weekday z t = (local_day z t + 4) mod 7"

text \<open>\<open>time.Date\<close>: the instant of a wall-clock reading, given as the seconds it would be in UTC.\<close>

definition go_date :: "zone \<Rightarrow> int \<Rightarrow> int" where
  "go_date z u = (case z u of (off, st, en) \<Rightarrow>
     if off = 0 then u
     else let t = u - off in if t < st \<or> en \<le> t then u - fst (z t) else t)"

text \<open>\<open>t.AddDate(0, 0, i)\<close>\<close>

definition add_days :: "zone \<Rightarrow> int \<Rightarrow> int \<Rightarrow> int" where
  "add_days z t i = go_date z (local_secs z t + i * 86400)"

section \<open>Schedules\<close>

definition minEvery :: int where "minEvery = 60 * ns"

definition schedule_Validate :: "(string \<Rightarrow> zone option) \<Rightarrow> schedule \<Rightarrow> schedule_error option" where
  "schedule_Validate zones sc =
     (if sc_Action sc \<notin> set ScheduleActions then Some (BadAction (sc_Action sc))
      else case sc_Kind sc of
        ScheduleEvery \<Rightarrow> (case ParseDuration (sc_Spec sc) of
            None \<Rightarrow> Some (BadDuration (sc_Spec sc))
          | Some d \<Rightarrow> if d < minEvery then Some (TooShort d) else None)
      | ScheduleDaily \<Rightarrow> (case parseDailySpec (sc_Spec sc) of
            Inl e \<Rightarrow> Some e
          | Inr _ \<Rightarrow> if sc_Timezone sc \<noteq> '''' \<and> zones (sc_Timezone sc) = None
              then Some (UnknownZone (sc_Timezone sc)) else None)
      | ScheduleOnce \<Rightarrow> (case ParseRFC3339 (sc_Spec sc) of None \<Rightarrow> Some (BadOnce (sc_Spec sc)) | Some _ \<Rightarrow> None)
      | ScheduleOther k \<Rightarrow> Some (BadKind k))"

text \<open>The candidate of the \<open>i\<close>-th day from now, in seconds.\<close>

definition daily_cand :: "zone \<Rightarrow> int \<Rightarrow> int \<Rightarrow> int \<Rightarrow> int \<Rightarrow> int" where
  "daily_cand z h m t i = go_date z (local_day z (add_days z t i) * 86400 + h * 3600 + m * 60)"

definition daily_ok :: "zone \<Rightarrow> int list option \<Rightarrow> int \<Rightarrow> int \<Rightarrow> bool" where
  "daily_ok z days now c \<longleftrightarrow> c * ns > now \<and> (case days of None \<Rightarrow> True | Some wds \<Rightarrow> weekday z c \<in> set wds)"

definition schedule_zone :: "(string \<Rightarrow> zone option) \<Rightarrow> schedule \<Rightarrow> zone" where
  "schedule_zone zones sc = (if sc_Timezone sc = '''' then utc
     else case zones (sc_Timezone sc) of None \<Rightarrow> utc | Some z \<Rightarrow> z)"

definition NextAfter :: "(string \<Rightarrow> zone option) \<Rightarrow> schedule \<Rightarrow> int \<Rightarrow> int option" where
  "NextAfter zones sc now = (case sc_Kind sc of
      ScheduleEvery \<Rightarrow> (case ParseDuration (sc_Spec sc) of
          None \<Rightarrow> None
        | Some d \<Rightarrow> if d < minEvery then None else Some (now + d))
    | ScheduleDaily \<Rightarrow> (case parseDailySpec (sc_Spec sc) of
          Inl _ \<Rightarrow> None
        | Inr (h, m, days) \<Rightarrow> let z = schedule_zone zones sc in
            map_option (\<lambda>c. c * ns) (find (daily_ok z days now) (map (daily_cand z h m (now div ns)) [0..7])))
    | ScheduleOnce \<Rightarrow> (case ParseRFC3339 (sc_Spec sc) of
          None \<Rightarrow> None
        | Some t \<Rightarrow> if t > now then Some t else None)
    | ScheduleOther _ \<Rightarrow> None)"

end
