(* ===== verification/ScheduleTimes.thy ===== *)
theory ScheduleTimes
  imports ScheduleSpec
begin

text \<open>
  What \<open>Schedule.Validate\<close> and \<open>Schedule.NextAfter\<close> mean: the next fire time lies in the
  future, the daily loop finds the least matching instant, and a valid recurring schedule
  always has one.
\<close>

section \<open>Daily specs\<close>

lemma two_digits: "is_digit a \<Longrightarrow> is_digit b \<Longrightarrow> atoi [a, b] = 10 * digit_val a + digit_val b \<and> digit_val a \<le> 9 \<and> digit_val b \<le> 9"
  by (simp add: atoi_def is_digit_iff digit_val_def le_diff_conv)

lemma weekdayNames_range: "weekdayNames n = Some wd \<Longrightarrow> 0 \<le> wd \<and> wd \<le> 6"
  by (auto simp: weekdayNames_def split: if_splits)

lemma weekdays_range: "weekdays names = Inr wds \<Longrightarrow> (\<forall>wd \<in> set wds. 0 \<le> wd \<and> wd \<le> 6) \<and> length wds = length names"
  by (induction names arbitrary: wds) (auto dest: weekdayNames_range split: option.splits sum.splits)

lemma parseDailySpec_range:
  assumes "parseDailySpec spec = Inr (h, m, days)"
  shows "0 \<le> h" "h \<le> 23" "0 \<le> m" "m \<le> 59" "\<And>wds. days = Some wds \<Longrightarrow> wds \<noteq> [] \<and> set wds \<subseteq> {0..6}"
proof -
  obtain hs ms names where re: "dailyRe spec = Some (hs, ms, names)" and v: "h = int (atoi hs)" "m = int (atoi ms)"
    and d: "\<And>wds. days = Some wds \<Longrightarrow> names \<noteq> [] \<and> weekdays names = Inr wds"
    using assms by (auto simp: parseDailySpec_def split: option.splits if_splits sum.splits)
  obtain h1 h2 m1 m2 where hm: "hs = [h1, h2]" "ms = [m1, m2]" "is_digit h2" "is_digit m2"
      "h1 = CHR ''0'' \<or> h1 = CHR ''1'' \<or> h1 = CHR ''2'' \<and> h2 \<le> CHR ''3''" "CHR ''0'' \<le> m1" "m1 \<le> CHR ''5''"
    using re by (auto simp: dailyRe_def Let_def split: list.splits if_splits)
  have "is_digit h1" "is_digit m1" using hm(5-7) by (auto simp: is_digit_def less_eq_char_def)
  then have "atoi hs = 10 * digit_val h1 + digit_val h2" "atoi ms = 10 * digit_val m1 + digit_val m2"
    "digit_val h2 \<le> 9" "digit_val m2 \<le> 9"
    using hm two_digits by auto
  moreover have "digit_val m1 \<le> 5" "digit_val h1 \<le> 1 \<or> digit_val h1 = 2 \<and> digit_val h2 \<le> 3"
    using hm(5,7) by (auto simp: digit_val_def less_eq_char_def)
  ultimately show "0 \<le> h" "h \<le> 23" "0 \<le> m" "m \<le> 59" using v by auto
  show "wds \<noteq> [] \<and> set wds \<subseteq> {0..6}" if "days = Some wds" for wds
    using d [OF that] weekdays_range [of names wds] by (cases wds) auto
qed

section \<open>The next daily occurrence in UTC\<close>

lemma utc_simps [simp]: "local_secs utc t = t" "go_date utc u = u" "add_days utc t i = t + i * 86400"
  by (simp_all add: local_secs_def utc_def go_date_def add_days_def)

text \<open>The reference: the instants a daily spec names.\<close>

definition daily_instant :: "int \<Rightarrow> int \<Rightarrow> int list option \<Rightarrow> int \<Rightarrow> bool" where
  "daily_instant h m days n \<longleftrightarrow> (\<exists>day. n = (day * 86400 + h * 3600 + m * 60) * ns
     \<and> (case days of None \<Rightarrow> True | Some wds \<Rightarrow> (day + 4) mod 7 \<in> set wds))"

lemma find_least:
  assumes "find P (map f [a..b]) = r" and mono: "\<And>i j. i < j \<Longrightarrow> f i < (f j :: int)"
  shows "case r of None \<Rightarrow> \<forall>i \<in> {a..b}. \<not> P (f i)
    | Some x \<Rightarrow> \<exists>i \<in> {a..b}. x = f i \<and> P x \<and> (\<forall>j \<in> {a..<i}. \<not> P (f j))"
  using assms(1)
proof (induction "nat (b - a + 1)" arbitrary: a)
  case 0
  then show ?case by auto
next
  case (Suc k)
  then have ab: "a \<le> b" by simp
  show ?case
  proof (cases "P (f a)")
    case True
    with Suc.prems ab have "r = Some (f a)" by (simp add: upto_rec1)
    then show ?thesis using True ab by (auto intro!: bexI [of _ a])
  next
    case False
    have eq: "find P (map f [a + 1..b]) = r" using Suc.prems False ab by (simp add: upto_rec1)
    have "k = nat (b - (a + 1) + 1)" using Suc.hyps(2) by simp
    from Suc.hyps(1) [OF this eq] show ?thesis
    proof (cases r)
      case None
      have "\<not> P (f i)" if "i \<in> {a..b}" for i
        using that False \<open>case r of None \<Rightarrow> _ | Some x \<Rightarrow> _ x\<close> None by (cases "i = a") auto
      then show ?thesis using None by simp
    next
      case (Some x)
      then obtain i where "i \<in> {a + 1..b}" "x = f i" "P x" "\<forall>j \<in> {a + 1..<i}. \<not> P (f j)"
        using \<open>case r of None \<Rightarrow> _ | Some x \<Rightarrow> _ x\<close> by auto
      then show ?thesis using Some False by (auto intro!: bexI [of _ i]) (metis False atLeastLessThan_iff order_le_less zless_imp_add1_zle)
    qed
  qed
qed

text \<open>Every weekday comes up once in the seven days after \<open>day0\<close> (day 0, a Thursday, is number 4).\<close>

lemma weekday_comes:
  fixes day0 wd :: int
  assumes "0 \<le> wd" "wd \<le> 6"
  shows "\<exists>i \<in> {1..7}. (day0 + i + 4) mod 7 = wd"
proof
  let ?i = "(wd - day0 - 5) mod 7 + 1"
  have "(day0 + ?i + 4) mod 7 = ((wd - day0 - 5) mod 7 + (day0 + 5)) mod 7" by (simp add: algebra_simps)
  also have "\<dots> = (wd - day0 - 5 + (day0 + 5)) mod 7" by (rule mod_add_left_eq)
  also have "\<dots> = wd" using assms by simp
  finally show "(day0 + ?i + 4) mod 7 = wd" .
  show "?i \<in> {1..7}" using pos_mod_sign [of 7 "wd - day0 - 5"] pos_mod_bound [of 7 "wd - day0 - 5"] by simp
qed

text \<open>The fire times of a spec lie at \<open>cd i\<close>, the time of day of the \<open>i\<close>-th day from \<open>now\<close>'s; the ones
  after \<open>now\<close> are on no earlier day than that, and all from the next day on are.\<close>

lemma day_slots:
  fixes now hm :: int
  assumes "0 \<le> hm" "hm < 86400"
  defines "day0 \<equiv> now div ns div 86400"
  defines "cd \<equiv> \<lambda>i. (day0 + i) * 86400 + hm"
  shows "1 \<le> i \<Longrightarrow> now < cd i * ns" and "now < cd i * ns \<Longrightarrow> 0 \<le> i"
proof -
  have now: "now < (day0 + 1) * 86400 * ns" "day0 * 86400 * ns \<le> now"
    unfolding day0_def by (simp_all add: ns_def)
  show "now < cd i * ns" if "1 \<le> i"
  proof -
    have "(day0 + 1) * 86400 \<le> cd i" using that assms by (simp add: cd_def)
    then have "(day0 + 1) * 86400 * ns \<le> cd i * ns" by (simp add: ns_def)
    with now show ?thesis by linarith
  qed
  show "0 \<le> i" if "now < cd i * ns"
  proof (rule ccontr)
    assume "\<not> 0 \<le> i"
    then have "cd i \<le> day0 * 86400" using assms by (simp add: cd_def)
    then have "cd i * ns \<le> day0 * 86400 * ns" by (simp add: ns_def)
    with now that show False by linarith
  qed
qed

lemma daily_least:
  assumes sc: "sc_Kind sc = ScheduleDaily" "sc_Timezone sc = ''''" and spec: "parseDailySpec (sc_Spec sc) = Inr (h, m, days)"
  shows "\<exists>n. NextAfter zones sc now = Some n \<and> now < n \<and> daily_instant h m days n
    \<and> (\<forall>k. now < k \<and> daily_instant h m days k \<longrightarrow> n \<le> k)"
proof -
  note range = parseDailySpec_range [OF spec]
  define day0 where "day0 = now div ns div 86400"
  define cd where "cd i = (day0 + i) * 86400 + h * 3600 + m * 60" for i
  define P where "P = daily_ok utc days now"
  have cand: "daily_cand utc h m (now div ns) i = cd i" for i
    by (simp add: daily_cand_def local_day_def day0_def cd_def)
  have hm: "0 \<le> h * 3600 + m * 60" "h * 3600 + m * 60 < 86400" using range by auto
  have wd: "weekday utc (cd i) = (day0 + i + 4) mod 7" for i
  proof -
    have "cd i div 86400 = day0 + i" using hm unfolding cd_def by (simp add: div_add1_eq [of "(day0 + i) * 86400"] add.assoc)
    then show ?thesis by (simp add: weekday_def local_day_def)
  qed
  have P: "P (cd i) \<longleftrightarrow> now < cd i * ns \<and> (case days of None \<Rightarrow> True | Some wds \<Rightarrow> (day0 + i + 4) mod 7 \<in> set wds)" for i
    unfolding P_def daily_ok_def wd by (cases days) auto
  have inst: "daily_instant h m days k \<longleftrightarrow> (\<exists>i. k = cd i * ns \<and> (case days of None \<Rightarrow> True | Some wds \<Rightarrow> (day0 + i + 4) mod 7 \<in> set wds))" for k
    unfolding daily_instant_def cd_def by (metis add.commute diff_add_cancel)
  have mono: "cd i < cd j" if "i < j" for i j using that by (simp add: cd_def)
  note slots = day_slots [OF hm, where now = now, folded day0_def add.assoc, folded cd_def]
  have ex: "\<exists>i \<in> {0..7}. P (cd i)"
  proof (cases days)
    case None
    then show ?thesis using slots(1) [of 1] P [of 1] by (intro bexI [of _ 1]) auto
  next
    case (Some wds)
    then obtain wd where w: "wd \<in> set wds" "0 \<le> wd" "wd \<le> 6" using range(5) by (metis all_not_in_conv atLeastAtMost_iff set_empty subsetD)
    from weekday_comes [OF w(2,3), of day0] obtain i where i: "i \<in> {1..7}" "(day0 + i + 4) mod 7 = wd" by blast
    then show ?thesis using Some w slots(1) [of i] P [of i] by (intro bexI [of _ i]) auto
  qed
  obtain i where i: "find P (map cd [0..7]) = Some (cd i)" "i \<in> {0..7}" "P (cd i)" "\<forall>j \<in> {0..<i}. \<not> P (cd j)"
    using find_least [of P cd 0 7 "find P (map cd [0..7])"] mono ex by (auto split: option.splits)
  have n: "NextAfter zones sc now = Some (cd i * ns)"
    using sc spec i(1) ext [of "daily_cand utc h m (now div ns)" cd, OF cand]
    by (simp add: NextAfter_def Let_def schedule_zone_def P_def)
  have "cd i * ns \<le> k" if k: "now < k" "daily_instant h m days k" for k
  proof -
    obtain j where j: "k = cd j * ns" "P (cd j)" using k unfolding inst P by blast
    then have "i \<le> j" using slots(2) [of j] i(4) k by (metis atLeastLessThan_iff not_le)
    then have "cd i \<le> cd j" using mono [of i j] by (cases "i = j") auto
    then show ?thesis by (simp add: j ns_def)
  qed
  moreover have "daily_instant h m days (cd i * ns)" "now < cd i * ns" using i(3) unfolding inst P by blast+
  ultimately show ?thesis using n by blast
qed

text \<open>
  C23. A daily schedule in UTC, with or without a weekday filter, fires next at the least
  instant after now that its spec names: the eight-day search always finds one, and misses
  none.
\<close>

theorem daily_next_least:
  assumes sc: "sc_Kind sc = ScheduleDaily" "sc_Timezone sc = ''''" and spec: "parseDailySpec (sc_Spec sc) = Inr (h, m, days)"
  shows "\<exists>n. NextAfter zones sc now = Some n \<and> now < n \<and> daily_instant h m days n
    \<and> (\<forall>k. now < k \<and> daily_instant h m days k \<longrightarrow> n \<le> k)"
  using assms by (rule daily_least)

definition daily_demo :: schedule where
  "daily_demo = \<lparr>sc_ID = '''', sc_DeploymentID = '''', sc_Action = RunIncremental, sc_Kind = ScheduleDaily,
     sc_Spec = ''06:00@Mon'', sc_Timezone = '''', sc_Enabled = True, sc_NextRunAt = None, sc_LastFiredAt = None,
     sc_LastRunID = '''', sc_LastResult = '''', sc_CreatedAt = 0, sc_UpdatedAt = 0\<rparr>"

lemma demo_daily_spec: "parseDailySpec (sc_Spec daily_demo) = Inr (6, 0, Some [1])"
  by code_simp

theorem daily_next_least_witness:
  "\<forall>now. \<exists>n. NextAfter (\<lambda>_. None) daily_demo now = Some n \<and> now < n \<and> daily_instant 6 0 (Some [1]) n"
  using daily_next_least [OF _ _ demo_daily_spec] by (fastforce simp: daily_demo_def)

text \<open>
  Whatever the kind, the zone and the spec, the next fire time of a schedule lies strictly
  in the future, an interval schedule is at least a minute away, and a weekday filter is
  respected on the local calendar.
\<close>

theorem next_after_future:
  assumes "NextAfter zones sc now = Some n"
  shows "now < n \<and> (sc_Kind sc = ScheduleEvery \<longrightarrow> 60 * ns \<le> n - now)
    \<and> (sc_Kind sc = ScheduleDaily \<longrightarrow> (\<exists>h m days c. parseDailySpec (sc_Spec sc) = Inr (h, m, days) \<and> n = c * ns
         \<and> (case days of None \<Rightarrow> True | Some wds \<Rightarrow> weekday (schedule_zone zones sc) c \<in> set wds)))"
proof (cases "sc_Kind sc")
  case ScheduleEvery
  with assms show ?thesis by (auto simp: NextAfter_def minEvery_def ns_def split: option.splits if_splits)
next
  case ScheduleDaily
  obtain h m days where p: "parseDailySpec (sc_Spec sc) = Inr (h, m, days)"
    using assms ScheduleDaily by (auto simp: NextAfter_def split: sum.splits)
  obtain c where c: "n = c * ns"
    "find (daily_ok (schedule_zone zones sc) days now) (map (daily_cand (schedule_zone zones sc) h m (now div ns)) [0..7]) = Some c"
    using assms ScheduleDaily p by (auto simp: NextAfter_def Let_def)
  from find_SomeD [OF c(2)] have "daily_ok (schedule_zone zones sc) days now c" ..
  with c p ScheduleDaily show ?thesis by (auto simp: daily_ok_def)
next
  case ScheduleOnce
  with assms show ?thesis by (auto simp: NextAfter_def split: option.splits if_splits)
next
  case (ScheduleOther k)
  with assms show ?thesis by (simp add: NextAfter_def)
qed

theorem next_after_future_witness:
  "\<exists>n. NextAfter (\<lambda>_. None) daily_demo 0 = Some n \<and> 0 < n"
proof -
  have "NextAfter (\<lambda>_. None) daily_demo 0 = Some (367200 * ns)" by code_simp
  with next_after_future [OF this] show ?thesis by blast
qed

text \<open>
  A schedule that passes validation, in UTC, lacks a next occurrence only if it is a
  one-shot whose time has come.
\<close>

theorem valid_schedule_recurs:
  assumes "schedule_Validate zones sc = None" and "sc_Timezone sc = ''''"
  shows "NextAfter zones sc now = None \<longleftrightarrow>
    sc_Kind sc = ScheduleOnce \<and> (\<exists>t. ParseRFC3339 (sc_Spec sc) = Some t \<and> t \<le> now)"
proof (cases "sc_Kind sc")
  case ScheduleDaily
  with assms obtain h m days where p: "parseDailySpec (sc_Spec sc) = Inr (h, m, days)"
    by (auto simp: schedule_Validate_def split: if_splits sum.splits)
  obtain n where "NextAfter zones sc now = Some n"
    using daily_least [OF ScheduleDaily assms(2) p] by blast
  with ScheduleDaily show ?thesis by simp
qed (use assms in \<open>auto simp: schedule_Validate_def NextAfter_def split: if_splits option.splits\<close>)

theorem valid_schedule_recurs_witness:
  "NextAfter (\<lambda>_. None) daily_demo 0 \<noteq> None"
proof -
  have "schedule_Validate (\<lambda>_. None) daily_demo = None" by code_simp
  from valid_schedule_recurs [OF this] show ?thesis by (simp add: daily_demo_def)
qed

section \<open>Durations\<close>

lemma leading_int_digits:
  assumes "list_all is_digit ds" and "rest = [] \<or> \<not> is_digit (hd rest)" and "int (atoi_acc (nat x) ds) \<le> 2 ^ 63" and "0 \<le> x"
  shows "leading_int x (ds @ rest) = Some (int (atoi_acc (nat x) ds), rest)"
  using assms
proof (induction ds arbitrary: x)
  case Nil
  then show ?case by (cases rest) auto
next
  case (Cons c ds)
  have grow: "a \<le> atoi_acc a ds" for a
  proof (induction ds arbitrary: a)
    case (Cons d ds)
    have "a \<le> 10 * a + digit_val d" by simp
    also have "\<dots> \<le> atoi_acc (10 * a + digit_val d) ds" by (rule Cons.IH)
    finally show ?case by simp
  qed simp
  have eq: "nat (x * 10 + int (digit_val c)) = 10 * nat x + digit_val c" using Cons.prems by simp
  have le: "x * 10 + int (digit_val c) \<le> 2 ^ 63"
    using Cons.prems(3,4) grow [of "10 * nat x + digit_val c"] eq by (simp add: mult.commute)
  then have "\<not> x > 2 ^ 63 div 10" by simp
  then show ?case using Cons.IH [of "x * 10 + int (digit_val c)"] Cons.prems le eq by (simp add: Let_def)
qed

lemma unit_ns_chars: "unit_ns u = Some k \<Longrightarrow> u \<noteq> [] \<and> list_all unit_char u \<and> 0 < k"
  by (auto simp: unit_ns_def unit_char_def is_digit_iff split: if_splits)

lemma dur_item_whole:
  assumes u: "unit_ns u = Some k" and fits: "int n * k \<le> 2 ^ 63"
  shows "dur_item (itoa_nat n @ u) = Some (int n * k, [])"
proof -
  note unit = unit_ns_chars [OF u]
  obtain c cs where i: "itoa_nat n = c # cs" "is_digit c"
    using itoa_nat_digits [of n] by (cases "itoa_nat n") (auto simp: itoa_nat.simps [of n] split: if_splits)
  obtain v us where uv: "u = v # us" "unit_char v" using unit by (cases u) auto
  have tk: "takeWhile unit_char us = us" "dropWhile unit_char us = []"
    using unit uv by (auto simp: list_all_iff takeWhile_eq_all_conv dropWhile_eq_Nil_conv)
  have "int n * 1 \<le> int n * k" using unit by (intro mult_left_mono) auto
  then have small: "int n \<le> 2 ^ 63" using fits by linarith
  have l: "leading_int 0 (itoa_nat n @ u) = Some (int n, u)"
    using leading_int_digits [of "itoa_nat n" u 0] itoa_nat_digits [of n] atoi_itoa_nat [of n] uv small
    by (simp add: list_all_iff atoi_def unit_char_def)
  have dot: "v \<noteq> CHR ''.''" using uv by (simp add: unit_char_def)
  have "\<not> int n > 2 ^ 63 div k" using fits unit by (simp add: zdiv_mono1 [of "int n * k" "2 ^ 63" k, simplified] not_less)
  moreover have "\<not> unit_char c" using i by (simp add: unit_char_def)
  ultimately show ?thesis
    using l u i uv dot fits by (simp add: dur_item_def Let_def tk)
qed

lemma duration_roundtrip:
  assumes "unit_ns u = Some k" and "int n * k \<le> 2 ^ 63 - 1"
  shows "ParseDuration (itoa_nat n @ u) = Some (int n * k)"
proof -
  note unit = unit_ns_chars [OF assms(1)]
  obtain c cs where i: "itoa_nat n = c # cs" "is_digit c"
    using itoa_nat_digits [of n] by (cases "itoa_nat n") (auto simp: itoa_nat.simps [of n] split: if_splits)
  have c: "c \<noteq> CHR ''-''" "c \<noteq> CHR ''+''" using i by (auto simp: is_digit_iff)
  have item: "dur_item (c # cs @ u) = Some (int n * k, [])"
    using dur_item_whole [OF assms(1), of n] assms(2) i by simp
  have "0 \<le> int n * k" using unit by simp
  with item assms(2) c unit i show ?thesis
    by (simp add: ParseDuration_def Let_def)
qed

text \<open>
  An interval written as a whole number of some unit is read back exactly: the schedule is
  valid if it is at least a minute, and then fires next after exactly that interval.
\<close>

theorem interval_next:
  assumes "sc_Kind sc = ScheduleEvery" "sc_Spec sc = itoa_nat n @ u" and "unit_ns u = Some k" "int n * k \<le> 2 ^ 63 - 1"
  shows "(schedule_Validate zones sc = None \<longleftrightarrow> sc_Action sc \<in> set ScheduleActions \<and> minEvery \<le> int n * k)
    \<and> NextAfter zones sc now = (if minEvery \<le> int n * k then Some (now + int n * k) else None)"
  using duration_roundtrip [OF assms(3,4)] assms(1,2) by (auto simp: schedule_Validate_def NextAfter_def)

theorem interval_next_witness:
  "NextAfter (\<lambda>_. None) (daily_demo\<lparr>sc_Kind := ScheduleEvery, sc_Spec := ''24h''\<rparr>) 5 = Some (86400 * ns + 5)"
proof -
  have "itoa_nat 24 @ ''h'' = ''24h''" by code_simp
  then show ?thesis
    using interval_next [of "daily_demo\<lparr>sc_Kind := ScheduleEvery, sc_Spec := ''24h''\<rparr>" 24 "''h''" 3600000000000 "\<lambda>_. None" 5]
    by (simp add: unit_ns_def minEvery_def ns_def)
qed

end
