(* ===== verification/Sched.thy ===== *)
theory Sched
  imports Fill ScheduleTimes
begin

text \<open>
  \<open>internal/sched/sched.go\<close>: the scheduler. It sees the store and the orchestrator through two
  Go interfaces, \<open>Store\<close> and \<open>Starter\<close>, which are records of operations here; the locale
  \<open>scheduling\<close> states what it relies on of them. Instants are nanoseconds; the store's
  columns hold seconds.
\<close>

section \<open>Interfaces and state\<close>

definition tickInterval :: int where "tickInterval = 30 * ns"
definition busyGrace :: int where "busyGrace = 3600 * ns"

record 's starter =
  sr_StartFill :: "deployment \<Rightarrow> run_type \<Rightarrow> ('s, run) prog"
  sr_StartPower :: "deployment \<Rightarrow> bool \<Rightarrow> ('s, run) prog"
  sr_StartTeardown :: "deployment \<Rightarrow> ('s, run) prog"

record 's sched_store =
  ss_ListDueSchedules :: "int \<Rightarrow> ('s, schedule list) prog"
  ss_GetDeployment :: "string \<Rightarrow> ('s, deployment) prog"
  ss_AdvanceSchedule :: "string \<Rightarrow> string \<Rightarrow> string \<Rightarrow> int \<Rightarrow> int option \<Rightarrow> ('s, unit) prog"
  ss_SetRunTrigger :: "string \<Rightarrow> string \<Rightarrow> ('s, unit) prog"

record 's scheduler =
  sd_busySince :: "string \<rightharpoonup> int"
  sd_sys :: 's

definition newScheduler :: "'s \<Rightarrow> 's scheduler" where
  "newScheduler s = \<lparr>sd_busySince = Map.empty, sd_sys = s\<rparr>"

definition sys :: "('s, 'a) prog \<Rightarrow> ('s scheduler, 'a) prog" where
  "sys m = on_part sd_sys sd_sys_update m"

section \<open>Operations\<close>

definition start_action :: "'s starter \<Rightarrow> schedule \<Rightarrow> deployment \<Rightarrow> ('s, run) prog" where
  "start_action sr sc d = (case sc_Action sc of
      RunIncremental \<Rightarrow> if d_Status d \<noteq> DeploymentReady
        then fail (ErrPrecondition ''deployment must be ready (deploy it first)'') else sr_StartFill sr d (sc_Action sc)
    | RunVerify \<Rightarrow> if d_Status d \<noteq> DeploymentReady
        then fail (ErrPrecondition ''deployment must be ready (deploy it first)'') else sr_StartFill sr d (sc_Action sc)
    | RunPowerOn \<Rightarrow> sr_StartPower sr d True
    | RunPowerOff \<Rightarrow> sr_StartPower sr d False
    | RunTeardown \<Rightarrow> sr_StartTeardown sr d
    | a \<Rightarrow> fail (ErrOther (''unknown action '' @ go_quote (run_type_text a))))"

definition advance :: "(string \<Rightarrow> zone option) \<Rightarrow> 's sched_store \<Rightarrow> schedule \<Rightarrow> int \<Rightarrow> string \<Rightarrow> string \<Rightarrow> bool
    \<Rightarrow> ('s scheduler, unit) prog" where
  "advance zones st sc t result runID recur =
     seq (change (\<lambda>s. s\<lparr>sd_busySince := (sd_busySince s)(sc_ID sc := None)\<rparr>)) (\<lambda>_.
     let nxt = (if recur then NextAfter zones sc t else None) in
     attempt (sys (ss_AdvanceSchedule st (sc_ID sc) result runID t nxt)) (\<lambda>_. ret ()))"

definition fire :: "(string \<Rightarrow> zone option) \<Rightarrow> 's sched_store \<Rightarrow> 's starter \<Rightarrow> int \<Rightarrow> schedule
    \<Rightarrow> ('s scheduler, unit) prog" where
  "fire zones st sr t sc =
     attempt (sys (ss_GetDeployment st (sc_DeploymentID sc))) (\<lambda>q. case q of
       Inl _ \<Rightarrow> advance zones st sc t ''error: deployment missing'' '''' False
     | Inr d \<Rightarrow>
         if d_Status d = DeploymentDeleted \<or> d_Status d = DeploymentDeleting
         then advance zones st sc t ''skipped: deployment deleted'' '''' False
         else attempt (sys (start_action sr sc d)) (\<lambda>r. case r of
             Inr run \<Rightarrow>
               attempt (sys (ss_SetRunTrigger st (r_ID run) (sc_ID sc))) (\<lambda>_.
               advance zones st sc t ''fired'' (r_ID run) True)
           | Inl e \<Rightarrow>
               if is_busy e
               then seq (look sd_busySince) (\<lambda>busy. case busy (sc_ID sc) of
                   None \<Rightarrow> change (\<lambda>s. s\<lparr>sd_busySince := (sd_busySince s)(sc_ID sc \<mapsto> t)\<rparr>)
                 | Some since \<Rightarrow>
                     if t - since < busyGrace then ret ()
                     else advance zones st sc t ''skipped: busy'' '''' True)
               else advance zones st sc t (''error: '' @ error_text e) '''' True))"

definition scheduler_tick :: "(string \<Rightarrow> zone option) \<Rightarrow> 's sched_store \<Rightarrow> 's starter \<Rightarrow> int \<Rightarrow> ('s scheduler, unit) prog" where
  "scheduler_tick zones st sr t =
     attempt (sys (ss_ListDueSchedules st t)) (\<lambda>q. case q of
       Inl _ \<Rightarrow> ret ()
     | Inr due \<Rightarrow> for_each due (fire zones st sr t))"

text \<open>\<open>Run\<close> until its context is cancelled: the instants of its ticks, each with what the rest
  of the system did before it.\<close>

definition Run :: "(string \<Rightarrow> zone option) \<Rightarrow> 's sched_store \<Rightarrow> 's starter \<Rightarrow> (int \<times> ('s \<Rightarrow> 's)) list
    \<Rightarrow> ('s scheduler, unit) prog" where
  "Run zones st sr ticks = for_each ticks (\<lambda>(t, rest).
     seq (change (\<lambda>s. s\<lparr>sd_sys := rest (sd_sys s)\<rparr>)) (\<lambda>_. scheduler_tick zones st sr t))"

section \<open>What a tick does to the schedules\<close>

definition secs :: "int \<Rightarrow> int" where "secs t = t div ns"

text \<open>The row after \<open>AdvanceSchedule\<close>.\<close>

definition advanced :: "string \<Rightarrow> string \<Rightarrow> int \<Rightarrow> int option \<Rightarrow> int \<Rightarrow> schedule \<Rightarrow> schedule" where
  "advanced result runID fired nxt upd r = r\<lparr>sc_LastFiredAt := Some fired, sc_LastRunID := runID,
     sc_LastResult := result, sc_NextRunAt := nxt, sc_Enabled := (nxt \<noteq> None), sc_UpdatedAt := upd\<rparr>"

lemma advanced_simps [simp]:
  "sc_ID (advanced res run f nxt u r) = sc_ID r" "sc_DeploymentID (advanced res run f nxt u r) = sc_DeploymentID r"
  "sc_Kind (advanced res run f nxt u r) = sc_Kind r" "sc_NextRunAt (advanced res run f nxt u r) = nxt"
  "sc_LastFiredAt (advanced res run f nxt u r) = Some f" "sc_Enabled (advanced res run f nxt u r) = (nxt \<noteq> None)"
  by (simp_all add: advanced_def)

text \<open>What has become of a due schedule: it waits for its busy deployment, since less than the
  grace, or it has been moved to its next occurrence or disabled.\<close>

definition waits :: "int \<Rightarrow> int option \<Rightarrow> int option \<Rightarrow> bool" where
  "waits t before after = (case after of None \<Rightarrow> False
     | Some since \<Rightarrow> if before = None then since = t else before = Some since \<and> t - since < busyGrace)"

definition moved :: "(string \<Rightarrow> zone option) \<Rightarrow> int \<Rightarrow> schedule \<Rightarrow> schedule \<Rightarrow> bool" where
  "moved zones t sc row \<longleftrightarrow> (\<exists>res run nxt u. row = advanced res run (secs t) nxt u sc
     \<and> (res \<noteq> ''fired'' \<longrightarrow> run = '''')
     \<and> (nxt = None \<or> nxt = map_option secs (NextAfter zones sc t)))"

definition settled :: "(string \<Rightarrow> zone option) \<Rightarrow> int \<Rightarrow> schedule \<Rightarrow> schedule \<Rightarrow> int option \<Rightarrow> int option \<Rightarrow> bool" where
  "settled zones t sc row before after \<longleftrightarrow>
     (row = sc \<and> waits t before after) \<or> (after = None \<and> moved zones t sc row)"

locale scheduling =
  fixes st :: "'s sched_store" and sr :: "'s starter"
    and scheds :: "'s \<Rightarrow> schedule list" and healthy :: "'s \<Rightarrow> bool"
  assumes ListDue: "\<And>s t r s'. healthy s \<Longrightarrow> ss_ListDueSchedules st t s = (r, s') \<Longrightarrow> healthy s' \<and> scheds s' = scheds s
      \<and> (\<exists>due. r = Inr due \<and> set due = {sc \<in> set (scheds s). is_due (secs t) sc} \<and> distinct (map sc_ID due))"
    and calm_GetDeployment: "\<And>S i. keeps (\<lambda>s. healthy s \<and> scheds s = S) (ss_GetDeployment st i)"
    and calm_SetRunTrigger: "\<And>S i j. keeps (\<lambda>s. healthy s \<and> scheds s = S) (ss_SetRunTrigger st i j)"
    and calm_StartFill: "\<And>S d rt. keeps (\<lambda>s. healthy s \<and> scheds s = S) (sr_StartFill sr d rt)"
    and calm_StartPower: "\<And>S d on. keeps (\<lambda>s. healthy s \<and> scheds s = S) (sr_StartPower sr d on)"
    and calm_StartTeardown: "\<And>S d. keeps (\<lambda>s. healthy s \<and> scheds s = S) (sr_StartTeardown sr d)"
    and Advance: "\<And>s i res run t nxt. healthy s \<Longrightarrow> (case ss_AdvanceSchedule st i res run t nxt s of (r, s') \<Rightarrow> healthy s' \<and>
       (\<exists>u. scheds s' = update_where (\<lambda>sc. sc_ID sc = i) (advanced res run (secs t) (map_option secs nxt) u) (scheds s)))"
    and unique: "\<And>s. healthy s \<Longrightarrow> distinct (map sc_ID (scheds s))"
begin

abbreviation ok :: "'s scheduler \<Rightarrow> bool" where "ok s \<equiv> healthy (sd_sys s)"
abbreviation rows :: "'s scheduler \<Rightarrow> schedule list" where "rows s \<equiv> scheds (sd_sys s)"

definition same :: "schedule list \<Rightarrow> (string \<rightharpoonup> int) \<Rightarrow> 's scheduler \<Rightarrow> bool" where
  "same S B s \<longleftrightarrow> ok s \<and> rows s = S \<and> sd_busySince s = B"

lemma valid_sys: "(\<And>S. keeps (\<lambda>s. healthy s \<and> scheds s = S) m) \<Longrightarrow> valid (same S B) (sys m) (\<lambda>_. same S B)"
  by (force simp: valid_def sys_def on_part_def same_def keeps_def split: prod.splits)

lemma calm_start: "keeps (\<lambda>s. healthy s \<and> scheds s = S) (start_action sr sc d)"
  unfolding start_action_def
  by (cases "sc_Action sc"; simp; intro inv_intros calm_StartFill calm_StartPower calm_StartTeardown conjI impI)

text \<open>\<open>fire\<close> touches its own schedule only, and settles it.\<close>

definition fired :: "(string \<Rightarrow> zone option) \<Rightarrow> int \<Rightarrow> schedule \<Rightarrow> schedule list \<Rightarrow> (string \<rightharpoonup> int) \<Rightarrow> 's scheduler \<Rightarrow> bool" where
  "fired zones t sc S B s \<longleftrightarrow> ok s \<and> (\<forall>i. i \<noteq> sc_ID sc \<longrightarrow> sd_busySince s i = B i)
     \<and> (\<exists>row. rows s = update_where (\<lambda>r. sc_ID r = sc_ID sc) (\<lambda>_. row) S
           \<and> settled zones t sc row (B (sc_ID sc)) (sd_busySince s (sc_ID sc)))"

lemma only_row: "distinct (map sc_ID S) \<Longrightarrow> sc \<in> set S \<Longrightarrow>
    update_where (\<lambda>r. sc_ID r = sc_ID sc) f S = update_where (\<lambda>r. sc_ID r = sc_ID sc) (\<lambda>_. f sc) S"
  unfolding update_where_def by (rule map_cong) (auto dest: distinct_key_eq)

lemma advance_fired:
  assumes "distinct (map sc_ID S)" "sc \<in> set S" "res \<noteq> ''fired'' \<longrightarrow> run = ''''"
  shows "valid (same S B) (advance zones st sc t res run recur) (\<lambda>r s. r = Inr () \<and> fired zones t sc S B s)"
proof (rule validI)
  fix s r s'
  assume s: "same S B s" and run: "advance zones st sc t res run recur s = (r, s')"
  define nxt where "nxt = (if recur then NextAfter zones sc t else None)"
  obtain q h where q: "ss_AdvanceSchedule st (sc_ID sc) res run t nxt (sd_sys s) = (q, h)" by fastforce
  have s': "s' = s\<lparr>sd_busySince := B(sc_ID sc := None), sd_sys := h\<rparr>" "r = Inr ()"
    using run s q by (auto simp: advance_def seq_eq change_def attempt_def sys_def on_part_def ret_def same_def nxt_def [symmetric])
  obtain u where u: "healthy h" "scheds h = update_where (\<lambda>r. sc_ID r = sc_ID sc)
      (advanced res run (secs t) (map_option secs nxt) u) S"
    using Advance [of "sd_sys s" "sc_ID sc" res run t nxt] s q by (auto simp: same_def)
  have "moved zones t sc (advanced res run (secs t) (map_option secs nxt) u sc)"
    unfolding moved_def using assms(3) by (auto simp: nxt_def)
  with u only_row [OF assms(1,2)] show "r = Inr () \<and> fired zones t sc S B s'"
    by (auto simp: fired_def s' settled_def)
qed

lemma fire_fired:
  assumes S: "distinct (map sc_ID S)" "sc \<in> set S"
  shows "valid (same S B) (fire zones st sr t sc) (\<lambda>r s. r = Inr () \<and> fired zones t sc S B s)"
proof -
  note adv = advance_fired [OF S]
  have stay: "fired zones t sc S B s" if "same S B' s" "\<forall>i. i \<noteq> sc_ID sc \<longrightarrow> B' i = B i" "waits t (B (sc_ID sc)) (B' (sc_ID sc))" for s B'
    using that S by (auto simp: fired_def same_def settled_def intro!: exI [of _ sc] update_where_id [symmetric] dest: distinct_key_eq)
  have busy: "valid (same S B) (seq (look sd_busySince) (\<lambda>busy. case busy (sc_ID sc) of
        None \<Rightarrow> change (\<lambda>s. s\<lparr>sd_busySince := (sd_busySince s)(sc_ID sc \<mapsto> t)\<rparr>)
      | Some since \<Rightarrow> if t - since < busyGrace then ret () else advance zones st sc t ''skipped: busy'' '''' True))
      (\<lambda>r s. r = Inr () \<and> fired zones t sc S B s)"
  proof (rule validI)
    fix s r s'
    assume s: "same S B s" and run: "seq (look sd_busySince) (\<lambda>busy. case busy (sc_ID sc) of
        None \<Rightarrow> change (\<lambda>s. s\<lparr>sd_busySince := (sd_busySince s)(sc_ID sc \<mapsto> t)\<rparr>)
      | Some since \<Rightarrow> if t - since < busyGrace then ret () else advance zones st sc t ''skipped: busy'' '''' True) s = (r, s')"
    show "r = Inr () \<and> fired zones t sc S B s'"
    proof (cases "B (sc_ID sc)")
      case None
      then have "s' = s\<lparr>sd_busySince := B(sc_ID sc \<mapsto> t)\<rparr>" "r = Inr ()"
        using run s by (auto simp: change_def same_def)
      then show ?thesis using stay [of "B(sc_ID sc \<mapsto> t)" s'] s None by (simp add: same_def waits_def)
    next
      case (Some since)
      show ?thesis
      proof (cases "t - since < busyGrace")
        case True
        then have "s' = s" "r = Inr ()" using run s Some by (auto simp: ret_def same_def)
        then show ?thesis using stay [of B s] s Some True by (simp add: waits_def)
      next
        case False
        then have "advance zones st sc t ''skipped: busy'' '''' True s = (r, s')" using run s Some by (simp add: same_def)
        from validD [OF adv s this] show ?thesis by simp
      qed
    qed
  qed
  show ?thesis
    unfolding fire_def
    by (intro valid_attempt [OF valid_sys] calm_GetDeployment)
      (auto split: sum.splits intro!: adv busy valid_attempt [OF valid_sys] valid_if calm_start calm_SetRunTrigger)
qed

end

lemma next_instant_later:
  assumes "NextAfter zones sc t = Some n" "sc_Kind sc \<noteq> ScheduleOnce"
  shows "t div ns < n div ns"
proof (cases "sc_Kind sc")
  case ScheduleEvery
  then have "t + 60 * ns \<le> n" using assms by (auto simp: NextAfter_def minEvery_def split: option.splits if_splits)
  then have "(t + 60 * ns) div ns \<le> n div ns" by (simp add: ns_def zdiv_mono1)
  then show ?thesis by (simp add: ns_def)
next
  case ScheduleDaily
  then obtain h m days c where c: "n = c * ns"
      "find (daily_ok (schedule_zone zones sc) days t) (map (daily_cand (schedule_zone zones sc) h m (t div ns)) [0..7]) = Some c"
    using assms by (auto simp: NextAfter_def Let_def split: sum.splits)
  from find_SomeD [OF c(2)] have "t < c * ns" by (simp add: daily_ok_def)
  then have "t div ns < c" by (simp add: ns_def)
  then show ?thesis using c(1) by (simp add: ns_def)
qed (use assms in \<open>auto simp: NextAfter_def\<close>)

section \<open>A whole tick\<close>

context scheduling
begin

definition followed :: "(string \<Rightarrow> zone option) \<Rightarrow> int \<Rightarrow> (string \<rightharpoonup> int) \<Rightarrow> schedule set \<Rightarrow> (string \<rightharpoonup> int) \<Rightarrow> schedule \<Rightarrow> schedule \<Rightarrow> bool" where
  "followed zones t B D B' sc row \<longleftrightarrow> sc_ID row = sc_ID sc \<and>
     (if sc \<in> D then settled zones t sc row (B (sc_ID sc)) (B' (sc_ID sc))
      else row = sc \<and> B' (sc_ID sc) = B (sc_ID sc))"

lemma followed_ID: "followed zones t B D B' sc row \<Longrightarrow> sc_ID row = sc_ID sc"
  by (simp add: followed_def)

lemma followed_due: "followed zones t B D B' sc row \<Longrightarrow> sc \<in> D \<Longrightarrow> settled zones t sc row (B (sc_ID sc)) (B' (sc_ID sc))"
  by (simp add: followed_def)

lemma followed_not_due: "followed zones t B D B' sc row \<Longrightarrow> sc \<notin> D \<Longrightarrow> row = sc"
  by (simp add: followed_def)

definition handled :: "(string \<Rightarrow> zone option) \<Rightarrow> int \<Rightarrow> schedule list \<Rightarrow> (string \<rightharpoonup> int) \<Rightarrow> schedule set \<Rightarrow> 's scheduler \<Rightarrow> bool" where
  "handled zones t S B D s \<longleftrightarrow> ok s \<and> map sc_ID (rows s) = map sc_ID S \<and> (\<forall>sc \<in> set S.
      \<exists>row \<in> set (rows s). followed zones t B D (sd_busySince s) sc row)"

lemma handled_step:
  assumes h: "handled zones t S B D s" and x: "x \<in> set S" "x \<notin> D" and dist: "distinct (map sc_ID S)"
    and f: "fired zones t x (rows s) (sd_busySince s) s'"
  shows "handled zones t S B (insert x D) s'"
proof -
  obtain row where row: "rows s' = update_where (\<lambda>r. sc_ID r = sc_ID x) (\<lambda>_. row) (rows s)"
      "settled zones t x row (sd_busySince s (sc_ID x)) (sd_busySince s' (sc_ID x))"
    and s': "ok s'" "\<And>i. i \<noteq> sc_ID x \<Longrightarrow> sd_busySince s' i = sd_busySince s i"
    using f by (auto simp: fired_def)
  have id: "sc_ID row = sc_ID x" using row(2) by (auto simp: settled_def moved_def)
  have "map sc_ID (rows s') = map sc_ID S"
    using h row id by (simp add: map_update_where handled_def)
  moreover have "\<exists>r \<in> set (rows s'). followed zones t B (insert x D) (sd_busySince s') sc r" if sc: "sc \<in> set S" for sc
  proof (cases "sc = x")
    case True
    have "x \<in> set (rows s)" "sd_busySince s (sc_ID x) = B (sc_ID x)" using h x by (auto simp: handled_def followed_def)
    then show ?thesis using True row id by (auto simp: followed_def set_update_where intro!: bexI [of _ row])
  next
    case False
    then have ne: "sc_ID sc \<noteq> sc_ID x" using distinct_key_eq [OF dist sc x(1)] by blast
    obtain r where r: "r \<in> set (rows s)" "followed zones t B D (sd_busySince s) sc r"
      using h sc by (auto simp: handled_def)
    then have "followed zones t B (insert x D) (sd_busySince s') sc r"
      using False s'(2) [OF ne] by (simp add: followed_def)
    moreover have "r \<in> set (rows s')" using r ne row(1) by (auto simp: followed_def set_update_where)
    ultimately show ?thesis by blast
  qed
  ultimately show ?thesis using s' by (simp add: handled_def)
qed

lemma fire_handled:
  assumes x: "x \<in> set S" "x \<notin> D" and dist: "distinct (map sc_ID S)"
  shows "valid (handled zones t S B D) (fire zones st sr t x) (\<lambda>r s. r = Inr () \<and> handled zones t S B (insert x D) s)"
proof (rule validI)
  fix s r s'
  assume s: "handled zones t S B D s" and run: "fire zones st sr t x s = (r, s')"
  have ok: "ok s" and mem: "x \<in> set (rows s)" using s x by (auto simp: handled_def followed_def)
  have "same (rows s) (sd_busySince s) s" using ok by (simp add: same_def)
  from validD [OF fire_fired [OF unique [OF ok] mem] this run]
  show "r = Inr () \<and> handled zones t S B (insert x D) s'" using handled_step [OF s x dist] by blast
qed

lemma tick_handled:
  assumes ok: "ok s" and run: "scheduler_tick zones st sr t s = (r, s')"
  shows "r = Inr () \<and> handled zones t (rows s) (sd_busySince s) {sc \<in> set (rows s). is_due (secs t) sc} s'"
proof -
  let ?S = "rows s" and ?B = "sd_busySince s"
  obtain q h where q: "ss_ListDueSchedules st t (sd_sys s) = (q, h)" by fastforce
  obtain due where due: "q = Inr due" "set due = {sc \<in> set ?S. is_due (secs t) sc}" "distinct (map sc_ID due)"
    and h: "healthy h" "scheds h = ?S"
    using ListDue [OF ok q] by blast
  let ?s1 = "s\<lparr>sd_sys := h\<rparr>"
  have loop: "for_each due (fire zones st sr t) ?s1 = (r, s')"
    using run q due(1) by (simp add: scheduler_tick_def attempt_def sys_def on_part_def)
  have "valid (handled zones t ?S ?B (set [])) (for_each due (fire zones st sr t))
      (\<lambda>r s. case r of Inl e \<Rightarrow> False | Inr _ \<Rightarrow> handled zones t ?S ?B (set due) s)"
  proof (rule valid_for_each [where I = "\<lambda>D. handled zones t ?S ?B (set D)" and E = "\<lambda>_ _. False"])
    fix pre x post
    assume d: "due = pre @ x # post"
    then have x: "x \<in> set ?S" "x \<notin> set pre" using due by auto
    show "valid (handled zones t ?S ?B (set pre)) (fire zones st sr t x)
        (\<lambda>r s. case r of Inl e \<Rightarrow> False | Inr _ \<Rightarrow> handled zones t ?S ?B (set (pre @ [x])) s)"
      by (rule valid_weaken [OF fire_handled [OF x unique [OF ok]]]) auto
  qed
  moreover have "handled zones t ?S ?B (set []) ?s1" using h by (auto simp: handled_def followed_def)
  ultimately have "case r of Inl e \<Rightarrow> False | Inr _ \<Rightarrow> handled zones t ?S ?B (set due) s'"
    using loop by (rule validD)
  then show ?thesis using due(2) by (cases r) auto
qed

lemma tick_row:
  assumes "ok s" "scheduler_tick zones st sr t s = (r, s')" "row \<in> set (rows s')"
  obtains sc where "sc \<in> set (rows s)"
    "followed zones t (sd_busySince s) {sc. is_due (secs t) sc} (sd_busySince s') sc row"
proof -
  let ?D = "{sc \<in> set (rows s). is_due (secs t) sc}"
  have h: "handled zones t (rows s) (sd_busySince s) ?D s'"
    using tick_handled [OF assms(1,2)] ..
  then have "sc_ID row \<in> set (map sc_ID (rows s))" using key_in_rows [OF assms(3), of sc_ID] by (simp add: handled_def)
  then obtain sc where sc: "sc \<in> set (rows s)" "sc_ID sc = sc_ID row" by auto
  obtain row' where row': "row' \<in> set (rows s')" "followed zones t (sd_busySince s) ?D (sd_busySince s') sc row'"
    using h sc(1) unfolding handled_def by blast
  have "distinct (map sc_ID (rows s'))" using h unique [OF assms(1)] by (simp add: handled_def)
  then have "row' = row" using followed_ID [OF row'(2)] sc(2)
    by (intro distinct_key_eq [where g = sc_ID, OF _ row'(1) assms(3)]) simp_all
  with row'(2) sc have "followed zones t (sd_busySince s) {sc. is_due (secs t) sc} (sd_busySince s') sc row"
    by (simp add: followed_def)
  with sc(1) show thesis by (rule that)
qed

section \<open>Waiting is bounded\<close>

text \<open>Over the ticks of a run: a row is either one that was there at the start, and waits, or
  it has been moved by one of the ticks.\<close>

definition waiting :: "int \<Rightarrow> int \<Rightarrow> schedule \<Rightarrow> 's scheduler \<Rightarrow> bool" where
  "waiting t0 t sc s \<longleftrightarrow> (\<forall>row \<in> set (rows s). sc_ID row = sc_ID sc \<longrightarrow>
     row = sc \<and> (\<exists>since. sd_busySince s (sc_ID sc) = Some since \<and> since \<le> t0 \<and> t - since < busyGrace))"

definition moved_since :: "int \<Rightarrow> schedule \<Rightarrow> 's scheduler \<Rightarrow> bool" where
  "moved_since t0 sc s \<longleftrightarrow> (\<forall>row \<in> set (rows s). sc_ID row = sc_ID sc \<longrightarrow>
     (\<exists>f. sc_LastFiredAt row = Some f \<and> secs t0 \<le> f))"

lemma secs_mono: "a \<le> b \<Longrightarrow> secs a \<le> secs b"
  by (simp add: secs_def ns_def zdiv_mono1)

definition tracked :: "int \<Rightarrow> int \<Rightarrow> schedule \<Rightarrow> 's scheduler \<Rightarrow> bool" where
  "tracked t0 t sc s \<longleftrightarrow> ok s \<and> (waiting t0 t sc s \<or> moved_since t0 sc s)"

lemma tracked_rows:
  assumes ok: "ok s" and t: "t0 \<le> t"
    and row: "\<And>row. row \<in> set (rows s) \<Longrightarrow> sc_ID row = sc_ID sc \<Longrightarrow> sc_LastFiredAt row = Some (secs t)
      \<or> (row = sc \<and> (\<exists>since. sd_busySince s (sc_ID sc) = Some since \<and> since \<le> t0 \<and> t - since < busyGrace))"
  shows "tracked t0 t sc s"
proof (cases "\<exists>row \<in> set (rows s). sc_ID row = sc_ID sc \<and> sc_LastFiredAt row = Some (secs t)")
  case True
  then have "moved_since t0 sc s" unfolding moved_since_def
    using secs_mono [OF t] by (metis unique [OF ok] distinct_key_eq [where g = sc_ID])
  then show ?thesis using ok by (simp add: tracked_def)
next
  case False
  then show ?thesis using row ok unfolding tracked_def waiting_def by blast
qed

lemma tick_first:
  assumes "ok s" "scheduler_tick zones st sr t s = (r, s')" "is_due (secs t) sc" "sc \<in> set (rows s)"
    and "\<forall>since. sd_busySince s (sc_ID sc) = Some since \<longrightarrow> since \<le> t"
  shows "tracked t t sc s'"
proof (rule tracked_rows)
  show "ok s'" using tick_handled [OF assms(1,2)] by (simp add: handled_def)
next
  fix row assume row: "row \<in> set (rows s')" "sc_ID row = sc_ID sc"
  obtain sc' where sc': "sc' \<in> set (rows s)"
      "followed zones t (sd_busySince s) {sc. is_due (secs t) sc} (sd_busySince s') sc' row"
    using tick_row [OF assms(1,2) row(1)] by blast
  have "sc' = sc" using followed_ID [OF sc'(2)] row(2)
    by (intro distinct_key_eq [where g = sc_ID, OF unique [OF assms(1)] sc'(1) assms(4)]) simp
  then have settled: "settled zones t sc row (sd_busySince s (sc_ID sc)) (sd_busySince s' (sc_ID sc))"
    using followed_due [OF sc'(2)] assms(3) by simp
  show "sc_LastFiredAt row = Some (secs t)
      \<or> (row = sc \<and> (\<exists>since. sd_busySince s' (sc_ID sc) = Some since \<and> since \<le> t \<and> t - since < busyGrace))"
  proof (cases "row = sc \<and> waits t (sd_busySince s (sc_ID sc)) (sd_busySince s' (sc_ID sc))")
    case True
    then obtain since where since: "sd_busySince s' (sc_ID sc) = Some since"
      by (cases "sd_busySince s' (sc_ID sc)") (auto simp: waits_def)
    with True assms(5) have "since \<le> t \<and> t - since < busyGrace"
      by (cases "sd_busySince s (sc_ID sc)") (auto simp: waits_def busyGrace_def ns_def)
    with True since show ?thesis by blast
  next
    case False
    with settled have "moved zones t sc row" by (simp add: settled_def)
    then show ?thesis by (auto simp: moved_def)
  qed
qed simp

lemma due_mono: "is_due a sc \<Longrightarrow> a \<le> b \<Longrightarrow> is_due b sc"
  by (auto simp: is_due_def split: option.splits)

lemma settled_moved: "settled zones t sc row (Some since) after \<Longrightarrow> \<not> (row = sc \<and> after = Some since \<and> t - since < busyGrace)
    \<Longrightarrow> sc_LastFiredAt row = Some (secs t)"
  by (cases after) (auto simp: settled_def waits_def moved_def)

lemma tick_later:
  assumes s: "tracked t0 t sc s" and t: "t0 \<le> t" "t \<le> t'" and due: "is_due (secs t0) sc"
    and run: "scheduler_tick zones st sr t' s = (r, s')"
  shows "tracked t0 t' sc s'"
proof -
  have ok: "ok s" using s by (simp add: tracked_def)
  have ok': "ok s'" using tick_handled [OF ok run] by (simp add: handled_def)
  have fired: "secs t0 \<le> secs t'" using t secs_mono by simp
  show ?thesis
  proof (cases "moved_since t0 sc s")
    case True
    have "\<exists>f. sc_LastFiredAt row = Some f \<and> secs t0 \<le> f" if row: "row \<in> set (rows s')" "sc_ID row = sc_ID sc" for row
    proof -
      obtain sc' where sc': "sc' \<in> set (rows s)"
          "followed zones t' (sd_busySince s) {sc. is_due (secs t') sc} (sd_busySince s') sc' row"
        using tick_row [OF ok run row(1)] by blast
      have old: "\<exists>f. sc_LastFiredAt sc' = Some f \<and> secs t0 \<le> f"
        using True sc'(1) followed_ID [OF sc'(2)] row(2) by (simp add: moved_since_def)
      show ?thesis
      proof (cases "row = sc'")
        case False
        then have "moved zones t' sc' row"
          using followed_due [OF sc'(2)] followed_not_due [OF sc'(2)] by (auto simp: settled_def)
        then show ?thesis using fired by (auto simp: moved_def)
      qed (simp add: old)
    qed
    then show ?thesis using ok' by (simp add: tracked_def moved_since_def)
  next
    case False
    then have w: "waiting t0 t sc s" using s by (simp add: tracked_def)
    show ?thesis
    proof (rule tracked_rows [OF ok'])
      fix row assume row: "row \<in> set (rows s')" "sc_ID row = sc_ID sc"
      obtain sc' where sc': "sc' \<in> set (rows s)"
          "followed zones t' (sd_busySince s) {sc. is_due (secs t') sc} (sd_busySince s') sc' row"
        using tick_row [OF ok run row(1)] by blast
      then obtain since where since: "sc' = sc" "sd_busySince s (sc_ID sc) = Some since" "since \<le> t0"
        using w followed_ID [OF sc'(2)] row(2) unfolding waiting_def by metis
      have "is_due (secs t') sc" using due_mono [OF due fired] .
      then have "settled zones t' sc row (Some since) (sd_busySince s' (sc_ID sc))"
        using followed_due [OF sc'(2)] since by simp
      from settled_moved [OF this] since(3)
      show "sc_LastFiredAt row = Some (secs t') \<or> (row = sc \<and> (\<exists>since. sd_busySince s' (sc_ID sc) = Some since
          \<and> since \<le> t0 \<and> t' - since < busyGrace))" by blast
    qed (use t in simp)
  qed
qed

text \<open>What the rest of the system does between two ticks may remove schedules.\<close>

definition benign :: "('s \<Rightarrow> 's) \<Rightarrow> bool" where
  "benign g \<longleftrightarrow> (\<forall>h. healthy h \<longrightarrow> healthy (g h) \<and> set (scheds (g h)) \<subseteq> set (scheds h))"

lemma tracked_rest: "benign g \<Longrightarrow> tracked t0 t sc s \<Longrightarrow> tracked t0 t sc (s\<lparr>sd_sys := g (sd_sys s)\<rparr>)"
  unfolding benign_def tracked_def waiting_def moved_since_def by (simp, blast)

lemma Run_Cons: "Run zones st sr ((t, g) # ticks) s =
    (case scheduler_tick zones st sr t (s\<lparr>sd_sys := g (sd_sys s)\<rparr>) of
       (Inl e, s') \<Rightarrow> (Inl e, s') | (Inr _, s') \<Rightarrow> Run zones st sr ticks s')"
  by (simp add: Run_def seq_eq change_def split: prod.splits sum.splits)

lemma Run_tracked:
  assumes "tracked t0 t sc s" "t0 \<le> t" "is_due (secs t0) sc" "sorted (t # map fst ticks)" "\<forall>(t, g) \<in> set ticks. benign g"
  shows "case Run zones st sr ticks s of (r, s') \<Rightarrow> r = Inr () \<and> tracked t0 (last (t # map fst ticks)) sc s'"
  using assms
proof (induction ticks arbitrary: t s)
  case Nil
  then show ?case by (simp add: Run_def ret_def)
next
  case (Cons tg ticks)
  obtain t' g where tg: "tg = (t', g)" by fastforce
  let ?s = "s\<lparr>sd_sys := g (sd_sys s)\<rparr>"
  obtain r s' where run: "scheduler_tick zones st sr t' ?s = (r, s')" by fastforce
  have s: "tracked t0 t sc ?s" using Cons.prems tg by (intro tracked_rest) auto
  have r: "r = Inr ()" using tick_handled [OF _ run] s by (simp add: tracked_def)
  have "tracked t0 t' sc s'" using tick_later [OF s _ _ _ run] Cons.prems tg by simp
  from Cons.IH [OF this] Cons.prems tg show ?case by (simp add: Run_Cons run r)
qed

lemma Run_not_stuck:
  assumes ok: "ok s" and sc: "sc \<in> set (rows s)" "is_due (secs t0) sc"
    and since: "\<forall>since. sd_busySince s (sc_ID sc) = Some since \<longrightarrow> since \<le> t0"
    and ticks: "sorted (t0 # map fst ticks)" "\<forall>(t, g) \<in> set ticks. benign g" "t0 + busyGrace \<le> last (t0 # map fst ticks)"
  shows "case Run zones st sr ((t0, \<lambda>h. h) # ticks) s of (r, s') \<Rightarrow> r = Inr () \<and> moved_since t0 sc s'"
proof -
  obtain r s1 where run: "scheduler_tick zones st sr t0 s = (r, s1)" by fastforce
  have r: "r = Inr ()" using tick_handled [OF ok run] by simp
  have "tracked t0 t0 sc s1" using tick_first [OF ok run sc(2,1) since] .
  from Run_tracked [OF this _ sc(2) ticks(1,2)]
  have "case Run zones st sr ticks s1 of (r, s') \<Rightarrow> r = Inr () \<and> tracked t0 (last (t0 # map fst ticks)) sc s'" by simp
  moreover have "moved_since t0 sc s'" if "tracked t0 (last (t0 # map fst ticks)) sc s'" for s'
    using that ticks(3) unfolding tracked_def waiting_def moved_since_def by fastforce
  ultimately show ?thesis by (auto simp: Run_Cons run r split: prod.splits)
qed

end

section \<open>The scheduler on the orchestrator\<close>

definition orch_store :: "'h orch sched_store" where
  "orch_store = \<lparr>ss_ListDueSchedules = (\<lambda>t. db (ListDueSchedules (secs t))),
     ss_GetDeployment = (\<lambda>i. db (GetDeployment i)),
     ss_AdvanceSchedule = (\<lambda>i res run t nxt. db (AdvanceSchedule i res run (secs t) (map_option secs nxt))),
     ss_SetRunTrigger = (\<lambda>run i. db (SetRunTrigger run i))\<rparr>"

definition orch_starter :: "'h orch starter" where
  "orch_starter = \<lparr>sr_StartFill = StartFill, sr_StartPower = StartPower, sr_StartTeardown = StartTeardown\<rparr>"

definition orch_scheds :: "'h orch \<Rightarrow> schedule list" where
  "orch_scheds ob = st_scheds (o_store ob)"

text \<open>No statement fails, and schedule IDs are unique.\<close>

definition sound :: "'h orch \<Rightarrow> bool" where
  "sound ob \<longleftrightarrow> st_faults (o_store ob) = [] \<and> scheds_unique (orch_scheds ob)"

definition undisturbed :: "schedule list \<Rightarrow> store \<Rightarrow> bool" where
  "undisturbed S s \<longleftrightarrow> st_faults s = [] \<and> st_scheds s = S"

lemma undisturbed_sql [inv_intros]: "keeps (undisturbed S) m \<Longrightarrow> keeps (undisturbed S) (sql m)"
  by (auto simp: keeps_def undisturbed_def sql_def pop_fault_def next_fault_def)

lemma undisturbed_basic [inv_intros]:
  "keeps (undisturbed S) newID" "keeps (undisturbed S) now" "keeps (undisturbed S) (sql_select q)" "keeps (undisturbed S) (query_row tbl p)"
  by (auto simp: keeps_def undisturbed_def newID_def now_def look_def sql_select_def query_row_def sql_def next_fault_def
      pop_fault_def seq_eq fail_def ret_def split: option.splits)

lemma undisturbed_must_affect [inv_intros]: "keeps (undisturbed S) m \<Longrightarrow> keeps (undisturbed S) (must_affect m)"
  unfolding must_affect_def by (intro inv_intros)

lemma undisturbed_statements:
  assumes "\<And>f s. st_faults (put f s) = st_faults s \<and> st_scheds (put f s) = st_scheds s"
  shows "keeps (undisturbed S) (sql_insert tbl put uniq refs row)" "keeps (undisturbed S) (sql_update_key tbl put uniq p f)"
    "keeps (undisturbed S) (sql_update tbl put p f)"
  unfolding sql_insert_def sql_update_def sql_update_key_def
  by (intro undisturbed_sql; use assms in \<open>simp add: keeps_def undisturbed_def\<close>)+

lemma undisturbed_tables [inv_intros]:
  "keeps (undisturbed S) (sql_insert st_runs st_runs_update u rf row)" "keeps (undisturbed S) (sql_update st_runs st_runs_update p f)"
  "keeps (undisturbed S) (sql_update st_vms st_vms_update p' f')"
  "keeps (undisturbed S) (sql_update_key st_deps st_deps_update u' p'' f'')" "keeps (undisturbed S) (sql_update st_deps st_deps_update p'' f'')"
  by (rule undisturbed_statements; simp)+


lemma undisturbed_ops [inv_intros]:
  "keeps (undisturbed S) (GetDeployment i)" "keeps (undisturbed S) (SetRunTrigger r i)" "keeps (undisturbed S) (CreateRun i rt)"
  "keeps (undisturbed S) (SetDeploymentStatus i ds)" "keeps (undisturbed S) (StartRun i)" "keeps (undisturbed S) (AssignFill i r n)"
  "keeps (undisturbed S) (ListManagedVMs i)" "keeps (undisturbed S) (DeploymentFilled i)"
  unfolding GetDeployment_def SetRunTrigger_def CreateRun_def insert_run_def SetDeploymentStatus_def StartRun_def
    AssignFill_def ListManagedVMs_def DeploymentFilled_def HasSucceededRun_def
  by (intro inv_intros)+

lemma undisturbed_starts [inv_intros]:
  "keeps (\<lambda>ob. undisturbed S (o_store ob)) (StartFill d rt)" "keeps (\<lambda>ob. undisturbed S (o_store ob)) (StartPower d on)"
  "keeps (\<lambda>ob. undisturbed S (o_store ob)) (StartTeardown d)"
  unfolding StartFill_def StartPower_def StartTeardown_def needs_data_def by (intro inv_intros)+

lemma calm_of_undisturbed: "keeps (\<lambda>ob. undisturbed S (o_store ob)) m \<Longrightarrow> keeps (\<lambda>ob. sound ob \<and> orch_scheds ob = S) m"
  by (auto simp: keeps_def undisturbed_def sound_def orch_scheds_def)

lemma orch_ListDue:
  "sound ob \<Longrightarrow> db (ListDueSchedules n) ob = (r, ob') \<Longrightarrow>
    ob' = ob \<and> r = Inr (sort_key (\<lambda>r. the (sc_NextRunAt r)) (filter (is_due n) (orch_scheds ob)))"
  by (auto simp: db_eq ListDueSchedules_def sql_select_def sql_def next_fault_def pop_fault_def look_def sound_def orch_scheds_def)

lemma distinct_sort_filter: "distinct (map g xs) \<Longrightarrow> distinct (map g (sort_key f (filter p xs)))"
  by (auto simp: distinct_map intro: inj_on_subset)

lemma orch_Advance:
  assumes "sound ob"
  shows "case db (AdvanceSchedule i res run f nxt) ob of (r, ob') \<Rightarrow> sound ob' \<and>
    (\<exists>u. orch_scheds ob' = update_where (\<lambda>sc. sc_ID sc = i) (advanced res run f nxt u) (orch_scheds ob))"
  using assms
  by (auto simp: db_eq AdvanceSchedule_def now_def must_affect_def sql_update_def sql_update_key_def sql_def next_fault_def
      pop_fault_def look_def sound_def orch_scheds_def seq_eq fail_def ret_def advanced_def [abs_def] scheds_unique_def map_update_where
      split: prod.splits intro!: exI [of _ "st_now (o_store ob)"])

interpretation osched: scheduling orch_store orch_starter orch_scheds sound
proof
  fix s :: "'h orch" and t r s'
  assume s: "sound s" and run: "ss_ListDueSchedules orch_store t s = (r, s')"
  from run have "db (ListDueSchedules (secs t)) s = (r, s')" by (simp add: orch_store_def)
  from orch_ListDue [OF s this] s distinct_sort_filter [of sc_ID "orch_scheds s"]
  show "sound s' \<and> orch_scheds s' = orch_scheds s \<and> (\<exists>due. r = Inr due
      \<and> set due = {sc \<in> set (orch_scheds s). is_due (secs t) sc} \<and> distinct (map sc_ID due))"
    by (simp add: sound_def scheds_unique_def) blast
next
  fix s :: "'h orch" and i res run t nxt
  assume "sound s"
  from orch_Advance [OF this]
  show "case ss_AdvanceSchedule orch_store i res run t nxt s of (r, s') \<Rightarrow> sound s' \<and>
      (\<exists>u. orch_scheds s' = update_where (\<lambda>sc. sc_ID sc = i) (advanced res run (secs t) (map_option secs nxt) u) (orch_scheds s))"
    by (simp add: orch_store_def)
qed (simp_all add: orch_store_def orch_starter_def, (rule calm_of_undisturbed, intro inv_intros)+,
     simp add: sound_def scheds_unique_def)

section \<open>Properties\<close>



text \<open>A schedule to try these on: switch on at half a second past 00:01:40.\<close>

definition once_demo :: schedule where
  "once_demo = daily_demo\<lparr>sc_DeploymentID := demo_rand 1, sc_Action := RunPowerOn, sc_Kind := ScheduleOnce,
     sc_Spec := ''1970-01-01T00:01:40.5Z'', sc_NextRunAt := Some 100\<rparr>"

definition once_sys :: "unit orch scheduler" where
  "once_sys = newScheduler \<lparr>o_store = snd (CreateSchedule once_demo fleet_store), o_hv = (), o_active = Map.empty, o_jobs = []\<rparr>"

lemma once_sys_sound: "sound (sd_sys once_sys)"
proof -
  have "(st_faults (o_store (sd_sys once_sys)) = []) \<and> scheds_unique (st_scheds (o_store (sd_sys once_sys)))" by code_simp
  then show ?thesis by (simp add: sound_def orch_scheds_def)
qed

lemma once_sys_scheds: "list_ex (is_due (secs (101 * ns))) (orch_scheds (sd_sys once_sys))"
  by code_simp


text \<open>
  No occurrence of a recurring schedule fires twice: one that is still due right after a
  tick has not been started, it waits for its busy deployment.
\<close>

theorem due_only_if_waiting:
  assumes "sound (sd_sys s)" "scheduler_tick zones orch_store orch_starter t s = (r, s')"
    and "row \<in> set (orch_scheds (sd_sys s'))" "sc_Kind row \<noteq> ScheduleOnce" "is_due (secs t) row"
  shows "row \<in> set (orch_scheds (sd_sys s)) \<and>
    (\<exists>since. sd_busySince s' (sc_ID row) = Some since \<and> t - since < busyGrace)"
proof -
  obtain sc where sc: "sc \<in> set (orch_scheds (sd_sys s))"
      "osched.followed zones t (sd_busySince s) {sc. is_due (secs t) sc} (sd_busySince s') sc row"
    using osched.tick_row [OF assms(1,2,3)] .
  then have "is_due (secs t) sc" using osched.followed_not_due [OF sc(2)] assms(5) by auto
  then have settled: "settled zones t sc row (sd_busySince s (sc_ID sc)) (sd_busySince s' (sc_ID sc))"
    using osched.followed_due [OF sc(2)] by simp
  have "\<not> moved zones t sc row"
  proof
    assume "moved zones t sc row"
    then obtain n where n: "NextAfter zones sc t = Some n" "secs n \<le> secs t" "sc_Kind sc \<noteq> ScheduleOnce"
      using assms(4,5) by (auto simp: moved_def is_due_def split: option.splits)
    with next_instant_later [OF n(1,3)] show False by (simp add: secs_def)
  qed
  with settled have w: "row = sc" "waits t (sd_busySince s (sc_ID sc)) (sd_busySince s' (sc_ID sc))"
    by (auto simp: settled_def)
  then obtain since where since: "sd_busySince s' (sc_ID sc) = Some since"
    by (cases "sd_busySince s' (sc_ID sc)") (auto simp: waits_def)
  with w have "t - since < busyGrace"
    by (cases "sd_busySince s (sc_ID sc)") (auto simp: waits_def busyGrace_def ns_def)
  with w since sc(1) show ?thesis by simp
qed

text \<open>A daily schedule at a deployment that another job keeps busy.\<close>

definition busy_sys :: "unit orch scheduler" where
  "busy_sys = newScheduler \<lparr>o_store = snd (CreateSchedule (once_demo\<lparr>sc_Kind := ScheduleDaily, sc_Spec := ''06:00''\<rparr>) fleet_store),
     o_hv = (), o_active = [demo_rand 1 \<mapsto> False], o_jobs = []\<rparr>"

lemma busy_sys_sound: "sound (sd_sys busy_sys)"
proof -
  have "(st_faults (o_store (sd_sys busy_sys)) = []) \<and> scheds_unique (st_scheds (o_store (sd_sys busy_sys)))" by code_simp
  then show ?thesis by (simp add: sound_def orch_scheds_def)
qed

lemma busy_sys_ticked:
  "case scheduler_tick (\<lambda>_. None) orch_store orch_starter (101 * ns) busy_sys of (r, s') \<Rightarrow>
     list_ex (\<lambda>row. sc_Kind row \<noteq> ScheduleOnce \<and> is_due (secs (101 * ns)) row) (orch_scheds (sd_sys s'))"
  by code_simp

theorem due_only_if_waiting_witness:
  "case scheduler_tick (\<lambda>_. None) orch_store orch_starter (101 * ns) busy_sys of (r, s') \<Rightarrow>
     \<exists>(row :: schedule) since. sd_busySince s' (sc_ID row) = Some since \<and> 101 * ns - since < busyGrace"
proof -
  obtain r s' where run: "scheduler_tick (\<lambda>_. None) orch_store orch_starter (101 * ns) busy_sys = (r, s')" by fastforce
  obtain row where "row \<in> set (orch_scheds (sd_sys s'))" "sc_Kind row \<noteq> ScheduleOnce" "is_due (secs (101 * ns)) row"
    using busy_sys_ticked by (auto simp: run list_ex_iff)
  from due_only_if_waiting [OF busy_sys_sound run this] show ?thesis by (auto simp: run)
qed

text \<open>
  C25. A due schedule does not stay stuck: over the ticks of the scheduler, whatever else the
  system does to the database between them short of changing schedules, an hour after the
  first of them the schedule has been fired, skipped or failed, and moved on, or is gone.
\<close>

theorem schedule_not_stuck:
  assumes "sound (sd_sys s)" and "sc \<in> set (orch_scheds (sd_sys s))" "is_due (secs t0) sc"
    and "\<forall>since. sd_busySince s (sc_ID sc) = Some since \<longrightarrow> since \<le> t0"
    and "sorted (t0 # map fst ticks)" "t0 + busyGrace \<le> last (t0 # map fst ticks)"
    and "\<forall>(t, g) \<in> set ticks. \<forall>h. sound h \<longrightarrow> sound (g h) \<and> set (orch_scheds (g h)) \<subseteq> set (orch_scheds h)"
  shows "case Run zones orch_store orch_starter ((t0, \<lambda>h. h) # ticks) s of (r, s') \<Rightarrow> r = Inr () \<and>
    (\<forall>row \<in> set (orch_scheds (sd_sys s')). sc_ID row = sc_ID sc \<longrightarrow>
       (\<exists>f. sc_LastFiredAt row = Some f \<and> secs t0 \<le> f))"
  by (rule osched.Run_not_stuck [OF assms(1-5) _ assms(6), unfolded osched.benign_def osched.moved_since_def])
    (rule assms(7))

theorem schedule_not_stuck_witness:
  "\<exists>sc \<in> set (orch_scheds (sd_sys busy_sys)).
     case Run (\<lambda>_. None) orch_store orch_starter [(101 * ns, \<lambda>h. h), (131 * ns, \<lambda>h. h), (3701 * ns, \<lambda>h. h)] busy_sys of
       (r, s') \<Rightarrow> r = Inr () \<and> (\<forall>row \<in> set (orch_scheds (sd_sys s')). sc_ID row = sc_ID sc \<longrightarrow> sc_LastFiredAt row \<noteq> None)"
proof -
  have "list_ex (is_due (secs (101 * ns))) (orch_scheds (sd_sys busy_sys))" by code_simp
  then obtain sc where sc: "sc \<in> set (orch_scheds (sd_sys busy_sys))" "is_due (secs (101 * ns)) sc"
    by (auto simp: list_ex_iff)
  have none: "\<forall>since. sd_busySince busy_sys (sc_ID sc) = Some since \<longrightarrow> since \<le> 101 * ns"
    by (simp add: busy_sys_def newScheduler_def)
  from schedule_not_stuck [OF busy_sys_sound sc none, of "[(131 * ns, \<lambda>h. h), (3701 * ns, \<lambda>h. h)]" "\<lambda>_. None"] sc(1)
  show ?thesis by (fastforce simp: ns_def busyGrace_def)
qed

text \<open>
  A one-shot schedule at a time with a fraction of a second can fire twice: the tick that
  comes in the second of its time, but before it, starts a run and moves it to that same
  second again, so the next tick starts another one.
\<close>

theorem oneshot_fires_twice:
  "case Run (\<lambda>_. None) orch_store orch_starter
     [(100200000000, \<lambda>h. h), (130200000000, \<lambda>h. h\<lparr>o_active := Map.empty\<rparr>)] once_sys of
   (_, s') \<Rightarrow> length (st_runs (o_store (sd_sys s'))) = 2"
  by code_simp

end
