(* ===== verification/Lifecycle.thy ===== *)
theory Lifecycle
  imports Filling Reconciling "HOL-Library.Multiset"
begin

text \<open>
  The orchestrator as a transition system: API calls and schedules start and cancel jobs, the
  goroutines of the running jobs take their steps, agents and operators change the database,
  the platform changes by itself, statements fail, the controller crashes and resumes. A
  reconcile, teardown or power job runs as one step, a fill job in one step per turn of its
  loop. The invariants say what \<open>Orchestrator.active\<close> is for: it holds exactly the deployments
  with a live job, and no deployment has two.
\<close>

section \<open>A fill job turn by turn\<close>

definition fill_begin :: "'h env \<Rightarrow> deployment \<Rightarrow> run \<Rightarrow> managed_vm list \<Rightarrow> int \<Rightarrow> ('h orch, 'h driver option) prog" where
  "fill_begin env d r vms start =
     seq (clock start) (\<lambda>_.
     attempt (OpenDriver env (d_ConnectionID d)) (\<lambda>q. case q of
         Inl e \<Rightarrow> seq (failFill r (ErrWrap ''opening hypervisor connection: '' e))
           (\<lambda>_. seq (release (d_ID d)) (\<lambda>_. ret None))
       | Inr drv \<Rightarrow> seq (for_each vms (bootVM drv start)) (\<lambda>_. ret (Some drv))))"

definition fill_turn :: "'h driver \<Rightarrow> deployment \<Rightarrow> run \<Rightarrow> nat \<Rightarrow> int \<Rightarrow> int \<Rightarrow> bool \<Rightarrow> fill_state
    \<Rightarrow> ('h orch, fill_state option) prog" where
  "fill_turn drv d r n start t stopped fs =
     seq (clock t) (\<lambda>_.
     seq (if stopped then seq (cancelFill r) (\<lambda>_. ret None) else poll drv d r n start t fs) (\<lambda>res. case res of
         None \<Rightarrow> seq (release (d_ID d)) (\<lambda>_. ret None)
       | Some fs \<Rightarrow> ret (Some fs)))"

text \<open>The turns make up \<open>runFill\<close>.\<close>

fun fill_turns :: "'h driver \<Rightarrow> deployment \<Rightarrow> run \<Rightarrow> nat \<Rightarrow> int \<Rightarrow> 'h tick list \<Rightarrow> fill_state \<Rightarrow> ('h orch, bool) prog" where
  "fill_turns drv d r n start [] fs = ret False"
| "fill_turns drv d r n start (k # ks) fs =
     seq (change (t_world k)) (\<lambda>_. seq (fill_turn drv d r n start (t_now k) (t_done k) fs) (\<lambda>res. case res of
         None \<Rightarrow> ret True
       | Some fs \<Rightarrow> fill_turns drv d r n start ks fs))"

lemma fill_turns_eq: "fill_turns drv d r n start ks fs =
    seq (fill_loop drv d r n start ks fs) (\<lambda>ended. if ended then seq (release (d_ID d)) (\<lambda>_. ret True) else ret False)"
proof (induction ks arbitrary: fs)
  case (Cons k ks)
  then show ?case
    by (intro ext) (auto simp: fill_turn_def seq_eq attempt_def ret_def split: prod.splits sum.splits option.splits)
qed simp

lemma runFill_turns: "runFill env d r vms start ks =
    seq (fill_begin env d r vms start) (\<lambda>q. case q of
      None \<Rightarrow> ret True | Some drv \<Rightarrow> fill_turns drv d r (length vms) start ks (init_fill start vms))"
  unfolding runFill_def fill_begin_def fill_turns_eq
  by (rule ext) (auto simp: seq_eq attempt_def ret_def split: prod.splits sum.splits)

section \<open>The transition system\<close>

record 'h running_fill =
  rf_job :: job
  rf_size :: nat
  rf_start :: int
  rf_drv :: "'h driver"
  rf_state :: fill_state

record 'h life =
  lf_orch :: "'h orch"
  lf_fills :: "'h running_fill list"

datatype label = Normal | Fault | Crash

text \<open>What the rest of the system asks of the database: all operations but those that start,
  finish or create runs, which are the orchestrator's.\<close>

inductive world_step :: "store \<Rightarrow> store \<Rightarrow> bool" where
  "world_step s (s\<lparr>st_now := t\<rparr>)"
| "world_step s (snd (CreateConnection c b s))"
| "world_step s (snd (UpdateConnection c b' s))"
| "world_step s (snd (DeleteConnection i s))"
| "world_step s (snd (CreateProfile n spec s))"
| "world_step s (snd (UpdateProfileSpec i spec s))"
| "world_step s (snd (RenameProfile i n s))"
| "world_step s (snd (DeleteProfile i s))"
| "world_step s (snd (CreateDeployment d s))"
| "world_step s (snd (UpdateDeploymentSpec i spec s))"
| "world_step s (snd (MarkDeploymentDeleted i s))"
| "world_step s (snd (SetRunTrigger i n s))"
| "world_step s (snd (AddManagedVM v s))"
| "world_step s (snd (TouchAgent i s))"
| "world_step s (snd (SetVMDataState i ds n mf s))"
| "world_step s (snd (RebindManagedVM i n n' s))"
| "world_step s (snd (SetFillTotal i k s))"
| "world_step s (snd (WorkOrderForToken vm s))"
| "world_step s (snd (ReportFillProgress i k mb fin n s))"
| "world_step s (snd (CreateSchedule sc s))"
| "world_step s (snd (UpdateSchedule sc s))"
| "world_step s (snd (AdvanceSchedule i n n' k nxt s))"
| "world_step s (snd (DeleteSchedule i s))"
| "world_step s (snd (EnsureDiscoveredVM n s))"
| "world_step s (snd (SetDiscoveredInspection i rep s))"
| "world_step s (snd (TouchDiscoveredAgent i s))"
| "world_step s (snd (SetDiscoveredStatus i dst s))"
| "world_step s (snd (DeleteDiscoveredVM i s))"

text \<open>\<open>ctx.Err()\<close> and \<open>ctx.Done()\<close> report a cancelled context only.\<close>

definition cancelled :: "'h orch \<Rightarrow> job \<Rightarrow> bool" where
  "cancelled ob j \<longleftrightarrow> o_active ob (d_ID (j_dep j)) = Some True"

inductive life_step :: "'h env \<Rightarrow> label \<Rightarrow> 'h life \<Rightarrow> 'h life \<Rightarrow> bool" for env where
  ls_deploy: "life_step env Normal l (l\<lparr>lf_orch := snd (StartDeploy d c (lf_orch l))\<rparr>)"
| ls_teardown: "life_step env Normal l (l\<lparr>lf_orch := snd (StartTeardown d (lf_orch l))\<rparr>)"
| ls_power: "life_step env Normal l (l\<lparr>lf_orch := snd (StartPower d on (lf_orch l))\<rparr>)"
| ls_fill: "rt \<in> {RunInitialFill, RunIncremental, RunVerify} \<Longrightarrow>
    life_step env Normal l (l\<lparr>lf_orch := snd (StartFill d rt (lf_orch l))\<rparr>)"
| ls_cancel: "life_step env Normal l (l\<lparr>lf_orch := snd (Cancel i (lf_orch l))\<rparr>)"
| ls_job: "o_jobs (lf_orch l) = js @ j # js' \<Longrightarrow> (\<forall>vms. j_kind j \<noteq> JFill vms) \<Longrightarrow> (ctxErr \<longrightarrow> cancelled (lf_orch l) j) \<Longrightarrow>
    life_step env Normal l (l\<lparr>lf_orch := snd (runJob env ctxErr dur (j_dep j) (j_run j) (job_fn ord (j_kind j))
      (lf_orch l\<lparr>o_jobs := js @ js'\<rparr>))\<rparr>)"
| ls_begin: "o_jobs (lf_orch l) = js @ j # js' \<Longrightarrow> j_kind j = JFill vms \<Longrightarrow>
    fill_begin env (j_dep j) (j_run j) vms start (lf_orch l\<lparr>o_jobs := js @ js'\<rparr>) = (Inr q, ob') \<Longrightarrow>
    life_step env Normal l (l\<lparr>lf_orch := ob', lf_fills := lf_fills l @ (case q of None \<Rightarrow> []
      | Some drv \<Rightarrow> [\<lparr>rf_job = j, rf_size = length vms, rf_start = start, rf_drv = drv, rf_state = init_fill start vms\<rparr>])\<rparr>)"
| ls_turn: "lf_fills l = fs @ f # fs' \<Longrightarrow> (stopped \<longrightarrow> cancelled (lf_orch l) (rf_job f)) \<Longrightarrow>
    fill_turn (rf_drv f) (j_dep (rf_job f)) (j_run (rf_job f)) (rf_size f) (rf_start f) t stopped (rf_state f) (lf_orch l) = (Inr q, ob') \<Longrightarrow>
    life_step env Normal l (l\<lparr>lf_orch := ob', lf_fills := fs @ (case q of None \<Rightarrow> [] | Some st \<Rightarrow> [f\<lparr>rf_state := st\<rparr>]) @ fs'\<rparr>)"
| ls_world: "world_step (o_store (lf_orch l)) s \<Longrightarrow> life_step env Normal l (l\<lparr>lf_orch := lf_orch l\<lparr>o_store := s\<rparr>\<rparr>)"
| ls_platform: "life_step env Normal l (l\<lparr>lf_orch := lf_orch l\<lparr>o_hv := h\<rparr>\<rparr>)"
| ls_fault: "life_step env Fault l (l\<lparr>lf_orch := lf_orch l\<lparr>o_store := o_store (lf_orch l)\<lparr>st_faults := fs\<rparr>\<rparr>\<rparr>)"
| ls_crash: "life_step env Crash l
    \<lparr>lf_orch = snd (ResumeInterrupted (lf_orch l\<lparr>o_active := Map.empty, o_jobs := []\<rparr>)), lf_fills = []\<rparr>"

text \<open>The states reachable from an idle orchestrator on a sound database by steps with the
  given labels.\<close>

inductive life_reach :: "'h env \<Rightarrow> label set \<Rightarrow> 'h life \<Rightarrow> bool" for env A where
  lr_init: "db_reachable s \<Longrightarrow> st_runs s = [] \<Longrightarrow> (Fault \<notin> A \<longrightarrow> st_faults s = []) \<Longrightarrow>
    life_reach env A \<lparr>lf_orch = \<lparr>o_store = s, o_hv = h, o_active = Map.empty, o_jobs = []\<rparr>, lf_fills = []\<rparr>"
| lr_step: "life_reach env A l \<Longrightarrow> a \<in> A \<Longrightarrow> life_step env a l l' \<Longrightarrow> life_reach env A l'"

section \<open>What leaves the bookkeeping alone\<close>

definition book :: "(string \<rightharpoonup> bool) \<Rightarrow> job list \<Rightarrow> 'h orch \<Rightarrow> bool" where
  "book A J ob \<longleftrightarrow> o_active ob = A \<and> o_jobs ob = J"

lemma book_lift [inv_intros]: "keeps (book A J) (db m)" "keeps (book A J) (hv m')"
  by (auto simp: keeps_def book_def db_eq hv_eq split: prod.splits)

lemma book_jlift [inv_intros]: "keeps (\<lambda>x. book A J (fst x)) (jlift m)" if "keeps (book A J) m"
  using keeps_jlift [OF that] by simp

lemma book_clock [inv_intros]: "keeps (book A J) (clock t)"
  unfolding clock_def by (rule keeps_change) (simp add: book_def)

lemma book_OpenDriver [inv_intros]: "keeps (book A J) (OpenDriver env c)"
  unfolding OpenDriver_def by (intro inv_intros)

lemma book_run_body [inv_intros]: "keeps (\<lambda>x. book A J (fst x)) fn \<Longrightarrow> keeps (book A J) (run_body fn)"
  by (rule keeps_run_body)

lemma book_conflicts [inv_intros]: "keeps (book A J) (findConflicts d drv recorded)"
  unfolding findConflicts_def conflict_of_def by (intro inv_intros)

lemma book_bodies [inv_intros]:
  "keeps (\<lambda>x. book A J (fst x)) (powerFunc on d drv)" "keeps (\<lambda>x. book A J (fst x)) (teardown d drv)"
  "keeps (\<lambda>x. book A J (fst x)) (reconcileCore ord c d drv)"
  unfolding powerFunc_def teardown_def reconcileCore_def resolve_def create_one_def grow_one_def by (intro inv_intros)+

lemma book_job_fn [inv_intros]: "keeps (\<lambda>x. book A J (fst x)) (job_fn ord k d drv)"
  unfolding job_fn_def by (cases k; simp; intro inv_intros)

lemma book_outcome [inv_intros]:
  "keeps (book A J) (job_failed d r c dur js e)" "keeps (book A J) (job_succeeded d r dur js)"
  "keeps (book A J) (failFill r e)" "keeps (book A J) (orphan r why)"
  unfolding job_failed_def job_succeeded_def failFill_def orphan_def by (intro inv_intros)+

lemma book_fill [inv_intros]:
  "keeps (book A J) (bootVM drv t vm)" "keeps (book A J) (cancelFill r)" "keeps (book A J) (poll drv d r n start t fs)"
proof -
  show "keeps (book A J) (bootVM drv t vm)" unfolding bootVM_def powerCycle_def by (intro inv_intros)
  show "keeps (book A J) (cancelFill r)" unfolding cancelFill_def by (intro inv_intros)
  have [inv_intros]: "keeps (book A J) (poll_verdict drv d r n start t cur ta fs)" for cur ta fs
    unfolding poll_verdict_def give_up_def failFillWithStats_def finishFill_def publishFillStats_def applyAfterFill_def
    by (intro inv_intros)
  have [inv_intros]: "keeps (book A J) (watch_one drv t v fs)" for v fs
    unfolding watch_one_def powerCycle_def by (intro inv_intros)
  show "keeps (book A J) (poll drv d r n start t fs)" unfolding poll_def by (intro inv_intros)
qed

lemma bookD: "(\<And>A J. keeps (book A J) m) \<Longrightarrow> m ob = (q, ob') \<Longrightarrow> o_active ob' = o_active ob \<and> o_jobs ob' = o_jobs ob"
  using keepsD [of "book (o_active ob) (o_jobs ob)" m ob] by (simp add: book_def)

lemma db_books: "db m ob = (q, ob') \<Longrightarrow> o_active ob' = o_active ob \<and> o_jobs ob' = o_jobs ob"
  by (auto simp: db_eq split: prod.splits)

section \<open>Starting a job\<close>

fun kind_of :: "job_kind \<Rightarrow> run_type \<Rightarrow> bool" where
  "kind_of (JReconcile c) rt = (rt = RunDeploy \<or> rt = RunScaleUp)"
| "kind_of JTeardown rt = (rt = RunTeardown)"
| "kind_of (JPower on) rt = (rt = (if on then RunPowerOn else RunPowerOff))"
| "kind_of (JFill vms) rt = (rt = RunInitialFill \<or> rt = RunIncremental \<or> rt = RunVerify)"

text \<open>A job works on the deployment its run belongs to, and does what the run says.\<close>

definition typed_job :: "job \<Rightarrow> bool" where
  "typed_job j \<longleftrightarrow> r_DeploymentID (j_run j) = d_ID (j_dep j) \<and> kind_of (j_kind j) (r_Type (j_run j))"

definition began :: "deployment \<Rightarrow> 'h orch \<Rightarrow> (go_error + run) \<Rightarrow> 'h orch \<Rightarrow> bool" where
  "began d ob q ob' \<longleftrightarrow> (case q of
      Inl _ \<Rightarrow> o_active ob' = o_active ob \<and> o_jobs ob' = o_jobs ob
    | Inr r \<Rightarrow> o_active ob (d_ID d) = None \<and> o_active ob' = (o_active ob)(d_ID d \<mapsto> False) \<and>
        (\<exists>j. o_jobs ob' = o_jobs ob @ [j] \<and> j_dep j = d \<and> j_run j = r \<and> typed_job j))"

text \<open>The entry points have one shape: take the deployment, prepare, note what may fail, spawn.\<close>

lemma began_template:
  assumes prep: "\<And>A J. keeps (book A J) prep" and jots: "\<And>A J x. keeps (book A J) (jot x)" "\<And>x. nofail (jot x)"
    and job: "\<And>s x s'. prep s = (Inr x, s') \<Longrightarrow> j_dep (jb x) = d \<and> j_run (jb x) = rn x \<and> typed_job (jb x)"
    and run: "seq (acquire (d_ID d)) (\<lambda>_. seq (or_release (d_ID d) prep) (\<lambda>x.
        seq (jot x) (\<lambda>_. seq (spawn (jb x)) (\<lambda>_. ret (rn x))))) ob = (q, ob')"
  shows "began d ob q ob'"
proof (cases "o_active ob (d_ID d)")
  case (Some b)
  with run show ?thesis by (auto simp: began_def seq_eq acquire_def)
next
  case None
  let ?ob = "ob\<lparr>o_active := (o_active ob)(d_ID d \<mapsto> False)\<rparr>"
  obtain p ob1 where p: "prep ?ob = (p, ob1)" by fastforce
  note b1 = bookD [OF prep p]
  show ?thesis
  proof (cases p)
    case (Inl e)
    then show ?thesis using run None p b1
      by (auto simp: began_def seq_eq acquire_def or_release_def attempt_def release_def change_def fail_def fun_upd_idem)
  next
    case (Inr x)
    obtain u ob2 where n: "jot x ob1 = (Inr u, ob2)" using nofailD [OF jots(2)] by metis
    from run None p Inr n job [OF p [unfolded Inr]] bookD [OF jots(1) n] b1 show ?thesis
      by (auto simp: began_def seq_eq acquire_def or_release_def attempt_def spawn_def change_def ret_def)
  qed
qed

lemma CreateRun_InrD: "CreateRun dep rt s = (Inr r, s') \<Longrightarrow> r_DeploymentID r = dep \<and> r_Type r = rt"
  by (auto simp: CreateRun_def seq_eq newID_def now_def look_def ret_def Let_def split: prod.splits sum.splits)

lemma db_CreateRun: "db (CreateRun dep rt) ob = (Inr r, ob') \<Longrightarrow> r_DeploymentID r = dep \<and> r_Type r = rt"
  by (auto dest: db_InrD CreateRun_InrD)

lemma seq_or_release: "seq (or_release dep a) (\<lambda>x. seq (or_release dep (b x)) (k x))
    = seq (or_release dep (seq a (\<lambda>x. seq (b x) (\<lambda>y. ret (x, y))))) (\<lambda>(x, y). k x y)"
  by (rule ext) (auto simp: or_release_def seq_eq attempt_def fail_def ret_def release_def change_def split: prod.splits sum.splits)

lemma began_teardown: "StartTeardown d ob = (q, ob') \<Longrightarrow> began d ob q ob'"
  unfolding StartTeardown_def
  by (rule began_template [where prep = "db (CreateRun (d_ID d) RunTeardown)" and rn = "\<lambda>r. r"
        and jot = "\<lambda>_. ignore (db (SetDeploymentStatus (d_ID d) DeploymentDeleting))"
        and jb = "\<lambda>r. \<lparr>j_dep = d, j_run = r, j_kind = JTeardown\<rparr>"])
    (auto intro: inv_intros nofail_intros simp: typed_job_def dest: db_CreateRun)

lemma began_power: "StartPower d on ob = (q, ob') \<Longrightarrow> began d ob q ob'"
  unfolding StartPower_def
  by (rule began_template [where prep = "db (CreateRun (d_ID d) (if on then RunPowerOn else RunPowerOff))" and rn = "\<lambda>r. r"
        and jot = "\<lambda>_. ret ()" and jb = "\<lambda>r. \<lparr>j_dep = d, j_run = r, j_kind = JPower on\<rparr>"])
    (auto intro: inv_intros nofail_intros simp: typed_job_def dest: db_CreateRun)

lemma began_deploy: "StartDeploy d c ob = (q, ob') \<Longrightarrow> began d ob q ob'"
proof (cases "d_Origin d = OriginAdopted")
  case True
  then show "StartDeploy d c ob = (q, ob') \<Longrightarrow> began d ob q ob'" by (auto simp: StartDeploy_def fail_def began_def)
next
  case False
  let ?prep = "seq (db (ListManagedVMs (d_ID d))) (\<lambda>x. seq (db (CreateRun (d_ID d) (if x = [] then RunDeploy else RunScaleUp))) (\<lambda>y. ret (x, y)))"
  have keep: "keeps (book A J) ?prep" for A J by (intro inv_intros)
  have job: "j_dep \<lparr>j_dep = d, j_run = snd x, j_kind = JReconcile c\<rparr> = d \<and> j_run \<lparr>j_dep = d, j_run = snd x, j_kind = JReconcile c\<rparr> = snd x
      \<and> typed_job \<lparr>j_dep = d, j_run = snd x, j_kind = JReconcile c\<rparr>" if "?prep s = (Inr x, s')" for s x s'
    using that by (auto simp: typed_job_def ret_def elim!: seq_InrE dest!: db_CreateRun split: if_splits)
  assume "StartDeploy d c ob = (q, ob')"
  then show "began d ob q ob'"
    using False began_template [OF keep _ _ job, where jot = "\<lambda>_. ignore (db (SetDeploymentStatus (d_ID d) DeploymentDeploying))"]
    by (simp add: StartDeploy_def seq_or_release split_def inv_intros nofail_intros)
qed

lemma began_fill:
  assumes "rt \<in> {RunInitialFill, RunIncremental, RunVerify}" "StartFill d rt ob = (q, ob')"
  shows "began d ob q ob'"
proof -
  let ?prep = "seq (db (ListManagedVMs (d_ID d))) (\<lambda>vms.
        if vms = [] then fail (ErrPrecondition ''nothing to fill: deploy the VMs first'')
        else seq (needs_data d rt) (\<lambda>_. seq (db (CreateRun (d_ID d) rt)) (\<lambda>r. ret (vms, r))))"
  let ?jot = "\<lambda>x. seq (for_each (fst x) (\<lambda>vm. ignore (db (AssignFill (v_ID vm) (r_ID (snd x)) (bytesPerVM (d_Spec d) rt)))))
       (\<lambda>_. ignore (db (StartRun (r_ID (snd x)))))"
  have keep: "keeps (book A J) ?prep" for A J unfolding needs_data_def by (intro inv_intros)
  have job: "j_dep \<lparr>j_dep = d, j_run = snd x, j_kind = JFill (fst x)\<rparr> = d \<and> j_run \<lparr>j_dep = d, j_run = snd x, j_kind = JFill (fst x)\<rparr> = snd x
      \<and> typed_job \<lparr>j_dep = d, j_run = snd x, j_kind = JFill (fst x)\<rparr>" if "?prep s = (Inr x, s')" for s x s'
    using that assms(1) by (auto simp: typed_job_def ret_def fail_def elim!: seq_InrE dest!: db_CreateRun split: if_splits)
  show ?thesis
    using assms(2) began_template [OF keep _ _ job, where jot = ?jot]
    by (simp add: StartFill_def split_def seq_assoc inv_intros nofail_intros)
qed

section \<open>Ending a job\<close>

lemma runJob_books:
  assumes "\<And>drv A J. keeps (\<lambda>x. book A J (fst x)) (fn d drv)" and "runJob env c dur d r fn ob = (q, ob')"
  shows "q = Inr () \<and> o_active ob' = (o_active ob)(d_ID d := None) \<and> o_jobs ob' = o_jobs ob"
proof -
  define m where "m = seq (ignore (db (StartRun (r_ID r)))) (\<lambda>_. attempt (OpenDriver env (d_ConnectionID d)) (\<lambda>q. case q of
         Inl e \<Rightarrow> job_failed d r c dur no_stats (ErrWrap ''opening hypervisor connection: '' e)
       | Inr drv \<Rightarrow> seq (run_body (fn d drv)) (\<lambda>(res, js). case res of
             Inl e \<Rightarrow> job_failed d r c dur js e
           | Inr _ \<Rightarrow> job_succeeded d r dur js)))"
  have run: "seq m (\<lambda>_. release (d_ID d)) ob = (q, ob')" using assms(2) by (simp add: m_def runJob_def seq_assoc)
  have body: "nofail (run_body f)" for f :: "('a, unit) jprog"
    by (auto simp: nofail_def run_body_def split: prod.splits)
  have nf: "nofail m" unfolding m_def job_failed_def job_succeeded_def by (intro nofail_intros body)
  have "keeps (book A J) m" for A J unfolding m_def by (intro inv_intros assms(1))
  note b = bookD [OF this]
  from run nf obtain x ob1 where "m ob = (Inr x, ob1)" "release (d_ID d) ob1 = (q, ob')" by (rule seq_nofailE)
  with b [OF this(1)] show ?thesis by (auto simp: release_def change_def)
qed

lemma fill_begin_books:
  assumes "fill_begin env d r vms start ob = (q, ob')"
  shows "\<exists>p. q = Inr p \<and> o_active ob' = (if p = None then (o_active ob)(d_ID d := None) else o_active ob) \<and> o_jobs ob' = o_jobs ob"
proof -
  define k where "k q = (case q of Inl e \<Rightarrow> seq (failFill r (ErrWrap ''opening hypervisor connection: '' e)) (\<lambda>_. ret None)
     | Inr drv \<Rightarrow> seq (for_each vms (bootVM drv start)) (\<lambda>_. ret (Some drv)))" for q :: "go_error + 'a driver"
  let ?m = "seq (clock start) (\<lambda>_. attempt (OpenDriver env (d_ConnectionID d)) k)"
  have nf: "nofail ?m" unfolding k_def clock_def by (intro nofail_intros)
  have eq: "fill_begin env d r vms start = seq ?m (\<lambda>p. if p = None then seq (release (d_ID d)) (\<lambda>_. ret None) else ret p)"
    unfolding fill_begin_def k_def
    by (rule ext) (auto simp: seq_eq attempt_def ret_def split: prod.splits sum.splits)
  from assms [unfolded eq] nf obtain p ob1 where p: "?m ob = (Inr p, ob1)"
      "(if p = None then seq (release (d_ID d)) (\<lambda>_. ret None) else ret p) ob1 = (q, ob')" by (rule seq_nofailE)
  have "keeps (book A J) ?m" for A J unfolding k_def by (intro inv_intros)
  from bookD [OF this p(1)] p(2) show ?thesis
    by (cases "p = None") (auto simp: release_def change_def seq_eq ret_def)
qed

lemma fill_turn_books:
  assumes "fill_turn drv d r n start t stopped fs ob = (q, ob')"
  shows "\<exists>p. q = Inr p \<and> o_active ob' = (if p = None then (o_active ob)(d_ID d := None) else o_active ob) \<and> o_jobs ob' = o_jobs ob"
proof -
  let ?m = "seq (clock t) (\<lambda>_. if stopped then seq (cancelFill r) (\<lambda>_. ret None) else poll drv d r n start t fs)"
  have nf: "nofail ?m" unfolding clock_def by (intro nofail_intros)
  have keep: "keeps (book A J) ?m" for A J by (intro inv_intros)
  have "fill_turn drv d r n start t stopped fs = seq ?m (\<lambda>res. case res of
      None \<Rightarrow> seq (release (d_ID d)) (\<lambda>_. ret None) | Some fs \<Rightarrow> ret (Some fs))"
    by (simp add: fill_turn_def seq_assoc)
  from assms [unfolded this] nf obtain p ob1 where p: "?m ob = (Inr p, ob1)"
      "(case p of None \<Rightarrow> seq (release (d_ID d)) (\<lambda>_. ret None) | Some fs \<Rightarrow> ret (Some fs)) ob1 = (q, ob')" by (rule seq_nofailE)
  from bookD [OF keep p(1)] p(2) show ?thesis
    by (cases p) (auto simp: release_def change_def seq_eq ret_def)
qed

section \<open>The invariant\<close>

definition live :: "'h life \<Rightarrow> job list" where
  "live l = o_jobs (lf_orch l) @ map rf_job (lf_fills l)"

abbreviation job_dep :: "job \<Rightarrow> string" where
  "job_dep j \<equiv> d_ID (j_dep j)"

definition locked :: "(string \<rightharpoonup> bool) \<Rightarrow> job list \<Rightarrow> bool" where
  "locked A js \<longleftrightarrow> distinct (map job_dep js) \<and> dom A = set (map job_dep js) \<and> list_all typed_job js"

lemma locked_eq: "locked A js \<Longrightarrow> A' = A \<Longrightarrow> js' = js \<Longrightarrow> locked A' js'"
  by simp

lemma locked_perm: "locked A js \<Longrightarrow> mset js = mset js' \<Longrightarrow> locked A js'"
  unfolding locked_def
  by (metis distinct_map list_all_iff mset_eq_setD mset_eq_imp_distinct_iff set_map)

lemma locked_add: "locked A js \<Longrightarrow> A (job_dep j) = None \<Longrightarrow> typed_job j \<Longrightarrow> locked (A(job_dep j \<mapsto> b)) (j # js)"
  unfolding locked_def by (simp, metis domIff image_eqI)

lemma locked_drop: "locked A (j # js) \<Longrightarrow> locked (A(job_dep j := None)) js"
  by (auto simp: locked_def)

lemma locked_flag: "locked A js \<Longrightarrow> A i \<noteq> None \<Longrightarrow> locked (A(i \<mapsto> b)) js"
  by (auto simp: locked_def)

lemma began_locked:
  assumes "began d ob q ob'" "locked (o_active ob) (o_jobs ob @ js)"
  shows "locked (o_active ob') (o_jobs ob' @ js)"
proof (cases q)
  case (Inl e)
  with assms show ?thesis by (simp add: began_def)
next
  case (Inr r)
  then obtain j where j: "o_active ob (d_ID d) = None" "o_active ob' = (o_active ob)(d_ID d \<mapsto> False)"
      "o_jobs ob' = o_jobs ob @ [j]" "j_dep j = d" "typed_job j"
    using assms(1) by (auto simp: began_def)
  have "locked (o_active ob') (j # (o_jobs ob @ js))"
    using locked_add [OF assms(2), of j False] j by simp
  then show ?thesis by (rule locked_perm) (simp add: j)
qed

subsection \<open>Resuming after a crash\<close>

lemma GetDeployment_InrD: "db (GetDeployment i) ob = (Inr d, ob') \<Longrightarrow>
    d_ID d = i \<and> o_active ob' = o_active ob \<and> o_jobs ob' = o_jobs ob"
  by (auto simp: db_eq GetDeployment_def query_row_def sql_select_def seq_eq sql_def look_def ret_def fail_def
      dest!: find_SomeD split: prod.splits option.splits if_splits sum.splits)

lemma resume_spawn:
  assumes "typed_job j" "locked (o_active ob) (o_jobs ob)" "o_active ob (job_dep j) = None"
    "o_active ob1 = (o_active ob)(job_dep j \<mapsto> False)" "o_jobs ob1 = o_jobs ob"
  shows "locked (o_active (snd (spawn j ob1))) (o_jobs (snd (spawn j ob1)))"
proof -
  have "locked (o_active ob1) (j # o_jobs ob)" using locked_add [OF assms(2,3,1), of False] assms(4) by simp
  then have "locked (o_active ob1) (o_jobs ob @ [j])" by (rule locked_perm) simp
  then show ?thesis by (simp add: spawn_def change_def assms(5))
qed


lemma resume_locked: "keeps (\<lambda>ob. locked (o_active ob) (o_jobs ob)) (resume_run r)"
proof (rule keepsI)
  fix ob :: "'h orch" assume l: "locked (o_active ob) (o_jobs ob)"
  have same: "locked (o_active (snd (m ob1))) (o_jobs (snd (m ob1)))"
    if "\<And>A J. keeps (book A J) m" "locked (o_active ob1) (o_jobs ob1)" for m :: "('h orch, unit) prog" and ob1
    using bookD [OF that(1), of ob1 "fst (m ob1)" "snd (m ob1)"] that(2) by simp
  obtain q ob1 where q: "db (GetDeployment (r_DeploymentID r)) ob = (q, ob1)" by fastforce
  show "locked (o_active (snd (resume_run r ob))) (o_jobs (snd (resume_run r ob)))"
  proof (cases q)
    case (Inl e)
    have "o_active ob1 = o_active ob \<and> o_jobs ob1 = o_jobs ob" using db_books [OF q] .
    then show ?thesis using q Inl same [of "orphan r ''deployment missing''" ob1] l by (simp add: resume_run_def attempt_def inv_intros)
  next
    case (Inr d)
    note d = GetDeployment_InrD [OF q [unfolded Inr]]
    show ?thesis
    proof (cases "o_active ob1 (d_ID d)")
      case (Some b)
      with q Inr d l show ?thesis by (simp add: resume_run_def attempt_def acquire_def ret_def)
    next
      case None
      let ?ob = "ob1\<lparr>o_active := (o_active ob1)(d_ID d \<mapsto> False)\<rparr>"
      have l1: "locked (o_active ob1) (o_jobs ob1)" using d l by simp
      have spawned: "locked (o_active (snd (spawn j ob2))) (o_jobs (snd (spawn j ob2)))"
        if "j_dep j = d" "j_run j = r" "kind_of (j_kind j) (r_Type r)" "o_active ob2 = o_active ?ob" "o_jobs ob2 = o_jobs ob1" for j ob2
        using that d None by (intro resume_spawn [OF _ l1]) (auto simp: typed_job_def)
      have freed: "locked (o_active (snd (seq (release (d_ID d)) (\<lambda>_. m) ob2))) (o_jobs (snd (seq (release (d_ID d)) (\<lambda>_. m) ob2)))"
        if "\<And>A J. keeps (book A J) m" "o_active ob2 = o_active ?ob" "o_jobs ob2 = o_jobs ob1" for m :: "('h orch, unit) prog" and ob2
        using same [OF that(1), of "ob2\<lparr>o_active := (o_active ob2)(d_ID d := None)\<rparr>"] that(2,3) l1 None
        by (simp add: seq_eq release_def change_def fun_upd_idem)
      have fills: "locked (o_active (snd (m ?ob))) (o_jobs (snd (m ?ob)))"
        if "m = attempt (db (ListManagedVMs (d_ID d))) (\<lambda>v. case v of
            Inl e \<Rightarrow> seq (release (d_ID d)) (\<lambda>_. failFill r (ErrWrap ''resume: listing VMs: '' e))
          | Inr vms \<Rightarrow> spawn \<lparr>j_dep = d, j_run = r, j_kind = JFill vms\<rparr>)" "kind_of (JFill []) (r_Type r)" for m
      proof -
        obtain v ob2 where v: "db (ListManagedVMs (d_ID d)) ?ob = (v, ob2)" by fastforce
        have "o_active ob2 = o_active ?ob \<and> o_jobs ob2 = o_jobs ?ob" using db_books [OF v] .
        then show ?thesis using that v freed [of "failFill r _" ob2] spawned [of _ ob2]
          by (cases v) (simp_all add: attempt_def inv_intros)
      qed
      show ?thesis using q Inr None spawned [of _ ?ob] freed [of "orphan r ''unknown run type''" ?ob] fills
        by (cases "r_Type r") (simp_all add: resume_run_def attempt_def acquire_def inv_intros)
    qed
  qed
qed

lemma Resume_locked: "keeps (\<lambda>ob. locked (o_active ob) (o_jobs ob)) ResumeInterrupted"
proof -
  have book: "keeps (\<lambda>ob. locked (o_active ob) (o_jobs ob)) (db m)" for m :: "'b store_op"
    by (auto simp: keeps_def db_eq split: prod.splits)
  show ?thesis unfolding ResumeInterrupted_def by (intro inv_intros book resume_locked)
qed

subsection \<open>Every step\<close>

lemma live_simps [simp]:
  "live (l\<lparr>lf_orch := ob\<rparr>) = o_jobs ob @ map rf_job (lf_fills l)"
  "live (l\<lparr>lf_orch := ob, lf_fills := fs\<rparr>) = o_jobs ob @ map rf_job fs"
  by (simp_all add: live_def)

lemma started_locked:
  assumes "\<And>q ob'. m (lf_orch l) = (q, ob') \<Longrightarrow> began d (lf_orch l) q ob'" "locked (o_active (lf_orch l)) (live l)"
  shows "locked (o_active (snd (m (lf_orch l)))) (o_jobs (snd (m (lf_orch l))) @ map rf_job (lf_fills l))"
proof -
  obtain q ob' where m: "m (lf_orch l) = (q, ob')" by fastforce
  from began_locked [OF assms(1) [OF m], of "map rf_job (lf_fills l)"] assms(2) show ?thesis by (simp add: live_def m)
qed

text \<open>A job that leaves the list of live ones takes its entry of the active map with it.\<close>

lemma job_locked:
  assumes "o_jobs (lf_orch l) = js @ j # js'" and "locked (o_active (lf_orch l)) (live l)"
    and run: "runJob env ctxErr dur (j_dep j) (j_run j) (job_fn ord (j_kind j)) (lf_orch l\<lparr>o_jobs := js @ js'\<rparr>) = (q, ob')"
  shows "locked (o_active ob') (o_jobs ob' @ map rf_job (lf_fills l))"
proof -
  have "locked (o_active (lf_orch l)) (j # js @ js' @ map rf_job (lf_fills l))"
    using assms(1) by (intro locked_perm [OF assms(2)]) (simp add: live_def)
  from locked_drop [OF this] show ?thesis
    by (rule locked_eq) (use runJob_books [OF book_job_fn run] in \<open>simp_all add: fun_upd_def\<close>)
qed

lemma begin_locked:
  assumes "o_jobs (lf_orch l) = js @ j # js'" and "locked (o_active (lf_orch l)) (live l)"
    and run: "fill_begin env (j_dep j) (j_run j) vms start (lf_orch l\<lparr>o_jobs := js @ js'\<rparr>) = (Inr q, ob')"
  shows "locked (o_active ob') (o_jobs ob' @ map rf_job (lf_fills l @ (case q of None \<Rightarrow> []
      | Some drv \<Rightarrow> [\<lparr>rf_job = j, rf_size = length vms, rf_start = start, rf_drv = drv, rf_state = init_fill start vms\<rparr>])))"
proof -
  have l: "locked (o_active (lf_orch l)) (j # js @ js' @ map rf_job (lf_fills l))"
    using assms(1) by (intro locked_perm [OF assms(2)]) (simp add: live_def)
  show ?thesis
  proof (cases q)
    case None
    from locked_drop [OF l] show ?thesis
      by (rule locked_eq) (use None fill_begin_books [OF run] in \<open>simp_all add: fun_upd_def\<close>)
  next
    case (Some drv)
    with l fill_begin_books [OF run] show ?thesis by (auto intro: locked_perm)
  qed
qed

lemma turn_locked:
  assumes "lf_fills l = fs @ f # fs'" and "locked (o_active (lf_orch l)) (live l)"
    and run: "fill_turn (rf_drv f) (j_dep (rf_job f)) (j_run (rf_job f)) (rf_size f) (rf_start f) t stopped (rf_state f) (lf_orch l) = (Inr q, ob')"
  shows "locked (o_active ob') (o_jobs ob' @ map rf_job (fs @ (case q of None \<Rightarrow> [] | Some st \<Rightarrow> [f\<lparr>rf_state := st\<rparr>]) @ fs'))"
proof -
  have l: "locked (o_active (lf_orch l)) (rf_job f # o_jobs (lf_orch l) @ map rf_job (fs @ fs'))"
    using assms(1) by (intro locked_perm [OF assms(2)]) (simp add: live_def)
  show ?thesis
  proof (cases q)
    case None
    from locked_drop [OF l] show ?thesis
      by (rule locked_eq) (use None fill_turn_books [OF run] in \<open>simp_all add: fun_upd_def\<close>)
  next
    case (Some st)
    with l fill_turn_books [OF run] show ?thesis by (auto intro: locked_perm)
  qed
qed

lemma cancel_locked:
  assumes "locked (o_active ob) js"
  shows "locked (o_active (snd (Cancel i ob))) js \<and> o_jobs (snd (Cancel i ob)) = o_jobs ob"
proof (cases "o_active ob i")
  case None
  with assms show ?thesis by (simp add: Cancel_def)
next
  case (Some b)
  then have "locked ((o_active ob)(i \<mapsto> True)) js" using locked_flag [OF assms] by simp
  then have "locked (o_active (snd (Cancel i ob))) js"
    by (rule locked_eq) (use Some in \<open>simp_all add: Cancel_def fun_upd_def\<close>)
  then show ?thesis using Some by (simp add: Cancel_def)
qed

lemma life_step_locked:
  "life_step env a l l' \<Longrightarrow> locked (o_active (lf_orch l)) (live l) \<Longrightarrow> locked (o_active (lf_orch l')) (live l')"
proof (induction rule: life_step.induct)
  case (ls_job l js j js' ctxErr dur ord)
  from job_locked [OF ls_job.hyps(1) ls_job.prems prod.collapse [symmetric]] show ?case by simp
next
  case (ls_begin l js j js' vms start q ob')
  from begin_locked [OF ls_begin.hyps(1) ls_begin.prems ls_begin.hyps(3)] show ?case by simp
next
  case (ls_turn l fs f fs' stopped t q ob')
  from turn_locked [OF ls_turn.hyps(1) ls_turn.prems ls_turn.hyps(3)] show ?case by simp
next
  case (ls_crash l)
  show ?case using keepsD [OF Resume_locked, of "lf_orch l\<lparr>o_active := Map.empty, o_jobs := []\<rparr>"]
    by (simp add: live_def locked_def)
next
  case (ls_cancel l i)
  from cancel_locked [OF ls_cancel] show ?case by (simp add: live_def)
next
  case (ls_deploy l d c)
  from started_locked [OF began_deploy ls_deploy] show ?case by simp
next
  case (ls_teardown l d)
  from started_locked [OF began_teardown ls_teardown] show ?case by simp
next
  case (ls_power l d on)
  from started_locked [OF began_power ls_power] show ?case by simp
next
  case (ls_fill rt l d)
  from started_locked [OF began_fill [OF ls_fill.hyps] ls_fill.prems] show ?case by simp
qed (simp_all add: live_def)

lemma life_reach_locked: "life_reach env A l \<Longrightarrow> locked (o_active (lf_orch l)) (live l)"
proof (induction rule: life_reach.induct)
  case (lr_init s h)
  then show ?case by (simp add: live_def locked_def)
next
  case (lr_step l a l')
  then show ?case by (blast intro: life_step_locked)
qed

section \<open>Properties\<close>

text \<open>
  C6. Whatever is started, cancelled, polled or resumed, and whichever statements fail, a
  deployment never has two live jobs; the active map holds exactly the deployments that have
  one, so none stays locked after its job, and none is free while it works.
\<close>

theorem one_job_per_deployment:
  assumes "life_reach env A l"
  shows "distinct (map job_dep (live l)) \<and> {i. IsActive (lf_orch l) i} = set (map job_dep (live l))"
  using life_reach_locked [OF assms] by (simp add: locked_def IsActive_def dom_def)

text \<open>A fleet whose VMs are being switched on.\<close>

definition busy_life :: "fake life" where
  "busy_life = \<lparr>lf_orch = snd (StartPower fleet_dep True demo_orch), lf_fills = []\<rparr>"

lemma busy_life_reach: "life_reach demo_env {Normal} busy_life"
proof -
  have "life_reach demo_env {Normal} \<lparr>lf_orch = demo_orch, lf_fills = []\<rparr>"
    unfolding demo_orch_def using fleet_store_reachable by (rule lr_init) (simp_all add: fleet_store_eq)
  from lr_step [OF this _ ls_power, of fleet_dep True] show ?thesis by (simp add: busy_life_def)
qed

lemma busy_life_live: "map job_dep (live busy_life) = [demo_rand 1] \<and> map r_ID (map j_run (live busy_life)) = [demo_rand 2]"
  by code_simp

theorem one_job_per_deployment_witness:
  "distinct (map job_dep (live busy_life)) \<and> {i. IsActive (lf_orch busy_life) i} = {demo_rand 1}"
  using one_job_per_deployment [OF busy_life_reach] busy_life_live by simp

text \<open>
  C38. Every live job works on the deployment its run belongs to, and its body is the one the
  type of its run stands for, also after a crash.
\<close>

theorem jobs_typed:
  assumes "life_reach env A l" and "j \<in> set (live l)"
  shows "r_DeploymentID (j_run j) = d_ID (j_dep j) \<and> kind_of (j_kind j) (r_Type (j_run j))"
  using life_reach_locked [OF assms(1)] assms(2) by (simp add: locked_def list_all_iff typed_job_def)

theorem jobs_typed_witness:
  "\<exists>j \<in> set (live busy_life). r_DeploymentID (j_run j) = demo_rand 1 \<and> kind_of (j_kind j) (r_Type (j_run j))"
proof -
  obtain j where "j \<in> set (live busy_life)" "job_dep j = demo_rand 1"
    using busy_life_live by (metis list.set_intros(1) imageE list.set_map)
  with jobs_typed [OF busy_life_reach this(1)] show ?thesis by auto
qed

text \<open>
  C37. Starting a job is all or nothing: a refused start spawns nothing and holds nothing, and
  at a busy deployment it changes nothing at all; an accepted one had the deployment free,
  holds it, uncancelled, and spawns exactly one goroutine.
\<close>

theorem start_all_or_nothing:
  assumes "m \<in> {StartDeploy d c, StartTeardown d, StartPower d on} \<or> (\<exists>rt \<in> {RunInitialFill, RunIncremental, RunVerify}. m = StartFill d rt)"
    and "m ob = (q, ob')"
  shows "case q of
      Inl e \<Rightarrow> o_active ob' = o_active ob \<and> o_jobs ob' = o_jobs ob
        \<and> (IsActive ob (d_ID d) \<longrightarrow> ob' = ob \<and> (is_busy e \<or> d_Origin d = OriginAdopted))
    | Inr r \<Rightarrow> \<not> IsActive ob (d_ID d) \<and> o_active ob' = (o_active ob)(d_ID d \<mapsto> False)
        \<and> (\<exists>j. o_jobs ob' = o_jobs ob @ [j] \<and> j_dep j = d \<and> j_run j = r)"
proof -
  have "began d ob q ob'"
    using assms by (auto intro: began_deploy began_teardown began_power began_fill)
  moreover have "ob' = ob \<and> (\<exists>e. q = Inl e \<and> (is_busy e \<or> d_Origin d = OriginAdopted))" if "IsActive ob (d_ID d)"
    using that assms
    by (auto simp: StartDeploy_def StartTeardown_def StartPower_def StartFill_def acquire_def seq_eq IsActive_def
        is_busy_def fail_def split: if_splits)
  ultimately show ?thesis by (auto simp: began_def IsActive_def split: sum.splits)
qed

theorem start_all_or_nothing_witness:
  "snd (StartTeardown fleet_dep (lf_orch busy_life)) = lf_orch busy_life"
proof -
  obtain q ob' where m: "StartTeardown fleet_dep (lf_orch busy_life) = (q, ob')" by fastforce
  have "{i. IsActive (lf_orch busy_life) i} = {demo_rand 1}"
    using life_reach_locked [OF busy_life_reach] busy_life_live by (auto simp: locked_def IsActive_def dom_def)
  then have "IsActive (lf_orch busy_life) (d_ID fleet_dep)" by (auto simp: fleet_dep_def)
  with start_all_or_nothing [where m = "StartTeardown fleet_dep" and d = fleet_dep, OF _ m] m show ?thesis by (auto split: sum.splits)
qed

section \<open>Refinement of a lock\<close>

text \<open>The abstract machine: per deployment the run that holds it. Runs take free deployments
  and free them again.\<close>

inductive lock_step :: "(string \<rightharpoonup> string) \<Rightarrow> (string \<rightharpoonup> string) \<Rightarrow> bool" where
  lock_idle: "lock_step H H"
| lock_take: "H i = None \<Longrightarrow> lock_step H (H(i \<mapsto> r))"
| lock_free: "H i = Some r \<Longrightarrow> lock_step H (H(i := None))"

definition grant :: "job \<Rightarrow> string \<times> string" where
  "grant j = (job_dep j, r_ID (j_run j))"

definition holder :: "'h life \<Rightarrow> (string \<rightharpoonup> string)" where
  "holder l = map_of (map grant (live l))"

lemma holder_perm: "distinct (map job_dep js) \<Longrightarrow> mset js = mset js' \<Longrightarrow> map_of (map grant js) = map_of (map grant js')"
proof -
  assume d: "distinct (map job_dep js)" and m: "mset js = mset js'"
  have "map fst (map grant ks) = map job_dep ks" for ks by (simp add: grant_def)
  moreover have "distinct (map job_dep js')" using d m by (metis mset_map mset_eq_imp_distinct_iff)
  ultimately show ?thesis using d mset_eq_setD [OF m] by (subst map_of_inject_set) (simp_all del: map_map)
qed

lemma lock_drop:
  assumes "distinct (map job_dep js)" "mset js = mset (j # js')"
  shows "lock_step (map_of (map grant js)) (map_of (map grant js'))"
proof -
  have eq: "map_of (map grant js) = (map_of (map grant js'))(job_dep j \<mapsto> r_ID (j_run j))"
    using holder_perm [OF assms] by (simp add: grant_def)
  have "distinct (map job_dep (j # js'))" using assms by (metis mset_map mset_eq_imp_distinct_iff)
  then have "map_of (map grant js') (job_dep j) = None" by (auto simp: map_of_eq_None_iff grant_def image_image)
  then have "map_of (map grant js') = (map_of (map grant js))(job_dep j := None)" by (simp add: eq fun_upd_idem)
  then show ?thesis using lock_free [of "map_of (map grant js)" "job_dep j"] by (simp add: eq)
qed

lemma lock_take_job:
  assumes "distinct (map job_dep js')" "mset js' = mset (j # js)"
  shows "lock_step (map_of (map grant js)) (map_of (map grant js'))"
proof -
  have "map_of (map grant js') = (map_of (map grant js))(job_dep j \<mapsto> r_ID (j_run j))"
    using holder_perm [OF assms] by (simp add: grant_def)
  moreover have "distinct (map job_dep (j # js))" using assms by (metis mset_map mset_eq_imp_distinct_iff)
  then have "map_of (map grant js) (job_dep j) = None" by (auto simp: map_of_eq_None_iff grant_def image_image)
  ultimately show ?thesis using lock_take by metis
qed

text \<open>What a step does to the list of live jobs.\<close>

lemma began_live:
  assumes "\<And>q ob'. m (lf_orch l) = (q, ob') \<Longrightarrow> began d (lf_orch l) q ob'"
  shows "mset (live l) = mset (live (l\<lparr>lf_orch := snd (m (lf_orch l))\<rparr>))
    \<or> (\<exists>j. mset (live (l\<lparr>lf_orch := snd (m (lf_orch l))\<rparr>)) = mset (j # live l)
        \<or> mset (live l) = mset (j # live (l\<lparr>lf_orch := snd (m (lf_orch l))\<rparr>)))"
proof -
  obtain q ob' where m: "m (lf_orch l) = (q, ob')" by fastforce
  from assms [OF m] m show ?thesis by (cases q) (auto simp: began_def live_def)
qed

lemma life_step_live:
  assumes "life_step env a l l'" "a \<noteq> Crash"
  shows "mset (live l) = mset (live l') \<or> (\<exists>j. mset (live l') = mset (j # live l) \<or> mset (live l) = mset (j # live l'))"
  using assms
proof (induction rule: life_step.induct)
  case (ls_job l js j js' ctxErr dur ord)
  obtain q ob' where run: "runJob env ctxErr dur (j_dep j) (j_run j) (job_fn ord (j_kind j)) (lf_orch l\<lparr>o_jobs := js @ js'\<rparr>) = (q, ob')"
    by fastforce
  have "mset (live l) = mset (j # (js @ js' @ map rf_job (lf_fills l)))" using ls_job by (simp add: live_def)
  then show ?case using runJob_books [OF book_job_fn run] by (auto simp: run)
next
  case (ls_begin l js j js' vms start q ob')
  have "mset (live l) = mset (j # (js @ js' @ map rf_job (lf_fills l)))" using ls_begin by (simp add: live_def)
  then show ?case using fill_begin_books [OF ls_begin.hyps(3)]
    by (cases q) auto
next
  case (ls_turn l fs f fs' stopped t q ob')
  have "mset (live l) = mset (rf_job f # (o_jobs (lf_orch l) @ map rf_job (fs @ fs')))" using ls_turn by (simp add: live_def)
  then show ?case using fill_turn_books [OF ls_turn.hyps(3)] ls_turn.hyps(1)
    by (cases q) (auto simp: live_def)
next
  case (ls_deploy l d c)
  show ?case by (rule began_live [OF began_deploy])
next
  case (ls_teardown l d)
  show ?case by (rule began_live [OF began_teardown])
next
  case (ls_power l d on)
  show ?case by (rule began_live [OF began_power])
next
  case (ls_fill rt l d)
  show ?case by (rule began_live [OF began_fill [OF ls_fill.hyps(1)]])
next
  case (ls_cancel l i)
  then show ?case by (simp add: live_def Cancel_def split: option.splits)
qed (simp_all add: live_def)

text \<open>
  C7. Apart from a crash, every step of the orchestrator is a step of the abstract lock: the
  active map, the goroutines and the fill loops together implement one lock per deployment,
  held by the run whose job is live.
\<close>

theorem orchestrator_refines_lock:
  assumes "life_reach env A l" "life_step env a l l'" "a \<noteq> Crash"
  shows "lock_step (holder l) (holder l')"
proof -
  have d: "distinct (map job_dep (live l))" "distinct (map job_dep (live l'))"
    using life_reach_locked [OF assms(1)] life_step_locked [OF assms(2)] by (simp_all add: locked_def)
  from life_step_live [OF assms(2,3)] show ?thesis unfolding holder_def
    by (metis d holder_perm lock_idle lock_drop lock_take_job)
qed

theorem orchestrator_refines_lock_witness:
  "lock_step (holder busy_life) (holder (busy_life\<lparr>lf_orch := snd (Cancel (demo_rand 1) (lf_orch busy_life))\<rparr>))"
  by (rule orchestrator_refines_lock [OF busy_life_reach ls_cancel]) simp

end
