(* ===== verification/Zombies.thy ===== *)
theory Zombies
  imports Lifecycle
begin

text \<open>
  Runs that nobody works on. While no statement fails and the controller does not crash, a run
  that is pending or running is the run of a live job, so it can be cancelled and will end; a
  crash between the creation of a run and its start leaves one that nothing ever finishes.
\<close>

section \<open>Open runs\<close>

definition unfinished :: "run \<Rightarrow> bool" where
  "unfinished r \<longleftrightarrow> r_Status r = RunPending \<or> r_Status r = RunRunning"

text \<open>No statement fails, and the unfinished runs are among the given ones.\<close>

definition open_in :: "string set \<Rightarrow> store \<Rightarrow> bool" where
  "open_in I s \<longleftrightarrow> st_faults s = [] \<and> (\<forall>r \<in> set (st_runs s). unfinished r \<longrightarrow> r_ID r \<in> I)"

lemma open_mono: "open_in I s \<Longrightarrow> I \<subseteq> J \<Longrightarrow> open_in J s"
  by (auto simp: open_in_def)

lemma open_sql [inv_intros]: "keeps (open_in I) m \<Longrightarrow> keeps (open_in I) (sql m)"
proof (rule keepsI)
  fix s assume m: "keeps (open_in I) m" and s: "open_in I s"
  then have "open_in I (pop_fault s)" "\<not> next_fault s" by (simp_all add: open_in_def pop_fault_def next_fault_def)
  then show "open_in I (snd (sql m s))" using keepsD [OF m] by (simp add: sql_def)
qed

lemma open_basic [inv_intros]: "keeps (open_in I) newID" "keeps (open_in I) now"
  by (auto simp: keeps_def open_in_def newID_def now_def look_def)

lemma open_reads [inv_intros]: "keeps (open_in I) (sql_select q)" "keeps (open_in I) (query_row tbl p)"
  unfolding sql_select_def query_row_def by (intro inv_intros)+

lemma open_must_affect [inv_intros]: "keeps (open_in I) m \<Longrightarrow> keeps (open_in I) (must_affect m)"
  unfolding must_affect_def by (intro inv_intros)

lemma open_on_unique [inv_intros]: "keeps (open_in I) m \<Longrightarrow> keeps (open_in I) (on_unique msg m)"
  unfolding on_unique_def by (intro inv_intros)

lemma open_tx [inv_intros]:
  assumes "keeps (open_in I) m" shows "keeps (open_in I) (tx m)"
proof (rule keepsI)
  fix s assume s: "open_in I s"
  let ?b = "seq (sql (ret ())) (\<lambda>_. seq m (\<lambda>x. seq (sql (ret ())) (\<lambda>_. ret x)))"
  have "keeps (open_in I) ?b" by (intro inv_intros assms)
  then have "open_in I (snd (?b s))" using s by (rule keepsD)
  then show "open_in I (snd (tx m s))" using s by (auto simp: tx_def open_in_def split: prod.splits sum.splits)
qed

lemma open_statements:
  assumes "\<And>f s. st_faults (put f s) = st_faults s \<and> st_runs (put f s) = st_runs s"
  shows "keeps (open_in I) (sql_insert tbl put uniq refs row)" "keeps (open_in I) (sql_update_key tbl put uniq p f)"
    "keeps (open_in I) (sql_update tbl put p f)" "keeps (open_in I) (sql_delete tbl put p)"
  unfolding sql_insert_def sql_update_def sql_update_key_def sql_delete_def
  by (intro open_sql; use assms in \<open>simp add: keeps_def open_in_def\<close>)+

lemma open_tables [inv_intros]:
  "keeps (open_in I) (sql_insert st_conns st_conns_update u1 rf1 w1)" "keeps (open_in I) (sql_update_key st_conns st_conns_update u1 p1 f1)"
  "keeps (open_in I) (sql_insert st_profiles st_profiles_update u2 rf2 w2)" "keeps (open_in I) (sql_update_key st_profiles st_profiles_update u2 p2 f2)"
  "keeps (open_in I) (sql_update st_profiles st_profiles_update p2 f2)" "keeps (open_in I) (sql_insert st_versions st_versions_update u3 rf3 w3)"
  "keeps (open_in I) (sql_insert st_deps st_deps_update u4 rf4 w4)" "keeps (open_in I) (sql_update_key st_deps st_deps_update u4 p4 f4)"
  "keeps (open_in I) (sql_update st_deps st_deps_update p4 f4)" "keeps (open_in I) (sql_insert st_vms st_vms_update u5 rf5 w5)"
  "keeps (open_in I) (sql_update st_vms st_vms_update p5 f5)" "keeps (open_in I) (sql_delete st_vms st_vms_update p5)"
  "keeps (open_in I) (sql_insert st_samples st_samples_update u6 rf6 w6)" "keeps (open_in I) (sql_insert st_scheds st_scheds_update u7 rf7 w7)"
  "keeps (open_in I) (sql_update st_scheds st_scheds_update p7 f7)" "keeps (open_in I) (sql_delete st_scheds st_scheds_update p7)"
  "keeps (open_in I) (sql_update st_disc st_disc_update p8 f8)" "keeps (open_in I) (sql_delete st_disc st_disc_update p8)"
  by (rule open_statements; simp)+

lemma open_update_runs:
  assumes "\<And>r. r_ID (f r) = r_ID r" "\<And>r. p r \<Longrightarrow> unfinished (f r) \<Longrightarrow> unfinished r \<or> r_ID r \<in> I"
  shows "keeps (open_in I) (sql_update st_runs st_runs_update p f)"
  unfolding sql_update_def sql_update_key_def
proof (intro open_sql keepsI)
  fix s assume s: "open_in I s"
  have "r_ID (f r) \<in> I" if "r \<in> set (st_runs s)" "p r" "unfinished (f r)" for r
    using that assms [of r] s by (auto simp: open_in_def)
  with s show "open_in I (snd (if \<not> True then (Inl unique_failed, s)
      else (Inr (count_where p (st_runs s)), st_runs_update (update_where p f) s)))"
    by (auto simp: open_in_def set_update_where)
qed

section \<open>The operations of the database\<close>

lemma open_runs [inv_intros]:
  "keeps (open_in I) (SetRunStats i js)" "keeps (open_in I) (SetRunTrigger i n)" "keeps (open_in I) (AddRunSample i mb k)"
  unfolding SetRunStats_def SetRunTrigger_def AddRunSample_def
  by (intro inv_intros open_update_runs; simp add: unfinished_def)+

lemma open_StartRun: "i \<in> I \<Longrightarrow> keeps (open_in I) (StartRun i)"
  unfolding StartRun_def by (intro inv_intros open_update_runs) auto

lemma open_FinishRun [inv_intros]: "rs \<noteq> RunPending \<Longrightarrow> rs \<noteq> RunRunning \<Longrightarrow> keeps (open_in I) (FinishRun i rs js)"
  unfolding FinishRun_def by (intro inv_intros open_update_runs) (auto simp: unfinished_def)

lemma open_queries [inv_intros]:
  "keeps (open_in I) (GetConnection i)" "keeps (open_in I) (GetConnectionSecret i)" "keeps (open_in I) (GetDeployment i)"
  "keeps (open_in I) (GetRun i)" "keeps (open_in I) (ListManagedVMs i)" "keeps (open_in I) (CountFillStatus i fst')"
  "keeps (open_in I) (GetProfile i)" "keeps (open_in I) (DeploymentFilled i)"
  unfolding GetConnection_def GetConnectionSecret_def GetDeployment_def GetRun_def ListManagedVMs_def CountFillStatus_def
    GetProfile_def DeploymentFilled_def HasSucceededRun_def
  by (intro inv_intros)+

lemma open_fleet [inv_intros]:
  "keeps (open_in I) (CreateDeployment d)" "keeps (open_in I) (UpdateDeploymentSpec i spec)"
  "keeps (open_in I) (SetDeploymentStatus i st)" "keeps (open_in I) (MarkDeploymentDeleted i)"
  "keeps (open_in I) (AddManagedVM v)" "keeps (open_in I) (UpdateManagedVMDisks i k k')" "keeps (open_in I) (TouchAgent i)"
  "keeps (open_in I) (ResetAgent i)" "keeps (open_in I) (SetVMDataState i ds n mf)" "keeps (open_in I) (RebindManagedVM i n n')"
  "keeps (open_in I) (DeleteManagedVM i)" "keeps (open_in I) (AssignFill i n k)" "keeps (open_in I) (SetFillTotal i k)"
  "keeps (open_in I) (SetFillStatus i fst')" "keeps (open_in I) (FailFillVM i n)" "keeps (open_in I) (CancelUnfinishedFills n)"
  "keeps (open_in I) (ReportFillProgress i k mb fin n)"
  unfolding CreateDeployment_def insert_dep_def UpdateDeploymentSpec_def SetDeploymentStatus_def MarkDeploymentDeleted_def
    DeleteDeploymentSchedules_def AddManagedVM_def insert_vm_def UpdateManagedVMDisks_def TouchAgent_def ResetAgent_def
    SetVMDataState_def RebindManagedVM_def DeleteManagedVM_def AssignFill_def SetFillTotal_def SetFillStatus_def
    FailFillVM_def CancelUnfinishedFills_def ReportFillProgress_def
  by (intro inv_intros)+

lemma open_config [inv_intros]:
  "keeps (open_in I) (CreateConnection c b)" "keeps (open_in I) (UpdateConnection c b')" "keeps (open_in I) (CreateProfile n spec)"
  "keeps (open_in I) (UpdateProfileSpec i spec)" "keeps (open_in I) (RenameProfile i n)"
  unfolding CreateConnection_def UpdateConnection_def CreateProfile_def insert_version_def UpdateProfileSpec_def next_version_def
    RenameProfile_def
  by (intro inv_intros)+

lemma open_deletes [inv_intros]: "keeps (open_in I) (DeleteConnection i)" "keeps (open_in I) (DeleteProfile i)"
proof -
  have [inv_intros]: "keeps (open_in I) (\<lambda>s. if c s then (Inl e, s) else (Inr (n s), s\<lparr>st_conns := x s\<rparr>))" for c e n x
    by (simp add: keeps_def open_in_def)
  have [inv_intros]: "keeps (open_in I) (\<lambda>s. (Inr (n s), s\<lparr>st_profiles := x s, st_versions := y s, st_deps := z s\<rparr>))" for n x y z
    by (simp add: keeps_def open_in_def)
  show "keeps (open_in I) (DeleteConnection i)" "keeps (open_in I) (DeleteProfile i)"
    unfolding DeleteConnection_def DeleteProfile_def by (intro inv_intros)+
qed

lemma open_sched [inv_intros]:
  "keeps (open_in I) (CreateSchedule sc)" "keeps (open_in I) (UpdateSchedule sc)"
  "keeps (open_in I) (AdvanceSchedule i n n' k nxt)" "keeps (open_in I) (DeleteSchedule i)"
  "keeps (open_in I) (SetDiscoveredInspection i rep)" "keeps (open_in I) (TouchDiscoveredAgent i)"
  "keeps (open_in I) (SetDiscoveredStatus i dst)" "keeps (open_in I) (DeleteDiscoveredVM i)"
  unfolding CreateSchedule_def insert_sched_def UpdateSchedule_def AdvanceSchedule_def DeleteSchedule_def
    SetDiscoveredInspection_def TouchDiscoveredAgent_def SetDiscoveredStatus_def DeleteDiscoveredVM_def
  by (intro inv_intros)+

lemma open_EnsureDiscoveredVM [inv_intros]: "keeps (open_in I) (EnsureDiscoveredVM mac)"
proof -
  have [inv_intros]: "keeps (open_in I) (\<lambda>s. if c s then (Inr (), st_disc_update f s) else Let (x s) (\<lambda>r. if u r s then (Inr (), st_disc_update (g r) s) else (Inl e, s)))"
    for c f g u e and x :: "store \<Rightarrow> discovered_vm" by (simp add: keeps_def open_in_def Let_def)
  show ?thesis unfolding EnsureDiscoveredVM_def by (intro inv_intros)
qed

lemma open_WorkOrder [inv_intros]: "keeps (open_in I) (WorkOrderForToken vm)"
  unfolding WorkOrderForToken_def claim_slot_def by (intro inv_intros)

lemma open_world: "world_step s s' \<Longrightarrow> open_in I s \<Longrightarrow> open_in I s'"
  by (induction rule: world_step.induct)
    (simp_all add: open_in_def [of I "_\<lparr>st_now := _\<rparr>"] inv_intros [THEN keepsD], simp add: open_in_def)

section \<open>The jobs\<close>

abbreviation opn :: "string set \<Rightarrow> 'h orch \<Rightarrow> bool" where
  "opn I ob \<equiv> open_in I (o_store ob)"

lemma open_job_fn [inv_intros]: "keeps (\<lambda>x. opn I (fst x)) (job_fn ord k d drv)"
proof -
  have [inv_intros]: "keeps (opn I) (findConflicts d drv recorded)" for recorded
    unfolding findConflicts_def conflict_of_def by (intro inv_intros)
  have [inv_intros]: "keeps (\<lambda>x. opn I (fst x)) (powerFunc on d drv)" "keeps (\<lambda>x. opn I (fst x)) (teardown d drv)"
    "keeps (\<lambda>x. opn I (fst x)) (reconcileCore ord c d drv)" for on c
    unfolding powerFunc_def teardown_def reconcileCore_def resolve_def create_one_def grow_one_def by (intro inv_intros)+
  show ?thesis unfolding job_fn_def by (cases k; simp; intro inv_intros)
qed

lemma open_OpenDriver [inv_intros]: "keeps (opn I) (OpenDriver env c)"
  unfolding OpenDriver_def by (intro inv_intros)

lemma open_clock [inv_intros]: "keeps (opn I) (clock t)"
  unfolding clock_def by (rule keeps_change) (simp add: open_in_def)

text \<open>Finishing a run closes it.\<close>

lemma FinishRun_closes:
  assumes "rs \<noteq> RunPending" "rs \<noteq> RunRunning" "opn (insert i I) ob"
  shows "opn I (snd (ignore (db (FinishRun i rs js)) ob))"
  using assms
  by (auto simp: ignore_def attempt_def db_eq ret_def FinishRun_def must_affect_def sql_update_def sql_update_key_def sql_def
      now_def look_def seq_eq next_fault_def pop_fault_def open_in_def set_update_where unfinished_def fail_def split: prod.splits)

lemma opn_closed: "keeps (opn I) m \<Longrightarrow> opn I ob \<Longrightarrow> opn I (snd (m ob))"
  by (rule keepsD)

text \<open>A triple in which the run \<open>i\<close> is open before, and closed after when \<open>c\<close> holds of the result.\<close>

definition closing :: "string \<Rightarrow> string set \<Rightarrow> ('h orch, 'a) prog \<Rightarrow> (go_error + 'a \<Rightarrow> bool) \<Rightarrow> bool" where
  "closing i I m c \<longleftrightarrow> valid (opn (insert i I)) m (\<lambda>q ob. opn (if c q then I else insert i I) ob)"

lemma closing_Finish: "rs \<noteq> RunPending \<Longrightarrow> rs \<noteq> RunRunning \<Longrightarrow> closing i I (ignore (db (FinishRun i rs js))) (\<lambda>_. True)"
  unfolding closing_def
proof (rule validI)
  fix ob q ob' assume "rs \<noteq> RunPending" "rs \<noteq> RunRunning" "opn (insert i I) ob" "ignore (db (FinishRun i rs js)) ob = (q, ob')"
  with FinishRun_closes [of rs i I ob js] show "opn (if True then I else insert i I) ob'" by simp
qed

lemma closing_then:
  assumes "closing i I m (\<lambda>_. True)" "nofail m" "\<And>x. keeps (opn I) (k x)"
  shows "closing i I (seq m k) (\<lambda>_. True)"
  unfolding closing_def
proof (rule validI)
  fix ob q ob' assume o: "opn (insert i I) ob" and run: "seq m k ob = (q, ob')"
  from run assms(2) obtain x ob1 where m: "m ob = (Inr x, ob1)" "k x ob1 = (q, ob')" by (rule seq_nofailE)
  have "opn I ob1" using validD [OF assms(1) [unfolded closing_def] o m(1)] by simp
  from keepsD [OF assms(3) this, of x] m(2) show "opn (if True then I else insert i I) ob'" by simp
qed

lemma closing_after:
  assumes "keeps (opn (insert i I)) m" "nofail m" "\<And>x. closing i I (k x) c"
  shows "closing i I (seq m k) c"
  unfolding closing_def
proof (rule validI)
  fix ob q ob' assume o: "opn (insert i I) ob" and run: "seq m k ob = (q, ob')"
  from run assms(2) obtain x ob1 where m: "m ob = (Inr x, ob1)" "k x ob1 = (q, ob')" by (rule seq_nofailE)
  have "opn (insert i I) ob1" using keepsD [OF assms(1) o] m(1) by simp
  from validD [OF assms(3) [unfolded closing_def] this m(2)] show "opn (if c q then I else insert i I) ob'" .
qed

lemma closing_attempt:
  assumes "keeps (opn (insert i I)) m" "\<And>x. closing i I (k x) c"
  shows "closing i I (attempt m k) c"
  unfolding closing_def
proof (rule validI)
  fix ob q ob' assume o: "opn (insert i I) ob" and run: "attempt m k ob = (q, ob')"
  obtain x ob1 where m: "m ob = (x, ob1)" by fastforce
  have "opn (insert i I) ob1" using keepsD [OF assms(1) o] m by simp
  from validD [OF assms(2) [unfolded closing_def] this, of x q ob'] run m
  show "opn (if c q then I else insert i I) ob'" by (simp add: attempt_def)
qed

lemma closing_ret: "\<not> c (Inr x) \<Longrightarrow> closing i I (ret x) c"
  by (simp add: closing_def valid_def ret_def)

lemma closing_weaken: "closing i I m (\<lambda>_. True) \<Longrightarrow> closing i I m c"
  unfolding closing_def by (erule valid_weaken) (auto intro: open_mono)

lemma closing_cases:
  "(b \<Longrightarrow> closing i I m c) \<Longrightarrow> (\<not> b \<Longrightarrow> closing i I n c) \<Longrightarrow> closing i I (if b then m else n) c"
  "(\<And>e. closing i I (f e) c) \<Longrightarrow> (\<And>x. closing i I (g x) c) \<Longrightarrow> closing i I (case z of Inl e \<Rightarrow> f e | Inr x \<Rightarrow> g x) c"
  "(\<And>x y. closing i I (h x y) c) \<Longrightarrow> closing i I (case p of (x, y) \<Rightarrow> h x y) c"
  by (auto split: sum.splits prod.splits)

lemma closing_runJob: "closing (r_ID r) I (runJob env ce dur d r (job_fn ord k)) (\<lambda>_. True)"
proof -
  have settle: "closing (r_ID r) I (job_failed d r ce dur js e) (\<lambda>_. True)" "closing (r_ID r) I (job_succeeded d r dur js) (\<lambda>_. True)" for js e
    unfolding job_failed_def job_succeeded_def
    by (rule closing_then; (intro nofail_intros inv_intros)?; simp add: closing_Finish)+
  have nf: "nofail (run_body f)" for f :: "('a, unit) jprog" by (auto simp: nofail_def run_body_def split: prod.splits)
  have nf': "nofail (job_failed d r ce dur js e)" "nofail (job_succeeded d r dur js)" for js e
    unfolding job_failed_def job_succeeded_def by (intro nofail_intros)+
  show ?thesis unfolding runJob_def
    by (intro closing_after [where m = "ignore (db (StartRun (r_ID r)))"] closing_then closing_attempt closing_cases settle
        closing_after [where m = "run_body _"] nofail_intros nf nf' inv_intros open_StartRun) simp_all
qed

lemma closing_give_up: "closing (r_ID r) I (give_up drv d r cur ta n dur msg) (\<lambda>_. True)"
  unfolding give_up_def failFillWithStats_def applyAfterFill_def
  by (intro closing_then closing_Finish nofail_intros inv_intros) simp_all

lemma keeps_apply [inv_intros]: "keeps (opn I) (applyAfterFill drv d vms)"
  unfolding applyAfterFill_def by (intro inv_intros)

lemma closing_finishFill: "closing (r_ID r) I (finishFill drv d r cur ta dur) (\<lambda>_. True)"
  unfolding finishFill_def Let_def
  by (intro closing_after closing_cases closing_Finish nofail_intros inv_intros) simp_all

text \<open>A poll that returns has finished its run.\<close>

abbreviation returned :: "go_error + 'a option \<Rightarrow> bool" where
  "returned q \<equiv> q = Inr None"

lemma closing_none: "closing i I m (\<lambda>_. True) \<Longrightarrow> nofail m \<Longrightarrow> closing i I (seq m (\<lambda>_. ret None)) returned"
  by (rule closing_weaken, rule closing_then) (auto intro: keeps_ret)

lemma closing_verdict: "closing (r_ID r) I (poll_verdict drv d r n start t cur ta fs) returned"
proof -
  have nf: "nofail (finishFill drv d r cur ta dur)" for dur
    unfolding finishFill_def Let_def applyAfterFill_def by (intro nofail_intros)
  have give_up: "closing (r_ID r) I (give_up drv d r cur ta n dur msg) returned" for dur msg
    by (rule closing_weaken [OF closing_give_up])
  have last: "closing (r_ID r) I (if b then seq (finishFill drv d r cur ta dur) (\<lambda>_. ret None)
      else if b' then give_up drv d r cur ta n dur' msg else ret (Some fs')) returned" for b b' dur dur' msg fs'
    by (intro closing_cases(1) closing_none [OF closing_finishFill nf] give_up closing_ret) simp
  have noted: "closing (r_ID r) I (seq (publishFillStats r ta n dur) (\<lambda>_. seq (ignore (db (AddRunSample i x y))) (\<lambda>_. k))) returned"
    if "closing (r_ID r) I k returned" for k dur i x y
    unfolding publishFillStats_def by (rule closing_after closing_after that inv_intros nofail_intros)+
  show ?thesis unfolding poll_verdict_def Let_def by (intro closing_cases(1) give_up noted last)
qed

lemma closing_poll: "closing (r_ID r) I (poll drv d r n start t fs) returned"
proof -
  have fail: "closing (r_ID r) I (failFill r e) (\<lambda>_. True)" for e unfolding failFill_def by (simp add: closing_Finish)
  have nf: "nofail (failFill r e)" for e unfolding failFill_def by (intro nofail_intros)
  have watch: "keeps (opn J) (watch_one drv t v fs')" "nofail (watch_one drv t v fs')" for J v fs'
    unfolding watch_one_def powerCycle_def Let_def by (intro inv_intros nofail_intros)+
  show ?thesis unfolding poll_def Let_def
    by (intro closing_attempt closing_cases closing_none fail nf closing_after closing_verdict inv_intros nofail_intros watch)
qed

lemma closing_turn: "closing (r_ID r) I (fill_turn drv d r n start t stopped fs) returned"
proof -
  have cancel: "closing (r_ID r) I (cancelFill r) (\<lambda>_. True)" "nofail (cancelFill r)"
    unfolding cancelFill_def by (intro closing_after closing_Finish nofail_intros inv_intros; simp)+
  let ?m = "if stopped then seq (cancelFill r) (\<lambda>_. ret None) else poll drv d r n start t fs"
  have m: "closing (r_ID r) I ?m returned" by (intro closing_cases closing_none cancel closing_poll)
  have nf: "nofail ?m" by (intro nofail_intros cancel)
  have "closing (r_ID r) I (seq ?m (\<lambda>res. case res of None \<Rightarrow> seq (release (d_ID d)) (\<lambda>_. ret None) | Some fs \<Rightarrow> ret (Some fs))) returned"
    unfolding closing_def
  proof (rule validI)
    fix ob q ob' assume o: "opn (insert (r_ID r) I) ob"
      and run: "seq ?m (\<lambda>res. case res of None \<Rightarrow> seq (release (d_ID d)) (\<lambda>_. ret None) | Some fs \<Rightarrow> ret (Some fs)) ob = (q, ob')"
    from run nf obtain x ob1 where m1: "?m ob = (Inr x, ob1)"
        "(case x of None \<Rightarrow> seq (release (d_ID d)) (\<lambda>_. ret None) | Some fs \<Rightarrow> ret (Some fs)) ob1 = (q, ob')" by (rule seq_nofailE)
    from validD [OF m [unfolded closing_def] o m1(1)] m1(2)
    show "opn (if returned q then I else insert (r_ID r) I) ob'"
      by (cases x) (auto simp: release_def change_def seq_eq ret_def)
  qed
  moreover have "nofail (clock t)" by (simp add: clock_def nofail_intros)
  ultimately show ?thesis unfolding fill_turn_def by (intro closing_after [where m = "clock t"] open_clock)
qed

lemma closing_begin: "closing (r_ID r) I (fill_begin env d r vms start) returned"
proof -
  have fail: "closing (r_ID r) I (failFill r e) (\<lambda>_. True)" "nofail (failFill r e)" for e
    unfolding failFill_def by (simp_all add: closing_Finish nofail_intros)
  have boot: "keeps (opn J) (bootVM drv start v)" "nofail (bootVM drv start v)" for J drv v
    unfolding bootVM_def powerCycle_def by (intro inv_intros nofail_intros)+
  have failed: "closing (r_ID r) I (seq (failFill r e) (\<lambda>_. seq (release (d_ID d)) (\<lambda>_. ret None))) returned" for e
    by (rule closing_weaken, rule closing_then [OF fail]) (intro inv_intros)
  have booted: "closing (r_ID r) I (seq (for_each vms (bootVM drv start)) (\<lambda>_. ret (Some drv))) returned" for drv
    by (rule closing_after) (simp_all add: boot inv_intros nofail_intros closing_ret)
  have "nofail (clock start)" by (simp add: clock_def nofail_intros)
  then show ?thesis unfolding fill_begin_def
    by (rule closing_after [OF open_clock]) (intro closing_attempt open_OpenDriver closing_cases(2) failed booted)
qed

section \<open>Starting\<close>

definition opens :: "string set \<Rightarrow> (go_error + run) \<Rightarrow> 'h orch \<Rightarrow> bool" where
  "opens I q ob \<longleftrightarrow> opn (case q of Inl _ \<Rightarrow> I | Inr r \<Rightarrow> insert (r_ID r) I) ob"

lemma CreateRun_opens: "opn I ob \<Longrightarrow> db (CreateRun dep rt) ob = (q, ob') \<Longrightarrow> opens I q ob'"
  by (auto simp: opens_def db_eq CreateRun_def insert_run_def sql_insert_def sql_def newID_def now_def look_def ret_def Let_def
      next_fault_def pop_fault_def seq_eq open_in_def split: prod.splits sum.splits if_splits)

lemma opens_template:
  assumes prep: "\<And>ob q ob'. opn I ob \<Longrightarrow> prep ob = (q, ob') \<Longrightarrow> opn (case q of Inl _ \<Rightarrow> I | Inr x \<Rightarrow> insert (r_ID (rn x)) I) ob'"
    and jot: "\<And>J x. r_ID (rn x) \<in> J \<Longrightarrow> keeps (opn J) (jot x)" "\<And>x. nofail (jot x)"
    and ob: "opn I ob"
    and run: "seq (acquire (d_ID d)) (\<lambda>_. seq (or_release (d_ID d) prep) (\<lambda>x.
        seq (jot x) (\<lambda>_. seq (spawn (jb x)) (\<lambda>_. ret (rn x))))) ob = (q, ob')"
  shows "opens I q ob'"
proof (cases "o_active ob (d_ID d)")
  case (Some b)
  with run ob show ?thesis by (auto simp: opens_def seq_eq acquire_def)
next
  case None
  let ?ob = "ob\<lparr>o_active := (o_active ob)(d_ID d \<mapsto> False)\<rparr>"
  obtain p ob1 where p: "prep ?ob = (p, ob1)" by fastforce
  have b1: "opn (case p of Inl _ \<Rightarrow> I | Inr x \<Rightarrow> insert (r_ID (rn x)) I) ob1" using prep [OF _ p] ob by simp
  show ?thesis
  proof (cases p)
    case (Inl e)
    then show ?thesis using run None p b1
      by (auto simp: opens_def seq_eq acquire_def or_release_def attempt_def release_def change_def fail_def)
  next
    case (Inr x)
    obtain u ob2 where n: "jot x ob1 = (Inr u, ob2)" using nofailD [OF jot(2)] by metis
    have "opn (insert (r_ID (rn x)) I) ob2" using keepsD [OF jot(1), of x "insert (r_ID (rn x)) I" ob1] b1 Inr n by simp
    with run None p Inr n show ?thesis
      by (auto simp: opens_def seq_eq acquire_def or_release_def attempt_def spawn_def change_def ret_def)
  qed
qed

text \<open>Preparations end by creating the run.\<close>

lemma opens_prep:
  assumes "keeps (opn I) m" "\<And>x ob q ob'. opn I ob \<Longrightarrow> k x ob = (q, ob') \<Longrightarrow> opn (case q of Inl _ \<Rightarrow> I | Inr y \<Rightarrow> insert (r_ID (rn y)) I) ob'"
    and "opn I ob" "seq m k ob = (q, ob')"
  shows "opn (case q of Inl _ \<Rightarrow> I | Inr y \<Rightarrow> insert (r_ID (rn y)) I) ob'"
proof -
  obtain x ob1 where m: "m ob = (x, ob1)" by fastforce
  have "opn I ob1" using keepsD [OF assms(1,3)] m by simp
  with assms(2) [of ob1] assms(4) m show ?thesis by (cases x) (auto simp: seq_eq)
qed

lemma opens_create:
  assumes "opn I ob" "seq (db (CreateRun dep rt)) (\<lambda>r. ret (f r)) ob = (q, ob')" "\<And>r. rn (f r) = r"
  shows "opn (case q of Inl _ \<Rightarrow> I | Inr y \<Rightarrow> insert (r_ID (rn y)) I) ob'"
proof -
  obtain x ob1 where m: "db (CreateRun dep rt) ob = (x, ob1)" by fastforce
  from CreateRun_opens [OF assms(1) m] assms(2,3) m show ?thesis by (cases x) (auto simp: seq_eq opens_def ret_def)
qed

lemma opens_teardown: "opn I ob \<Longrightarrow> StartTeardown d ob = (q, ob') \<Longrightarrow> opens I q ob'"
  unfolding StartTeardown_def
  by (rule opens_template [where prep = "db (CreateRun (d_ID d) RunTeardown)" and rn = "\<lambda>r. r"
        and jot = "\<lambda>_. ignore (db (SetDeploymentStatus (d_ID d) DeploymentDeleting))"
        and jb = "\<lambda>r. \<lparr>j_dep = d, j_run = r, j_kind = JTeardown\<rparr>"])
    (auto intro: inv_intros nofail_intros CreateRun_opens [unfolded opens_def])

lemma opens_power: "opn I ob \<Longrightarrow> StartPower d on ob = (q, ob') \<Longrightarrow> opens I q ob'"
  unfolding StartPower_def
  by (rule opens_template [where prep = "db (CreateRun (d_ID d) (if on then RunPowerOn else RunPowerOff))" and rn = "\<lambda>r. r"
        and jot = "\<lambda>_. ret ()" and jb = "\<lambda>r. \<lparr>j_dep = d, j_run = r, j_kind = JPower on\<rparr>"])
    (auto intro: inv_intros nofail_intros CreateRun_opens [unfolded opens_def])

lemma opens_deploy: "opn I ob \<Longrightarrow> StartDeploy d c ob = (q, ob') \<Longrightarrow> opens I q ob'"
proof (cases "d_Origin d = OriginAdopted")
  case True
  then show "opn I ob \<Longrightarrow> StartDeploy d c ob = (q, ob') \<Longrightarrow> opens I q ob'" by (auto simp: StartDeploy_def fail_def opens_def)
next
  case False
  let ?prep = "seq (db (ListManagedVMs (d_ID d))) (\<lambda>x. seq (db (CreateRun (d_ID d) (if x = [] then RunDeploy else RunScaleUp))) (\<lambda>y. ret (x, y)))"
  have prep: "opn (case q of Inl _ \<Rightarrow> I | Inr x \<Rightarrow> insert (r_ID (snd x)) I) ob'" if "opn I ob" "?prep ob = (q, ob')" for ob q ob'
    by (rule opens_prep [OF _ opens_create that(1,2)]) (auto intro: inv_intros)
  assume "opn I ob" "StartDeploy d c ob = (q, ob')"
  then show "opens I q ob'"
    using False opens_template [OF prep, where jot = "\<lambda>_. ignore (db (SetDeploymentStatus (d_ID d) DeploymentDeploying))"]
    by (simp add: StartDeploy_def seq_or_release split_def inv_intros nofail_intros)
qed

lemma opens_fill:
  assumes "opn I ob" "StartFill d rt ob = (q, ob')"
  shows "opens I q ob'"
proof -
  let ?prep = "seq (db (ListManagedVMs (d_ID d))) (\<lambda>vms.
        if vms = [] then fail (ErrPrecondition ''nothing to fill: deploy the VMs first'')
        else seq (needs_data d rt) (\<lambda>_. seq (db (CreateRun (d_ID d) rt)) (\<lambda>r. ret (vms, r))))"
  let ?jot = "\<lambda>x. seq (for_each (fst x) (\<lambda>vm. ignore (db (AssignFill (v_ID vm) (r_ID (snd x)) (bytesPerVM (d_Spec d) rt)))))
       (\<lambda>_. ignore (db (StartRun (r_ID (snd x)))))"
  have needs: "keeps (opn I) (needs_data d rt)" unfolding needs_data_def by (intro inv_intros)
  have inner: "opn (case q of Inl _ \<Rightarrow> I | Inr x \<Rightarrow> insert (r_ID (snd x)) I) ob'"
    if "opn I ob" "(if vms = [] then fail (ErrPrecondition ''nothing to fill: deploy the VMs first'')
        else seq (needs_data d rt) (\<lambda>_. seq (db (CreateRun (d_ID d) rt)) (\<lambda>r. ret (vms, r)))) ob = (q, ob')" for vms ob q ob'
  proof (cases "vms = []")
    case True
    with that show ?thesis by (auto simp: fail_def)
  next
    case False
    with that(2) have "seq (needs_data d rt) (\<lambda>_. seq (db (CreateRun (d_ID d) rt)) (\<lambda>r. ret (vms, r))) ob = (q, ob')" by simp
    from opens_prep [OF needs opens_create that(1) this] show ?thesis by auto
  qed
  have prep: "opn (case q of Inl _ \<Rightarrow> I | Inr x \<Rightarrow> insert (r_ID (snd x)) I) ob'" if "opn I ob" "?prep ob = (q, ob')" for ob q ob'
    by (rule opens_prep [OF _ inner that]) (intro inv_intros)
  have jot: "keeps (opn J) (?jot x)" if "r_ID (snd x) \<in> J" for J x by (intro inv_intros open_StartRun that)
  show ?thesis
    using assms opens_template [OF prep jot, where d = d]
    by (simp add: StartFill_def split_def seq_assoc inv_intros nofail_intros)
qed

section \<open>No run is left behind\<close>

definition live_runs :: "'h life \<Rightarrow> string set" where
  "live_runs l = (\<lambda>j. r_ID (j_run j)) ` set (live l)"

lemma began_open:
  assumes "began d (lf_orch l) q ob'" "opens (live_runs l) q ob'"
  shows "opn (live_runs (l\<lparr>lf_orch := ob'\<rparr>)) ob'"
  using assms by (cases q) (auto simp: began_def opens_def live_runs_def live_def image_Un Un_commute intro: open_mono)

lemma start_open:
  assumes "\<And>q ob'. m (lf_orch l) = (q, ob') \<Longrightarrow> began d (lf_orch l) q ob'"
    and "\<And>q ob'. m (lf_orch l) = (q, ob') \<Longrightarrow> opens (live_runs l) q ob'"
  shows "opn (live_runs (l\<lparr>lf_orch := snd (m (lf_orch l))\<rparr>)) (snd (m (lf_orch l)))"
proof -
  obtain q ob' where m: "m (lf_orch l) = (q, ob')" by fastforce
  from began_open [OF assms(1) [OF m] assms(2) [OF m]] show ?thesis by (simp add: m)
qed

lemma life_step_open:
  "life_step env a l l' \<Longrightarrow> a = Normal \<Longrightarrow> opn (live_runs l) (lf_orch l) \<Longrightarrow> opn (live_runs l') (lf_orch l')"
proof (induction rule: life_step.induct)
  case (ls_deploy l d c)
  show ?case using start_open [of "StartDeploy d c", OF began_deploy opens_deploy [OF ls_deploy(2)]] by simp
next
  case (ls_teardown l d)
  show ?case using start_open [of "StartTeardown d", OF began_teardown opens_teardown [OF ls_teardown(2)]] by simp
next
  case (ls_power l d on)
  show ?case using start_open [of "StartPower d on", OF began_power opens_power [OF ls_power(2)]] by simp
next
  case (ls_fill rt l d)
  show ?case using start_open [of "StartFill d rt", OF began_fill [OF ls_fill.hyps] opens_fill [OF ls_fill.prems(2)]] by simp
next
  case (ls_cancel l i)
  then show ?case by (auto simp: Cancel_def live_runs_def live_def split: option.splits)
next
  case (ls_job l js j js' ctxErr dur ord)
  let ?ob = "lf_orch l\<lparr>o_jobs := js @ js'\<rparr>"
  obtain q ob' where run: "runJob env ctxErr dur (j_dep j) (j_run j) (job_fn ord (j_kind j)) ?ob = (q, ob')" by fastforce
  let ?I = "(\<lambda>j. r_ID (j_run j)) ` set (js @ js' @ map rf_job (lf_fills l))"
  have "opn (insert (r_ID (j_run j)) ?I) ?ob" using ls_job by (auto simp: live_runs_def live_def elim!: open_mono)
  from validD [OF closing_runJob [unfolded closing_def] this run] have "opn ?I ob'" by simp
  moreover have "o_jobs ob' = js @ js'" using runJob_books [OF book_job_fn run] by simp
  ultimately show ?case by (simp add: run live_runs_def)
next
  case (ls_begin l js j js' vms start q ob')
  let ?I = "(\<lambda>j. r_ID (j_run j)) ` set (js @ js' @ map rf_job (lf_fills l))"
  have "opn (insert (r_ID (j_run j)) ?I) (lf_orch l\<lparr>o_jobs := js @ js'\<rparr>)"
    using ls_begin by (auto simp: live_runs_def live_def elim!: open_mono)
  from validD [OF closing_begin [unfolded closing_def] this ls_begin.hyps(3)] fill_begin_books [OF ls_begin.hyps(3)]
  show ?case by (cases q) (auto simp: live_runs_def elim!: open_mono)
next
  case (ls_turn l fs f fs' stopped t q ob')
  let ?I = "(\<lambda>j. r_ID (j_run j)) ` set (o_jobs (lf_orch l) @ map rf_job (fs @ fs'))"
  have "opn (insert (r_ID (j_run (rf_job f))) ?I) (lf_orch l)"
    using ls_turn by (auto simp: live_runs_def live_def elim!: open_mono)
  from validD [OF closing_turn [unfolded closing_def] this ls_turn.hyps(3)] fill_turn_books [OF ls_turn.hyps(3)]
  show ?case by (cases q) (auto simp: live_runs_def elim!: open_mono)
next
  case (ls_world l s)
  then show ?case using open_world [OF ls_world.hyps] by (simp add: live_runs_def live_def)
qed (simp_all add: live_runs_def live_def)

text \<open>
  C18. While statements succeed and the controller does not crash, no run is left behind: each
  run the database shows as pending or running is the run of a live job, at a deployment that
  counts as active, so it can be cancelled.
\<close>

theorem no_run_left_behind:
  assumes "life_reach env {Normal} l" "r \<in> set (st_runs (o_store (lf_orch l)))" "r_Status r = RunPending \<or> r_Status r = RunRunning"
  shows "\<exists>j \<in> set (live l). r_ID (j_run j) = r_ID r \<and> IsActive (lf_orch l) (d_ID (j_dep j))"
proof -
  have "opn (live_runs l) (lf_orch l)" using assms(1)
  proof (induction rule: life_reach.induct)
    case (lr_init s h)
    then show ?case by (simp add: open_in_def)
  next
    case (lr_step l a l')
    then show ?case using life_step_open by blast
  qed
  then have "r_ID r \<in> live_runs l" using assms(2,3) by (auto simp: open_in_def unfinished_def)
  then obtain j where "j \<in> set (live l)" "r_ID (j_run j) = r_ID r" by (auto simp: live_runs_def)
  moreover have "IsActive (lf_orch l) (job_dep j)"
    using life_reach_locked [OF assms(1)] \<open>j \<in> set (live l)\<close> by (force simp: locked_def IsActive_def)
  ultimately show ?thesis by blast
qed

lemma busy_life_run: "list_ex (\<lambda>r. r_ID r = demo_rand 2 \<and> r_Status r = RunPending) (st_runs (o_store (lf_orch busy_life)))"
  by code_simp

theorem no_run_left_behind_witness:
  "\<exists>j \<in> set (live busy_life). r_ID (j_run j) = demo_rand 2 \<and> IsActive (lf_orch busy_life) (d_ID (j_dep j))"
proof -
  obtain r where "r \<in> set (st_runs (o_store (lf_orch busy_life)))" "r_ID r = demo_rand 2" "r_Status r = RunPending"
    using busy_life_run by (auto simp: list_ex_iff)
  with no_run_left_behind [OF busy_life_reach this(1)] show ?thesis by simp
qed

text \<open>
  A crash between the creation of a run and the start of its job leaves a pending run that
  resuming does not pick up: no job is live, nothing is active, and the run stays pending.
\<close>

theorem crash_orphans_run:
  "\<exists>l. life_reach demo_env {Normal, Crash} l \<and> live l = [] \<and> (\<forall>i. \<not> IsActive (lf_orch l) i)
     \<and> (\<exists>r \<in> set (st_runs (o_store (lf_orch l))). r_Status r = RunPending)"
proof -
  have reach: "life_reach demo_env {Normal, Crash} busy_life"
  proof -
    have "life_reach demo_env {Normal, Crash} \<lparr>lf_orch = demo_orch, lf_fills = []\<rparr>"
      unfolding demo_orch_def using fleet_store_reachable by (rule lr_init) (simp_all add: fleet_store_eq)
    from lr_step [OF this _ ls_power, of fleet_dep True] show ?thesis by (simp add: busy_life_def)
  qed
  define l where "l = \<lparr>lf_orch = snd (ResumeInterrupted (lf_orch busy_life\<lparr>o_active := Map.empty, o_jobs := []\<rparr>)), lf_fills = ([] :: fake running_fill list)\<rparr>"
  have r: "life_reach demo_env {Normal, Crash} l" unfolding l_def by (rule lr_step [OF reach _ ls_crash]) simp
  have "length (o_jobs (lf_orch l)) = 0 \<and> list_ex (\<lambda>r. r_Status r = RunPending) (st_runs (o_store (lf_orch l)))"
    unfolding l_def by code_simp
  then have "live l = []" "\<exists>r \<in> set (st_runs (o_store (lf_orch l))). r_Status r = RunPending"
    by (auto simp: live_def l_def list_ex_iff)
  moreover have "\<forall>i. \<not> IsActive (lf_orch l) i"
    using life_reach_locked [OF r] \<open>live l = []\<close> by (auto simp: locked_def IsActive_def dom_def)
  ultimately show ?thesis using r by blast
qed

end
