(* ===== verification/Adopt.thy ===== *)
theory Adopt
  imports Fill Reconciling
begin

text \<open>
  \<open>internal/orch/adopt.go\<close>: a machine that booted with an unknown MAC and carries identity
  markers becomes a managed VM again, in place of the original (\<open>AdoptRebind\<close>) or in an
  adopted deployment of its own (\<open>AdoptNew\<close>). A JSON inspection that does not parse is never
  stored, so \<open>dv_Inspection\<close> is either empty or a report.
\<close>

section \<open>Operations\<close>

record adopt_result =
  ar_Deployment :: deployment
  ar_VM :: managed_vm
  ar_Warning :: string

definition discoveredIdentity :: "discovered_vm \<Rightarrow> go_error + discovery_report \<times> identity_marker" where
  "discoveredIdentity dv = (case dv_Inspection dv of
      None \<Rightarrow> Inl (ErrPrecondition ''the discovered VM has not reported a disk inspection yet'')
    | Some report \<Rightarrow> (case GhostIdentity report of
        None \<Rightarrow> Inl (ErrPrecondition
          (''no GhostFleet identity marker found on the discovered VM'' @ [CHR 0x27] @ ''s disks '' @ em_dash @ '' not adoptable''))
      | Some idm \<Rightarrow> Inr (report, idm)))"

definition setDataStateFromReport :: "string \<Rightarrow> discovery_report \<Rightarrow> ('h orch, unit) prog" where
  "setDataStateFromReport vmID report = (case DataState (rp_Disks report) of (state, runID, manifest) \<Rightarrow>
     db (SetVMDataState vmID state runID manifest))"

text \<open>Both modes find the machine on the platform by its MAC.\<close>

definition locate :: "'h env \<Rightarrow> string \<Rightarrow> string \<Rightarrow> string \<Rightarrow> ('h orch, 'h driver \<times> hv_vm) prog" where
  "locate env conn mac absent =
     seq (wrap ''opening hypervisor connection: '' (OpenDriver env conn)) (\<lambda>drv.
     seq (wrap (''locating VM by MAC '' @ mac @ '': '') (hv (FindVMByMAC drv mac))) (\<lambda>found.
     case found of None \<Rightarrow> fail (ErrPrecondition (''no VM with MAC '' @ mac @ '' found on '' @ absent)) | Some h \<Rightarrow> ret (drv, h)))"

definition old_vm_warning :: "'h driver \<Rightarrow> hv_vm \<Rightarrow> string \<Rightarrow> ('h orch, string) prog" where
  "old_vm_warning drv h ref =
     (if h_Ref h = ref then ret ''''
      else attempt (hv (GetVM drv ref)) (\<lambda>g. case g of
          Inr (Some old) \<Rightarrow> ret (''the previous VM '' @ go_quote (h_Name old) @ '' ('' @ ref
            @ '') still exists on the hypervisor and is now unmanaged '' @ em_dash @ '' delete it there if it should be gone'')
        | _ \<Rightarrow> ret ''''))"

text \<open>The original record: \<open>GetDeployment\<close> and \<open>GetManagedVMByName\<close> with the errors they become.\<close>

definition original :: "identity_marker \<Rightarrow> ('h orch, deployment \<times> managed_vm) prog" where
  "original idm =
     attempt (db (GetDeployment (im_DeploymentID idm))) (\<lambda>q.
       let gone = fail (ErrPrecondition (''original deployment '' @ go_quote (im_DeploymentName idm)
             @ '' no longer exists '' @ em_dash @ '' adopt into a new deployment instead'')) in
       case q of Inl _ \<Rightarrow> gone | Inr d \<Rightarrow>
         if d_Status d = DeploymentDeleted then gone
         else attempt (db (GetManagedVMByName (d_ID d) (im_VMName idm))) (\<lambda>v. case v of
             Inl _ \<Rightarrow> fail (ErrPrecondition (''deployment '' @ go_quote (d_Name d) @ '' has no VM record '' @ go_quote (im_VMName idm)
               @ '' anymore '' @ em_dash @ '' adopt into a new deployment instead''))
           | Inr vm \<Rightarrow> ret (d, vm)))"

definition AdoptRebind :: "'h env \<Rightarrow> discovered_vm \<Rightarrow> ('h orch, adopt_result) prog" where
  "AdoptRebind env dv =
     (if dv_Status dv = DiscoveredAdopted then fail (ErrPrecondition ''this VM is already adopted'')
      else case discoveredIdentity dv of Inl e \<Rightarrow> fail e | Inr (report, idm) \<Rightarrow>
        seq (original idm) (\<lambda>(d, vm).
        seq (locate env (d_ConnectionID d) (dv_MAC dv) (''the deployment'' @ [CHR 0x27] @ ''s hypervisor connection'')) (\<lambda>(drv, h).
        seq (old_vm_warning drv h (v_Ref vm)) (\<lambda>warning.
        seq (db (RebindManagedVM (v_ID vm) (dv_MAC dv) (h_Ref h))) (\<lambda>_.
        seq (setDataStateFromReport (v_ID vm) report) (\<lambda>_.
        seq (db (SetDiscoveredStatus (dv_ID dv) DiscoveredAdopted)) (\<lambda>_.
        seq (db (GetManagedVM (v_ID vm))) (\<lambda>vm'.
        ret \<lparr>ar_Deployment = d, ar_VM = vm', ar_Warning = warning\<rparr>))))))))"

text \<open>Where \<open>AdoptNew\<close> puts the VM: the deployment to join, if any, and the connection.\<close>

definition join_target :: "identity_marker \<Rightarrow> string \<Rightarrow> string \<Rightarrow> ('h orch, deployment option \<times> string) prog" where
  "join_target idm connectionID joinID =
     (if joinID \<noteq> ''''
      then seq (db (GetDeployment joinID)) (\<lambda>j.
        if d_Origin j \<noteq> OriginAdopted \<or> d_Status j = DeploymentDeleted
        then fail (ErrPrecondition ''target deployment must be an existing adopted deployment'')
        else ret (Some j, d_ConnectionID j))
      else ret (None, connectionID))"

definition default_connection :: "identity_marker \<Rightarrow> string \<Rightarrow> ('h orch, string) prog" where
  "default_connection idm connectionID =
     (if connectionID \<noteq> '''' then ret connectionID
      else attempt (db (GetDeployment (im_DeploymentID idm))) (\<lambda>q. case q of
          Inl _ \<Rightarrow> fail (ErrPrecondition (''original deployment '' @ go_quote (im_DeploymentName idm)
            @ '' is gone; pass a connection to search for the VM''))
        | Inr orig \<Rightarrow> ret (d_ConnectionID orig)))"

definition adopted_deployment :: "identity_marker \<Rightarrow> string \<Rightarrow> string \<Rightarrow> hv_vm \<Rightarrow> deployment" where
  "adopted_deployment idm name conn h =
     \<lparr>d_ID = '''', d_Name = (if name = '''' then ''adopted-'' @ h_Name h else name), d_ProfileID = '''', d_ProfileVersion = 0,
      d_ConnectionID = conn, d_Spec = (im_Spec idm)\<lparr>VMCount := 1\<rparr>, d_Placement = Map.empty,
      d_Status = DeploymentReady, d_CreatedAt = 0, d_UpdatedAt = 0, d_Origin = OriginAdopted\<rparr>"

definition target_deployment :: "identity_marker \<Rightarrow> string \<Rightarrow> string \<Rightarrow> hv_vm \<Rightarrow> deployment option \<Rightarrow> ('h orch, deployment) prog" where
  "target_deployment idm name conn h joined = (case joined of
      None \<Rightarrow> db (CreateDeployment (adopted_deployment idm name conn h))
    | Some d \<Rightarrow> let spec = (d_Spec d)\<lparr>VMCount := i64 (VMCount (d_Spec d) + 1)\<rparr> in
        seq (db (UpdateDeploymentSpec (d_ID d) spec)) (\<lambda>_. ret (d\<lparr>d_Spec := spec\<rparr>)))"

definition adopted_vm :: "deployment \<Rightarrow> identity_marker \<Rightarrow> string \<Rightarrow> hv_vm \<Rightarrow> managed_vm" where
  "adopted_vm d idm mac h = (new_managed_vm d (h_Name h) (h_Ref h) mac)
     \<lparr>v_DiskCount := h_DiskCount h, v_DiskSizeGiB := DiskSizeGiB (im_Spec idm)\<rparr>"

text \<open>\<open>AddManagedVM\<close> writes the identifier it draws back into its argument.\<close>

definition add_vm :: "managed_vm \<Rightarrow> ('h orch, string) prog" where
  "add_vm vm = seq (look (\<lambda>ob. st_rand (o_store ob) (st_drawn (o_store ob)))) (\<lambda>i.
     seq (db (AddManagedVM vm)) (\<lambda>_. ret i))"

definition AdoptNew :: "'h env \<Rightarrow> discovered_vm \<Rightarrow> string \<Rightarrow> string \<Rightarrow> string \<Rightarrow> ('h orch, adopt_result) prog" where
  "AdoptNew env dv name connectionID joinID =
     (if dv_Status dv = DiscoveredAdopted then fail (ErrPrecondition ''this VM is already adopted'')
      else case discoveredIdentity dv of Inl e \<Rightarrow> fail e | Inr (report, idm) \<Rightarrow>
        seq (join_target idm connectionID joinID) (\<lambda>(joined, conn0).
        seq (default_connection idm conn0) (\<lambda>conn.
        seq (locate env conn (dv_MAC dv) ''that hypervisor connection'') (\<lambda>(_, h).
        seq (target_deployment idm name conn h joined) (\<lambda>d.
        seq (add_vm (adopted_vm d idm (dv_MAC dv) h)) (\<lambda>i.
        seq (setDataStateFromReport i report) (\<lambda>_.
        seq (db (GetManagedVM i)) (\<lambda>vm.
        seq (db (SetDiscoveredStatus (dv_ID dv) DiscoveredAdopted)) (\<lambda>_.
        ret \<lparr>ar_Deployment = d, ar_VM = vm, ar_Warning = ''''\<rparr>)))))))))"

section \<open>What the steps read and write\<close>

text \<open>The tables adoption touches, and the source of identifiers.\<close>

definition tabs :: "'h orch \<Rightarrow> managed_vm list \<times> discovered_vm list \<times> deployment list \<times> run list \<times> string \<times> string set" where
  "tabs ob = (let s = o_store ob in (st_vms s, st_disc s, st_deps s, st_runs s, st_rand s (st_drawn s), drawn s))"

lemma tabs_read: "keeps (\<lambda>ob. tabs ob = T) (db (sql_select q))" "keeps (\<lambda>ob. tabs ob = T) (db (query_row tbl p))"
  "keeps (\<lambda>ob. tabs ob = T) (hv m)"
  by (auto simp: keeps_def db_eq hv_eq tabs_def drawn_def eval_simps Let_def pop_fault_def split: prod.splits option.splits)

lemma tabs_read_part: "keeps (\<lambda>ob. tabs ob = T) (db (seq (query_row tbl p) (\<lambda>r. ret (f r))))"
  by (auto simp: keeps_def db_eq tabs_def drawn_def eval_simps Let_def pop_fault_def split: prod.splits option.splits)

lemma tabs_OpenDriver: "keeps (\<lambda>ob. tabs ob = T) (OpenDriver env c)"
  unfolding OpenDriver_def GetConnection_def GetConnectionSecret_def
  by (intro inv_intros tabs_read tabs_read_part)

lemma tabs_locate: "keeps (\<lambda>ob. tabs ob = T) (locate env conn mac absent)"
  unfolding locate_def by (intro inv_intros tabs_OpenDriver tabs_read)

lemma tabs_warning: "keeps (\<lambda>ob. tabs ob = T) (old_vm_warning drv h ref)"
  unfolding old_vm_warning_def by (intro inv_intros tabs_read)

lemma tabs_default: "keeps (\<lambda>ob. tabs ob = T) (default_connection idm c)"
  unfolding default_connection_def GetDeployment_def by (intro inv_intros tabs_read)

lemma tabsD: "(\<And>T. keeps (\<lambda>ob. tabs ob = T) m) \<Longrightarrow> m ob = (q, ob') \<Longrightarrow> tabs ob' = tabs ob"
  using keepsD [of "\<lambda>x. tabs x = tabs ob" m ob] by simp

section \<open>Rebinding\<close>

text \<open>The record after a restore took it over.\<close>

definition rebound :: "string \<Rightarrow> string \<Rightarrow> data_state \<times> string \<times> bool \<Rightarrow> int \<Rightarrow> managed_vm \<Rightarrow> managed_vm" where
  "rebound mac ref ds t v = v\<lparr>v_MAC := to_lower mac, v_Ref := ref, v_AgentStatus := AgentNone, v_AgentSeenAt := None,
     v_DataState := fst ds, v_DataRunID := fst (snd ds), v_DataManifest := snd (snd ds), v_DataSeenAt := Some t\<rparr>"

lemma rebound_ID [simp]: "v_ID (rebound mac ref ds t v) = v_ID v"
  by (simp add: rebound_def)

lemma update_where_twice:
  "(\<And>v. v_ID (f v) = v_ID v) \<Longrightarrow>
    update_where (\<lambda>v. v_ID v = i) g (update_where (\<lambda>v. v_ID v = i) f vs) = update_where (\<lambda>v. v_ID v = i) (g \<circ> f) vs"
  by (induction vs) auto

lemma original_InrD:
  assumes "original idm ob = (Inr (d, vm), ob')"
  shows "tabs ob' = tabs ob \<and> d \<in> set (st_deps (o_store ob)) \<and> d_ID d = im_DeploymentID idm \<and> d_Status d \<noteq> DeploymentDeleted
    \<and> vm \<in> set (st_vms (o_store ob)) \<and> v_DeploymentID vm = d_ID d \<and> v_Name vm = im_VMName idm"
  using assms
  by (auto simp: original_def attempt_def db_eq Let_def fail_def ret_def GetDeployment_def GetManagedVMByName_def tabs_def drawn_def
      pop_fault_def eval_simps split: prod.splits sum.splits if_splits option.splits dest!: find_SomeD)

lemma writes_InrD:
  "db (RebindManagedVM i mac ref) ob = (Inr x, ob') \<Longrightarrow> o_store ob' = (pop_fault (o_store ob))
     \<lparr>st_vms := update_where (\<lambda>v. v_ID v = i) (\<lambda>v. v\<lparr>v_MAC := to_lower mac, v_Ref := ref, v_AgentStatus := AgentNone,
       v_AgentSeenAt := None, v_DataState := DataUnknown, v_DataRunID := '''', v_DataManifest := False, v_DataSeenAt := None\<rparr>) (st_vms (o_store ob))\<rparr>"
  "setDataStateFromReport i rep ob = (Inr x, ob') \<Longrightarrow> o_store ob' = (pop_fault (o_store ob))
     \<lparr>st_vms := update_where (\<lambda>v. v_ID v = i) (\<lambda>v. v\<lparr>v_DataState := fst (DataState (rp_Disks rep)), v_DataRunID := fst (snd (DataState (rp_Disks rep))),
       v_DataManifest := snd (snd (DataState (rp_Disks rep))), v_DataSeenAt := Some (st_now (o_store ob))\<rparr>) (st_vms (o_store ob))\<rparr>"
  "db (SetDiscoveredStatus j st) ob = (Inr x, ob') \<Longrightarrow> o_store ob' = (pop_fault (o_store ob))
     \<lparr>st_disc := update_where (\<lambda>r. dv_ID r = j) (\<lambda>r. r\<lparr>dv_Status := st\<rparr>) (st_disc (o_store ob))\<rparr>"
  by (cases "DataState (rp_Disks rep)";
      auto simp: setDataStateFromReport_def RebindManagedVM_def SetVMDataState_def SetDiscoveredStatus_def pop_fault_def
        dest!: db_InrD must_affect_InrD sql_update_InrD now_InrD elim!: seq_InrE)+

lemma GetManagedVM_InrD: "db (GetManagedVM i) ob = (Inr v, ob') \<Longrightarrow>
    v \<in> set (st_vms (o_store ob)) \<and> v_ID v = i \<and> o_store ob' = pop_fault (o_store ob)"
  by (auto simp: db_eq GetManagedVM_def pop_fault_def split: prod.splits dest!: query_row_InrD find_SomeD)

text \<open>
  C26. A successful rebind re-points exactly one record, the one the disks' identity marker
  names in its original deployment, at the machine found under the discovered MAC on the
  platform of that deployment (which is not deleted), with the data state the inspection shows; its identity, token and shape stay, every other VM,
  deployment and run is untouched, and the discovery record is marked adopted.
\<close>

theorem adopt_rebind_outcome:
  assumes "AdoptRebind env dv ob = (Inr res, ob')"
  shows "\<exists>rep idm vm ref t. dv_Status dv \<noteq> DiscoveredAdopted \<and> dv_Inspection dv = Some rep \<and> GhostIdentity rep = Some idm
    \<and> (\<exists>d \<in> set (st_deps (o_store ob)). d_ID d = im_DeploymentID idm \<and> d_Status d \<noteq> DeploymentDeleted
        \<and> (\<exists>drv h absent ob1 ob2. locate env (d_ConnectionID d) (dv_MAC dv) absent ob1 = (Inr (drv, h), ob2) \<and> ref = h_Ref h))
    \<and> vm \<in> set (st_vms (o_store ob)) \<and> v_DeploymentID vm = im_DeploymentID idm \<and> v_Name vm = im_VMName idm
    \<and> st_vms (o_store ob') = update_where (\<lambda>v. v_ID v = v_ID vm) (rebound (dv_MAC dv) ref (DataState (rp_Disks rep)) t) (st_vms (o_store ob))
    \<and> st_disc (o_store ob') = update_where (\<lambda>r. dv_ID r = dv_ID dv) (\<lambda>r. r\<lparr>dv_Status := DiscoveredAdopted\<rparr>) (st_disc (o_store ob))
    \<and> st_deps (o_store ob') = st_deps (o_store ob) \<and> st_runs (o_store ob') = st_runs (o_store ob)
    \<and> ar_VM res \<in> set (st_vms (o_store ob')) \<and> v_ID (ar_VM res) = v_ID vm"
proof -
  obtain rep idm where id: "dv_Status dv \<noteq> DiscoveredAdopted" "dv_Inspection dv = Some rep" "GhostIdentity rep = Some idm"
    using assms by (auto simp: AdoptRebind_def discoveredIdentity_def fail_def split: if_splits option.splits sum.splits)
  from assms id obtain d vm ob1 drv h ob2 w ob3 ob4 ob5 ob6 vm' where
    o: "original idm ob = (Inr (d, vm), ob1)" and l: "locate env (d_ConnectionID d) (dv_MAC dv) (''the deployment'' @ [CHR 0x27] @ ''s hypervisor connection'') ob1 = (Inr (drv, h), ob2)"
    and w: "old_vm_warning drv h (v_Ref vm) ob2 = (Inr w, ob3)" and r: "db (RebindManagedVM (v_ID vm) (dv_MAC dv) (h_Ref h)) ob3 = (Inr (), ob4)"
    and s: "setDataStateFromReport (v_ID vm) rep ob4 = (Inr (), ob5)" and a: "db (SetDiscoveredStatus (dv_ID dv) DiscoveredAdopted) ob5 = (Inr (), ob6)"
    and g: "db (GetManagedVM (v_ID vm)) ob6 = (Inr vm', ob')" and res: "ar_VM res = vm'"
    by (auto simp: AdoptRebind_def discoveredIdentity_def ret_def elim!: seq_InrE)
  note o' = original_InrD [OF o]
  have tabs: "tabs ob3 = tabs ob" using o' tabsD [OF tabs_locate l] tabsD [OF tabs_warning w] by simp
  let ?t = "st_now (o_store ob4)"
  have st: "st_vms (o_store ob6) = update_where (\<lambda>v. v_ID v = v_ID vm) (rebound (dv_MAC dv) (h_Ref h) (DataState (rp_Disks rep)) ?t) (st_vms (o_store ob))"
      "st_disc (o_store ob6) = update_where (\<lambda>r. dv_ID r = dv_ID dv) (\<lambda>r. r\<lparr>dv_Status := DiscoveredAdopted\<rparr>) (st_disc (o_store ob))"
      "st_deps (o_store ob6) = st_deps (o_store ob)" "st_runs (o_store ob6) = st_runs (o_store ob)"
    using tabs writes_InrD(1) [OF r] writes_InrD(2) [OF s] writes_InrD(3) [OF a]
    by (simp_all add: tabs_def Let_def pop_fault_def update_where_twice rebound_def [abs_def] comp_def)
  have "\<exists>d \<in> set (st_deps (o_store ob)). d_ID d = im_DeploymentID idm \<and> d_Status d \<noteq> DeploymentDeleted
      \<and> (\<exists>drv h' absent ob1 ob2. locate env (d_ConnectionID d) (dv_MAC dv) absent ob1 = (Inr (drv, h'), ob2) \<and> h_Ref h = h_Ref h')"
    using o' l by blast
  then show ?thesis
    using id o' st GetManagedVM_InrD [OF g] res
    by (intro exI [of _ rep] exI [of _ idm] exI [of _ vm] exI [of _ "h_Ref h"] exI [of _ ?t]) simp
qed

section \<open>Adopting into a deployment of its own\<close>

lemma add_vm_InrD:
  assumes "add_vm vm ob = (Inr i, ob')" "db_wf (o_store ob)"
  shows "\<exists>v. st_vms (o_store ob') = st_vms (o_store ob) @ [v] \<and> v_ID v = i \<and> i \<notin> v_ID ` set (st_vms (o_store ob))
    \<and> v_DeploymentID v = v_DeploymentID vm \<and> v_Name v = v_Name vm \<and> v_Ref v = v_Ref vm \<and> v_MAC v = to_lower (v_MAC vm)
    \<and> st_disc (o_store ob') = st_disc (o_store ob) \<and> st_deps (o_store ob') = st_deps (o_store ob) \<and> st_runs (o_store ob') = st_runs (o_store ob)"
proof -
  have "st_rand (o_store ob) (st_drawn (o_store ob)) \<notin> v_ID ` set (st_vms (o_store ob))"
    using fresh_not_drawn [OF assms(2)] assms(2) by (auto simp: db_wf_def ids_ok_def all_ids_def)
  with assms(1) show ?thesis
    by (auto simp: add_vm_def ret_def AddManagedVM_def insert_vm_def pop_fault_def elim!: seq_InrE
        dest!: db_InrD sql_insert_InrD newID_InrD now_InrD)
qed

lemma join_target_InrD:
  "join_target idm c joinID ob = (Inr (j, c'), ob') \<Longrightarrow> tabs ob' = tabs ob \<and> (case j of None \<Rightarrow> joinID = ''''
     | Some d \<Rightarrow> joinID \<noteq> '''' \<and> d \<in> set (st_deps (o_store ob)) \<and> d_ID d = joinID \<and> d_Origin d = OriginAdopted \<and> d_Status d \<noteq> DeploymentDeleted)"
  by (auto simp: join_target_def ret_def fail_def GetDeployment_def tabs_def drawn_def pop_fault_def Let_def elim!: seq_InrE
      dest!: db_InrD query_row_InrD find_SomeD split: if_splits)

text \<open>How the deployment comes to be: appended, or the joined one with one VM more.\<close>

definition joins :: "identity_marker \<Rightarrow> string \<Rightarrow> deployment list \<Rightarrow> deployment \<Rightarrow> deployment list \<Rightarrow> bool" where
  "joins idm joinID before d after \<longleftrightarrow>
     (if joinID = '''' then after = before @ [d] \<and> d_Spec d = (im_Spec idm)\<lparr>VMCount := 1\<rparr>
      else d_ID d = joinID \<and> (\<exists>j \<in> set before. \<exists>t. d_ID j = joinID \<and> d_Origin j = OriginAdopted \<and> d_Status j \<noteq> DeploymentDeleted
          \<and> d_Spec d = (d_Spec j)\<lparr>VMCount := i64 (VMCount (d_Spec j) + 1)\<rparr>
          \<and> after = update_where (\<lambda>r. d_ID r = joinID) (\<lambda>r. r\<lparr>d_Spec := d_Spec d, d_UpdatedAt := t\<rparr>) before))"

lemma target_InrD:
  assumes "target_deployment idm name conn h j ob = (Inr d, ob')"
    and "case j of None \<Rightarrow> joinID = '''' | Some d \<Rightarrow> joinID \<noteq> '''' \<and> d \<in> set (st_deps (o_store ob)) \<and> d_ID d = joinID
      \<and> d_Origin d = OriginAdopted \<and> d_Status d \<noteq> DeploymentDeleted"
  shows "d_Origin d = OriginAdopted \<and> joins idm joinID (st_deps (o_store ob)) d (st_deps (o_store ob'))
    \<and> st_vms (o_store ob') = st_vms (o_store ob) \<and> st_disc (o_store ob') = st_disc (o_store ob) \<and> st_runs (o_store ob') = st_runs (o_store ob)"
proof (cases j)
  case None
  with assms show ?thesis
    by (auto simp: target_deployment_def joins_def CreateDeployment_def insert_dep_def adopted_deployment_def Let_def ret_def pop_fault_def
        elim!: seq_InrE dest!: db_InrD on_unique_InrD sql_insert_InrD newID_InrD now_InrD)
next
  case (Some d0)
  with assms show ?thesis
    by (auto simp: target_deployment_def joins_def UpdateDeploymentSpec_def Let_def ret_def pop_fault_def
        elim!: seq_InrE dest!: db_InrD must_affect_InrD sql_update_InrD now_InrD intro!: bexI [of _ d0] exI [of _ "st_now (o_store ob)"])
qed

lemma keeps_wf_target: "keeps (\<lambda>ob. db_wf (o_store ob)) (target_deployment idm name conn h j)"
  unfolding target_deployment_def by (intro inv_intros)

lemma keeps_wf_find: "keeps (\<lambda>ob. db_wf (o_store ob)) (join_target idm c j)" "keeps (\<lambda>ob. db_wf (o_store ob)) (default_connection idm c)"
  "keeps (\<lambda>ob. db_wf (o_store ob)) (locate env c mac absent)"
  unfolding join_target_def default_connection_def locate_def by (intro inv_intros)+

text \<open>
  C27. A successful adoption outside the original deployment adds exactly one VM record, for
  the machine found under the discovered MAC and with the data state its inspection shows, to
  an adopted deployment: a new one for one VM with the config of the marker, or the one to
  join, which then counts one VM more. Every other VM, deployment and run, the originals
  included, is untouched, and the discovery record is marked adopted.
\<close>

theorem adopt_new_outcome:
  assumes "AdoptNew env dv name conn joinID ob = (Inr res, ob')" and wf: "db_wf (o_store ob)"
  shows "\<exists>rep idm. dv_Inspection dv = Some rep \<and> GhostIdentity rep = Some idm
    \<and> st_vms (o_store ob') = st_vms (o_store ob) @ [ar_VM res]
    \<and> v_DeploymentID (ar_VM res) = d_ID (ar_Deployment res) \<and> v_MAC (ar_VM res) = to_lower (dv_MAC dv)
    \<and> (v_DataState (ar_VM res), v_DataRunID (ar_VM res), v_DataManifest (ar_VM res)) = DataState (rp_Disks rep)
    \<and> d_Origin (ar_Deployment res) = OriginAdopted
    \<and> joins idm joinID (st_deps (o_store ob)) (ar_Deployment res) (st_deps (o_store ob'))
    \<and> st_disc (o_store ob') = update_where (\<lambda>r. dv_ID r = dv_ID dv) (\<lambda>r. r\<lparr>dv_Status := DiscoveredAdopted\<rparr>) (st_disc (o_store ob))
    \<and> st_runs (o_store ob') = st_runs (o_store ob)"
proof -
  obtain rep idm where id: "dv_Status dv \<noteq> DiscoveredAdopted" "dv_Inspection dv = Some rep" "GhostIdentity rep = Some idm"
    using assms(1) by (auto simp: AdoptNew_def discoveredIdentity_def fail_def split: if_splits option.splits sum.splits)
  from assms(1) id obtain j c0 ob1 c ob2 drv h ob3 d ob4 i ob5 ob6 vm ob7 where
    j: "join_target idm conn joinID ob = (Inr (j, c0), ob1)" and c: "default_connection idm c0 ob1 = (Inr c, ob2)"
    and l: "locate env c (dv_MAC dv) ''that hypervisor connection'' ob2 = (Inr (drv, h), ob3)"
    and t: "target_deployment idm name c h j ob3 = (Inr d, ob4)" and v: "add_vm (adopted_vm d idm (dv_MAC dv) h) ob4 = (Inr i, ob5)"
    and s: "setDataStateFromReport i rep ob5 = (Inr (), ob6)" and g: "db (GetManagedVM i) ob6 = (Inr vm, ob7)"
    and a: "db (SetDiscoveredStatus (dv_ID dv) DiscoveredAdopted) ob7 = (Inr (), ob')" and res: "ar_VM res = vm" "ar_Deployment res = d"
    by (auto simp: AdoptNew_def discoveredIdentity_def ret_def elim!: seq_InrE)
  have tabs: "tabs ob3 = tabs ob" using join_target_InrD [OF j] tabsD [OF tabs_default c] tabsD [OF tabs_locate l] by simp
  have "db_wf (o_store ob1)" using keepsD [OF keeps_wf_find(1) wf, of idm conn joinID] j by simp
  then have "db_wf (o_store ob2)" using keepsD [OF keeps_wf_find(2), of ob1 idm c0] c by simp
  then have "db_wf (o_store ob3)" using keepsD [OF keeps_wf_find(3), of ob2 env c "dv_MAC dv" "''that hypervisor connection''"] l by simp
  then have wf4: "db_wf (o_store ob4)" using keepsD [OF keeps_wf_target, of ob3 idm name c h j] t by simp
  have "case j of None \<Rightarrow> joinID = '''' | Some d \<Rightarrow> joinID \<noteq> '''' \<and> d \<in> set (st_deps (o_store ob3)) \<and> d_ID d = joinID
      \<and> d_Origin d = OriginAdopted \<and> d_Status d \<noteq> DeploymentDeleted"
    using join_target_InrD [OF j] tabs by (auto simp: tabs_def Let_def split: option.splits)
  note t' = target_InrD [OF t this]
  obtain w where w: "st_vms (o_store ob5) = st_vms (o_store ob4) @ [w]" "v_ID w = i" "i \<notin> v_ID ` set (st_vms (o_store ob4))"
      "v_DeploymentID w = d_ID d" "v_MAC w = to_lower (dv_MAC dv)" "st_disc (o_store ob5) = st_disc (o_store ob4)"
      "st_deps (o_store ob5) = st_deps (o_store ob4)" "st_runs (o_store ob5) = st_runs (o_store ob4)"
    using add_vm_InrD [OF v wf4] by (auto simp: adopted_vm_def new_managed_vm_def)
  define w' where "w' = w\<lparr>v_DataState := fst (DataState (rp_Disks rep)), v_DataRunID := fst (snd (DataState (rp_Disks rep))),
     v_DataManifest := snd (snd (DataState (rp_Disks rep))), v_DataSeenAt := Some (st_now (o_store ob5))\<rparr>"
  have "update_where (\<lambda>v. v_ID v = i) f (st_vms (o_store ob4)) = st_vms (o_store ob4)" for f
    using w(3) by (auto simp: update_where_def intro!: map_idI)
  then have vms: "st_vms (o_store ob6) = st_vms (o_store ob4) @ [w']"
    using writes_InrD(2) [OF s] w(1,2) by (simp add: w'_def update_where_def)
  have "v_ID x \<noteq> i" if "x \<in> set (st_vms (o_store ob4))" for x using w(3) that by auto
  then have "vm = w'" using GetManagedVM_InrD [OF g] w(2) vms by (auto simp: w'_def)
  with vms show ?thesis
    using id t' tabs w res writes_InrD(2) [OF s] writes_InrD(3) [OF a] GetManagedVM_InrD [OF g]
    by (auto simp: tabs_def Let_def pop_fault_def w'_def)
qed

section \<open>On a restored copy\<close>

text \<open>A fleet of one recorded VM, a restored copy of it on the platform, and its inspection.\<close>

definition demo_disk :: discovery_disk where
  "demo_disk = \<lparr>dd_Device = ''sda'', dd_SizeGiB = 10, dd_Filesystem = ''xfs'',
     dd_Identity = Some \<lparr>im_DeploymentID = demo_rand 1, im_DeploymentName = ''fleet'', im_VMName = v_Name demo_vm,
       im_DiskIndex = 0, im_Spec = sample_spec\<rparr>,
     dd_RunID = ''run'', dd_RunBytes = 0, dd_Manifest = True, dd_FileCount = 1\<rparr>"

definition restored_store :: store where
  "restored_store = snd (SetDiscoveredInspection (demo_rand 4) \<lparr>rp_Disks = [demo_disk]\<rparr> (snd (EnsureDiscoveredVM ''00:51'' vm_store)))"

definition restored :: "fake orch" where
  "restored = \<lparr>o_store = restored_store, o_hv = snd (AddRawVM ''copy'' ''00:51'' 1 New), o_active = Map.empty, o_jobs = []\<rparr>"

definition restored_dv :: discovered_vm where
  "restored_dv = hd (st_disc restored_store)"

definition restored_env :: "fake env" where
  "restored_env = \<lparr>e_decrypt = Inr, e_registry = [''vsphere'' \<mapsto> (\<lambda>_ _. ret fake_driver)]\<rparr>"

lemma restored_adopts:
  "case AdoptRebind restored_env restored_dv restored of (Inr _, _) \<Rightarrow> True | _ \<Rightarrow> False"
  "case AdoptNew restored_env restored_dv '''' '''' '''' restored of (Inr _, _) \<Rightarrow> True | _ \<Rightarrow> False"
  by code_simp+

theorem adopt_rebind_outcome_witness:
  "\<exists>res ob'. AdoptRebind restored_env restored_dv restored = (Inr res, ob')
     \<and> st_deps (o_store ob') = st_deps (o_store restored) \<and> ar_VM res \<in> set (st_vms (o_store ob'))"
proof -
  obtain res ob' where run: "AdoptRebind restored_env restored_dv restored = (Inr res, ob')"
    using restored_adopts(1) by (auto split: prod.splits sum.splits)
  from adopt_rebind_outcome [OF run] run show ?thesis by blast
qed

lemma restored_wf: "db_wf (o_store restored)"
  by (simp add: restored_def restored_store_def vm_store_reachable [THEN db_reachable_wf] keepsD inv_intros)

theorem adopt_new_outcome_witness:
  "\<exists>res ob'. AdoptNew restored_env restored_dv '''' '''' '''' restored = (Inr res, ob')
     \<and> d_Origin (ar_Deployment res) = OriginAdopted \<and> st_vms (o_store ob') = st_vms (o_store restored) @ [ar_VM res]"
proof -
  obtain res ob' where run: "AdoptNew restored_env restored_dv '''' '''' '''' restored = (Inr res, ob')"
    using restored_adopts(2) by (auto split: prod.splits sum.splits)
  from adopt_new_outcome [OF run restored_wf] run show ?thesis by blast
qed

text \<open>A join is not one transaction: adopting a second copy under a name the deployment already
  has fails, but the deployment counts one VM more for good.\<close>

definition joined_twice :: "(go_error + adopt_result) \<times> fake orch" where
  "joined_twice = (let ob = snd (AdoptNew restored_env restored_dv '''' '''' '''' restored) in
     AdoptNew restored_env restored_dv '''' '''' (d_ID (last (st_deps (o_store ob)))) ob)"

lemma failed_join_counts:
  "(case fst joined_twice of Inl _ \<Rightarrow> True | Inr _ \<Rightarrow> False)
   \<and> VMCount (d_Spec (last (st_deps (o_store (snd joined_twice))))) = 2 \<and> length (st_vms (o_store (snd joined_twice))) = 2"
  by code_simp

end
