(* ===== verification/AgentProgress.thy ===== *)
theory AgentProgress
  imports Datagen GoText
begin

text \<open>
  \<open>cmd/agent/progress.go\<close> and \<open>fioError\<close> of \<open>gen.go\<close>: how far a run has written, and what is
  read off fio's console output. A \<open>bufio.Scanner\<close> that splits with \<open>scanCRLF\<close> yields the same
  tokens whatever the chunks it is fed, so the model splits the whole output at once; its limit
  of 64 KiB on a line is not modelled.
\<close>

section \<open>Progress\<close>

record progress =
  pg_base :: int
  pg_jobBytes :: int
  pg_jobFrac :: f64
  pg_mbps :: f64

definition no_progress :: progress where
  "no_progress = \<lparr>pg_base = 0, pg_jobBytes = 0, pg_jobFrac = 0, pg_mbps = 0\<rparr>"

definition startJob :: "int \<Rightarrow> progress \<Rightarrow> progress" where
  "startJob b p = p\<lparr>pg_base := i64 (pg_base p + pg_jobBytes p), pg_jobBytes := b, pg_jobFrac := 0\<rparr>"

definition progress_update :: "f64 \<Rightarrow> f64 \<Rightarrow> progress \<Rightarrow> progress" where
  "progress_update fr mbps p = p\<lparr>pg_jobFrac := fr, pg_mbps := mbps\<rparr>"

definition progress_bytes :: "progress \<Rightarrow> int" where
  "progress_bytes p = i64 (pg_base p + f_trunc (f_mul (pg_jobFrac p) (f_of_int (pg_jobBytes p))))"

section \<open>Lines of output\<close>

definition is_eol :: "char \<Rightarrow> bool" where
  "is_eol c \<longleftrightarrow> (of_char c :: nat) \<in> {10, 13}"

definition scanCRLF :: "string \<Rightarrow> bool \<Rightarrow> int \<times> string option" where
  "scanCRLF data atEOF = (let l = takeWhile (\<lambda>c. \<not> is_eol c) data in
     if length l < length data then (int (length l) + 1, Some l)
     else if atEOF \<and> data \<noteq> [] then (int (length data), Some data)
     else (0, None))"

function scan_tokens :: "string \<Rightarrow> string list" where
  "scan_tokens data = (case scanCRLF data True of
     (adv, None) \<Rightarrow> [] | (adv, Some tok) \<Rightarrow> tok # scan_tokens (drop (nat adv) data))"
  by auto
termination
  by (relation "measure length") (auto simp: scanCRLF_def Let_def split: if_splits)

declare scan_tokens.simps [simp del]

section \<open>Numbers in a line\<close>

text \<open>\<open>\d+\.?\d*\<close> at the start of a string: the match and what follows.\<close>

definition num_prefix :: "string \<Rightarrow> (string \<times> string) option" where
  "num_prefix s = (let d = takeWhile is_digit s; r = dropWhile is_digit s in
     if d = [] then None
     else if r \<noteq> [] \<and> hd r = CHR ''.'' then Some (d @ CHR ''.'' # takeWhile is_digit (tl r), dropWhile is_digit (tl r))
     else Some (d, r))"

text \<open>\<open>strconv.ParseFloat\<close> on such a match.\<close>

definition parse_num :: "string \<Rightarrow> f64" where
  "parse_num n = (let ip = takeWhile is_digit n; fp = drop (length ip + 1) n in
     fl64 (of_nat (atoi (ip @ fp)) / 10 ^ length fp))"

text \<open>\<open>pctRe\<close> and \<open>bwRe\<close>: the groups of the leftmost match.\<close>

fun pctRe :: "string \<Rightarrow> string option" where
  "pctRe [] = None"
| "pctRe (c # s) = (case (if c = CHR ''['' then num_prefix s else None) of
     Some (n, r) \<Rightarrow> if has_prefix r ''%]'' then Some n else pctRe s
   | None \<Rightarrow> pctRe s)"

definition bw_unit :: "string \<Rightarrow> string option" where
  "bw_unit r = (if r = [] \<or> hd r \<notin> set ''KMGT'' then None
     else if has_prefix (tl r) ''iB/s]'' then Some [hd r, CHR ''i'']
     else if has_prefix (tl r) ''B/s]'' then Some [hd r] else None)"

fun bwRe :: "string \<Rightarrow> (string \<times> string) option" where
  "bwRe [] = None"
| "bwRe (c # s) = (case (if has_prefix (c # s) ''[w='' then num_prefix (drop 2 s) else None) of
     Some (n, r) \<Rightarrow> (case bw_unit r of Some u \<Rightarrow> Some (n, u) | None \<Rightarrow> bwRe s)
   | None \<Rightarrow> bwRe s)"

definition toMBps :: "string \<Rightarrow> string \<Rightarrow> f64" where
  "toMBps val unit = (let v = parse_num val in
     if unit = ''Ki'' then f_div (f_mul v 1024) 1000000
     else if unit = ''Mi'' then f_div (f_mul v 1048576) 1000000
     else if unit = ''Gi'' then f_div (f_mul v 1073741824) 1000000
     else if unit = ''Ti'' then f_div (f_mul v 1099511627776) 1000000
     else if unit = ''K'' then f_div v 1000
     else if unit = ''M'' then v
     else if unit = ''G'' then f_mul v 1000
     else if unit = ''T'' then f_mul v 1000000
     else v)"

section \<open>Following fio\<close>

text \<open>One turn of the scanner loop: the last five lines, and the progress they report.\<close>

definition fio_line :: "string \<Rightarrow> string list \<times> progress \<Rightarrow> string list \<times> progress" where
  "fio_line line tp = (case tp of (recent, p) \<Rightarrow>
     if line = '''' then (recent, p)
     else (let recent' = (if length recent \<ge> 5 then tl recent else recent) @ [trim_space line] in
       case pctRe line of
         None \<Rightarrow> (recent', p)
       | Some n \<Rightarrow>
           let mbps = (case bwRe line of None \<Rightarrow> pg_mbps p | Some (v, u) \<Rightarrow> toMBps v u)
           in (recent', progress_update (f_div (parse_num n) 100) mbps p)))"

definition fio_follow :: "string \<Rightarrow> progress \<Rightarrow> string list \<times> progress" where
  "fio_follow out p = fold fio_line (scan_tokens out) ([], p)"

text \<open>\<open>fioError\<close>: at most three lines, without fio's usage and version noise.\<close>

definition fio_noise :: "string \<Rightarrow> bool" where
  "fio_noise line \<longleftrightarrow> line = '''' \<or> has_prefix line ''--'' \<or> has_prefix line ''fio [options]''
     \<or> has_prefix line ''Fio was written'' \<or> has_prefix line ''fio-''"

definition fioError :: "string \<Rightarrow> string" where
  "fioError out = (let keep = take 3 (filter (\<lambda>line. \<not> fio_noise line) (map trim_space (split_on (char_of (10::nat)) out))) in
     if keep = [] then ''fio failed (no message)'' else join '' | '' keep)"

section \<open>Facts\<close>

lemma takeWhile_eol: "\<forall>c \<in> set (takeWhile (\<lambda>c. \<not> is_eol c) s). \<not> is_eol c"
  by (auto dest: set_takeWhileD)

text \<open>Lines, each ended by CR or LF, are read back as they are.\<close>

lemma scan_tokens_lines:
  assumes "\<forall>l \<in> set ls. \<forall>c \<in> set l. \<not> is_eol c" and "is_eol e"
  shows "scan_tokens (concat (map (\<lambda>l. l @ [e]) ls)) = ls"
  using assms(1)
proof (induction ls)
  case Nil
  then show ?case by (subst scan_tokens.simps) (simp add: scanCRLF_def)
next
  case (Cons l ls)
  have "takeWhile (\<lambda>c. \<not> is_eol c) (l @ e # r) = l" for r
    using Cons.prems assms(2) by (simp add: takeWhile_append)
  then show ?case
    using Cons by (simp add: scan_tokens.simps [of "l @ e # concat (map (\<lambda>l. l @ [e]) ls)"] scanCRLF_def Let_def nat_add_distrib)
qed

text \<open>A token never contains an end of line.\<close>

lemma scanCRLF_SomeD: "scanCRLF s b = (adv, Some tok) \<Longrightarrow> c \<in> set tok \<Longrightarrow> \<not> is_eol c"
proof -
  assume sc: "scanCRLF s b = (adv, Some tok)" and c: "c \<in> set tok"
  have "tok = takeWhile (\<lambda>c. \<not> is_eol c) s"
    using sc by (auto simp: scanCRLF_def Let_def split: if_splits) (metis takeWhile_eq_take take_all not_less)
  with c show "\<not> is_eol c" by (auto dest: set_takeWhileD)
qed

lemma scan_tokens_clean: "t \<in> set (scan_tokens s) \<Longrightarrow> c \<in> set t \<Longrightarrow> \<not> is_eol c"
proof (induction s rule: scan_tokens.induct)
  case (1 s)
  obtain adv tk where sc: "scanCRLF s True = (adv, tk)" by fastforce
  from "1.prems"(1) sc obtain tok where "tk = Some tok" "t = tok \<or> t \<in> set (scan_tokens (drop (nat adv) s))"
    by (subst (asm) scan_tokens.simps) (auto split: option.splits)
  then show ?case using "1.IH" sc "1.prems"(2) scanCRLF_SomeD [of s True adv tok c] by auto
qed

text \<open>fio's console is followed for its progress only: the job and the bytes of earlier jobs stay.\<close>

lemma fio_line_frame: "pg_base (snd (fio_line l tp)) = pg_base (snd tp)" "pg_jobBytes (snd (fio_line l tp)) = pg_jobBytes (snd tp)"
  "length (fst tp) \<le> 5 \<Longrightarrow> length (fst (fio_line l tp)) \<le> 5"
  by (auto simp: fio_line_def progress_update_def Let_def split: prod.splits option.splits)

lemma fio_follow_frame: "pg_base (snd (fio_follow out p)) = pg_base p" "pg_jobBytes (snd (fio_follow out p)) = pg_jobBytes p"
  "length (fst (fio_follow out p)) \<le> 5"
proof -
  have "pg_base (snd (fold fio_line ls tp)) = pg_base (snd tp) \<and> pg_jobBytes (snd (fold fio_line ls tp)) = pg_jobBytes (snd tp)
      \<and> (length (fst tp) \<le> 5 \<longrightarrow> length (fst (fold fio_line ls tp)) \<le> 5)" for ls tp
    by (induction ls arbitrary: tp) (simp_all add: fio_line_frame)
  from this [of "scan_tokens out" "([], p)"] show "pg_base (snd (fio_follow out p)) = pg_base p"
    "pg_jobBytes (snd (fio_follow out p)) = pg_jobBytes p" "length (fst (fio_follow out p)) \<le> 5"
    by (simp_all add: fio_follow_def)
qed

text \<open>Once its job is done, the progress counts exactly the bytes of the jobs so far.\<close>

lemma job_done_bytes:
  assumes "0 \<le> b" "b < 2 ^ 53" "0 \<le> pg_base p" "pg_base p + b < 2 ^ 63" "pg_jobBytes p = b"
  shows "progress_bytes (progress_update 1 m p) = pg_base p + b"
  using assms by (simp add: progress_bytes_def progress_update_def f_mul_def f_of_int_def fl64_of_int f_trunc_def i64_eq)

text \<open>The complaint fio prints reaches \<open>fioError\<close> joined into one line, so a first line that is
  noise hides all the others.\<close>

lemma join_clean: "\<forall>l \<in> set ls. c \<notin> set l \<Longrightarrow> c \<notin> set sep \<Longrightarrow> c \<notin> set (join sep ls)"
  by (induction sep ls rule: join.induct) auto

lemma join_Cons: "\<exists>r. join sep (l # ls) = l @ r"
  by (cases ls) auto

lemma trim_prefix:
  assumes "w \<noteq> []" "\<forall>c \<in> set w. \<not> is_space c"
  shows "has_prefix (trim_space (w @ x)) w"
proof -
  have "dropWhile is_space (w @ x) = w @ x" using assms by (cases w) auto
  moreover have "dropWhile is_space (rev w) = rev w" using assms by (intro dropWhile_hd) (simp add: hd_rev)
  ultimately have "\<exists>y. trim_space (w @ x) = w @ y"
    by (cases "\<exists>c \<in> set x. \<not> is_space c") (auto simp: trim_space_def dropWhile_append)
  then show ?thesis by (auto simp: has_prefix_def)
qed

lemma fioError_hides:
  assumes "\<forall>x \<in> set (l # ls). \<forall>c \<in> set x. \<not> is_eol c" and "has_prefix l ''--'' \<or> has_prefix l ''fio-''"
  shows "fioError (join '' | '' (l # ls)) = ''fio failed (no message)''"
proof -
  obtain w where w: "has_prefix l w" "w = ''--'' \<or> w = ''fio-''" using assms(2) by blast
  then obtain l' where l: "l = w @ l'" by (metis has_prefix_def append_take_drop_id)
  obtain r where r: "join '' | '' (l # ls) = w @ l' @ r" using join_Cons [of "'' | ''" l ls] l by auto
  have "has_prefix (trim_space (w @ l' @ r)) w" using w(2) by (intro trim_prefix) (auto simp: is_space_def)
  then have "fio_noise (trim_space (w @ l' @ r))" using w(2) by (auto simp: fio_noise_def)
  moreover have "is_eol (char_of (10::nat))" "\<not> is_eol CHR '' ''" "\<not> is_eol CHR ''|''" by (simp_all add: is_eol_def)
  then have "char_of (10::nat) \<notin> set (w @ l' @ r)"
    unfolding r [symmetric] using assms(1) by (intro join_clean) auto
  ultimately show ?thesis by (simp add: r fioError_def split_on_no_sep)
qed

end
