(* ===== verification/AgentDisk.thy ===== *)
theory AgentDisk
  imports AgentProgress Prog
begin

text \<open>
  The machine the agent (\<open>cmd/agent\<close>) runs on, the system calls it makes, and \<open>manifest.go\<close>.
  A disk holds at most one filesystem: the marker files of its root and the data directories.
  Every system call can fail: \<open>mc_Faults\<close> says which of the next ones do, and \<open>mc_Fio\<close> how the
  next fio processes end. A file's content is the string of its bytes; a marker file is held as
  what the agent makes of it, a JSON document that parses or a text. SHA-256, fio and the random
  source of \<open>math/rand\<close> are parameters (\<open>tools\<close>). The durability of single writes is not
  modelled: a write is on the disk once its call returned.
\<close>

section \<open>Disks and files\<close>

record manifest_entry =
  me_Size :: int
  me_SHA256 :: string

record manifest =
  mf_RunID :: string
  mf_Files :: "(string \<times> manifest_entry) list"

datatype doc = DManifest manifest | DIdentity identity_marker | DText string

type_synonym directory = "(string \<times> string option) list"

record filesystem =
  fs_Type :: string
  fs_Root :: "string \<rightharpoonup> doc"
  fs_Dirs :: "string \<rightharpoonup> directory"

definition empty_fs :: "string \<Rightarrow> filesystem" where
  "empty_fs t = \<lparr>fs_Type = t, fs_Root = Map.empty, fs_Dirs = Map.empty\<rparr>"

text \<open>A directory lists its entries by name; \<open>None\<close> stands for anything but a regular file.\<close>

fun put_entry :: "string \<Rightarrow> 'b \<Rightarrow> (string \<times> 'b) list \<Rightarrow> (string \<times> 'b) list" where
  "put_entry n c [] = [(n, c)]"
| "put_entry n c ((m, d) # es) = (if n < m then (n, c) # (m, d) # es else if n = m then (n, c) # es else (m, d) # put_entry n c es)"

definition regular :: "directory \<Rightarrow> string list" where
  "regular es = map fst (filter (\<lambda>(n, c). c \<noteq> None) es)"

text \<open>The file at a path below the root, \<open>dir/name\<close>.\<close>

definition file_at :: "filesystem \<Rightarrow> string \<Rightarrow> string option" where
  "file_at fs rel = (case fs_Dirs fs (takeWhile (\<lambda>c. c \<noteq> CHR ''/'') rel) of
      None \<Rightarrow> None
    | Some es \<Rightarrow> (case map_of es (tl (dropWhile (\<lambda>c. c \<noteq> CHR ''/'') rel)) of Some (Some c) \<Rightarrow> Some c | _ \<Rightarrow> None))"

section \<open>The machine\<close>

datatype report = Progressed int int f64 | Done int | Failed string

record tools =
  tl_sha :: "string \<Rightarrow> string"
  tl_fio :: "string list \<Rightarrow> (string \<times> string) list \<times> string"
  tl_rand :: "int \<Rightarrow> nat \<Rightarrow> nat \<Rightarrow> nat"

record machine =
  mc_Block :: "(string \<times> filesystem option) list"
  mc_Sectors :: "string \<Rightarrow> string option"
  mc_Mounts :: "string \<rightharpoonup> string \<times> bool"
  mc_Faults :: "string option list"
  mc_Fio :: "(string \<times> (string \<times> string) list \<times> string) option list"
  mc_Prog :: progress
  mc_Net :: "int option list"
  mc_Sent :: "report list"
  mc_Slept :: int

text \<open>One system call: it fails with the next fault, or does its work.\<close>

definition syscall :: "(machine, 'a) prog \<Rightarrow> (machine, 'a) prog" where
  "syscall m s = (case mc_Faults s of
      [] \<Rightarrow> m s
    | f # fs \<Rightarrow> (case f of None \<Rightarrow> m (s\<lparr>mc_Faults := fs\<rparr>) | Some e \<Rightarrow> (Inl (ErrOther e), s\<lparr>mc_Faults := fs\<rparr>)))"

definition fs_of :: "machine \<Rightarrow> string \<Rightarrow> filesystem option" where
  "fs_of s dev = (case map_of (mc_Block s) dev of Some (Some fs) \<Rightarrow> Some fs | _ \<Rightarrow> None)"

definition set_fs :: "string \<Rightarrow> filesystem \<Rightarrow> machine \<Rightarrow> machine" where
  "set_fs dev fs s = s\<lparr>mc_Block := map (\<lambda>(d, f). if d = dev then (d, Some fs) else (d, f)) (mc_Block s)\<rparr>"

text \<open>Reading and changing the filesystem mounted at a mount point.\<close>

definition fs_read :: "string \<Rightarrow> (filesystem \<Rightarrow> go_error + 'a) \<Rightarrow> (machine, 'a) prog" where
  "fs_read mnt f s = (case mc_Mounts s mnt of
      None \<Rightarrow> (Inl ErrNotFound, s)
    | Some (dev, ro) \<Rightarrow> (case fs_of s dev of None \<Rightarrow> (Inl ErrNotFound, s) | Some fs \<Rightarrow> (f fs, s)))"

definition fs_write :: "string \<Rightarrow> (filesystem \<Rightarrow> filesystem) \<Rightarrow> (machine, unit) prog" where
  "fs_write mnt f s = (case mc_Mounts s mnt of
      None \<Rightarrow> (Inl ErrNotFound, s)
    | Some (dev, ro) \<Rightarrow>
        if ro then (Inl (ErrOther ''read-only file system''), s)
        else (case fs_of s dev of None \<Rightarrow> (Inl ErrNotFound, s) | Some fs \<Rightarrow> (Inr (), set_fs dev (f fs) s)))"

text \<open>\<open>os.ReadFile\<close> on a marker file and \<open>os.ReadDir\<close> on a data directory.\<close>

definition read_root :: "string \<Rightarrow> string \<Rightarrow> (machine, doc) prog" where
  "read_root mnt name = syscall (fs_read mnt (\<lambda>fs. case fs_Root fs name of None \<Rightarrow> Inl ErrNotFound | Some d \<Rightarrow> Inr d))"

definition read_dir :: "string \<Rightarrow> string \<Rightarrow> (machine, directory) prog" where
  "read_dir mnt dir = syscall (fs_read mnt (\<lambda>fs. case fs_Dirs fs dir of None \<Rightarrow> Inl ErrNotFound | Some es \<Rightarrow> Inr es))"

definition mkdir :: "string \<Rightarrow> string \<Rightarrow> (machine, unit) prog" where
  "mkdir mnt dir = syscall (fs_write mnt (\<lambda>fs. if fs_Dirs fs dir = None then fs\<lparr>fs_Dirs := (fs_Dirs fs)(dir \<mapsto> [])\<rparr> else fs))"

text \<open>\<open>syscall.Unmount\<close> and \<open>syscall.Mount\<close>.\<close>

definition unmount :: "string \<Rightarrow> (machine, unit) prog" where
  "unmount mnt = syscall (change (\<lambda>s. s\<lparr>mc_Mounts := (mc_Mounts s)(mnt := None)\<rparr>))"

definition mount :: "string \<Rightarrow> string \<Rightarrow> string \<Rightarrow> bool \<Rightarrow> (machine, unit) prog" where
  "mount dev mnt fstype ro = syscall (\<lambda>s. case fs_of s dev of
      None \<Rightarrow> (Inl (ErrOther ''invalid argument''), s)
    | Some fs \<Rightarrow> if fs_Type fs \<noteq> fstype then (Inl (ErrOther ''invalid argument''), s)
        else (Inr (), s\<lparr>mc_Mounts := (mc_Mounts s)(mnt \<mapsto> (dev, ro))\<rparr>))"

section \<open>Marker files\<close>

definition ManifestFile :: string where "ManifestFile = ''.ghostfleet-manifest''"
definition IdentityFile :: string where "IdentityFile = ''.ghostfleet-id''"
definition runMarkerFile :: string where "runMarkerFile = ''.ghostfleet-run''"
definition dataDirs :: "string list" where "dataDirs = [''global'', ''local'']"

definition put_root :: "string \<Rightarrow> doc \<Rightarrow> filesystem \<Rightarrow> filesystem" where
  "put_root name d fs = fs\<lparr>fs_Root := (fs_Root fs)(name \<mapsto> d)\<rparr>"

definition syncDir :: "string \<Rightarrow> (machine, unit) prog" where
  "syncDir mnt = seq (syscall (ret ())) (\<lambda>_. syscall (ret ()))"

definition finish_file :: "string \<Rightarrow> (machine, unit) prog" where
  "finish_file mnt = seq (syscall (ret ())) (\<lambda>_. seq (syscall (ret ())) (\<lambda>_. syncDir mnt))"

definition writeFileSync :: "string \<Rightarrow> string \<Rightarrow> doc \<Rightarrow> (machine, unit) prog" where
  "writeFileSync mnt name d =
     seq (syscall (fs_write mnt (put_root name (DText '''')))) (\<lambda>_.
     seq (syscall (fs_write mnt (put_root name d))) (\<lambda>_.
     finish_file mnt))"

definition loadManifest :: "string \<Rightarrow> (machine, manifest) prog" where
  "loadManifest mnt = seq (read_root mnt ManifestFile) (\<lambda>d. case d of
      DManifest m \<Rightarrow> ret m
    | _ \<Rightarrow> fail (ErrWrap ''corrupt manifest: '' (ErrOther ''invalid JSON'')))"

definition writeManifest :: "string \<Rightarrow> manifest \<Rightarrow> (machine, unit) prog" where
  "writeManifest mnt m =
     seq (writeFileSync mnt (ManifestFile @ ''.tmp'') (DManifest m)) (\<lambda>_.
     seq (syscall (fs_write mnt (\<lambda>fs. fs\<lparr>fs_Root := (fs_Root fs)(ManifestFile := fs_Root fs (ManifestFile @ ''.tmp''),
        ManifestFile @ ''.tmp'' := None)\<rparr>))) (\<lambda>_.
     syncDir mnt))"

definition writeIdentity :: "string \<Rightarrow> work_order \<Rightarrow> int \<Rightarrow> (machine, unit) prog" where
  "writeIdentity mnt wo diskIndex = (case wo_Identity wo of
      None \<Rightarrow> ret ()
    | Some idm \<Rightarrow> ignore (writeFileSync mnt IdentityFile (DIdentity (idm\<lparr>im_DiskIndex := diskIndex\<rparr>))))"

definition writeRunMarker :: "string \<Rightarrow> string \<Rightarrow> int \<Rightarrow> (machine, unit) prog" where
  "writeRunMarker mnt runID n = ignore (writeFileSync mnt runMarkerFile (DText (runID @ '' '' @ itoa n)))"

section \<open>Manifests\<close>

definition list_dir :: "string \<Rightarrow> string \<Rightarrow> string list \<Rightarrow> (machine, string list) prog" where
  "list_dir mnt dir out = attempt (read_dir mnt dir) (\<lambda>r. case r of
      Inl e \<Rightarrow> if e = ErrNotFound then ret out else fail e
    | Inr es \<Rightarrow> ret (out @ map (\<lambda>n. dir @ ''/'' @ n) (regular es)))"

definition listDataFiles :: "string \<Rightarrow> (machine, string list) prog" where
  "listDataFiles mnt = seq (fold_prog dataDirs (list_dir mnt) []) (\<lambda>out. ret (sort out))"

definition hashFile :: "tools \<Rightarrow> string \<Rightarrow> string \<Rightarrow> (machine, int \<times> string) prog" where
  "hashFile T mnt rel =
     seq (syscall (fs_read mnt (\<lambda>fs. case file_at fs rel of None \<Rightarrow> Inl ErrNotFound | Some c \<Rightarrow> Inr c))) (\<lambda>c.
     seq (syscall (ret ())) (\<lambda>_.
     ret (int (length c), tl_sha T c)))"

definition hash_entry :: "tools \<Rightarrow> string \<Rightarrow> string \<Rightarrow> (machine, manifest_entry) prog" where
  "hash_entry T mnt rel = seq (wrap (''hashing '' @ rel @ '': '') (hashFile T mnt rel)) (\<lambda>(size, sha).
     ret \<lparr>me_Size = size, me_SHA256 = sha\<rparr>)"

text \<open>One entry of the new manifest: carried over, or hashed afresh.\<close>

definition fresh_entry :: "tools \<Rightarrow> string \<Rightarrow> (string \<times> manifest_entry) list \<Rightarrow> string list \<Rightarrow> string \<Rightarrow> (machine, manifest_entry) prog" where
  "fresh_entry T mnt old changed rel = (case map_of old rel of
      Some e \<Rightarrow> if rel \<notin> set changed then ret e else hash_entry T mnt rel
    | None \<Rightarrow> hash_entry T mnt rel)"

definition add_entry :: "tools \<Rightarrow> string \<Rightarrow> (string \<times> manifest_entry) list \<Rightarrow> string list \<Rightarrow> string \<Rightarrow> (string \<times> manifest_entry) list
    \<Rightarrow> (machine, (string \<times> manifest_entry) list) prog" where
  "add_entry T mnt old changed rel acc = seq (fresh_entry T mnt old changed rel) (\<lambda>e. ret (acc @ [(rel, e)]))"

definition updateDiskManifest :: "tools \<Rightarrow> string \<Rightarrow> string \<Rightarrow> string list \<Rightarrow> (machine, unit) prog" where
  "updateDiskManifest T mnt runID changed =
     attempt (loadManifest mnt) (\<lambda>q. let old = (case q of Inl _ \<Rightarrow> [] | Inr m \<Rightarrow> mf_Files m) in
     seq (listDataFiles mnt) (\<lambda>files.
     seq (fold_prog files (add_entry T mnt old changed) []) (\<lambda>entries.
     writeManifest mnt \<lparr>mf_RunID = runID, mf_Files = entries\<rparr>)))"

section \<open>Calls that only look\<close>

definition still :: "machine \<Rightarrow> machine \<Rightarrow> bool" where
  "still s t \<longleftrightarrow> s\<lparr>mc_Faults := []\<rparr> = t\<lparr>mc_Faults := []\<rparr>"

definition silent :: "(machine, 'a) prog \<Rightarrow> bool" where
  "silent m \<longleftrightarrow> (\<forall>s. still s (snd (m s)))"

named_theorems silent_intros \<open>calls that leave all but the fault stream alone\<close>

lemma still_refl [simp]: "still s s"
  by (simp add: still_def)

lemma still_trans: "still s t \<Longrightarrow> still t u \<Longrightarrow> still s u"
  by (simp add: still_def)

lemma still_faults [simp]: "still s (t\<lparr>mc_Faults := fs\<rparr>) \<longleftrightarrow> still s t" "still (s\<lparr>mc_Faults := fs\<rparr>) t \<longleftrightarrow> still s t"
  by (simp_all add: still_def)

lemma fs_of_faults [simp]: "fs_of (s\<lparr>mc_Faults := fs\<rparr>) = fs_of s"
  by (simp add: fs_of_def fun_eq_iff)

lemma fs_of_parts [simp]:
  "fs_of (s\<lparr>mc_Mounts := m\<rparr>) = fs_of s" "fs_of (s\<lparr>mc_Fio := x\<rparr>) = fs_of s" "fs_of (s\<lparr>mc_Prog := p\<rparr>) = fs_of s"
  "fs_of (s\<lparr>mc_Net := n\<rparr>) = fs_of s" "fs_of (s\<lparr>mc_Sent := r\<rparr>) = fs_of s" "fs_of (s\<lparr>mc_Slept := w\<rparr>) = fs_of s"
  by (simp_all add: fs_of_def fun_eq_iff)

lemma still_obs: "still s t \<Longrightarrow> f (s\<lparr>mc_Faults := []\<rparr>) = f (t\<lparr>mc_Faults := []\<rparr>)"
  by (simp add: still_def)

lemma stillD:
  assumes "still s t"
  shows "fs_of t = fs_of s \<and> mc_Block t = mc_Block s \<and> mc_Mounts t = mc_Mounts s \<and> mc_Fio t = mc_Fio s \<and> mc_Prog t = mc_Prog s
    \<and> mc_Net t = mc_Net s \<and> mc_Sent t = mc_Sent s \<and> mc_Slept t = mc_Slept s \<and> mc_Sectors t = mc_Sectors s"
  using still_obs [OF assms, of fs_of] still_obs [OF assms, of mc_Block] still_obs [OF assms, of mc_Mounts]
    still_obs [OF assms, of mc_Fio] still_obs [OF assms, of mc_Prog] still_obs [OF assms, of mc_Net] still_obs [OF assms, of mc_Sent]
    still_obs [OF assms, of mc_Slept] still_obs [OF assms, of mc_Sectors]
  by simp

lemma silentD: "silent m \<Longrightarrow> m s = (q, t) \<Longrightarrow> still s t"
  by (metis silent_def snd_conv)

lemma silent_basic [silent_intros]: "silent (ret x)" "silent (fail e)" "silent (look f)" "silent (fs_read mnt g)"
  by (auto simp: silent_def ret_def fail_def look_def fs_read_def split: option.splits)

lemma silent_syscall [silent_intros]: "silent m \<Longrightarrow> silent (syscall m)"
  by (auto simp: silent_def syscall_def split: list.splits option.splits) (metis still_faults(2))

lemma silent_attempt [silent_intros]: "silent m \<Longrightarrow> (\<And>r. silent (k r)) \<Longrightarrow> silent (attempt m k)"
  by (auto simp: silent_def attempt_def split: prod.splits) (metis snd_conv still_trans)

lemma silent_seq [silent_intros]: "silent m \<Longrightarrow> (\<And>x. silent (k x)) \<Longrightarrow> silent (seq m k)"
  unfolding seq_def by (intro silent_attempt) (auto split: sum.splits intro: silent_basic)

lemma silent_cases [silent_intros]:
  "silent m \<Longrightarrow> silent n \<Longrightarrow> silent (if c then m else n)"
  "silent m \<Longrightarrow> (\<And>x. silent (f x)) \<Longrightarrow> silent (case p of None \<Rightarrow> m | Some x \<Rightarrow> f x)"
  "(\<And>e. silent (g e)) \<Longrightarrow> (\<And>x. silent (f x)) \<Longrightarrow> silent (case q of Inl e \<Rightarrow> g e | Inr x \<Rightarrow> f x)"
  "(\<And>x y. silent (h x y)) \<Longrightarrow> silent (case z of (x, y) \<Rightarrow> h x y)"
  by (auto split: option.splits sum.splits prod.splits)

lemma silent_wrap [silent_intros]: "silent m \<Longrightarrow> silent (wrap p m)"
  unfolding wrap_def by (intro silent_intros)

lemma silent_fold [silent_intros]: "(\<And>x l. silent (f x l)) \<Longrightarrow> silent (fold_prog xs f l)"
  by (induction xs arbitrary: l) (auto intro!: silent_intros)

lemma silent_loadManifest [silent_intros]: "silent (loadManifest mnt)"
  unfolding loadManifest_def read_root_def by (intro silent_intros) (auto split: doc.splits intro!: silent_intros)

lemma silent_listDataFiles [silent_intros]: "silent (listDataFiles mnt)"
  unfolding listDataFiles_def list_dir_def [abs_def] read_dir_def by (intro silent_intros)

lemma silent_hashing [silent_intros]: "silent (hashFile T mnt rel)" "silent (hash_entry T mnt rel)"
  unfolding hash_entry_def hashFile_def by (intro silent_intros)+

section \<open>What the disk says\<close>

text \<open>The filesystem behind a mount point.\<close>

definition mounted :: "string \<Rightarrow> machine \<Rightarrow> string \<Rightarrow> bool \<Rightarrow> filesystem \<Rightarrow> bool" where
  "mounted mnt s dev ro fs \<longleftrightarrow> mc_Mounts s mnt = Some (dev, ro) \<and> fs_of s dev = Some fs"

lemma mounted_still: "still s t \<Longrightarrow> mounted mnt t dev ro fs = mounted mnt s dev ro fs"
  using stillD [of s t] by (simp add: mounted_def)

lemma syscall_InrE:
  assumes "syscall m s = (Inr x, t)"
  obtains fs where "m (s\<lparr>mc_Faults := fs\<rparr>) = (Inr x, t)"
  using assms by (cases "mc_Faults s") (auto simp: syscall_def split: option.splits, metis machine.surjective machine.update_convs(4))

lemma fs_read_InrD
: "syscall (fs_read mnt f) s = (Inr x, t) \<Longrightarrow> mounted mnt s dev ro fs \<Longrightarrow> f fs = Inr x"
  by (auto elim!: syscall_InrE simp: fs_read_def mounted_def)

definition data_rels :: "filesystem \<Rightarrow> string list" where
  "data_rels fs = sort (concat (map (\<lambda>dir. case fs_Dirs fs dir of None \<Rightarrow> [] | Some es \<Rightarrow> map (\<lambda>n. dir @ ''/'' @ n) (regular es)) dataDirs))"

definition content :: "filesystem \<Rightarrow> string \<Rightarrow> string" where
  "content fs rel = (case file_at fs rel of None \<Rightarrow> '''' | Some c \<Rightarrow> c)"

definition entry :: "tools \<Rightarrow> filesystem \<Rightarrow> string \<Rightarrow> manifest_entry" where
  "entry T fs rel = \<lparr>me_Size = int (length (content fs rel)), me_SHA256 = tl_sha T (content fs rel)\<rparr>"

lemma fold_prog_ConsE:
  assumes "fold_prog (x # xs) f l s = (Inr y, t)"
  obtains l1 s1 where "f x l s = (Inr l1, s1)" "fold_prog xs f l1 s1 = (Inr y, t)"
  using assms by (auto elim!: seq_InrE)

lemma list_dir_InrD: "list_dir mnt dir out s = (Inr out', t) \<Longrightarrow> mounted mnt s dev ro fs \<Longrightarrow>
    out' = out @ (case fs_Dirs fs dir of None \<Rightarrow> [] | Some es \<Rightarrow> map (\<lambda>n. dir @ ''/'' @ n) (regular es))"
  by (auto simp: list_dir_def attempt_def read_dir_def syscall_def fs_read_def mounted_def ret_def fail_def
      split: prod.splits sum.splits if_splits list.splits option.splits)

lemma silent_list_dir [silent_intros]: "silent (list_dir mnt dir out)"
  unfolding list_dir_def read_dir_def by (intro silent_intros)

lemma list_dirs_InrD:
  "fold_prog dirs (list_dir mnt) out s = (Inr out', t) \<Longrightarrow> mounted mnt s dev ro fs \<Longrightarrow>
     out' = out @ concat (map (\<lambda>dir. case fs_Dirs fs dir of None \<Rightarrow> [] | Some es \<Rightarrow> map (\<lambda>n. dir @ ''/'' @ n) (regular es)) dirs)"
proof (induction dirs arbitrary: out s)
  case (Cons d ds)
  from Cons.prems(1) obtain o1 s1 where g: "list_dir mnt d out s = (Inr o1, s1)" and r: "fold_prog ds (list_dir mnt) o1 s1 = (Inr out', t)"
    by (rule fold_prog_ConsE)
  have "mounted mnt s1 dev ro fs" using mounted_still [OF silentD [OF silent_list_dir g]] Cons.prems(2) by simp
  then show ?case using Cons.IH [OF r] list_dir_InrD [OF g Cons.prems(2)] by simp
qed (simp add: ret_def)

lemma listDataFiles_InrD: "listDataFiles mnt s = (Inr rels, t) \<Longrightarrow> mounted mnt s dev ro fs \<Longrightarrow> rels = data_rels fs"
  by (auto simp: listDataFiles_def data_rels_def ret_def elim!: seq_InrE dest!: list_dirs_InrD)

lemma hashFile_InrD:
  "hashFile T mnt rel s = (Inr (n, h), t) \<Longrightarrow> mounted mnt s dev ro fs \<Longrightarrow>
     file_at fs rel \<noteq> None \<and> n = int (length (content fs rel)) \<and> h = tl_sha T (content fs rel)"
  by (auto simp: hashFile_def content_def ret_def elim!: seq_InrE dest!: fs_read_InrD split: option.splits)

lemma hash_entry_InrD:
  "hash_entry T mnt rel s = (Inr e, t) \<Longrightarrow> mounted mnt s dev ro fs \<Longrightarrow> e = entry T fs rel \<and> file_at fs rel \<noteq> None"
  by (auto simp: hash_entry_def entry_def ret_def elim!: seq_InrE dest!: wrap_InrD hashFile_InrD)

section \<open>Calls that write\<close>

text \<open>\<open>t\<close> is \<open>s\<close> with the filesystem mounted at \<open>mnt\<close> changed by \<open>f\<close>, up to used-up faults.\<close>

definition edits :: "string \<Rightarrow> (filesystem \<Rightarrow> filesystem) \<Rightarrow> machine \<Rightarrow> machine \<Rightarrow> bool" where
  "edits mnt f s t \<longleftrightarrow> (\<exists>dev fs. mounted mnt s dev False fs \<and> still (set_fs dev (f fs) s) t)"

lemma set_fs_simps [simp]:
  "mc_Mounts (set_fs dev fs s) = mc_Mounts s" "mc_Faults (set_fs dev fs s) = mc_Faults s" "mc_Fio (set_fs dev fs s) = mc_Fio s"
  "mc_Prog (set_fs dev fs s) = mc_Prog s" "mc_Sent (set_fs dev fs s) = mc_Sent s" "mc_Net (set_fs dev fs s) = mc_Net s"
  "mc_Slept (set_fs dev fs s) = mc_Slept s" "mc_Sectors (set_fs dev fs s) = mc_Sectors s"
  "map fst (mc_Block (set_fs dev fs s)) = map fst (mc_Block s)"
  by (auto simp: set_fs_def)

lemma fs_of_set_fs: "fs_of (set_fs dev fs s) d = (if d = dev \<and> map_of (mc_Block s) dev \<noteq> None then Some fs else fs_of s d)"
proof -
  have "map_of (map (\<lambda>(d, f). if d = dev then (d, Some fs) else (d, f)) bs) d
      = (if d = dev \<and> map_of bs dev \<noteq> None then Some (Some fs) else map_of bs d)" for bs :: "(string \<times> filesystem option) list"
    by (induction bs) auto
  then show ?thesis by (simp add: fs_of_def set_fs_def)
qed

lemma set_fs_twice [simp]: "set_fs dev fs' (set_fs dev fs s) = set_fs dev fs' s"
proof -
  have "(\<lambda>(d, f). if d = dev then (d, Some fs') else (d, f)) \<circ> (\<lambda>(d, f). if d = dev then (d, Some fs) else (d, f))
      = (\<lambda>(d, f). if d = dev then (d, Some fs') else (d, f))" by (auto simp: fun_eq_iff)
  then show ?thesis by (simp add: set_fs_def)
qed

lemma set_fs_faults: "set_fs dev fs (s\<lparr>mc_Faults := fl\<rparr>) = (set_fs dev fs s)\<lparr>mc_Faults := fl\<rparr>"
  by (simp add: set_fs_def)

lemma fs_of_blocked: "fs_of s dev = Some fs \<Longrightarrow> map_of (mc_Block s) dev \<noteq> None"
  by (auto simp: fs_of_def split: option.splits)

lemma still_set_fs: "still s t \<Longrightarrow> still (set_fs dev fs s) (set_fs dev fs t)"
  by (simp add: still_def set_fs_faults [symmetric])

lemma edits_mounted:
  assumes "edits mnt f s t" and "mounted mnt s dev ro fs"
  shows "ro = False \<and> mounted mnt t dev False (f fs)"
proof -
  obtain dev' fs' where m: "mounted mnt s dev' False fs'" and st: "still (set_fs dev' (f fs') s) t" using assms(1) by (auto simp: edits_def)
  then have "dev' = dev" "fs' = fs" "ro = False" using assms(2) by (auto simp: mounted_def)
  with m st fs_of_blocked [of s dev fs] stillD [OF st] show ?thesis by (simp add: mounted_def fs_of_set_fs)
qed

lemma edits_trans:
  assumes "edits mnt f s t" "edits mnt g t u"
  shows "edits mnt (g \<circ> f) s u"
proof -
  obtain dev fs where m: "mounted mnt s dev False fs" and st: "still (set_fs dev (f fs) s) t" using assms(1) by (auto simp: edits_def)
  obtain dev' fs' where m': "mounted mnt t dev' False fs'" and st': "still (set_fs dev' (g fs') t) u" using assms(2) by (auto simp: edits_def)
  have "mounted mnt t dev False (f fs)" using edits_mounted [OF assms(1) m] by simp
  with m' have eq: "dev' = dev" "fs' = f fs" by (auto simp: mounted_def)
  have "still (set_fs dev (g (f fs)) s) (set_fs dev (g (f fs)) t)" using still_set_fs [OF st, of dev "g (f fs)"] by simp
  with st' eq have "still (set_fs dev (g (f fs)) s) u" using still_trans by blast
  with m show ?thesis by (auto simp: edits_def)
qed

lemma edits_still:
  "still s t \<Longrightarrow> edits mnt f t u \<Longrightarrow> edits mnt f s u"
  "edits mnt f s t \<Longrightarrow> still t u \<Longrightarrow> edits mnt f s u"
  unfolding edits_def by (metis mounted_still still_set_fs still_trans, metis still_trans)

lemma edits_frame: "edits mnt f s t \<Longrightarrow> mc_Mounts t = mc_Mounts s \<and> mc_Fio t = mc_Fio s \<and> mc_Prog t = mc_Prog s \<and> mc_Net t = mc_Net s
    \<and> mc_Sent t = mc_Sent s \<and> mc_Slept t = mc_Slept s \<and> mc_Sectors t = mc_Sectors s \<and> map fst (mc_Block t) = map fst (mc_Block s)"
  by (auto simp: edits_def dest!: stillD)

lemma edits_other: "edits mnt f s t \<Longrightarrow> mounted mnt s dev ro fs \<Longrightarrow> d \<noteq> dev \<Longrightarrow> fs_of t d = fs_of s d"
  by (auto simp: edits_def mounted_def fs_of_set_fs dest!: stillD)

lemma fs_write_InrD: "syscall (fs_write mnt f) s = (Inr x, t) \<Longrightarrow> edits mnt f s t"
proof (elim syscall_InrE)
  fix fl assume "fs_write mnt f (s\<lparr>mc_Faults := fl\<rparr>) = (Inr x, t)"
  then obtain dev fs where "mounted mnt s dev False fs" "t = set_fs dev (f fs) (s\<lparr>mc_Faults := fl\<rparr>)"
    by (auto simp: fs_write_def mounted_def split: option.splits if_splits)
  then show "edits mnt f s t" by (fastforce simp: edits_def set_fs_faults)
qed

lemma fs_write_cases: "syscall (fs_write mnt f) s = (q, t) \<Longrightarrow> (case q of Inl _ \<Rightarrow> still s t | Inr _ \<Rightarrow> edits mnt f s t)"
  using fs_write_InrD [of mnt f s _ t]
  by (cases q) (auto simp: syscall_def fs_write_def split: list.splits option.splits if_splits prod.splits)

text \<open>A synced write either happens, or leaves the file as it was, truncated or complete.\<close>

lemma put_root_twice: "put_root n d \<circ> put_root n e = put_root n d"
  by (auto simp: put_root_def)

lemma edits_put_root: "edits mnt (put_root n e) s t \<Longrightarrow> edits mnt (put_root n d) t u \<Longrightarrow> edits mnt (put_root n d) s u"
  using edits_trans put_root_twice by metis

lemma silent_finish [silent_intros]: "silent (syncDir mnt)" "silent (finish_file mnt)"
  unfolding finish_file_def syncDir_def by (intro silent_intros)+

lemma writeFileSync_InrD:
  assumes "writeFileSync mnt name d s = (Inr x, t)"
  shows "edits mnt (put_root name d) s t"
proof -
  obtain s1 s2 u where a: "syscall (fs_write mnt (put_root name (DText ''''))) s = (Inr (), s1)"
    and b: "syscall (fs_write mnt (put_root name d)) s1 = (Inr (), s2)" and c: "finish_file mnt s2 = (Inr u, t)"
    using assms by (auto simp: writeFileSync_def elim!: seq_InrE)
  show ?thesis using edits_put_root [OF fs_write_InrD [OF a] fs_write_InrD [OF b]] silentD [OF silent_finish(2) c]
    by (rule edits_still(2))
qed

lemma writeFileSync_cases:
  assumes "writeFileSync mnt name d s = (q, t)"
  shows "still s t \<or> (\<exists>d'. edits mnt (put_root name d') s t)"
proof -
  let ?a = "syscall (fs_write mnt (put_root name (DText '''')))" and ?b = "syscall (fs_write mnt (put_root name d))"
  obtain q1 s1 where 1: "?a s = (q1, s1)" by fastforce
  obtain q2 s2 where 2: "?b s1 = (q2, s2)" by fastforce
  note c1 = fs_write_cases [OF 1] and c2 = fs_write_cases [OF 2]
  have "still s t" if "q1 = Inl e" for e using assms 1 c1 that by (auto simp: writeFileSync_def seq_eq)
  moreover have "edits mnt (put_root name (DText '''')) s t" if "q1 = Inr u" "q2 = Inl e" for u e
    using assms 1 2 c1 c2 that by (auto simp: writeFileSync_def seq_eq intro: edits_still(2))
  moreover have "edits mnt (put_root name d) s t" if "q1 = Inr u" "q2 = Inr v" for u v
    using assms 1 2 c1 c2 that silentD [OF silent_finish(2), of mnt s2 q t]
    by (auto simp: writeFileSync_def seq_eq intro: edits_put_root edits_still(2))
  ultimately show ?thesis by (cases q1; cases q2) auto
qed

text \<open>The manifest is replaced in one step: whatever fails, it is the old one or the new one.\<close>

definition new_manifest :: "manifest \<Rightarrow> filesystem \<Rightarrow> filesystem" where
  "new_manifest m fs = fs\<lparr>fs_Root := (fs_Root fs)(ManifestFile \<mapsto> DManifest m, ManifestFile @ ''.tmp'' := None)\<rparr>"

lemma writeManifest_InrD:
  assumes "writeManifest mnt m s = (Inr x, t)"
  shows "edits mnt (new_manifest m) s t"
proof -
  let ?mv = "\<lambda>fs. fs\<lparr>fs_Root := (fs_Root fs)(ManifestFile := fs_Root fs (ManifestFile @ ''.tmp''), ManifestFile @ ''.tmp'' := None)\<rparr>"
  obtain s1 s2 u where a: "writeFileSync mnt (ManifestFile @ ''.tmp'') (DManifest m) s = (Inr (), s1)"
    and b: "syscall (fs_write mnt ?mv) s1 = (Inr (), s2)" and c: "syncDir mnt s2 = (Inr u, t)"
    using assms by (auto simp: writeManifest_def elim!: seq_InrE)
  have "?mv \<circ> put_root (ManifestFile @ ''.tmp'') (DManifest m) = new_manifest m"
    by (auto simp: put_root_def new_manifest_def fun_eq_iff ManifestFile_def intro!: filesystem.equality)
  with edits_trans [OF writeFileSync_InrD [OF a] fs_write_InrD [OF b]] edits_still(2) silentD [OF silent_finish(1) c]
  show ?thesis by simp
qed


section \<open>Updating a manifest\<close>

definition old_entry :: "filesystem \<Rightarrow> string \<Rightarrow> manifest_entry option" where
  "old_entry fs = (case fs_Root fs ManifestFile of Some (DManifest m) \<Rightarrow> map_of (mf_Files m) | _ \<Rightarrow> Map.empty)"

lemma loadManifest_InrD:
  "loadManifest mnt s = (Inr m, t) \<Longrightarrow> mounted mnt s dev ro fs \<Longrightarrow> fs_Root fs ManifestFile = Some (DManifest m)"
  by (auto simp: loadManifest_def read_root_def ret_def fail_def elim!: seq_InrE dest!: fs_read_InrD split: doc.splits option.splits)

lemma silent_fresh_entry [silent_intros]: "silent (fresh_entry T mnt old changed rel)"
  unfolding fresh_entry_def by (intro silent_intros)

lemma fresh_entry_InrD: "fresh_entry T mnt old changed rel s = (Inr e, t) \<Longrightarrow> mounted mnt s dev ro fs \<Longrightarrow>
    e = entry T fs rel \<or> rel \<notin> set changed \<and> map_of old rel = Some e"
  by (auto simp: fresh_entry_def ret_def split: option.splits if_splits dest: hash_entry_InrD)

lemma fresh_entries_InrD:
  "fold_prog rels (add_entry T mnt old changed) acc s = (Inr es, t) \<Longrightarrow>
   mounted mnt s dev ro fs \<Longrightarrow>
   (\<And>rel e. rel \<notin> set changed \<Longrightarrow> map_of old rel = Some e \<Longrightarrow> rel \<in> set rels \<Longrightarrow> e = entry T fs rel) \<Longrightarrow>
   es = acc @ map (\<lambda>rel. (rel, entry T fs rel)) rels \<and> still s t"
proof (induction rels arbitrary: acc s)
  case (Cons r rs)
  from Cons.prems(1) obtain acc' s1 where a: "add_entry T mnt old changed r acc s = (Inr acc', s1)"
    and l: "fold_prog rs (add_entry T mnt old changed) acc' s1 = (Inr es, t)"
    by (rule fold_prog_ConsE)
  then obtain e where f: "fresh_entry T mnt old changed r s = (Inr e, s1)"
    and l: "fold_prog rs (add_entry T mnt old changed) (acc @ [(r, e)]) s1 = (Inr es, t)"
    by (auto simp: add_entry_def ret_def elim!: seq_InrE)
  have st: "still s s1" using f by (rule silentD [OF silent_fresh_entry])
  then have "mounted mnt s1 dev ro fs" using mounted_still Cons.prems(2) by simp
  from Cons.IH [OF l this] Cons.prems(3) have "es = (acc @ [(r, e)]) @ map (\<lambda>rel. (rel, entry T fs rel)) rs \<and> still s1 t" by simp
  moreover have "e = entry T fs r" using fresh_entry_InrD [OF f Cons.prems(2)] Cons.prems(3) by auto
  ultimately show ?case using still_trans [OF st] by simp
qed (simp add: ret_def)

text \<open>The manifest describes exactly the data files that are there.\<close>

definition exact_manifest :: "tools \<Rightarrow> string \<Rightarrow> filesystem \<Rightarrow> manifest" where
  "exact_manifest T runID fs = \<lparr>mf_RunID = runID, mf_Files = map (\<lambda>rel. (rel, entry T fs rel)) (data_rels fs)\<rparr>"

lemma updateDiskManifest_InrD:
  assumes run: "updateDiskManifest T mnt runID changed s = (Inr x, t)" and m: "mounted mnt s dev ro fs"
    and kept: "\<And>rel e. rel \<notin> set changed \<Longrightarrow> old_entry fs rel = Some e \<Longrightarrow> rel \<in> set (data_rels fs) \<Longrightarrow> e = entry T fs rel"
  shows "edits mnt (new_manifest (exact_manifest T runID fs)) s t"
proof -
  obtain q s1 where l: "loadManifest mnt s = (q, s1)" by fastforce
  define old where "old = (case q of Inl _ \<Rightarrow> [] | Inr m \<Rightarrow> mf_Files m)"
  from run l obtain rels s2 es s3 where d: "listDataFiles mnt s1 = (Inr rels, s2)"
    and f: "fold_prog rels (add_entry T mnt old changed) [] s2 = (Inr es, s3)"
    and w: "writeManifest mnt \<lparr>mf_RunID = runID, mf_Files = es\<rparr> s3 = (Inr x, t)"
    by (auto simp: updateDiskManifest_def attempt_def old_def Let_def elim!: seq_InrE)
  have s1: "still s s1" using l by (rule silentD [OF silent_loadManifest])
  then have m1: "mounted mnt s1 dev ro fs" using m mounted_still by simp
  have s2: "still s1 s2" using d by (rule silentD [OF silent_listDataFiles])
  then have m2: "mounted mnt s2 dev ro fs" using m1 mounted_still by simp
  have "map_of old rel = Some e \<Longrightarrow> old_entry fs rel = Some e" for rel e
    using loadManifest_InrD [of mnt s _ s1, OF _ m] l by (auto simp: old_def old_entry_def split: sum.splits)
  then have "es = map (\<lambda>rel. (rel, entry T fs rel)) (data_rels fs) \<and> still s2 s3"
    using fresh_entries_InrD [OF f m2] kept listDataFiles_InrD [OF d m1] by auto
  then show ?thesis
    using writeManifest_InrD [OF w] still_trans [OF s1 s2] still_trans edits_still(1) by (metis exact_manifest_def)
qed

end
