(* ===== verification/AgentReport.thy ===== *)
theory AgentReport
  imports AgentDisk
begin

text \<open>
  How the agent talks to the controller (\<open>httpClient\<close> in \<open>cmd/agent/main.go\<close>). \<open>mc_Net\<close> holds the
  outcomes of the next requests: a status code, or \<open>None\<close> for a transport error; an exhausted
  list answers 200. \<open>mc_Sent\<close> logs the bodies sent and \<open>mc_Slept\<close> counts the seconds waited.
\<close>

section \<open>Requests\<close>

definition post :: "report \<Rightarrow> (machine, int option) prog" where
  "post r s = (Inr (case mc_Net s of [] \<Rightarrow> Some 200 | a # _ \<Rightarrow> a), s\<lparr>mc_Net := tl (mc_Net s), mc_Sent := mc_Sent s @ [r]\<rparr>)"

definition sleep :: "int \<Rightarrow> (machine, unit) prog" where
  "sleep d = change (\<lambda>s. s\<lparr>mc_Slept := mc_Slept s + d\<rparr>)"

definition accepted :: "int option \<Rightarrow> bool" where
  "accepted a \<longleftrightarrow> (case a of None \<Rightarrow> False | Some st \<Rightarrow> 200 \<le> st \<and> st < 300)"

definition terminalReportBackoff :: int where "terminalReportBackoff = 1"

text \<open>The loop of \<open>postReliable\<close>: attempts left, and the current backoff in seconds.\<close>

fun post_attempts :: "nat \<Rightarrow> int \<Rightarrow> report \<Rightarrow> (machine, unit) prog" where
  "post_attempts 0 backoff r = ret ()"
| "post_attempts (Suc n) backoff r = seq (post r) (\<lambda>a. if accepted a then ret ()
     else seq (sleep backoff) (\<lambda>_. post_attempts n (if backoff < 15 then backoff * 2 else backoff) r))"

definition postReliable :: "report \<Rightarrow> (machine, unit) prog" where
  "postReliable r = post_attempts 12 terminalReportBackoff r"

definition reportProgress :: "int \<Rightarrow> int \<Rightarrow> f64 \<Rightarrow> (machine, unit) prog" where
  "reportProgress bytesWritten bytesTotal mbps = seq (post (Progressed bytesWritten bytesTotal mbps)) (\<lambda>_. ret ())"

definition reportDone :: "int \<Rightarrow> (machine, unit) prog" where
  "reportDone bytesWritten = postReliable (Done bytesWritten)"

definition reportError :: "string \<Rightarrow> (machine, unit) prog" where
  "reportError msg = postReliable (Failed msg)"

text \<open>One sample of \<open>reportLoop\<close>, taken every five seconds while a run works.\<close>

definition report_sample :: "int \<Rightarrow> (machine, unit) prog" where
  "report_sample n s = reportProgress (progress_bytes (mc_Prog s)) n (pg_mbps (mc_Prog s)) s"

section \<open>Delivery\<close>

text \<open>\<open>n\<close> copies of one report, and nothing else.\<close>

definition told :: "report \<Rightarrow> nat \<Rightarrow> machine \<Rightarrow> machine \<Rightarrow> bool" where
  "told r n s t \<longleftrightarrow> (\<exists>w. t = s\<lparr>mc_Net := drop n (mc_Net s), mc_Sent := mc_Sent s @ replicate n r, mc_Slept := mc_Slept s + w\<rparr>)"

text \<open>How many of the next answers are no acceptance, and what the waiting between them costs.\<close>

definition refusals :: "int option list \<Rightarrow> nat" where
  "refusals net = length (takeWhile (\<lambda>a. \<not> accepted a) net)"

fun backoffs :: "nat \<Rightarrow> int \<Rightarrow> int" where
  "backoffs 0 b = 0"
| "backoffs (Suc n) b = b + backoffs n (if b < 15 then b * 2 else b)"

lemma post_attempts_exact:
  "post_attempts n b r s = (Inr (), s\<lparr>mc_Net := drop (min n (refusals (mc_Net s) + 1)) (mc_Net s),
     mc_Sent := mc_Sent s @ replicate (min n (refusals (mc_Net s) + 1)) r,
     mc_Slept := mc_Slept s + backoffs (min n (refusals (mc_Net s))) b\<rparr>)"
proof (induction n arbitrary: b s)
  case 0
  then show ?case by (simp add: ret_def)
next
  case (Suc n)
  show ?case
  proof (cases "mc_Net s")
    case Nil
    then show ?thesis by (simp add: seq_eq post_def accepted_def ret_def refusals_def)
  next
    case (Cons a net)
    show ?thesis
    proof (cases "accepted a")
      case True
      with Cons show ?thesis by (simp add: seq_eq post_def ret_def refusals_def)
    next
      case False
      with Cons Suc.IH show ?thesis
        by (simp add: seq_eq post_def sleep_def change_def refusals_def)
    qed
  qed
qed

lemma backoffs_12: "n \<le> 12 \<Longrightarrow> backoffs n 1 \<le> 143"
proof -
  assume "n \<le> 12"
  then have "n \<in> {0, 1, 2, 3, 4, 5, 6, 7, 8, 9, 10, 11, 12}" by (simp, arith)
  then show ?thesis by (elim insertE emptyE) (simp_all add: eval_nat_numeral)
qed

text \<open>A terminal report: sent at least once and at most twelve times, and nothing else with it.\<close>

lemma postReliable_told: "\<exists>k t. postReliable r s = (Inr (), t) \<and> told r k s t \<and> 0 < k \<and> k \<le> 12"
  unfolding postReliable_def post_attempts_exact told_def
  by (intro exI [of _ "min 12 (refusals (mc_Net s) + 1)"] exI conjI) (rule refl, rule refl, auto)

text \<open>
  C40. A terminal report is sent until the controller accepts it: with \<open>k\<close> refusals or
  transport errors ahead of the first acceptance it takes exactly \<open>k + 1\<close> requests, at most
  twelve, and the waiting adds up to at most 143 seconds. It never fails and never loops on.
\<close>

theorem terminal_report_bounded:
  "\<exists>t. postReliable r s = (Inr (), t) \<and> mc_Sent t = mc_Sent s @ replicate (min 12 (refusals (mc_Net s) + 1)) r
     \<and> mc_Net t = drop (min 12 (refusals (mc_Net s) + 1)) (mc_Net s)
     \<and> mc_Block t = mc_Block s \<and> mc_Slept t \<le> mc_Slept s + 143"
  unfolding postReliable_def post_attempts_exact terminalReportBackoff_def using backoffs_12 [of "min 12 (refusals (mc_Net s))"] by simp

end
