(* ===== verification/AgentFill.thy ===== *)
theory AgentFill
  imports AgentReport
begin

unbundle bit_operations_syntax

text \<open>
  \<open>cmd/agent/gen.go\<close>: filling the data disks and churning them. A disk is a device node
  \<open>/dev/NAME\<close>, which \<open>/sys/block\<close> lists as \<open>NAME\<close>; \<open>devices\<close> and \<open>mounts\<close> run in step with the disks of the work order. The samples
  \<open>reportLoop\<close> sends meanwhile are best effort and change nothing a run reads; they are left out,
  as are the log lines. A failing \<open>mkfs\<close> leaves the disk as it was.
\<close>

section \<open>Panics and errors\<close>

text \<open>A call whose error is inspected. A panic is no error: it passes through.\<close>

definition panicked :: "go_error \<Rightarrow> bool" where
  "panicked e = (case error_root e of ErrPanic _ \<Rightarrow> True | _ \<Rightarrow> False)"

definition returned :: "('s, 'a) prog \<Rightarrow> (go_error + 'a \<Rightarrow> ('s, 'b) prog) \<Rightarrow> ('s, 'b) prog" where
  "returned m k = attempt m (\<lambda>r. case r of Inl e \<Rightarrow> if panicked e then fail e else k (Inl e) | Inr x \<Rightarrow> k (Inr x))"

section \<open>Devices and mounts\<close>

definition block_names :: "(machine, string list) prog" where
  "block_names = syscall (look (\<lambda>s. map (\<lambda>(dev, _). drop 5 dev) (mc_Block s)))"

definition is_data_disk :: "string \<Rightarrow> bool" where
  "is_data_disk name \<longleftrightarrow> has_prefix name ''sd'' \<or> has_prefix name ''vd''"

definition dataDisks :: "nat \<Rightarrow> (machine, string list) prog" where
  "dataDisks n = seq (wrap ''listing block devices: '' block_names) (\<lambda>names.
     let disks = sort (filter is_data_disk names) in
     if length disks < n
     then fail (ErrOther (''need '' @ itoa (int n) @ '' data disks, found '' @ itoa (int (length disks)) @ '' ['' @ join '' '' disks @ '']''))
     else ret (map (\<lambda>name. ''/dev/'' @ name) (take n disks)))"

definition mkfs :: "string \<Rightarrow> string \<Rightarrow> (machine, unit) prog" where
  "mkfs fstype dev = syscall (\<lambda>s. if map_of (mc_Block s) dev = None then (Inl (ErrOther ''no such device''), s)
     else (Inr (), set_fs dev (empty_fs fstype) s))"

definition makeFS :: "string \<Rightarrow> string \<Rightarrow> string \<Rightarrow> (machine, unit) prog" where
  "makeFS dev mnt fstype =
     seq (ignore (unmount mnt)) (\<lambda>_.
     seq (wrap ''mkfs: '' (mkfs fstype dev)) (\<lambda>_.
     seq (syscall (ret ())) (\<lambda>_.
     wrap (''mount '' @ dev @ '': '') (mount dev mnt fstype False))))"

definition mountFS :: "string \<Rightarrow> string \<Rightarrow> string \<Rightarrow> (machine, unit) prog" where
  "mountFS dev mnt fstype =
     seq (ignore (unmount mnt)) (\<lambda>_.
     seq (syscall (ret ())) (\<lambda>_.
     wrap (''mount existing '' @ dev @ '': '') (mount dev mnt fstype False)))"

text \<open>\<open>syscall.Sync\<close> cannot fail and is not seen by a model whose writes are durable.\<close>

definition flushDisks :: "string list \<Rightarrow> (machine, unit) prog" where
  "flushDisks mounts = for_each mounts (\<lambda>mnt. ignore (unmount mnt))"

section \<open>Running fio\<close>

definition fio_args :: "work_order \<Rightarrow> string \<Rightarrow> 64 word \<Rightarrow> string list \<Rightarrow> string list" where
  "fio_args wo name rs extra =
     [''--name='' @ name, ''--rw=write'', ''--ioengine=psync'', ''--direct=1'', ''--bs='' @ wo_BlockSize wo,
      ''--buffer_compress_percentage='' @ itoa (wo_CompressPercent wo),
      ''--dedupe_percentage='' @ itoa (wo_DedupePercent wo), ''--randseed='' @ itoa (uint rs),
      ''--end_fsync=1'', ''--eta=always'', ''--eta-newline=2''] @ extra
     @ (if wo_RateLimitKBps wo > 0 then [''--rate='' @ itoa (wo_RateLimitKBps wo) @ ''k''] else [])"

text \<open>The two kinds of job: so many files of a sz in a directory, or one named file.\<close>

definition dir_job :: "string \<Rightarrow> int \<Rightarrow> int \<Rightarrow> int \<Rightarrow> string list" where
  "dir_job dir sz nrFiles fileSize =
     [''--directory='' @ dir, ''--size='' @ itoa sz, ''--nrfiles='' @ itoa nrFiles, ''--filesize='' @ itoa fileSize]"

definition file_job :: "string \<Rightarrow> int \<Rightarrow> string list" where
  "file_job path sz = [''--filename='' @ path, ''--size='' @ itoa sz]"

text \<open>The process: the files it leaves in the directory it works on, whether it succeeds, its
  output. One that fails may have written any of its files, with any content.\<close>

definition put_files :: "string \<Rightarrow> (string \<times> string) list \<Rightarrow> filesystem \<Rightarrow> filesystem" where
  "put_files dir ws fs = (case fs_Dirs fs dir of None \<Rightarrow> fs
     | Some es \<Rightarrow> fs\<lparr>fs_Dirs := (fs_Dirs fs)(dir \<mapsto> fold (\<lambda>(n, c). put_entry n (Some c)) ws es)\<rparr>)"

definition fio_process :: "tools \<Rightarrow> string \<Rightarrow> string \<Rightarrow> string list \<Rightarrow> (machine, string option \<times> string) prog" where
  "fio_process T mnt dir args s = (case tl_fio T args of (files, out) \<Rightarrow>
     let (ended, ws, out') = (case mc_Fio s of
           Some (e, w, o1) # _ \<Rightarrow> (Some e, filter (\<lambda>(n, _). n \<in> fst ` set files) w, o1) | _ \<Rightarrow> (None, files, out));
         s' = s\<lparr>mc_Fio := tl (mc_Fio s)\<rparr>
     in case fs_write mnt (put_files dir ws) s' of
          (Inl e, t) \<Rightarrow> (Inr (Some (error_text e), out'), t)
        | (Inr _, t) \<Rightarrow> (Inr (ended, out'), t))"

definition track :: "(progress \<Rightarrow> progress) \<Rightarrow> (machine, unit) prog" where
  "track f = change (\<lambda>s. s\<lparr>mc_Prog := f (mc_Prog s)\<rparr>)"

definition runFioStreaming :: "tools \<Rightarrow> work_order \<Rightarrow> string \<Rightarrow> string \<Rightarrow> string \<Rightarrow> 64 word \<Rightarrow> int \<Rightarrow> string list \<Rightarrow> (machine, unit) prog" where
  "runFioStreaming T wo mnt dir name rs jobBytes extra =
     seq (track (startJob jobBytes)) (\<lambda>_.
     seq (wrap ''fio start: '' (syscall (ret ()))) (\<lambda>_.
     seq (fio_process T mnt dir (fio_args wo name rs extra)) (\<lambda>(ended, out).
     seq (look (\<lambda>s. fst (fio_follow out (mc_Prog s)))) (\<lambda>recent.
     seq (track (\<lambda>p. snd (fio_follow out p))) (\<lambda>_.
     case ended of
       Some e \<Rightarrow> fail (ErrOther (''fio: '' @ e @ '': '' @ fioError (join '' | '' recent)))
     | None \<Rightarrow> track (\<lambda>p. progress_update 1 (pg_mbps p) p))))))"

section \<open>The initial fill\<close>

definition files_needed :: "int \<Rightarrow> int \<Rightarrow> int" where
  "files_needed b fileSize = go_div (i64 (i64 (b + fileSize) - 1)) fileSize"

definition fillRegion :: "tools \<Rightarrow> work_order \<Rightarrow> string \<Rightarrow> string \<Rightarrow> int \<Rightarrow> 64 word \<Rightarrow> (machine, unit) prog" where
  "fillRegion T wo mnt region b rs =
     (if b \<le> 0 then ret ()
      else seq (mkdir mnt region) (\<lambda>_.
        if wo_FileSizeBytes wo = 0 then fail (ErrPanic ''integer divide by zero'')
        else runFioStreaming T wo mnt region (''gf_'' @ region) rs b
          (dir_job (mnt @ ''/'' @ region) b (files_needed b (wo_FileSizeBytes wo)) (wo_FileSizeBytes wo))))"

definition fill_disk :: "tools \<Rightarrow> work_order \<Rightarrow> disk_work \<times> string \<times> string \<Rightarrow> (machine, unit) prog" where
  "fill_disk T wo = (\<lambda>(disk, dev, mnt).
     seq (wrap (''disk '' @ dev @ '': '') (makeFS dev mnt (wo_Filesystem wo))) (\<lambda>_.
     seq (wrap (''disk '' @ dev @ '' global: '') (fillRegion T wo mnt ''global'' (dw_GlobalBytes disk) (dw_GlobalSeed disk))) (\<lambda>_.
     seq (wrap (''disk '' @ dev @ '' local: '') (fillRegion T wo mnt ''local'' (dw_LocalBytes disk) (dw_LocalSeed disk))) (\<lambda>_.
     seq (writeIdentity mnt wo (dw_Index disk)) (\<lambda>_.
     wrap (''disk '' @ dev @ '' manifest: '') (updateDiskManifest T mnt (wo_RunID wo) []))))))"

definition mark_runs :: "work_order \<Rightarrow> string list \<Rightarrow> int \<Rightarrow> (machine, unit) prog" where
  "mark_runs wo mounts n = for_each mounts (\<lambda>mnt. writeRunMarker mnt (wo_RunID wo) n)"

definition fill_bytes :: "work_order \<Rightarrow> int" where
  "fill_bytes wo = fold (\<lambda>d n. i64 (n + i64 (dw_GlobalBytes d + dw_LocalBytes d))) (wo_Disks wo) 0"

definition runInitialFill :: "tools \<Rightarrow> work_order \<Rightarrow> string list \<Rightarrow> string list \<Rightarrow> (machine, unit) prog" where
  "runInitialFill T wo devices mounts =
     seq (track (\<lambda>_. no_progress)) (\<lambda>_.
     returned (for_each (zip (wo_Disks wo) (zip devices mounts)) (fill_disk T wo)) (\<lambda>r. case r of
       Inl e \<Rightarrow> seq (flushDisks mounts) (\<lambda>_. reportError (error_text e))
     | Inr _ \<Rightarrow> seq (mark_runs wo mounts (fill_bytes wo)) (\<lambda>_.
         seq (flushDisks mounts) (\<lambda>_.
         reportDone (fill_bytes wo)))))"

section \<open>Planning churn\<close>

type_synonym planFile = "string \<times> int"

record churnPlan =
  cp_dir :: string
  cp_rewrite :: "planFile list"
  cp_grow :: int

definition plan_bytes :: "churnPlan \<Rightarrow> int" where
  "plan_bytes p = fold (\<lambda>(_, sz) n. i64 (n + sz)) (cp_rewrite p) (cp_grow p)"

text \<open>\<open>rand.Shuffle\<close>: \<open>draw i\<close> is the number in \<open>0..i\<close> drawn for position \<open>i\<close>.\<close>

definition swap :: "nat \<Rightarrow> nat \<Rightarrow> 'a list \<Rightarrow> 'a list" where
  "swap i j xs = xs[i := xs ! j, j := xs ! i]"

fun shuffle_from :: "(nat \<Rightarrow> nat) \<Rightarrow> nat \<Rightarrow> 'a list \<Rightarrow> 'a list" where
  "shuffle_from draw 0 xs = xs"
| "shuffle_from draw (Suc i) xs = shuffle_from draw i (swap (Suc i) (draw (Suc i)) xs)"

definition pickChangeSet :: "tools \<Rightarrow> planFile list \<Rightarrow> int \<Rightarrow> 64 word \<Rightarrow> planFile list" where
  "pickChangeSet T files n rs =
     (if n \<le> 0 then []
      else if n \<ge> int (length files) then files
      else let idx = shuffle_from (tl_rand T (sint rs) (length files)) (length files - 1) [0..<length files]
           in map (\<lambda>i. files ! i) (sort (take (nat n) idx)))"

text \<open>How many of \<open>len\<close> files to rewrite.\<close>

definition change_count :: "work_order \<Rightarrow> nat \<Rightarrow> int" where
  "change_count wo len = (let
       n = f_trunc (f_add (f_div (f_mul (f_of_int (int len)) (wo_ChangePercent wo)) 100) (1/2));
       n' = (if wo_ChangePercent wo > 0 \<and> n = 0 \<and> len > 0 then 1 else n)
     in if n' > int len then int len else n')"

definition stat_entry :: "string \<times> string option \<Rightarrow> planFile list \<times> int \<Rightarrow> (machine, planFile list \<times> int) prog" where
  "stat_entry = (\<lambda>(name, c) (files, n). case c of None \<Rightarrow> ret (files, n)
     | Some b \<Rightarrow> seq (syscall (ret ())) (\<lambda>_. ret (files @ [(name, int (length b))], i64 (n + int (length b)))))"

definition planChurn :: "tools \<Rightarrow> work_order \<Rightarrow> string \<Rightarrow> (machine, churnPlan) prog" where
  "planChurn T wo mnt =
     seq (wrap (''reading '' @ mnt @ ''/local (was it filled?): '') (read_dir mnt ''local'')) (\<lambda>entries.
     seq (fold_prog entries stat_entry ([], 0)) (\<lambda>(found, localBytes).
     let files = sort_key fst found in
     ret \<lparr>cp_dir = mnt @ ''/local'',
          cp_rewrite = pickChangeSet T files (change_count wo (length files)) (wo_RunSeed wo),
          cp_grow = f_trunc (f_div (f_mul (f_of_int localBytes) (wo_GrowthPercent wo)) 100)\<rparr>))"

section \<open>Applying churn\<close>

definition shortID :: "string \<Rightarrow> string" where
  "shortID s = (if length s > 8 then take 8 s else s)"

definition grow_name :: "work_order \<Rightarrow> string" where
  "grow_name wo = ''gf_grow_'' @ shortID (wo_RunID wo)"

definition growthFileNames :: "string \<Rightarrow> string \<Rightarrow> (machine, string list) prog" where
  "growthFileNames mnt runShort = attempt (read_dir mnt ''local'') (\<lambda>r. case r of
      Inl _ \<Rightarrow> ret []
    | Inr es \<Rightarrow> ret (filter (\<lambda>n. has_prefix n (''gf_grow_'' @ runShort @ ''.'')) (regular es)))"

definition rewrite_file :: "tools \<Rightarrow> work_order \<Rightarrow> string \<Rightarrow> churnPlan \<Rightarrow> nat \<times> planFile \<Rightarrow> string list \<Rightarrow> (machine, string list) prog" where
  "rewrite_file T wo mnt plan = (\<lambda>(i, name, sz) changed.
     seq (runFioStreaming T wo mnt ''local'' ''gf_chg'' (wo_RunSeed wo + word_of_nat i) sz (file_job (cp_dir plan @ ''/'' @ name) sz)) (\<lambda>_.
     ret (changed @ [''local/'' @ name])))"

definition applyChurn :: "tools \<Rightarrow> work_order \<Rightarrow> string \<Rightarrow> churnPlan \<Rightarrow> (machine, string list) prog" where
  "applyChurn T wo mnt plan =
     seq (fold_prog (enumerate 0 (cp_rewrite plan)) (rewrite_file T wo mnt plan) []) (\<lambda>changed.
     if cp_grow plan > 0 then
       if wo_FileSizeBytes wo = 0 then fail (ErrPanic ''integer divide by zero'')
       else seq (runFioStreaming T wo mnt ''local'' (grow_name wo) (wo_RunSeed wo XOR 0x9e37) (cp_grow plan)
           (dir_job (cp_dir plan) (cp_grow plan) (files_needed (cp_grow plan) (wo_FileSizeBytes wo)) (wo_FileSizeBytes wo))) (\<lambda>_.
         seq (growthFileNames mnt (shortID (wo_RunID wo))) (\<lambda>names.
         ret (changed @ map (\<lambda>n. ''local/'' @ n) names)))
     else ret changed)"

definition plan_disk :: "tools \<Rightarrow> work_order \<Rightarrow> string \<times> string \<Rightarrow> churnPlan list \<times> int \<Rightarrow> (machine, churnPlan list \<times> int) prog" where
  "plan_disk T wo = (\<lambda>(dev, mnt) (plans, n).
     seq (wrap (''disk '' @ dev @ '': '') (mountFS dev mnt (wo_Filesystem wo))) (\<lambda>_.
     seq (wrap (''disk '' @ dev @ '': '') (planChurn T wo mnt)) (\<lambda>p.
     ret (plans @ [p], i64 (n + plan_bytes p)))))"

definition churn_disk :: "tools \<Rightarrow> work_order \<Rightarrow> (disk_work \<times> string \<times> string) \<times> churnPlan \<Rightarrow> (machine, unit) prog" where
  "churn_disk T wo = (\<lambda>((disk, dev, mnt), plan).
     seq (wrap (''disk '' @ dev @ '': '') (applyChurn T wo mnt plan)) (\<lambda>changed.
     seq (writeIdentity mnt wo (dw_Index disk)) (\<lambda>_.
     wrap (''disk '' @ dev @ '' manifest: '') (updateDiskManifest T mnt (wo_RunID wo) changed))))"

definition runIncremental :: "tools \<Rightarrow> work_order \<Rightarrow> string list \<Rightarrow> string list \<Rightarrow> (machine, unit) prog" where
  "runIncremental T wo devices mounts =
     returned (fold_prog (take (length (wo_Disks wo)) (zip devices mounts)) (plan_disk T wo) ([], 0)) (\<lambda>r. case r of
       Inl e \<Rightarrow> reportError (error_text e)
     | Inr (plans, n) \<Rightarrow>
         seq (track (\<lambda>_. no_progress)) (\<lambda>_.
         returned (for_each (zip (zip (wo_Disks wo) (zip devices mounts)) plans) (churn_disk T wo)) (\<lambda>r. case r of
           Inl e \<Rightarrow> seq (flushDisks mounts) (\<lambda>_. reportError (error_text e))
         | Inr _ \<Rightarrow> seq (look (\<lambda>s. progress_bytes (mc_Prog s))) (\<lambda>written.
             seq (mark_runs wo mounts written) (\<lambda>_.
             seq (flushDisks mounts) (\<lambda>_.
             reportDone written))))))"

section \<open>Resuming\<close>

text \<open>\<open>strings.Fields\<close> and \<open>strconv.ParseInt\<close> (base 10, 64 bits) without its error.\<close>

fun fields_acc :: "string \<Rightarrow> string \<Rightarrow> string list" where
  "fields_acc w [] = (if w = [] then [] else [w])"
| "fields_acc w (c # s) = (if is_space c then (if w = [] then fields_acc [] s else w # fields_acc [] s) else fields_acc (w @ [c]) s)"

definition string_fields :: "string \<Rightarrow> string list" where
  "string_fields s = fields_acc [] s"

definition parse_int64 :: "string \<Rightarrow> int" where
  "parse_int64 s = (let d = (if s \<noteq> [] \<and> hd s \<in> {CHR ''-'', CHR ''+''} then tl s else s) in
     if d = [] \<or> (\<exists>c \<in> set d. \<not> is_digit c) then 0
     else if hd s = CHR ''-'' then max (- (2 ^ 63)) (- int (atoi d)) else min (2 ^ 63 - 1) (int (atoi d)))"

definition marker_text :: "doc \<Rightarrow> string" where
  "marker_text d = (case d of DText s \<Rightarrow> s | _ \<Rightarrow> ''{}'')"

fun complete_disks :: "work_order \<Rightarrow> (string \<times> string) list \<Rightarrow> int \<Rightarrow> (machine, int \<times> bool) prog" where
  "complete_disks wo [] n = ret (n, True)"
| "complete_disks wo ((dev, mnt) # ds) n =
     attempt (mountFS dev mnt (wo_Filesystem wo)) (\<lambda>r. case r of Inl _ \<Rightarrow> ret (0, False) | Inr _ \<Rightarrow>
     attempt (read_root mnt runMarkerFile) (\<lambda>q. case q of Inl _ \<Rightarrow> ret (0, False) | Inr d \<Rightarrow>
       let fields = string_fields (marker_text d) in
       if fields = [] \<or> hd fields \<noteq> wo_RunID wo then ret (0, False)
       else complete_disks wo ds (if length fields \<ge> 2 then parse_int64 (fields ! 1) else n)))"

definition runAlreadyComplete :: "work_order \<Rightarrow> string list \<Rightarrow> string list \<Rightarrow> (machine, int \<times> bool) prog" where
  "runAlreadyComplete wo devices mounts = complete_disks wo (take (length (wo_Disks wo)) (zip devices mounts)) 0"

end
