(* ===== verification/AgentVerify.thy ===== *)
theory AgentVerify
  imports AgentFill
begin

text \<open>
  \<open>cmd/agent/verify.go\<close>, and \<open>runFill\<close> of \<open>gen.go\<close>, which picks the job of a work order. The
  rolling throughput of a verify run only feeds progress samples and is left out. Go iterates a
  manifest's files in no order; the model takes the order of the list, and the problems are sorted.
\<close>

section \<open>Verifying\<close>

definition dash :: string where "dash = map char_of [226::nat, 128, 148]"
definition ellipsis :: string where "ellipsis = map char_of [226::nat, 128, 166]"

definition mountFSReadOnly :: "string \<Rightarrow> string \<Rightarrow> string \<Rightarrow> (machine, unit) prog" where
  "mountFSReadOnly dev mnt fstype =
     seq (ignore (unmount mnt)) (\<lambda>_.
     seq (syscall (ret ())) (\<lambda>_.
     wrap (''mount '' @ dev @ '' read-only: '') (mount dev mnt fstype True)))"

record verify_disk =
  vd_mnt :: string
  vd_manifest :: manifest
  vd_files :: "string list"

text \<open>Calls whose error is put into a message of its own.\<close>

definition told_as :: "(string \<Rightarrow> string) \<Rightarrow> (machine, 'a) prog \<Rightarrow> (machine, 'a) prog" where
  "told_as f m = attempt m (\<lambda>r. case r of Inl e \<Rightarrow> fail (ErrOther (f (error_text e))) | Inr x \<Rightarrow> ret x)"

definition manifest_bytes :: "manifest \<Rightarrow> int \<Rightarrow> int" where
  "manifest_bytes m n = fold (\<lambda>(_, e) n. i64 (n + me_Size e)) (mf_Files m) n"

definition load_disk :: "work_order \<Rightarrow> string \<times> string \<Rightarrow> verify_disk list \<times> int \<Rightarrow> (machine, verify_disk list \<times> int) prog" where
  "load_disk wo = (\<lambda>(dev, mnt) (disks, n).
     seq (told_as (\<lambda>e. ''disk '' @ dev @ '': '' @ e @ '' (was it ever filled?)'') (mountFSReadOnly dev mnt (wo_Filesystem wo))) (\<lambda>_.
     seq (told_as (\<lambda>e. ''disk '' @ dev @ '': no checksum manifest ('' @ e @ '') '' @ dash
         @ '' data predates verify support; run a fill/incremental first'') (loadManifest mnt)) (\<lambda>m.
     seq (told_as (\<lambda>e. ''disk '' @ dev @ '': '' @ e) (listDataFiles mnt)) (\<lambda>files.
     ret (disks @ [\<lparr>vd_mnt = mnt, vd_manifest = m, vd_files = files\<rparr>], manifest_bytes m n)))))"

text \<open>Problems found so far, and bytes read.\<close>

definition on_disk :: "nat \<Rightarrow> string \<Rightarrow> string" where
  "on_disk i rel = ''disk'' @ itoa (int i) @ '' '' @ rel @ '': ''"

definition check_file :: "tools \<Rightarrow> nat \<Rightarrow> verify_disk \<Rightarrow> string \<Rightarrow> string list \<times> int \<Rightarrow> (machine, string list \<times> int) prog" where
  "check_file T i d rel = (\<lambda>(problems, n). case map_of (mf_Files (vd_manifest d)) rel of
      None \<Rightarrow> ret (problems @ [on_disk i rel @ ''unexpected file (not in manifest)''], n)
    | Some e \<Rightarrow> seq (wrap (on_disk i rel) (hashFile T (vd_mnt d) rel)) (\<lambda>(sz, h).
        ret (problems @ (if sz \<noteq> me_Size e then [on_disk i rel @ ''size '' @ itoa sz @ '', expected '' @ itoa (me_Size e)]
               else if h \<noteq> me_SHA256 e then [on_disk i rel @ ''checksum mismatch''] else []), i64 (n + sz))))"

definition missing_files :: "nat \<Rightarrow> verify_disk \<Rightarrow> string list" where
  "missing_files i d = map (\<lambda>(rel, _). on_disk i rel @ ''missing'') (filter (\<lambda>(rel, _). rel \<notin> set (vd_files d)) (mf_Files (vd_manifest d)))"

definition check_disk :: "tools \<Rightarrow> nat \<times> verify_disk \<Rightarrow> string list \<times> int \<Rightarrow> (machine, string list \<times> int) prog" where
  "check_disk T = (\<lambda>(i, d) acc. seq (fold_prog (vd_files d) (check_file T i d) acc) (\<lambda>(problems, n). ret (problems @ missing_files i d, n)))"

definition verify_message :: "string list \<Rightarrow> string" where
  "verify_message problems =
     (let p = sort problems;
          shown = (if length p > 8 then take 8 p @ [ellipsis @ '' and '' @ itoa (int (length p) - 8) @ '' more (see VM console)''] else p)
      in ''verification failed, '' @ itoa (int (length p)) @ '' problem(s): '' @ join ''; '' shown)"

definition runVerify :: "tools \<Rightarrow> work_order \<Rightarrow> string list \<Rightarrow> string list \<Rightarrow> (machine, unit) prog" where
  "runVerify T wo devices mounts =
     attempt (fold_prog (take (length (wo_Disks wo)) (zip devices mounts)) (load_disk wo) ([], 0)) (\<lambda>r. case r of
       Inl e \<Rightarrow> reportError (error_text e)
     | Inr (disks, n) \<Rightarrow>
         if disks = [] then fail (ErrPanic ''index out of range [0] with length 0'')
         else seq (track (\<lambda>_. startJob n no_progress)) (\<lambda>_.
           attempt (fold_prog (enumerate 0 disks) (check_disk T) ([], 0)) (\<lambda>r.
             seq (track (progress_update 1 0)) (\<lambda>_. case r of
               Inl e \<Rightarrow> reportError (error_text e)
             | Inr (problems, got) \<Rightarrow> if problems \<noteq> [] then reportError (verify_message problems) else reportDone got))))"

section \<open>Dispatch on the type of run\<close>

definition disk_mounts :: "work_order \<Rightarrow> string list" where
  "disk_mounts wo = map (\<lambda>d. ''/mnt/disk'' @ itoa (dw_Index d)) (wo_Disks wo)"

definition runFill_agent :: "tools \<Rightarrow> work_order \<Rightarrow> (machine, unit) prog" where
  "runFill_agent T wo = attempt (dataDisks (length (wo_Disks wo))) (\<lambda>r. case r of
      Inl e \<Rightarrow> reportError (error_text e)
    | Inr devices \<Rightarrow> let mounts = disk_mounts wo in
        if wo_RunType wo = RunVerify then runVerify T wo devices mounts
        else seq (runAlreadyComplete wo devices mounts) (\<lambda>(n, ok).
          if ok then seq (flushDisks mounts) (\<lambda>_. reportDone n)
          else if wo_RunType wo = RunIncremental then runIncremental T wo devices mounts
          else runInitialFill T wo devices mounts))"

end
