(* ===== verification/AgentExact.thy ===== *)
theory AgentExact
  imports AgentVerify
begin

text \<open>
  What a run that reports \<open>done\<close> leaves on the disks: a manifest that describes exactly the data
  files that are there, for an initial fill whatever was there before, for an incremental run when
  the manifest it found was right. The behaviour of fio these proofs rely on is
  \<open>fio_documented\<close>: a job writes no file but its own.
\<close>

section \<open>What a step leaves alone\<close>

text \<open>The work on one disk: other devices, other mount points and the reports stay.\<close>

definition works :: "string \<Rightarrow> string \<Rightarrow> machine \<Rightarrow> machine \<Rightarrow> bool" where
  "works dev mnt s t \<longleftrightarrow> (\<forall>d. d \<noteq> dev \<longrightarrow> fs_of t d = fs_of s d) \<and> (\<forall>m. m \<noteq> mnt \<longrightarrow> mc_Mounts t m = mc_Mounts s m)
     \<and> map fst (mc_Block t) = map fst (mc_Block s) \<and> mc_Sent t = mc_Sent s"

lemma works_refl [simp]: "works dev mnt s s"
  by (simp add: works_def)

lemma works_trans: "works dev mnt s t \<Longrightarrow> works dev mnt t u \<Longrightarrow> works dev mnt s u"
  by (simp add: works_def)

lemma works_still: "still s t \<Longrightarrow> works dev mnt s t"
  by (auto simp: works_def dest: stillD)

lemma works_edits: "edits mnt f s t \<Longrightarrow> mounted mnt s dev ro fs \<Longrightarrow> works dev mnt s t"
  by (auto simp: works_def edits_other dest: edits_frame)

text \<open>\<open>develops R\<close>: while mounted, the filesystem changes as \<open>R\<close> says, and nothing else does.\<close>

definition develops :: "string \<Rightarrow> string \<Rightarrow> (filesystem \<Rightarrow> filesystem \<Rightarrow> bool) \<Rightarrow> machine \<Rightarrow> machine \<Rightarrow> bool" where
  "develops dev mnt R s t \<longleftrightarrow> (\<forall>fs. mounted mnt s dev False fs \<longrightarrow> works dev mnt s t \<and> (\<exists>fs'. mounted mnt t dev False fs' \<and> R fs fs'))"

lemma developsE:
  assumes "develops dev mnt R s t" "mounted mnt s dev False fs"
  obtains fs' where "mounted mnt t dev False fs'" "R fs fs'" "works dev mnt s t"
  using assms by (auto simp: develops_def)

lemma develops_trans: "develops dev mnt R s t \<Longrightarrow> develops dev mnt Q t u \<Longrightarrow> develops dev mnt (R OO Q) s u"
  unfolding develops_def by (metis relcompp.relcompI works_trans)

lemma develops_mono: "develops dev mnt R s t \<Longrightarrow> (\<And>x y. R x y \<Longrightarrow> Q x y) \<Longrightarrow> develops dev mnt Q s t"
  unfolding develops_def by blast

lemma develops_still: "still s t \<Longrightarrow> R = (=) \<Longrightarrow> develops dev mnt R s t"
  by (auto simp: develops_def works_still mounted_still)

lemma develops_edits: "edits mnt f s t \<Longrightarrow> develops dev mnt (\<lambda>x y. y = f x) s t"
  unfolding develops_def using works_edits edits_mounted by blast

section \<open>Single steps\<close>

lemma unmount_cases:
  assumes "ignore (unmount mnt) s = (q, t)"
  obtains M fl where "t = s\<lparr>mc_Faults := fl, mc_Mounts := M\<rparr>" "\<And>m. m \<noteq> mnt \<Longrightarrow> M m = mc_Mounts s m"
proof (cases "mc_Faults s")
  case Nil
  then show ?thesis using assms that [of "(mc_Mounts s)(mnt := None)" "mc_Faults s"]
    by (cases s) (auto simp: ignore_def attempt_def ret_def unmount_def syscall_def change_def)
next
  case (Cons f fl)
  then show ?thesis using assms that [of "(mc_Mounts s)(mnt := None)" fl] that [of "mc_Mounts s" fl]
    by (cases f; cases s) (auto simp: ignore_def attempt_def ret_def unmount_def syscall_def change_def)
qed

lemma mount_InrD: "mount dev mnt fstype ro s = (Inr x, t) \<Longrightarrow>
    \<exists>fl fs. t = s\<lparr>mc_Faults := fl, mc_Mounts := (mc_Mounts s)(mnt \<mapsto> (dev, ro))\<rparr> \<and> fs_of s dev = Some fs \<and> fs_Type fs = fstype"
  by (auto simp: mount_def elim!: syscall_InrE split: option.splits if_splits)

lemma makeFS_InrD:
  assumes "makeFS dev mnt fstype s = (Inr x, t)"
  shows "mounted mnt t dev False (empty_fs fstype) \<and> works dev mnt s t"
proof -
  from assms obtain s1 s2 s3 where u: "ignore (unmount mnt) s = (Inr (), s1)" and k: "mkfs fstype dev s1 = (Inr (), s2)"
    and d: "syscall (ret ()) s2 = (Inr (), s3)" and m: "mount dev mnt fstype False s3 = (Inr x, t)"
    by (auto simp: makeFS_def elim!: seq_InrE dest!: wrap_InrD)
  have 1: "works dev mnt s s1" by (rule unmount_cases [OF u]) (simp add: works_def)
  obtain fl where fl: "map_of (mc_Block s1) dev \<noteq> None" "s2 = set_fs dev (empty_fs fstype) (s1\<lparr>mc_Faults := fl\<rparr>)"
    using k by (auto simp: mkfs_def elim!: syscall_InrE split: if_splits)
  have 2: "works dev mnt s1 s2" "fs_of s2 dev = Some (empty_fs fstype)" using fl by (auto simp: works_def fs_of_set_fs)
  have 3: "still s2 s3" using d by (rule silentD [rotated]) (intro silent_intros)
  have 4: "works dev mnt s3 t \<and> mounted mnt t dev False (empty_fs fstype)" using mount_InrD [OF m] 2(2) stillD [OF 3]
    by (auto simp: works_def mounted_def)
  show ?thesis using works_trans [OF works_trans [OF works_trans [OF 1 2(1)] works_still [OF 3]]] 4 by simp
qed

lemma fs_write_develops: "syscall (fs_write mnt f) s = (Inr x, t) \<Longrightarrow> develops dev mnt (\<lambda>x y. y = f x) s t"
  by (intro develops_edits fs_write_InrD)

lemma mkdir_InrD: "mkdir mnt dir s = (Inr x, t) \<Longrightarrow> develops dev mnt (\<lambda>x y. fs_Root y = fs_Root x \<and> fs_Type y = fs_Type x) s t"
  unfolding mkdir_def by (drule fs_write_develops [where dev = dev]) (auto elim!: develops_mono)

lemma track_develops: "track f s = (q, t) \<Longrightarrow> develops dev mnt (=) s t"
  by (auto simp: track_def change_def develops_def mounted_def works_def fs_of_def)

text \<open>A fio job that succeeds has put files it names into its directory, and nothing else.\<close>

definition puts :: "string \<Rightarrow> string set \<Rightarrow> filesystem \<Rightarrow> filesystem \<Rightarrow> bool" where
  "puts dir names x y \<longleftrightarrow> (\<exists>ws. fst ` set ws \<subseteq> names \<and> y = put_files dir ws x)"

lemma fio_process_develops:
  assumes "fio_process T mnt dir args s = (Inr (None, out), t)"
  shows "develops dev mnt (puts dir (fst ` set (fst (tl_fio T args)))) s t"
proof -
  obtain files o1 where T: "tl_fio T args = (files, o1)" by fastforce
  have "fs_write mnt (put_files dir files) (s\<lparr>mc_Fio := tl (mc_Fio s)\<rparr>) = (Inr (), t)"
    using assms T by (auto simp: fio_process_def Let_def split: prod.splits sum.splits list.splits option.splits)
  then obtain d ro fs where m: "mounted mnt s d False fs" and t: "t = set_fs d (put_files dir files fs) (s\<lparr>mc_Fio := tl (mc_Fio s)\<rparr>)"
    by (auto simp: fs_write_def mounted_def split: option.splits if_splits)
  have "puts dir (fst ` set files) fs (put_files dir files fs)" by (auto simp: puts_def)
  with m t T fs_of_blocked [of s d fs] show ?thesis
    by (auto simp: develops_def mounted_def works_def fs_of_set_fs)
qed

lemma fio_develops:
  assumes "runFioStreaming T wo mnt dir name rs b extra s = (Inr x, t)"
  shows "develops dev mnt (puts dir (fst ` set (fst (tl_fio T (fio_args wo name rs extra))))) s t"
proof -
  obtain s1 s2 s3 out recent s4 where a: "track (startJob b) s = (Inr (), s1)" and c: "syscall (ret ()) s1 = (Inr (), s2)"
    and f: "fio_process T mnt dir (fio_args wo name rs extra) s2 = (Inr (None, out), s3)"
    and d: "track (\<lambda>p. snd (fio_follow out p)) s3 = (Inr (), s4)" and e: "track (\<lambda>p. progress_update 1 (pg_mbps p) p) s4 = (Inr x, t)"
    using assms by (auto simp: runFioStreaming_def fail_def look_def elim!: seq_InrE dest!: wrap_InrD split: option.splits)
  have "still s1 s2" using c by (rule silentD [rotated]) (intro silent_intros)
  note develops_trans [OF develops_trans [OF develops_trans [OF develops_trans [OF track_develops [OF a] develops_still [OF this refl]]
      fio_process_develops [OF f]] track_develops [OF d]] track_develops [OF e]]
  then show ?thesis by (simp add: eq_OO OO_eq)
qed

section \<open>Filling one disk\<close>

definition exact :: "tools \<Rightarrow> string \<Rightarrow> filesystem \<Rightarrow> bool" where
  "exact T runID fs \<longleftrightarrow> fs_Root fs ManifestFile = Some (DManifest (exact_manifest T runID fs))"

definition described :: "tools \<Rightarrow> work_order \<Rightarrow> filesystem \<Rightarrow> bool" where
  "described T wo fs \<longleftrightarrow> fs_Type fs = wo_Filesystem wo \<and> exact T (wo_RunID wo) fs"

text \<open>Steps that leave the data files, or the manifest, alone.\<close>

definition same_root :: "filesystem \<Rightarrow> filesystem \<Rightarrow> bool" where
  "same_root x y \<longleftrightarrow> fs_Root y = fs_Root x \<and> fs_Type y = fs_Type x"

definition same_data :: "filesystem \<Rightarrow> filesystem \<Rightarrow> bool" where
  "same_data x y \<longleftrightarrow> fs_Dirs y = fs_Dirs x \<and> fs_Root y ManifestFile = fs_Root x ManifestFile \<and> fs_Type y = fs_Type x"

lemma same_data_refl [simp]: "same_data x x"
  by (simp add: same_data_def)

lemma same_data_trans: "same_data x y \<Longrightarrow> same_data y z \<Longrightarrow> same_data x z"
  by (simp add: same_data_def)

lemma data_rels_cong: "fs_Dirs y = fs_Dirs x \<Longrightarrow> data_rels y = data_rels x \<and> entry T y = entry T x \<and> content y = content x"
  by (simp add: data_rels_def entry_def content_def file_at_def fun_eq_iff)

lemma exact_same_data: "same_data x y \<Longrightarrow> exact T r y = exact T r x"
  using data_rels_cong [of y x T] by (simp add: exact_def exact_manifest_def same_data_def)

lemma described_same_data: "same_data x y \<Longrightarrow> described T wo y = described T wo x"
  using exact_same_data [of x y] by (simp add: described_def same_data_def)

lemma old_entry_same_data: "same_data x y \<Longrightarrow> old_entry y = old_entry x"
  by (simp add: same_data_def old_entry_def)

lemma marker_names: "ManifestFile \<noteq> IdentityFile" "ManifestFile \<noteq> runMarkerFile" "ManifestFile \<noteq> ManifestFile @ ''.tmp''"
  by (simp_all add: ManifestFile_def IdentityFile_def runMarkerFile_def)

lemma put_root_same_data: "name \<noteq> ManifestFile \<Longrightarrow> same_data x (put_root name d x)"
  by (simp add: same_data_def put_root_def)

lemma writeFileSync_develops:
  assumes "writeFileSync mnt name d s = (q, t)" "name \<noteq> ManifestFile"
  shows "develops dev mnt same_data s t"
proof (cases "still s t")
  case True
  then show ?thesis by (intro develops_mono [OF develops_still [OF True refl]]) simp
next
  case False
  with writeFileSync_cases [OF assms(1)] obtain d' where "edits mnt (put_root name d') s t" by blast
  from develops_mono [OF develops_edits [OF this]] show ?thesis using put_root_same_data [OF assms(2)] by blast
qed

lemma ignore_eq: "ignore m s = (q, t) \<Longrightarrow> \<exists>r. m s = (r, t)"
  by (auto simp: ignore_def attempt_def ret_def split: prod.splits)

lemma writeIdentity_develops: "writeIdentity mnt wo i s = (q, t) \<Longrightarrow> develops dev mnt same_data s t"
  using marker_names develops_mono [OF develops_still [OF still_refl refl]]
  by (auto simp: writeIdentity_def ret_def split: option.splits dest!: ignore_eq intro!: writeFileSync_develops)

lemma puts_same_root: "puts dir names x y \<Longrightarrow> same_root x y"
  by (auto simp: puts_def same_root_def put_files_def split: option.splits)

lemma fillRegion_develops: "fillRegion T wo mnt region b rs s = (Inr x, t) \<Longrightarrow> develops dev mnt same_root s t"
proof (cases "b \<le> 0")
  case True
  assume "fillRegion T wo mnt region b rs s = (Inr x, t)"
  with True show ?thesis by (auto simp: fillRegion_def ret_def same_root_def intro: develops_mono [OF develops_still [OF still_refl refl]])
next
  case False
  assume "fillRegion T wo mnt region b rs s = (Inr x, t)"
  with False obtain s1 extra where m: "mkdir mnt region s = (Inr (), s1)"
    and f: "runFioStreaming T wo mnt region (''gf_'' @ region) rs b extra s1 = (Inr x, t)"
    by (auto simp: fillRegion_def fail_def elim!: seq_InrE split: if_splits)
  from develops_trans [OF mkdir_InrD [OF m] develops_mono [OF fio_develops [OF f] puts_same_root]] show ?thesis
    by (rule develops_mono) (auto simp: same_root_def)
qed

lemma described_new_manifest: "described T wo (new_manifest (exact_manifest T (wo_RunID wo) fs) fs) \<longleftrightarrow> fs_Type fs = wo_Filesystem wo"
  using data_rels_cong [of "new_manifest (exact_manifest T (wo_RunID wo) fs) fs" fs T] marker_names
  by (simp add: described_def exact_def new_manifest_def exact_manifest_def)

lemma fill_disk_InrD:
  assumes "fill_disk T wo (disk, dev, mnt) s = (Inr x, t)"
  shows "works dev mnt s t \<and> (\<exists>fs. mounted mnt t dev False fs \<and> described T wo fs)"
proof -
  from assms obtain s1 s2 s3 s4 where m: "makeFS dev mnt (wo_Filesystem wo) s = (Inr (), s1)"
    and g: "fillRegion T wo mnt ''global'' (dw_GlobalBytes disk) (dw_GlobalSeed disk) s1 = (Inr (), s2)"
    and l: "fillRegion T wo mnt ''local'' (dw_LocalBytes disk) (dw_LocalSeed disk) s2 = (Inr (), s3)"
    and i: "writeIdentity mnt wo (dw_Index disk) s3 = (Inr (), s4)"
    and u: "updateDiskManifest T mnt (wo_RunID wo) [] s4 = (Inr x, t)"
    by (auto simp: fill_disk_def elim!: seq_InrE dest!: wrap_InrD)
  note m1 = makeFS_InrD [OF m]
  obtain fs2 where 2: "mounted mnt s4 dev False fs2" "works dev mnt s1 s4" "(same_root OO same_root OO same_data) (empty_fs (wo_Filesystem wo)) fs2"
    by (rule developsE [OF develops_trans [OF fillRegion_develops [OF g] develops_trans [OF fillRegion_develops [OF l] writeIdentity_develops [OF i]]]
        conjunct1 [OF m1]])
  then have "old_entry fs2 = Map.empty" and ty: "fs_Type fs2 = wo_Filesystem wo"
    by (auto simp: same_root_def same_data_def old_entry_def empty_fs_def)
  then have e: "edits mnt (new_manifest (exact_manifest T (wo_RunID wo) fs2)) s4 t"
    by (intro updateDiskManifest_InrD [OF u 2(1)]) simp
  have "described T wo (new_manifest (exact_manifest T (wo_RunID wo) fs2) fs2)" using described_new_manifest ty by simp
  then show ?thesis
    using edits_mounted [OF e 2(1)] works_trans [OF conjunct2 [OF m1] works_trans [OF 2(2) works_edits [OF e 2(1)]]] by blast
qed

section \<open>All disks of a fill\<close>

lemma fill_disks_InrD:
  "for_each xs (fill_disk T wo) s = (Inr u, t) \<Longrightarrow> distinct (map (\<lambda>(_, dev, _). dev) xs) \<Longrightarrow>
   mc_Sent t = mc_Sent s \<and> (\<forall>dev. dev \<notin> set (map (\<lambda>(_, dev, _). dev) xs) \<longrightarrow> fs_of t dev = fs_of s dev)
   \<and> (\<forall>dev \<in> set (map (\<lambda>(_, dev, _). dev) xs). \<exists>fs. fs_of t dev = Some fs \<and> described T wo fs)
   \<and> (\<forall>m. m \<notin> set (map (\<lambda>(_, _, mnt). mnt) xs) \<longrightarrow> mc_Mounts t m = mc_Mounts s m)
   \<and> (distinct (map (\<lambda>(_, _, mnt). mnt) xs) \<longrightarrow> (\<forall>(_, dev, mnt) \<in> set xs. mc_Mounts t mnt = Some (dev, False)))
   \<and> map fst (mc_Block t) = map fst (mc_Block s)"
proof (induction xs arbitrary: s)
  case Nil
  then show ?case by (simp add: ret_def)
next
  case (Cons x xs)
  obtain disk dev mnt where x: "x = (disk, dev, mnt)" by (cases x)
  from Cons.prems(1) x obtain s1 where f: "fill_disk T wo (disk, dev, mnt) s = (Inr (), s1)" and l: "for_each xs (fill_disk T wo) s1 = (Inr u, t)"
    by (auto elim!: seq_InrE)
  note d = fill_disk_InrD [OF f]
  note IH = Cons.IH [OF l] Cons.prems(2) [unfolded x]
  have "fs_of t dev = fs_of s1 dev" using IH by simp
  then have "\<exists>fs. fs_of t dev = Some fs \<and> described T wo fs" using d by (auto simp: mounted_def)
  moreover have "mnt \<notin> set (map (\<lambda>(_, _, mnt). mnt) xs) \<longrightarrow> mc_Mounts t mnt = Some (dev, False)" using IH d by (auto simp: mounted_def)
  ultimately show ?case using IH d x by (auto simp: works_def)
qed

text \<open>The end of a run: run markers, unmounts and the report keep data and manifests.\<close>

definition keeps_data :: "machine \<Rightarrow> machine \<Rightarrow> bool" where
  "keeps_data s t \<longleftrightarrow> (\<forall>dev fs. fs_of s dev = Some fs \<longrightarrow> (\<exists>fs'. fs_of t dev = Some fs' \<and> same_data fs fs'))"

lemma keeps_data_refl [simp]: "keeps_data s s"
  by (auto simp: keeps_data_def)

lemma keeps_data_trans: "keeps_data s t \<Longrightarrow> keeps_data t u \<Longrightarrow> keeps_data s u"
  unfolding keeps_data_def using same_data_trans by blast

lemma keeps_data_still: "still s t \<Longrightarrow> keeps_data s t"
  by (auto simp: keeps_data_def dest: stillD)

lemma keeps_data_edits:
  assumes "edits mnt f s t" "\<And>x. same_data x (f x)"
  shows "keeps_data s t"
proof -
  obtain dev fs where m: "mounted mnt s dev False fs" and st: "still (set_fs dev (f fs) s) t" using assms(1) by (auto simp: edits_def)
  show ?thesis using m stillD [OF st] assms(2) [of fs] fs_of_blocked [of s dev fs] by (auto simp: keeps_data_def fs_of_set_fs mounted_def)
qed

lemma marked_InrD:
  "mark_runs wo mounts n s = (q, t) \<Longrightarrow> keeps_data s t \<and> mc_Sent t = mc_Sent s \<and> q = Inr ()"
  unfolding mark_runs_def
proof (induction mounts arbitrary: s)
  case Nil
  then show ?case by (simp add: ret_def)
next
  case (Cons m ms)
  obtain q1 s1 where w: "writeRunMarker m (wo_RunID wo) n s = (q1, s1)" by fastforce
  have q1: "q1 = Inr ()" using w by (auto simp: writeRunMarker_def ignore_def attempt_def ret_def split: prod.splits)
  from w obtain r where "writeFileSync m runMarkerFile (DText (wo_RunID wo @ '' '' @ itoa n)) s = (r, s1)"
    unfolding writeRunMarker_def by (blast dest: ignore_eq)
  from writeFileSync_cases [OF this] have "keeps_data s s1 \<and> mc_Sent s1 = mc_Sent s"
    using marker_names put_root_same_data keeps_data_edits keeps_data_still by (metis edits_frame stillD)
  then show ?case using Cons w q1 keeps_data_trans by (fastforce simp: seq_eq)
qed

lemma flushed_InrD: "flushDisks mounts s = (q, t) \<Longrightarrow> fs_of t = fs_of s \<and> mc_Sent t = mc_Sent s \<and> q = Inr ()"
  unfolding flushDisks_def
proof (induction mounts arbitrary: s)
  case Nil
  then show ?case by (simp add: ret_def)
next
  case (Cons m ms)
  obtain q1 s1 where u: "ignore (unmount m) s = (q1, s1)" by fastforce
  have q1: "q1 = Inr ()" using u by (auto simp: ignore_def attempt_def ret_def split: prod.splits)
  have "fs_of s1 = fs_of s \<and> mc_Sent s1 = mc_Sent s" by (rule unmount_cases [OF u]) simp
  then show ?case using Cons u q1 by (auto simp: seq_eq)
qed

lemma told_frame: "told r k s t \<Longrightarrow> fs_of t = fs_of s \<and> mc_Block t = mc_Block s \<and> mc_Faults t = mc_Faults s \<and> mc_Sent t = mc_Sent s @ replicate k r"
  by (auto simp: told_def)

lemma reported_once: "reportDone n s = (q, t) \<Longrightarrow> \<exists>k. q = Inr () \<and> told (Done n) k s t \<and> 0 < k \<and> k \<le> 12"
  "reportError e s = (q, t) \<Longrightarrow> \<exists>k. q = Inr () \<and> told (Failed e) k s t \<and> 0 < k \<and> k \<le> 12"
  using postReliable_told [of "Done n" s] postReliable_told [of "Failed e" s] by (auto simp: reportDone_def reportError_def)

text \<open>How the runs end.\<close>

lemma finish_run:
  assumes "seq (mark_runs wo mounts n) (\<lambda>_. seq (flushDisks mounts) (\<lambda>_. reportDone n)) s = (q, t)"
  shows "\<exists>k. q = Inr () \<and> keeps_data s t \<and> mc_Sent t = mc_Sent s @ replicate k (Done n) \<and> 0 < k \<and> k \<le> 12"
proof -
  obtain q1 s1 q2 s2 where 1: "mark_runs wo mounts n s = (q1, s1)" and 2: "flushDisks mounts s1 = (q2, s2)" by fastforce
  have "reportDone n s2 = (q, t)" using assms marked_InrD [OF 1] flushed_InrD [OF 2] 1 2 by (simp add: seq_eq)
  from reported_once(1) [OF this] marked_InrD [OF 1] flushed_InrD [OF 2] show ?thesis
    by (auto simp: keeps_data_def dest!: told_frame)
qed

lemma returned_cases:
  assumes "returned m k s = (Inr x, t)"
  obtains e u where "m s = (Inl e, u)" "\<not> panicked e" "k (Inl e) u = (Inr x, t)" | y u where "m s = (Inr y, u)" "k (Inr y) u = (Inr x, t)"
  using assms by (auto simp: returned_def attempt_def fail_def split: prod.splits sum.splits if_splits)

lemma zip_devices:
  assumes "length devices = length ds" "length mounts = length ds"
  shows "map (\<lambda>(_, dev, _). dev) (zip ds (zip devices mounts)) = devices"
    and "map (\<lambda>(_, _, mnt). mnt) (zip ds (zip devices mounts)) = mounts"
proof -
  have "map (\<lambda>(_, dev, _). dev) (zip ds (zip devices mounts)) = map fst (map snd (zip ds (zip devices mounts)))"
    "map (\<lambda>(_, _, mnt). mnt) (zip ds (zip devices mounts)) = map snd (map snd (zip ds (zip devices mounts)))"
    by (auto simp: split_beta)
  with assms show "map (\<lambda>(_, dev, _). dev) (zip ds (zip devices mounts)) = devices" "map (\<lambda>(_, _, mnt). mnt) (zip ds (zip devices mounts)) = mounts"
    by (simp_all del: map_map)
qed

lemma last_report: "rs @ replicate k r = rs' @ replicate k' r' \<Longrightarrow> 0 < k \<Longrightarrow> 0 < k' \<Longrightarrow> r = r'"
  by (metis last_appendR last_replicate neq0_conv replicate_empty)

text \<open>
  C2. An initial fill that reports \<open>done\<close> leaves on every disk a manifest of this run that
  lists exactly the data files that are there, each with its size and checksum, on a filesystem of
  the ordered type, whatever the disks held before and whichever calls failed on the way.
\<close>

theorem fill_leaves_exact:
  assumes run: "runInitialFill T wo devices mounts s = (Inr (), t)"
    and sent: "mc_Sent t = mc_Sent s @ replicate k (Done n)" "0 < k"
    and devs: "distinct devices" "length devices = length (wo_Disks wo)" "length mounts = length (wo_Disks wo)"
  shows "\<forall>dev \<in> set devices. \<exists>fs. fs_of t dev = Some fs \<and> described T wo fs"
proof -
  define s0 where "s0 = s\<lparr>mc_Prog := no_progress\<rparr>"
  from run have "returned (for_each (zip (wo_Disks wo) (zip devices mounts)) (fill_disk T wo)) (\<lambda>r. case r of
       Inl e \<Rightarrow> seq (flushDisks mounts) (\<lambda>_. reportError (error_text e))
     | Inr _ \<Rightarrow> seq (mark_runs wo mounts (fill_bytes wo)) (\<lambda>_. seq (flushDisks mounts) (\<lambda>_. reportDone (fill_bytes wo)))) s0 = (Inr (), t)"
    by (simp add: runInitialFill_def seq_eq track_def change_def s0_def)
  then show ?thesis
  proof (rule returned_cases)
    fix e u assume "(case Inl e of Inl e \<Rightarrow> seq (flushDisks mounts) (\<lambda>_. reportError (error_text e))
      | Inr y \<Rightarrow> seq (mark_runs wo mounts (fill_bytes wo)) (\<lambda>_. seq (flushDisks mounts) (\<lambda>_. reportDone (fill_bytes wo)))) u = (Inr (), t)"
    then obtain v where "reportError (error_text e) v = (Inr (), t)" by (auto elim: seq_InrE)
    from reported_once(2) [OF this] sent show ?thesis using last_report by (fastforce dest!: told_frame)
  next
    fix y u assume loop: "for_each (zip (wo_Disks wo) (zip devices mounts)) (fill_disk T wo) s0 = (Inr y, u)"
      and "(case Inr y of Inl e \<Rightarrow> seq (flushDisks mounts) (\<lambda>_. reportError (error_text e))
      | Inr y \<Rightarrow> seq (mark_runs wo mounts (fill_bytes wo)) (\<lambda>_. seq (flushDisks mounts) (\<lambda>_. reportDone (fill_bytes wo)))) u = (Inr (), t)"
    then have "keeps_data u t" using finish_run [of wo mounts "fill_bytes wo" u "Inr ()" t] by simp
    moreover have "\<forall>dev \<in> set devices. \<exists>fs. fs_of u dev = Some fs \<and> described T wo fs"
      using fill_disks_InrD [OF loop, unfolded zip_devices(1) [OF devs(2,3)]] devs(1) by blast
    ultimately show ?thesis unfolding keeps_data_def using described_same_data by meson
  qed
qed

end
