(* ===== verification/AgentChurn.thy ===== *)
theory AgentChurn
  imports AgentExact "HOL-Library.Multiset"
begin

text \<open>
  Incremental runs: which files are picked, and that a run that reports \<open>done\<close> leaves manifests
  that describe the churned disks exactly, provided the manifests it found were right.
\<close>

section \<open>The pick\<close>

text \<open>\<open>rand.Shuffle\<close> draws from \<open>0..i\<close> for position \<open>i\<close>.\<close>

definition rand_documented :: "tools \<Rightarrow> bool" where
  "rand_documented T \<longleftrightarrow> (\<forall>sd n i. tl_rand T sd n i \<le> i)"

lemma mset_swap_at: "i < length xs \<Longrightarrow> j < length xs \<Longrightarrow> mset (swap i j xs) = mset xs"
  by (simp add: swap_def mset_swap)

lemma length_swap [simp]: "length (swap i j xs) = length xs"
  by (simp add: swap_def)

lemma mset_shuffle: "i < length xs \<Longrightarrow> (\<And>k. draw k \<le> k) \<Longrightarrow> mset (shuffle_from draw i xs) = mset xs"
proof (induction draw i xs rule: shuffle_from.induct)
  case (2 draw i xs)
  have "draw (Suc i) < length xs" using "2.prems" le_less_trans by blast
  then show ?case using 2 by (simp add: mset_swap_at)
qed simp

lemma pick_indices:
  assumes "rand_documented T" "0 \<le> n"
  shows "\<exists>idx. pickChangeSet T files n rs = map ((!) files) idx \<and> sorted_wrt (<) idx \<and> set idx \<subseteq> {..<length files}
     \<and> length idx = min (nat n) (length files)"
proof -
  consider "n = 0" | "n \<ge> int (length files)" "n \<noteq> 0" | "0 < n" "n < int (length files)" using assms(2) by linarith
  then show ?thesis
  proof cases
    case 1
    then show ?thesis by (intro exI [of _ "[]"]) (simp add: pickChangeSet_def)
  next
    case 2
    then show ?thesis using assms(2)
      by (intro exI [of _ "[0..<length files]"]) (auto simp: pickChangeSet_def map_nth strict_sorted_iff)
  next
    case 3
    define idx where "idx = shuffle_from (tl_rand T (sint rs) (length files)) (length files - 1) [0..<length files]"
    have m: "mset idx = mset [0..<length files]"
      using 3 assms(1) unfolding idx_def by (intro mset_shuffle) (auto simp: rand_documented_def)
    have "distinct idx" using mset_eq_imp_distinct_iff [OF m] by simp
    have "set idx = {..<length files}" using mset_eq_setD [OF m] by (simp add: lessThan_atLeast0)
    have "length idx = length files" using mset_eq_length [OF m] by simp
    have "pickChangeSet T files n rs = map ((!) files) (sort (take (nat n) idx))"
      using 3 by (simp add: pickChangeSet_def idx_def Let_def)
    moreover have "sorted_wrt (<) (sort (take (nat n) idx))" using \<open>distinct idx\<close> by (simp add: strict_sorted_iff)
    moreover have "set (sort (take (nat n) idx)) \<subseteq> {..<length files}" using \<open>set idx = _\<close> set_take_subset [of "nat n" idx] by simp
    moreover have "length (sort (take (nat n) idx)) = min (nat n) (length files)" using \<open>length idx = _\<close> by simp
    ultimately show ?thesis by blast
  qed
qed

lemma pick_subset: "rand_documented T \<Longrightarrow> set (pickChangeSet T files n rs) \<subseteq> set files"
proof (cases "0 \<le> n")
  case True
  assume "rand_documented T"
  from pick_indices [OF this True, of files rs] obtain idx where "pickChangeSet T files n rs = map ((!) files) idx" "set idx \<subseteq> {..<length files}"
    by blast
  moreover from this(2) have "\<forall>i \<in> set idx. files ! i \<in> set files" by auto
  ultimately show ?thesis by auto
next
  case False
  then show ?thesis by (simp add: pickChangeSet_def)
qed

section \<open>What fio does\<close>

text \<open>fio writes the files it is told to: those it names after the job, or the one named file.\<close>

definition fio_documented :: "tools \<Rightarrow> bool" where
  "fio_documented T \<longleftrightarrow>
     (\<forall>wo name rs dir b nr fsz. \<forall>f \<in> fst ` set (fst (tl_fio T (fio_args wo name rs (dir_job dir b nr fsz)))). has_prefix f (name @ ''.''))
   \<and> (\<forall>wo name rs dir f b. CHR ''/'' \<notin> set f \<longrightarrow>
        fst ` set (fst (tl_fio T (fio_args wo name rs (file_job (dir @ ''/'' @ f) b)))) \<subseteq> {f})"

lemma fio_dirD: "fio_documented T \<Longrightarrow> f \<in> fst ` set (fst (tl_fio T (fio_args wo name rs (dir_job dir b nr fsz)))) \<Longrightarrow> has_prefix f (name @ ''.'')"
  unfolding fio_documented_def by blast

lemma fio_fileD: "fio_documented T \<Longrightarrow> g \<in> fst ` set (fst (tl_fio T (fio_args wo name rs (file_job (dir @ ''/'' @ f) b)))) \<Longrightarrow>
    CHR ''/'' \<notin> set f \<Longrightarrow> g = f"
  by (drule fio_documented_def [THEN iffD1, THEN conjunct2, rule_format, THEN subsetD]) auto

definition slash_free :: "filesystem \<Rightarrow> bool" where
  "slash_free fs \<longleftrightarrow> (\<forall>dir es n. fs_Dirs fs dir = Some es \<longrightarrow> n \<in> fst ` set es \<longrightarrow> CHR ''/'' \<notin> set n)"

section \<open>Paths\<close>

definition lookup :: "filesystem \<Rightarrow> string \<Rightarrow> string \<Rightarrow> string option" where
  "lookup fs dir n = (case fs_Dirs fs dir of None \<Rightarrow> None | Some es \<Rightarrow> (case map_of es n of Some (Some c) \<Rightarrow> Some c | _ \<Rightarrow> None))"

lemma file_at_join: "CHR ''/'' \<notin> set dir \<Longrightarrow> file_at fs (dir @ ''/'' @ n) = lookup fs dir n"
proof -
  assume "CHR ''/'' \<notin> set dir"
  then have "takeWhile (\<lambda>c. c \<noteq> CHR ''/'') (dir @ ''/'' @ n) = dir" "dropWhile (\<lambda>c. c \<noteq> CHR ''/'') (dir @ ''/'' @ n) = CHR ''/'' # n"
    by (auto simp: takeWhile_append dropWhile_append)
  then show ?thesis unfolding file_at_def lookup_def by (simp only: list.sel)
qed

lemma dataDirs_slash: "dir \<in> set dataDirs \<Longrightarrow> CHR ''/'' \<notin> set dir"
  by (auto simp: dataDirs_def)

lemma in_data_rels: "rel \<in> set (data_rels fs) \<longleftrightarrow> (\<exists>dir \<in> set dataDirs. \<exists>n es c. rel = dir @ ''/'' @ n \<and> fs_Dirs fs dir = Some es \<and> (n, Some c) \<in> set es)"
proof -
  have 1: "rel \<in> set (data_rels fs) \<longleftrightarrow> (\<exists>dir \<in> set dataDirs. rel \<in> set (case fs_Dirs fs dir of None \<Rightarrow> [] | Some es \<Rightarrow> map (\<lambda>n. dir @ ''/'' @ n) (regular es)))"
    by (simp add: data_rels_def)
  have 2: "rel \<in> set (case fs_Dirs fs dir of None \<Rightarrow> [] | Some es \<Rightarrow> map (\<lambda>n. dir @ ''/'' @ n) (regular es))
      \<longleftrightarrow> (\<exists>n es c. rel = dir @ ''/'' @ n \<and> fs_Dirs fs dir = Some es \<and> (n, Some c) \<in> set es)" for dir
    by (cases "fs_Dirs fs dir") (auto simp: regular_def image_iff Bex_def)
  show ?thesis by (simp only: 1 2)
qed

lemma set_put_entry: "set (put_entry n c es) \<subseteq> insert (n, c) (set es)"
  by (induction n c es rule: put_entry.induct) auto

lemma map_of_put_entry: "map_of (put_entry n c es) m = (if m = n then Some c else map_of es m)"
  by (induction n c es rule: put_entry.induct) auto

lemma fold_put_entry:
  "m \<notin> fst ` set ws \<Longrightarrow> map_of (fold (\<lambda>(n, c). put_entry n (Some c)) ws es) m = map_of es m
     \<and> ((m, c) \<in> set (fold (\<lambda>(n, c). put_entry n (Some c)) ws es) \<longrightarrow> (m, c) \<in> set es)"
proof (induction ws arbitrary: es)
  case (Cons w ws)
  obtain n d where w: "w = (n, d)" by fastforce
  with Cons.prems have "m \<noteq> n" by auto
  then show ?case using Cons.IH [of "put_entry n (Some d) es"] Cons.prems w set_put_entry [of n "Some d" es] by (auto simp: map_of_put_entry)
qed simp

text \<open>\<open>y\<close> differs from \<open>x\<close> at most in the data files of \<open>C\<close>.\<close>

definition churned :: "string set \<Rightarrow> filesystem \<Rightarrow> filesystem \<Rightarrow> bool" where
  "churned C x y \<longleftrightarrow> fs_Root y = fs_Root x \<and> fs_Type y = fs_Type x
     \<and> (\<forall>rel \<in> set (data_rels y). rel \<notin> C \<longrightarrow> rel \<in> set (data_rels x) \<and> file_at y rel = file_at x rel)"

lemma churned_refl [simp]: "churned C x x"
  by (simp add: churned_def)

lemma churned_trans: "churned C x y \<Longrightarrow> churned D y z \<Longrightarrow> churned (C \<union> D) x z"
  by (auto simp: churned_def)

lemma churned_mono: "churned C x y \<Longrightarrow> C \<subseteq> D \<Longrightarrow> churned D x y"
  by (auto simp: churned_def)

lemma puts_churned: "puts dir names x y \<Longrightarrow> dir \<in> set dataDirs \<Longrightarrow> churned ((\<lambda>n. dir @ ''/'' @ n) ` names) x y"
proof -
  assume p: "puts dir names x y" and dir: "dir \<in> set dataDirs"
  then obtain ws where ws: "fst ` set ws \<subseteq> names" and y: "y = put_files dir ws x" by (auto simp: puts_def)
  show ?thesis unfolding churned_def
  proof (intro conjI ballI impI)
    show "fs_Root y = fs_Root x" "fs_Type y = fs_Type x" using puts_same_root [OF p] by (simp_all add: same_root_def)
    fix rel assume r: "rel \<in> set (data_rels y)" and C: "rel \<notin> (\<lambda>n. dir @ ''/'' @ n) ` names"
    obtain d n es c where d: "d \<in> set dataDirs" "rel = d @ ''/'' @ n" and es: "fs_Dirs y d = Some es" "(n, Some c) \<in> set es"
      using r unfolding in_data_rels by blast
    have n: "d = dir \<Longrightarrow> n \<notin> fst ` set ws" using C d(2) ws by auto
    obtain es' where es': "fs_Dirs x d = Some es'" "(n, Some c) \<in> set es'" "map_of es n = map_of es' n"
      using es n fold_put_entry [of n ws] by (cases "d = dir") (auto simp: y put_files_def split: option.splits)
    show "rel \<in> set (data_rels x)" using d es' unfolding in_data_rels by blast
    show "file_at y rel = file_at x rel" using d es es' by (simp only: d(2) file_at_join [OF dataDirs_slash [OF d(1)]] lookup_def option.case)
  qed
qed


lemma puts_in:
  assumes "puts dir names x y" "dir \<in> set dataDirs" "\<And>n. n \<in> names \<Longrightarrow> dir @ ''/'' @ n \<in> C"
  shows "churned C x y"
  by (rule churned_mono [OF puts_churned [OF assms(1,2)]]) (use assms(3) in blast)

section \<open>Faults\<close>

text \<open>Without faults to come, there are none later.\<close>

definition calm :: "machine \<Rightarrow> bool" where
  "calm s \<longleftrightarrow> mc_Faults s = []"

named_theorems calm_intros \<open>operations that keep the fault stream empty\<close>

lemma calm_syscall [calm_intros]: "keeps calm m \<Longrightarrow> keeps calm (syscall m)"
  by (auto simp: keeps_def syscall_def calm_def)

lemma calm_basic [calm_intros]: "keeps calm (fs_read mnt f)" "keeps calm (fs_write mnt g)" "keeps calm (track h)"
  "keeps calm (mount dev mnt ty ro)" "keeps calm (unmount mnt)" "keeps calm (mkfs ty dev)" "keeps calm (fio_process T mnt dir args)"
  by (auto simp: keeps_def calm_def fs_read_def fs_write_def track_def change_def mount_def unmount_def mkfs_def fio_process_def syscall_def Let_def
      split: option.splits prod.splits list.splits)

lemma calm_doc [calm_intros]: "keeps calm (loadManifest mnt)" "keeps calm (writeFileSync mnt name d)"
  unfolding loadManifest_def read_root_def writeFileSync_def finish_file_def syncDir_def
  by (auto split: doc.split intro!: inv_intros calm_intros)

lemma calm_manifest [calm_intros]: "keeps calm (updateDiskManifest T mnt r changed)" "keeps calm (writeIdentity mnt wo i)"
  unfolding updateDiskManifest_def listDataFiles_def list_dir_def [abs_def] read_dir_def syncDir_def
    add_entry_def [abs_def] fresh_entry_def hash_entry_def hashFile_def writeManifest_def writeIdentity_def
  by (intro inv_intros calm_intros)+

lemma calm_fio [calm_intros]: "keeps calm (runFioStreaming T wo mnt dir name rs b extra)"
  unfolding runFioStreaming_def by (intro inv_intros calm_intros)

lemma calm_churn [calm_intros]: "keeps calm (rewrite_file T wo mnt plan x l)" "keeps calm (stat_entry e a)" "keeps calm (growthFileNames mnt r)"
  unfolding rewrite_file_def stat_entry_def growthFileNames_def read_dir_def
  by (auto split: prod.split option.split intro!: inv_intros calm_intros)

lemma calm_disk [calm_intros]: "keeps calm (applyChurn T wo mnt plan)" "keeps calm (plan_disk T wo dm acc)" "keeps calm (churn_disk T wo p)"
proof -
  show a: "keeps calm (applyChurn T wo mnt plan)" for mnt plan
    unfolding applyChurn_def by (intro inv_intros calm_intros)
  show "keeps calm (plan_disk T wo dm acc)"
    unfolding plan_disk_def planChurn_def mountFS_def read_dir_def by (auto split: prod.split simp: Let_def intro!: inv_intros calm_intros)
  show "keeps calm (churn_disk T wo p)"
    unfolding churn_disk_def by (auto split: prod.split intro!: inv_intros calm_intros a)
qed

section \<open>Applying the plan\<close>

text \<open>The names of a plan are names of regular files in \<open>local\<close>.\<close>

definition planned :: "churnPlan \<Rightarrow> bool" where
  "planned p \<longleftrightarrow> (\<forall>n \<in> fst ` set (cp_rewrite p). CHR ''/'' \<notin> set n)"

lemma rewrites_InrD:
  "fold_prog xs (rewrite_file T wo mnt plan) changed s = (Inr changed', t) \<Longrightarrow> fio_documented T \<Longrightarrow>
   (\<forall>(i, n, b) \<in> set xs. CHR ''/'' \<notin> set n) \<Longrightarrow> mounted mnt s dev False fs \<Longrightarrow>
   works dev mnt s t \<and> (\<exists>fs'. mounted mnt t dev False fs' \<and> churned (set changed') fs fs') \<and> set changed \<subseteq> set changed'"
proof (induction xs arbitrary: changed s fs)
  case Nil
  then show ?case by (auto simp: ret_def intro: churned_refl)
next
  case (Cons x xs)
  obtain i n b where x: "x = (i, n, b)" by (cases x)
  from Cons.prems(1) obtain c1 s1 where r: "rewrite_file T wo mnt plan x changed s = (Inr c1, s1)"
    and l: "fold_prog xs (rewrite_file T wo mnt plan) c1 s1 = (Inr changed', t)"
    by (rule fold_prog_ConsE)
  from r x have c1: "c1 = changed @ [''local/'' @ n]"
    and f: "runFioStreaming T wo mnt ''local'' ''gf_chg'' (wo_RunSeed wo + word_of_nat i) b (file_job (cp_dir plan @ ''/'' @ n) b) s = (Inr (), s1)"
    by (auto simp: rewrite_file_def ret_def elim!: seq_InrE)
  obtain fs1 where fs1: "mounted mnt s1 dev False fs1" "works dev mnt s s1"
    and p: "puts ''local'' (fst ` set (fst (tl_fio T (fio_args wo ''gf_chg'' (wo_RunSeed wo + word_of_nat i) (file_job (cp_dir plan @ ''/'' @ n) b))))) fs fs1"
    by (rule developsE [OF fio_develops [OF f] Cons.prems(4)])
  have "CHR ''/'' \<notin> set n" using Cons.prems(3) x by simp
  note only = fio_fileD [OF Cons.prems(2) _ this]
  have c: "churned (set c1) fs fs1" using p
    by (rule puts_in) (simp add: dataDirs_def, drule only, simp add: c1)
  from Cons.IH [OF l Cons.prems(2) _ fs1(1)] Cons.prems(3) x obtain fs2 where
    2: "works dev mnt s1 t" "mounted mnt t dev False fs2" "churned (set changed') fs1 fs2" "set c1 \<subseteq> set changed'" by auto
  have "churned (set changed') fs fs2" using churned_mono [OF churned_trans [OF c 2(3)]] 2(4) by auto
  then show ?case using 2 c1 works_trans [OF fs1(2)] by auto
qed

text \<open>The files of this run's growth job.\<close>

definition grown :: "work_order \<Rightarrow> string set" where
  "grown wo = {''local/'' @ n | n. has_prefix n (grow_name wo @ ''.'')}"

lemma in_regular: "n \<in> set (regular es) \<longleftrightarrow> (\<exists>c. (n, Some c) \<in> set es)"
  by (auto simp: regular_def image_iff Bex_def)

lemma growth_names:
  assumes "growthFileNames mnt (shortID (wo_RunID wo)) s = (Inr names, t)" "mounted mnt s dev ro fs"
  shows "still s t \<and> (calm s \<longrightarrow> (\<forall>rel \<in> set (data_rels fs). rel \<in> grown wo \<longrightarrow> rel \<in> (\<lambda>n. ''local/'' @ n) ` set names))"
proof (intro conjI impI ballI)
  show "still s t" using assms(1) by (rule silentD [rotated]) (unfold growthFileNames_def read_dir_def, intro silent_intros)
  fix rel assume c: "calm s" and r: "rel \<in> set (data_rels fs)" "rel \<in> grown wo"
  then obtain n where n: "rel = ''local/'' @ n" "has_prefix n (grow_name wo @ ''.'')" by (auto simp: grown_def)
  obtain dir m es c where d: "dir \<in> set dataDirs" "rel = dir @ ''/'' @ m" "fs_Dirs fs dir = Some es" "(m, Some c) \<in> set es"
    using r(1) unfolding in_data_rels by blast
  have "dir = ''local'' \<and> m = n" using d(1,2) n(1) by (auto simp: dataDirs_def)
  then have "names = filter (\<lambda>n. has_prefix n (grow_name wo @ ''.'')) (regular es)"
    using assms c d(3)
    by (auto simp: growthFileNames_def attempt_def read_dir_def syscall_def calm_def fs_read_def mounted_def ret_def grow_name_def)
  then have "n \<in> set names" using n(2) d(4) \<open>dir = _ \<and> _\<close> in_regular by auto
  with n(1) show "rel \<in> (\<lambda>n. ''local/'' @ n) ` set names" by blast
qed

lemma applyChurn_InrD:
  assumes run: "applyChurn T wo mnt plan s = (Inr changed, t)" and fio: "fio_documented T" and p: "planned plan" and m: "mounted mnt s dev False fs"
  shows "works dev mnt s t \<and> (\<exists>fs' C. mounted mnt t dev False fs' \<and> churned C fs fs' \<and> C \<subseteq> set changed \<union> grown wo
     \<and> (calm s \<longrightarrow> C \<inter> set (data_rels fs') \<subseteq> set changed))"
proof -
  obtain ch1 s1 where r: "fold_prog (enumerate 0 (cp_rewrite plan)) (rewrite_file T wo mnt plan) [] s = (Inr ch1, s1)"
    using run by (auto simp: applyChurn_def elim: seq_InrE)
  have "\<forall>(i, n, b) \<in> set (enumerate 0 (cp_rewrite plan)). CHR ''/'' \<notin> set n"
    using p by (force simp: planned_def in_set_enumerate_eq dest: nth_mem)
  from rewrites_InrD [OF r fio this m] obtain fs1 where
    1: "works dev mnt s s1" "mounted mnt s1 dev False fs1" "churned (set ch1) fs fs1" by blast
  have calm1: "calm s \<Longrightarrow> calm s1" using keepsD [of calm "fold_prog (enumerate 0 (cp_rewrite plan)) (rewrite_file T wo mnt plan) []" s] r
    by (simp add: inv_intros calm_intros)
  show ?thesis
  proof (cases "cp_grow plan > 0")
    case False
    with run r have "changed = ch1" "t = s1" by (auto simp: applyChurn_def seq_eq ret_def)
    with 1 show ?thesis by blast
  next
    case True
    with run r obtain s2 names extra where f: "runFioStreaming T wo mnt ''local'' (grow_name wo) (wo_RunSeed wo XOR 0x9e37) (cp_grow plan)
          (dir_job (cp_dir plan) (cp_grow plan) (files_needed (cp_grow plan) (wo_FileSizeBytes wo)) (wo_FileSizeBytes wo)) s1 = (Inr (), s2)"
      and g: "growthFileNames mnt (shortID (wo_RunID wo)) s2 = (Inr names, t)" and ch: "changed = ch1 @ map (\<lambda>n. ''local/'' @ n) names"
      by (auto simp: applyChurn_def seq_eq ret_def fail_def split: if_splits prod.splits sum.splits)
    obtain fs2 where 2: "mounted mnt s2 dev False fs2" "works dev mnt s1 s2"
      and p2: "puts ''local'' (fst ` set (fst (tl_fio T (fio_args wo (grow_name wo) (wo_RunSeed wo XOR 0x9e37) (dir_job (cp_dir plan) (cp_grow plan)
          (files_needed (cp_grow plan) (wo_FileSizeBytes wo)) (wo_FileSizeBytes wo)))))) fs1 fs2"
      by (rule developsE [OF fio_develops [OF f] 1(2)])
    have "churned (grown wo) fs1 fs2"
      using p2 by (rule puts_in) (simp add: dataDirs_def, drule fio_dirD [OF fio], auto simp: grown_def)
    with 1(3) have c: "churned (set ch1 \<union> grown wo) fs fs2" by (rule churned_trans)
    note gn = growth_names [OF g 2(1)]
    have "calm s \<Longrightarrow> calm s2" using calm1 keepsD [OF calm_fio, of s1] f by (metis snd_conv)
    then have "calm s \<longrightarrow> (set ch1 \<union> grown wo) \<inter> set (data_rels fs2) \<subseteq> set changed" using gn ch by auto
    moreover have "mounted mnt t dev False fs2" using gn 2(1) mounted_still by blast
    moreover have "works dev mnt s t" using gn works_trans [OF 1(1) works_trans [OF 2(2) works_still]] by blast
    ultimately show ?thesis using c ch by (intro conjI exI [of _ fs2] exI [of _ "set ch1 \<union> grown wo"]) auto
  qed
qed

section \<open>One disk\<close>

text \<open>No stale checksum: what the manifest says of an existing file is true.\<close>

definition accurate :: "tools \<Rightarrow> filesystem \<Rightarrow> bool" where
  "accurate T fs \<longleftrightarrow> (\<forall>rel \<in> set (data_rels fs). \<forall>e. old_entry fs rel = Some e \<longrightarrow> e = entry T fs rel)"

text \<open>The manifest does not know files of this run's growth job yet.\<close>

definition fresh_run :: "work_order \<Rightarrow> filesystem \<Rightarrow> bool" where
  "fresh_run wo fs \<longleftrightarrow> (\<forall>rel \<in> grown wo. old_entry fs rel = None)"

lemma exact_accurate: "exact T r fs \<Longrightarrow> accurate T fs"
  by (auto simp: exact_def accurate_def old_entry_def exact_manifest_def dest!: map_of_SomeD)

lemma churn_disk_InrD:
  assumes run: "churn_disk T wo ((disk, dev, mnt), plan) s = (Inr x, t)" and fio: "fio_documented T" and p: "planned plan"
    and m: "mounted mnt s dev False fs" and acc: "accurate T fs" and once: "fresh_run wo fs \<or> calm s" and ty: "fs_Type fs = wo_Filesystem wo"
  shows "works dev mnt s t \<and> (\<exists>fs'. mounted mnt t dev False fs' \<and> described T wo fs')"
proof -
  from run obtain changed s1 s2 where a: "applyChurn T wo mnt plan s = (Inr changed, s1)" and i: "writeIdentity mnt wo (dw_Index disk) s1 = (Inr (), s2)"
    and u: "updateDiskManifest T mnt (wo_RunID wo) changed s2 = (Inr x, t)"
    by (auto simp: churn_disk_def elim!: seq_InrE dest!: wrap_InrD)
  from applyChurn_InrD [OF a fio p m] obtain fs1 C where 1: "works dev mnt s s1" "mounted mnt s1 dev False fs1" "churned C fs fs1"
    "C \<subseteq> set changed \<union> grown wo" "calm s \<Longrightarrow> C \<inter> set (data_rels fs1) \<subseteq> set changed" by blast
  obtain fs2 where 2: "mounted mnt s2 dev False fs2" "works dev mnt s1 s2" "same_data fs1 fs2"
    by (rule developsE [OF writeIdentity_develops [OF i] 1(2)])
  have same: "data_rels fs2 = data_rels fs1" "entry T fs2 = entry T fs1" "old_entry fs2 = old_entry fs" "fs_Type fs2 = fs_Type fs"
    using data_rels_cong [of fs2 fs1 T] old_entry_same_data [OF 2(3)] 2(3) 1(3) by (auto simp: same_data_def churned_def old_entry_def)
  have "edits mnt (new_manifest (exact_manifest T (wo_RunID wo) fs2)) s2 t"
  proof (rule updateDiskManifest_InrD [OF u 2(1)])
    fix rel e assume r: "rel \<notin> set changed" "old_entry fs2 rel = Some e" "rel \<in> set (data_rels fs2)"
    have "rel \<notin> C" using 1(4,5) once r same by (auto simp: fresh_run_def)
    then have "rel \<in> set (data_rels fs)" "file_at fs1 rel = file_at fs rel" using 1(3) r same by (auto simp: churned_def)
    then show "e = entry T fs2 rel" using acc r same by (simp add: accurate_def entry_def content_def)
  qed
  note e = this
  show ?thesis using edits_mounted [OF e 2(1)] works_trans [OF 1(1) works_trans [OF 2(2) works_edits [OF e 2(1)]]]
      described_new_manifest [of T wo fs2] same(4) ty by auto
qed

section \<open>All disks\<close>

lemma stat_entries: "fold_prog es stat_entry (fs0, n) s = (Inr (files, n'), t) \<Longrightarrow> still s t \<and> fst ` set files \<subseteq> fst ` set fs0 \<union> fst ` set es"
proof (induction es arbitrary: fs0 n s)
  case (Cons e es)
  from Cons.prems obtain acc s1 where a: "stat_entry e (fs0, n) s = (Inr acc, s1)" and l: "fold_prog es stat_entry acc s1 = (Inr (files, n'), t)"
    by (rule fold_prog_ConsE)
  obtain fs1 n1 where acc: "acc = (fs1, n1)" by fastforce
  have "fs1 = fs0 \<or> (\<exists>b. fs1 = fs0 @ [(fst e, b)])"
    using a acc by (cases e; cases "snd e") (auto simp: stat_entry_def ret_def elim!: seq_InrE)
  moreover have "silent (stat_entry e (fs0, n))" by (cases e; cases "snd e") (simp_all add: stat_entry_def silent_intros)
  then have "still s s1" using a by (rule silentD)
  ultimately have "still s s1" "fst ` set fs1 \<subseteq> insert (fst e) (fst ` set fs0)" by auto
  moreover have "fst ` set (e # es) = insert (fst e) (fst ` set es)" by simp
  ultimately show ?case using Cons.IH [OF l [unfolded acc]] still_trans [of s s1 t] by blast
qed (simp add: ret_def)

lemma planChurn_InrD:
  assumes run: "planChurn T wo mnt s = (Inr p, t)" and m: "mounted mnt s dev ro fs" and "slash_free fs" "rand_documented T"
  shows "planned p \<and> still s t"
proof -
  from run obtain es s1 files n where r: "read_dir mnt ''local'' s = (Inr es, s1)" and f: "fold_prog es stat_entry ([], 0) s1 = (Inr (files, n), t)"
    and p: "cp_rewrite p = pickChangeSet T (sort_key fst files) (change_count wo (length files)) (wo_RunSeed wo)"
    by (auto simp: planChurn_def ret_def Let_def elim!: seq_InrE dest!: wrap_InrD)
  have "silent (read_dir mnt ''local'')" unfolding read_dir_def by (intro silent_intros)
  then have st: "still s s1" using r by (rule silentD)
  have es: "fs_Dirs fs ''local'' = Some es" using r m unfolding read_dir_def by (auto dest!: fs_read_InrD split: option.splits)
  have "set (cp_rewrite p) \<subseteq> set files" using pick_subset [OF assms(4), of "sort_key fst files"] by (auto simp: p)
  then have "fst ` set (cp_rewrite p) \<subseteq> fst ` set es" using stat_entries [OF f] by auto
  then have "planned p" using assms(3) es unfolding planned_def slash_free_def by blast
  then show ?thesis using st stat_entries [OF f] still_trans by blast
qed

lemma plan_disk_InrD:
  assumes run: "plan_disk T wo (dev, mnt) (plans, n) s = (Inr (plans', n'), t)" and fs: "\<forall>fs. fs_of s dev = Some fs \<longrightarrow> slash_free fs"
    and r: "rand_documented T"
  shows "(\<exists>p. plans' = plans @ [p] \<and> planned p) \<and> mc_Mounts t mnt = Some (dev, False) \<and> (\<forall>m. m \<noteq> mnt \<longrightarrow> mc_Mounts t m = mc_Mounts s m)
    \<and> fs_of t = fs_of s \<and> mc_Sent t = mc_Sent s \<and> (\<exists>fs. fs_of s dev = Some fs \<and> fs_Type fs = wo_Filesystem wo)"
proof -
  from run obtain s1 s2 s3 p where u: "ignore (unmount mnt) s = (Inr (), s1)" and d: "syscall (ret ()) s1 = (Inr (), s2)"
    and m: "mount dev mnt (wo_Filesystem wo) False s2 = (Inr (), s3)" and p: "planChurn T wo mnt s3 = (Inr p, t)" and pl: "plans' = plans @ [p]"
    by (auto simp: plan_disk_def mountFS_def ret_def elim!: seq_InrE dest!: wrap_InrD)
  have 1: "fs_of s1 = fs_of s \<and> mc_Sent s1 = mc_Sent s \<and> (\<forall>m. m \<noteq> mnt \<longrightarrow> mc_Mounts s1 m = mc_Mounts s m)"
    by (rule unmount_cases [OF u]) simp
  have 2: "still s1 s2" using d by (rule silentD [rotated]) (intro silent_intros)
  obtain fl fs where 3: "s3 = s2\<lparr>mc_Faults := fl, mc_Mounts := (mc_Mounts s2)(mnt \<mapsto> (dev, False))\<rparr>" "fs_of s2 dev = Some fs" "fs_Type fs = wo_Filesystem wo"
    using mount_InrD [OF m] by blast
  have f: "fs_of s dev = Some fs" using 1 3(2) stillD [OF 2] by simp
  have m3: "mounted mnt s3 dev False fs" using 3 by (simp add: mounted_def)
  have 4: "planned p" "still s3 t" using planChurn_InrD [OF p m3 _ r] fs f by simp_all
  show ?thesis using 1 3 stillD [OF 2] stillD [OF 4(2)] 4(1) f pl by simp
qed

lemma plans_InrD:
  "fold_prog xs (plan_disk T wo) (plans, n) s = (Inr (plans', n'), t) \<Longrightarrow> distinct (map snd xs) \<Longrightarrow>
   \<forall>dev fs. fs_of s dev = Some fs \<longrightarrow> slash_free fs \<Longrightarrow> rand_documented T \<Longrightarrow>
   fs_of t = fs_of s \<and> mc_Sent t = mc_Sent s \<and> (\<exists>ps. plans' = plans @ ps \<and> length ps = length xs \<and> list_all planned ps)
   \<and> (\<forall>m. m \<notin> set (map snd xs) \<longrightarrow> mc_Mounts t m = mc_Mounts s m)
   \<and> (\<forall>(dev, mnt) \<in> set xs. mc_Mounts t mnt = Some (dev, False) \<and> (\<exists>fs. fs_of s dev = Some fs \<and> fs_Type fs = wo_Filesystem wo))"
proof (induction xs arbitrary: plans n s)
  case Nil
  then show ?case by (simp add: ret_def)
next
  case (Cons x xs)
  obtain dev mnt where x: "x = (dev, mnt)" by fastforce
  from Cons.prems(1) x obtain acc s1 where a: "plan_disk T wo (dev, mnt) (plans, n) s = (Inr acc, s1)"
    and l: "fold_prog xs (plan_disk T wo) acc s1 = (Inr (plans', n'), t)" by (auto elim!: seq_InrE)
  obtain plans1 n1 where acc: "acc = (plans1, n1)" by fastforce
  have "\<forall>fs. fs_of s dev = Some fs \<longrightarrow> slash_free fs" using Cons.prems(3) by simp
  from plan_disk_InrD [OF a [unfolded acc] this Cons.prems(4)] obtain p where
    p: "plans1 = plans @ [p]" "planned p" and d: "mc_Mounts s1 mnt = Some (dev, False)" "\<forall>m. m \<noteq> mnt \<longrightarrow> mc_Mounts s1 m = mc_Mounts s m"
      "fs_of s1 = fs_of s" "mc_Sent s1 = mc_Sent s" "\<exists>fs. fs_of s dev = Some fs \<and> fs_Type fs = wo_Filesystem wo" by blast
  from Cons.IH [OF l [unfolded acc]] Cons.prems(2-4) d(3) have
    IH: "fs_of t = fs_of s" "mc_Sent t = mc_Sent s1" "\<exists>ps. plans' = plans1 @ ps \<and> length ps = length xs \<and> list_all planned ps"
      "\<forall>m. m \<notin> set (map snd xs) \<longrightarrow> mc_Mounts t m = mc_Mounts s1 m"
      "\<forall>(dev, mnt) \<in> set xs. mc_Mounts t mnt = Some (dev, False) \<and> (\<exists>fs. fs_of s dev = Some fs \<and> fs_Type fs = wo_Filesystem wo)" by simp_all
  from IH(3) p obtain ps where "plans' = plans @ p # ps \<and> length (p # ps) = length (x # xs) \<and> list_all planned (p # ps)" by auto
  then have "\<exists>ps. plans' = plans @ ps \<and> length ps = length (x # xs) \<and> list_all planned ps" by blast
  then show ?case using IH d Cons.prems(2) x by auto
qed

lemma churn_disks_InrD:
  "for_each ys (churn_disk T wo) s = (Inr u, t) \<Longrightarrow> fio_documented T \<Longrightarrow>
   distinct (map (\<lambda>((_, dev, _), _). dev) ys) \<Longrightarrow> distinct (map (\<lambda>((_, _, mnt), _). mnt) ys) \<Longrightarrow>
   (\<And>disk dev mnt p. ((disk, dev, mnt), p) \<in> set ys \<Longrightarrow> planned p \<and> (\<exists>fs. mounted mnt s dev False fs \<and> accurate T fs \<and> (fresh_run wo fs \<or> calm s) \<and> fs_Type fs = wo_Filesystem wo)) \<Longrightarrow>
   (\<forall>dev. dev \<notin> set (map (\<lambda>((_, dev, _), _). dev) ys) \<longrightarrow> fs_of t dev = fs_of s dev)
   \<and> (\<forall>dev \<in> set (map (\<lambda>((_, dev, _), _). dev) ys). \<exists>fs. fs_of t dev = Some fs \<and> described T wo fs)"
proof (induction ys arbitrary: s)
  case Nil
  then show ?case by (simp add: ret_def)
next
  case (Cons y ys)
  obtain disk dev mnt p where y: "y = ((disk, dev, mnt), p)" by (metis surj_pair)
  from Cons.prems(1) y obtain s1 where f: "churn_disk T wo ((disk, dev, mnt), p) s = (Inr (), s1)" and l: "for_each ys (churn_disk T wo) s1 = (Inr u, t)"
    by (auto elim!: seq_InrE)
  obtain fs where fs: "planned p" "mounted mnt s dev False fs" "accurate T fs" "fresh_run wo fs \<or> calm s" "fs_Type fs = wo_Filesystem wo"
    using Cons.prems(5) [of disk dev mnt p] y by auto
  note d = churn_disk_InrD [OF f Cons.prems(2) fs]
  have calm1: "calm s \<Longrightarrow> calm s1" using keepsD [OF calm_disk(3), of s] f by (metis snd_conv)
  have todo: "planned p' \<and> (\<exists>fs. mounted mnt' s1 dev' False fs \<and> accurate T fs \<and> (fresh_run wo fs \<or> calm s1) \<and> fs_Type fs = wo_Filesystem wo)"
    if i: "((disk', dev', mnt'), p') \<in> set ys" for disk' dev' mnt' p'
  proof -
    have "dev' \<noteq> dev" "mnt' \<noteq> mnt" using Cons.prems(3,4) y i by force+
    then show ?thesis using Cons.prems(5) [of disk' dev' mnt' p'] i calm1 d by (auto simp: mounted_def works_def)
  qed
  have "distinct (map (\<lambda>((_, dev, _), _). dev) ys)" "distinct (map (\<lambda>((_, _, mnt), _). mnt) ys)" using Cons.prems(3,4) by simp_all
  from Cons.IH [OF l Cons.prems(2) this todo] show ?case
    using d y Cons.prems(3) by (auto simp: works_def mounted_def)
qed

lemma zip_plans:
  assumes "length devices = length ds" "length mounts = length ds" "length ps = length ds"
  shows "map (\<lambda>((_, dev, _), _). dev) (zip (zip ds (zip devices mounts)) ps) = devices"
    and "map (\<lambda>((_, _, mnt), _). mnt) (zip (zip ds (zip devices mounts)) ps) = mounts"
proof -
  have "map (\<lambda>((_, dev, _), _). dev) (zip (zip ds (zip devices mounts)) ps) = map (\<lambda>(_, dev, _). dev) (map fst (zip (zip ds (zip devices mounts)) ps))"
    "map (\<lambda>((_, _, mnt), _). mnt) (zip (zip ds (zip devices mounts)) ps) = map (\<lambda>(_, _, mnt). mnt) (map fst (zip (zip ds (zip devices mounts)) ps))"
    by (auto simp: split_beta)
  with assms zip_devices [OF assms(1,2)] show "map (\<lambda>((_, dev, _), _). dev) (zip (zip ds (zip devices mounts)) ps) = devices"
    "map (\<lambda>((_, _, mnt), _). mnt) (zip (zip ds (zip devices mounts)) ps) = mounts"
    by (simp_all del: map_map)
qed

lemma plans_ready:
  assumes plan: "fold_prog (take (length (wo_Disks wo)) (zip devices mounts)) (plan_disk T wo) ([], 0) s = (Inr (plans, n), t)"
    and doc: "rand_documented T" and slash: "\<forall>dev fs. fs_of s dev = Some fs \<longrightarrow> slash_free fs"
    and devs: "distinct mounts" "length devices = length (wo_Disks wo)" "length mounts = length (wo_Disks wo)"
  shows "length plans = length (wo_Disks wo) \<and> fs_of t = fs_of s \<and> mc_Sent t = mc_Sent s
     \<and> (\<forall>((disk, dev, mnt), p) \<in> set (zip (zip (wo_Disks wo) (zip devices mounts)) plans).
         planned p \<and> (\<exists>fs. mounted mnt t dev False fs \<and> fs_of s dev = Some fs \<and> fs_Type fs = wo_Filesystem wo))"
proof -
  have xs: "take (length (wo_Disks wo)) (zip devices mounts) = zip devices mounts" using devs by simp
  have "distinct (map snd (zip devices mounts))" using devs by simp
  from plans_InrD [OF plan [unfolded xs] this slash doc] obtain ps where
    p: "fs_of t = fs_of s" "mc_Sent t = mc_Sent s" "plans = ps" "length ps = length (zip devices mounts)" "list_all planned ps"
      "\<forall>(dev, mnt) \<in> set (zip devices mounts). mc_Mounts t mnt = Some (dev, False) \<and> (\<exists>fs. fs_of s dev = Some fs \<and> fs_Type fs = wo_Filesystem wo)" by auto
  have "planned p' \<and> (\<exists>fs. mounted mnt t dev False fs \<and> fs_of s dev = Some fs \<and> fs_Type fs = wo_Filesystem wo)"
    if i: "((disk, dev, mnt), p') \<in> set (zip (zip (wo_Disks wo) (zip devices mounts)) plans)" for disk dev mnt p'
  proof -
    have "(dev, mnt) \<in> set (zip devices mounts)" "p' \<in> set ps" using i p(3) by (auto dest: set_zip_leftD set_zip_rightD)
    then show ?thesis using p(1,5,6) by (auto simp: list_all_iff mounted_def)
  qed
  then show ?thesis using p(1-4) devs by auto
qed

lemma churn_runs_InrD:
  assumes plan: "fold_prog (take (length (wo_Disks wo)) (zip devices mounts)) (plan_disk T wo) ([], 0) s = (Inr (plans, n), s1)"
    and loop: "for_each (zip (zip (wo_Disks wo) (zip devices mounts)) plans) (churn_disk T wo) (s1\<lparr>mc_Prog := p\<rparr>) = (Inr u, t)"
    and doc: "fio_documented T" "rand_documented T"
    and devs: "distinct devices" "distinct mounts" "length devices = length (wo_Disks wo)" "length mounts = length (wo_Disks wo)"
    and disks: "\<forall>dev fs. fs_of s dev = Some fs \<longrightarrow> slash_free fs \<and> accurate T fs \<and> (fresh_run wo fs \<or> calm s)"
  shows "\<forall>dev \<in> set devices. \<exists>fs. fs_of t dev = Some fs \<and> described T wo fs"
proof -
  have "\<forall>dev fs. fs_of s dev = Some fs \<longrightarrow> slash_free fs" using disks by blast
  note pr = plans_ready [OF plan doc(2) this devs(2-4)]
  have calm1: "calm s \<Longrightarrow> calm s1"
    using keepsD [of calm "fold_prog (take (length (wo_Disks wo)) (zip devices mounts)) (plan_disk T wo) ([], 0)" s] plan
    by (simp add: inv_intros calm_intros)
  note z = zip_plans [OF devs(3,4) conjunct1 [OF pr]]
  have ready: "planned p' \<and> (\<exists>fs. mounted mnt (s1\<lparr>mc_Prog := p\<rparr>) dev False fs \<and> accurate T fs \<and> (fresh_run wo fs \<or> calm (s1\<lparr>mc_Prog := p\<rparr>))
      \<and> fs_Type fs = wo_Filesystem wo)"
    if i: "((disk, dev, mnt), p') \<in> set (zip (zip (wo_Disks wo) (zip devices mounts)) plans)" for disk dev mnt p'
  proof -
    from pr i obtain fs where "planned p'" "mounted mnt s1 dev False fs" "fs_of s dev = Some fs" "fs_Type fs = wo_Filesystem wo" by fast
    then show ?thesis using disks calm1 by (auto simp: mounted_def calm_def)
  qed
  have "distinct (map (\<lambda>((_, dev, _), _). dev) (zip (zip (wo_Disks wo) (zip devices mounts)) plans))"
    "distinct (map (\<lambda>((_, _, mnt), _). mnt) (zip (zip (wo_Disks wo) (zip devices mounts)) plans))" unfolding z using devs(1,2) .
  from churn_disks_InrD [OF loop doc(1) this] ready show ?thesis unfolding z by blast
qed

text \<open>
  C3. An incremental run that reports \<open>done\<close> leaves on every disk a manifest of this run that
  lists exactly the data files that are there, rewritten and new ones included, although it hashes
  only what it touched; for this the manifests it finds must not be stale, and either no call
  fails or no manifest lists files of this run's growth job yet.
\<close>

theorem incremental_keeps_exact:
  assumes run: "runIncremental T wo devices mounts s = (Inr (), t)"
    and sent: "mc_Sent t = mc_Sent s @ replicate k (Done n)" "0 < k"
    and doc: "fio_documented T" "rand_documented T"
    and devs: "distinct devices" "distinct mounts" "length devices = length (wo_Disks wo)" "length mounts = length (wo_Disks wo)"
    and disks: "\<forall>dev fs. fs_of s dev = Some fs \<longrightarrow> slash_free fs \<and> accurate T fs \<and> (fresh_run wo fs \<or> calm s)"
  shows "\<forall>dev \<in> set devices. \<exists>fs. fs_of t dev = Some fs \<and> described T wo fs"
proof -
  have no_error: False if "reportError e v = (Inr (), t)" for e v
    using reported_once(2) [OF that] sent last_report by (fastforce dest!: told_frame)
  from run show ?thesis unfolding runIncremental_def
  proof (rule returned_cases, goal_cases)
    case (1 e u)
    then show ?case using no_error by auto
  next
    case (2 y s1)
    obtain plans n0 where y: "y = (plans, n0)" by fastforce
    from 2(2) [unfolded y] have "returned (for_each (zip (zip (wo_Disks wo) (zip devices mounts)) plans) (churn_disk T wo)) (\<lambda>r. case r of
           Inl e \<Rightarrow> seq (flushDisks mounts) (\<lambda>_. reportError (error_text e))
         | Inr _ \<Rightarrow> seq (look (\<lambda>s. progress_bytes (mc_Prog s))) (\<lambda>written. seq (mark_runs wo mounts written) (\<lambda>_.
             seq (flushDisks mounts) (\<lambda>_. reportDone written)))) (s1\<lparr>mc_Prog := no_progress\<rparr>) = (Inr (), t)"
      by (simp add: seq_eq track_def change_def)
    then show ?case
    proof (rule returned_cases, goal_cases)
      case (1 e u)
      then show ?case using no_error by (auto elim: seq_InrE)
    next
      case (2 z u)
      from 2(2) have "keeps_data u t" using finish_run [of wo mounts _ u "Inr ()" t] by (auto simp: look_def seq_eq)
      moreover have "\<forall>dev \<in> set devices. \<exists>fs. fs_of u dev = Some fs \<and> described T wo fs"
        by (rule churn_runs_InrD [OF _ 2(1) doc devs disks]) (use \<open>fold_prog _ _ _ s = _\<close> y in simp)
      ultimately show ?case unfolding keeps_data_def using described_same_data by meson
    qed
  qed
qed

end
