(* ===== verification/AgentIntact.thy ===== *)
theory AgentIntact
  imports AgentChurn
begin

text \<open>
  The verdict of a verify run: what a \<open>done\<close> says about the disks, when it is certain to come, and
  that verifying changes nothing. It ties the fill and incremental runs to verification.
\<close>

section \<open>Intact disks\<close>

text \<open>The manifest lists the data files that are there, no other, with their sizes and checksums.\<close>

definition intact :: "tools \<Rightarrow> filesystem \<Rightarrow> manifest \<Rightarrow> bool" where
  "intact T fs m \<longleftrightarrow> (\<forall>rel \<in> set (data_rels fs). map_of (mf_Files m) rel = Some (entry T fs rel))
     \<and> fst ` set (mf_Files m) \<subseteq> set (data_rels fs)"

definition verifiable :: "tools \<Rightarrow> string \<Rightarrow> filesystem \<Rightarrow> bool" where
  "verifiable T fstype fs \<longleftrightarrow> fs_Type fs = fstype \<and> (\<exists>m. fs_Root fs ManifestFile = Some (DManifest m) \<and> intact T fs m)"

definition names_distinct :: "filesystem \<Rightarrow> bool" where
  "names_distinct fs \<longleftrightarrow> (\<forall>dir es. fs_Dirs fs dir = Some es \<longrightarrow> distinct (map fst es))"

lemma exact_intact: "exact T r fs \<Longrightarrow> fs_Type fs = fstype \<Longrightarrow> verifiable T fstype fs"
  by (force simp: exact_def verifiable_def intact_def exact_manifest_def map_of_map_restrict map_of_eq_Some_iff)

lemma readable: "names_distinct fs \<Longrightarrow> rel \<in> set (data_rels fs) \<Longrightarrow> file_at fs rel \<noteq> None"
proof -
  assume n: "names_distinct fs" and "rel \<in> set (data_rels fs)"
  then obtain dir f es c where d: "dir \<in> set dataDirs" "rel = dir @ ''/'' @ f" "fs_Dirs fs dir = Some es" "(f, Some c) \<in> set es"
    unfolding in_data_rels by blast
  then have "map_of es f = Some (Some c)" using n by (simp add: names_distinct_def)
  then show ?thesis using d(3) by (simp only: d(2) file_at_join [OF dataDirs_slash [OF d(1)]] lookup_def option.case) simp
qed

section \<open>Verifying only looks\<close>

definition looks :: "(string \<times> filesystem option) list \<Rightarrow> report list \<Rightarrow> machine \<Rightarrow> bool" where
  "looks B S s \<longleftrightarrow> mc_Block s = B \<and> mc_Sent s = S"

named_theorems looks_intros \<open>operations that touch no disk and send nothing\<close>

lemma looks_basic [looks_intros]: "keeps (looks B S) (fs_read mnt f)" "keeps (looks B S) (mount dev mnt ty ro)" "keeps (looks B S) (unmount mnt)"
  "keeps (looks B S) (track h)"
  by (auto simp: keeps_def looks_def fs_read_def mount_def unmount_def change_def track_def syscall_def split: option.splits list.splits prod.splits)

lemma looks_syscall [looks_intros]: "keeps (looks B S) m \<Longrightarrow> keeps (looks B S) (syscall m)"
  by (auto simp: keeps_def syscall_def looks_def split: list.splits option.splits)

lemma looks_told [looks_intros]: "keeps (looks B S) m \<Longrightarrow> keeps (looks B S) (told_as f m)"
  unfolding told_as_def by (intro inv_intros)

lemma looks_silent: "silent m \<Longrightarrow> keeps (looks B S) m"
  by (auto simp: keeps_def silent_def looks_def dest: stillD)

lemma looks_load [looks_intros]: "keeps (looks B S) (load_disk wo x acc)"
  unfolding load_disk_def mountFSReadOnly_def
  by (auto split: prod.split intro!: inv_intros looks_intros looks_silent [OF silent_loadManifest] looks_silent [OF silent_listDataFiles])

lemma looks_check [looks_intros]: "keeps (looks B S) (check_disk T x acc)"
  unfolding check_disk_def check_file_def
  by (auto split: prod.split option.split intro!: inv_intros looks_silent [OF silent_hashing(1)])

section \<open>Loading\<close>

definition loaded :: "work_order \<Rightarrow> machine \<Rightarrow> string \<times> string \<Rightarrow> verify_disk \<Rightarrow> bool" where
  "loaded wo s x d \<longleftrightarrow> (case x of (dev, mnt) \<Rightarrow> \<exists>fs. mounted mnt s dev True fs \<and> fs_Type fs = wo_Filesystem wo \<and> vd_mnt d = mnt
     \<and> fs_Root fs ManifestFile = Some (DManifest (vd_manifest d)) \<and> vd_files d = data_rels fs)"

lemma told_as_InrD: "told_as f m s = (Inr x, t) \<Longrightarrow> m s = (Inr x, t)"
  by (auto simp: told_as_def attempt_def fail_def ret_def split: prod.splits sum.splits)

lemma load_disk_InrD:
  assumes "load_disk wo (dev, mnt) (ds, n) s = (Inr (ds', n'), t)"
  shows "(\<exists>d. ds' = ds @ [d] \<and> loaded wo t (dev, mnt) d) \<and> (\<forall>m. m \<noteq> mnt \<longrightarrow> mc_Mounts t m = mc_Mounts s m) \<and> fs_of t = fs_of s"
proof -
  from assms obtain s1 s2 s3 m s4 rels where u: "ignore (unmount mnt) s = (Inr (), s1)" and d: "syscall (ret ()) s1 = (Inr (), s2)"
    and mo: "mount dev mnt (wo_Filesystem wo) True s2 = (Inr (), s3)" and l: "loadManifest mnt s3 = (Inr m, s4)"
    and f: "listDataFiles mnt s4 = (Inr rels, t)" and ds: "ds' = ds @ [\<lparr>vd_mnt = mnt, vd_manifest = m, vd_files = rels\<rparr>]"
    by (auto simp: load_disk_def mountFSReadOnly_def ret_def elim!: seq_InrE dest!: told_as_InrD wrap_InrD)
  have 1: "fs_of s1 = fs_of s \<and> (\<forall>m. m \<noteq> mnt \<longrightarrow> mc_Mounts s1 m = mc_Mounts s m)" by (rule unmount_cases [OF u]) simp
  have 2: "still s1 s2" using d by (rule silentD [rotated]) (intro silent_intros)
  obtain fl fs where 3: "s3 = s2\<lparr>mc_Faults := fl, mc_Mounts := (mc_Mounts s2)(mnt \<mapsto> (dev, True))\<rparr>" "fs_of s2 dev = Some fs" "fs_Type fs = wo_Filesystem wo"
    using mount_InrD [OF mo] by blast
  have m3: "mounted mnt s3 dev True fs" using 3 by (simp add: mounted_def)
  have 4: "still s3 s4" using l by (rule silentD [OF silent_loadManifest])
  have 5: "still s4 t" using f by (rule silentD [OF silent_listDataFiles])
  have m4: "mounted mnt s4 dev True fs" using m3 mounted_still [OF 4] by simp
  have "loaded wo t (dev, mnt) \<lparr>vd_mnt = mnt, vd_manifest = m, vd_files = rels\<rparr>"
    using loadManifest_InrD [OF l m3] listDataFiles_InrD [OF f m4] 3(3) m4 mounted_still [OF 5] by (auto simp: loaded_def)
  then show ?thesis using ds 1 3(1) stillD [OF 2] stillD [OF 4] stillD [OF 5] by simp
qed

lemma loads_InrD:
  "fold_prog xs (load_disk wo) (ds, n) s = (Inr (ds', n'), t) \<Longrightarrow> distinct (map snd xs) \<Longrightarrow>
   (\<exists>es. ds' = ds @ es \<and> list_all2 (loaded wo t) xs es) \<and> (\<forall>m. m \<notin> set (map snd xs) \<longrightarrow> mc_Mounts t m = mc_Mounts s m) \<and> fs_of t = fs_of s"
proof (induction xs arbitrary: ds n s)
  case Nil
  then show ?case by (simp add: ret_def)
next
  case (Cons x xs)
  obtain dev mnt where x: "x = (dev, mnt)" by fastforce
  from Cons.prems(1) x obtain acc s1 where a: "load_disk wo (dev, mnt) (ds, n) s = (Inr acc, s1)"
    and l: "fold_prog xs (load_disk wo) acc s1 = (Inr (ds', n'), t)" by (auto elim!: seq_InrE)
  obtain ds1 n1 where acc: "acc = (ds1, n1)" by fastforce
  from load_disk_InrD [OF a [unfolded acc]] obtain d where
    d: "ds1 = ds @ [d]" "loaded wo s1 (dev, mnt) d" "\<forall>m. m \<noteq> mnt \<longrightarrow> mc_Mounts s1 m = mc_Mounts s m" "fs_of s1 = fs_of s" by blast
  from Cons.IH [OF l [unfolded acc]] Cons.prems(2) obtain es where
    e: "ds' = ds1 @ es" "list_all2 (loaded wo t) xs es" "\<forall>m. m \<notin> set (map snd xs) \<longrightarrow> mc_Mounts t m = mc_Mounts s1 m" "fs_of t = fs_of s1" by auto
  have "mc_Mounts t mnt = mc_Mounts s1 mnt" using e(3) Cons.prems(2) x by simp
  then have "loaded wo t (dev, mnt) d" using d(2) e(4) by (simp add: loaded_def mounted_def)
  then have "ds' = ds @ d # es \<and> list_all2 (loaded wo t) (x # xs) (d # es)" using d(1) e(1,2) x by simp
  then show ?case using d e x by auto
qed

section \<open>Checking\<close>

lemma check_file_InrD:
  assumes "check_file T i d rel (ps, n) s = (Inr (ps', n'), t)" "mounted (vd_mnt d) s dev ro fs"
  shows "still s t \<and> (ps' = [] \<longleftrightarrow> ps = [] \<and> map_of (mf_Files (vd_manifest d)) rel = Some (entry T fs rel))"
proof (cases "map_of (mf_Files (vd_manifest d)) rel")
  case None
  with assms(1) show ?thesis by (auto simp: check_file_def ret_def)
next
  case (Some e)
  with assms(1) obtain sz h where hs: "hashFile T (vd_mnt d) rel s = (Inr (sz, h), t)"
    and p: "ps' = ps @ (if sz \<noteq> me_Size e then [on_disk i rel @ ''size '' @ itoa sz @ '', expected '' @ itoa (me_Size e)]
               else if h \<noteq> me_SHA256 e then [on_disk i rel @ ''checksum mismatch''] else [])"
    by (auto simp: check_file_def ret_def elim!: seq_InrE dest!: wrap_InrD)
  have "e = entry T fs rel \<longleftrightarrow> me_Size e = sz \<and> me_SHA256 e = h"
    using hashFile_InrD [OF hs assms(2)] by (cases e) (auto simp: entry_def)
  then show ?thesis using Some p silentD [OF silent_hashing(1) hs] by auto
qed

lemma check_files_InrD:
  "fold_prog rels (check_file T i d) (ps, n) s = (Inr (ps', n'), t) \<Longrightarrow> mounted (vd_mnt d) s dev ro fs \<Longrightarrow>
   still s t \<and> (ps' = [] \<longleftrightarrow> ps = [] \<and> (\<forall>rel \<in> set rels. map_of (mf_Files (vd_manifest d)) rel = Some (entry T fs rel)))"
proof (induction rels arbitrary: ps n s)
  case Nil
  then show ?case by (auto simp: ret_def)
next
  case (Cons r rs)
  from Cons.prems(1) obtain acc s1 where c: "check_file T i d r (ps, n) s = (Inr acc, s1)"
    and l: "fold_prog rs (check_file T i d) acc s1 = (Inr (ps', n'), t)" by (rule fold_prog_ConsE)
  obtain ps1 n1 where acc: "acc = (ps1, n1)" by fastforce
  note cf = check_file_InrD [OF c [unfolded acc] Cons.prems(2)]
  then have "mounted (vd_mnt d) s1 dev ro fs" using mounted_still Cons.prems(2) by blast
  from Cons.IH [OF l [unfolded acc] this] cf still_trans [of s s1 t] show ?case by auto
qed

lemma check_disk_InrD:
  assumes "check_disk T (i, d) (ps, n) s = (Inr (ps', n'), t)" "loaded wo s (dev, mnt) d"
  shows "still s t \<and> (ps' = [] \<longleftrightarrow> ps = [] \<and> (\<exists>fs. fs_of s dev = Some fs \<and> verifiable T (wo_Filesystem wo) fs))"
proof -
  from assms(2) obtain fs where fs: "mounted mnt s dev True fs" "fs_Type fs = wo_Filesystem wo" "vd_mnt d = mnt"
     "fs_Root fs ManifestFile = Some (DManifest (vd_manifest d))" "vd_files d = data_rels fs" by (auto simp: loaded_def)
  from assms(1) obtain ps1 where c: "fold_prog (vd_files d) (check_file T i d) (ps, n) s = (Inr (ps1, n'), t)" and p: "ps' = ps1 @ missing_files i d"
    by (auto simp: check_disk_def ret_def elim!: seq_InrE)
  have "missing_files i d = [] \<longleftrightarrow> fst ` set (mf_Files (vd_manifest d)) \<subseteq> set (data_rels fs)"
    by (auto simp: missing_files_def fs(5) filter_empty_conv)
  then show ?thesis using check_files_InrD [OF c, of dev True fs] fs p by (auto simp: verifiable_def intact_def mounted_def)
qed

lemma loaded_still: "still s t \<Longrightarrow> loaded wo t = loaded wo s"
  by (auto simp: loaded_def fun_eq_iff mounted_still)

lemma check_disks_InrD:
  "fold_prog (enumerate k ds) (check_disk T) (ps, n) s = (Inr (ps', n'), t) \<Longrightarrow> list_all2 (loaded wo s) xs ds \<Longrightarrow>
   still s t \<and> (ps' = [] \<longleftrightarrow> ps = [] \<and> (\<forall>dev \<in> fst ` set xs. \<exists>fs. fs_of s dev = Some fs \<and> verifiable T (wo_Filesystem wo) fs))"
proof (induction ds arbitrary: k ps n s xs)
  case Nil
  then show ?case by (auto simp: ret_def)
next
  case (Cons d ds)
  from Cons.prems(2) obtain dev mnt ys where xs: "xs = (dev, mnt) # ys" "loaded wo s (dev, mnt) d" "list_all2 (loaded wo s) ys ds"
    by (auto simp: list_all2_Cons2)
  from Cons.prems(1) obtain acc s1 where c: "check_disk T (k, d) (ps, n) s = (Inr acc, s1)"
    and l: "fold_prog (enumerate (Suc k) ds) (check_disk T) acc s1 = (Inr (ps', n'), t)" by (auto elim!: seq_InrE)
  obtain ps1 n1 where acc: "acc = (ps1, n1)" by fastforce
  note cd = check_disk_InrD [OF c [unfolded acc] xs(2)]
  then have st: "still s s1" by simp
  then have "list_all2 (loaded wo s1) ys ds" using xs(3) loaded_still by simp
  from Cons.IH [OF l [unfolded acc] this] cd still_trans [OF st] stillD [OF st] show ?case by (auto simp: xs(1))
qed

section \<open>Without faults\<close>

text \<open>On a machine whose calls do not fail the steps of a verify run succeed.\<close>

lemma calm_syscall_eq: "calm s \<Longrightarrow> syscall m s = m s"
  by (simp add: calm_def syscall_def)

lemma calm_hash: "calm s \<Longrightarrow> mounted mnt s dev ro fs \<Longrightarrow> file_at fs rel \<noteq> None \<Longrightarrow> \<exists>x. hashFile T mnt rel s = (Inr x, s)"
  by (auto simp: hashFile_def seq_eq calm_syscall_eq fs_read_def mounted_def ret_def)

lemma calm_list_dir: "calm s \<Longrightarrow> mounted mnt s dev ro fs \<Longrightarrow> \<exists>x. list_dir mnt dir out s = (Inr x, s)"
  by (auto simp: list_dir_def attempt_def read_dir_def calm_syscall_eq fs_read_def mounted_def ret_def split: option.splits)

lemma calm_list: "calm s \<Longrightarrow> mounted mnt s dev ro fs \<Longrightarrow> \<exists>x. listDataFiles mnt s = (Inr x, s)"
proof -
  assume c: "calm s" "mounted mnt s dev ro fs"
  have "\<exists>x. fold_prog dirs (list_dir mnt) out s = (Inr x, s)" for dirs out
  proof (induction dirs arbitrary: out)
    case (Cons a dirs)
    obtain x where "list_dir mnt a out s = (Inr x, s)" using calm_list_dir [OF c] by blast
    with Cons.IH [of x] show ?case by (simp add: seq_eq)
  qed (simp add: ret_def)
  from this [of dataDirs "[]"] show ?thesis by (auto simp: listDataFiles_def seq_eq ret_def)
qed

lemma calm_load:
  assumes c: "calm s" and fs: "fs_of s dev = Some fs" "fs_Type fs = wo_Filesystem wo" "fs_Root fs ManifestFile = Some (DManifest m)"
  shows "\<exists>acc' t. load_disk wo (dev, mnt) acc s = (Inr acc', t) \<and> calm t \<and> fs_of t = fs_of s"
proof -
  define s1 where "s1 = s\<lparr>mc_Mounts := (mc_Mounts s)(mnt \<mapsto> (dev, True))\<rparr>"
  have c1: "calm s1" "mounted mnt s1 dev True fs" "fs_of s1 = fs_of s" using c fs(1) by (simp_all add: s1_def calm_def mounted_def)
  have mo: "mountFSReadOnly dev mnt (wo_Filesystem wo) s = (Inr (), s1)"
    using c fs(1,2)
    by (simp add: mountFSReadOnly_def seq_eq ignore_def attempt_def ret_def unmount_def change_def wrap_def mount_def s1_def calm_def syscall_def)
  have lo: "loadManifest mnt s1 = (Inr m, s1)"
    using c1 fs(3) by (simp add: loadManifest_def read_root_def seq_eq calm_syscall_eq fs_read_def mounted_def ret_def)
  obtain rels where li: "listDataFiles mnt s1 = (Inr rels, s1)" using calm_list [OF c1(1,2)] by blast
  show ?thesis using c1 by (cases acc) (simp add: load_disk_def told_as_def attempt_def seq_eq mo lo li ret_def)
qed

lemma calm_loads:
  "calm s \<Longrightarrow> \<forall>dev \<in> fst ` set xs. \<exists>fs. fs_of s dev = Some fs \<and> verifiable T (wo_Filesystem wo) fs \<Longrightarrow>
   \<exists>acc' t. fold_prog xs (load_disk wo) acc s = (Inr acc', t) \<and> calm t \<and> fs_of t = fs_of s"
proof (induction xs arbitrary: acc s)
  case Nil
  then show ?case by (simp add: ret_def)
next
  case (Cons x xs)
  obtain dev mnt where x: "x = (dev, mnt)" by fastforce
  from Cons.prems(2) x obtain fs m where fs: "fs_of s dev = Some fs" "fs_Type fs = wo_Filesystem wo" "fs_Root fs ManifestFile = Some (DManifest m)"
    by (auto simp: verifiable_def)
  from calm_load [OF Cons.prems(1) fs, of mnt acc] obtain acc1 s1 where 1: "load_disk wo (dev, mnt) acc s = (Inr acc1, s1)" "calm s1" "fs_of s1 = fs_of s" by blast
  from Cons.IH [OF 1(2), of acc1] Cons.prems(2) 1 x show ?case by (auto simp: seq_eq)
qed

lemma calm_check_disk:
  assumes "calm s" "loaded wo s (dev, mnt) d" "\<And>fs. fs_of s dev = Some fs \<Longrightarrow> names_distinct fs"
  shows "\<exists>acc'. check_disk T (i, d) acc s = (Inr acc', s)"
proof -
  from assms(2) obtain fs where fs: "mounted (vd_mnt d) s dev True fs" "vd_files d = data_rels fs" by (auto simp: loaded_def)
  have n: "names_distinct fs" using assms(3) fs(1) by (simp add: mounted_def)
  have one: "\<exists>acc'. check_file T i d rel acc s = (Inr acc', s)" if "rel \<in> set (data_rels fs)" for rel acc
    using calm_hash [OF assms(1) fs(1) readable [OF n that], of T]
    by (auto simp: check_file_def seq_eq wrap_def attempt_def ret_def split: option.splits prod.splits)
  have "\<exists>acc'. fold_prog rels (check_file T i d) acc s = (Inr acc', s)" if "set rels \<subseteq> set (data_rels fs)" for rels acc
    using that
  proof (induction rels arbitrary: acc)
    case (Cons r rs)
    then obtain acc1 where "check_file T i d r acc s = (Inr acc1, s)" using one [of r acc] by auto
    then show ?case using Cons by (simp add: seq_eq)
  qed (simp add: ret_def)
  from this [of "vd_files d" acc] show ?thesis by (auto simp: check_disk_def fs(2) seq_eq ret_def split: prod.splits)
qed

lemma calm_checks:
  "calm s \<Longrightarrow> list_all2 (loaded wo s) xs ds \<Longrightarrow> \<forall>dev fs. fs_of s dev = Some fs \<longrightarrow> names_distinct fs \<Longrightarrow>
   \<exists>acc'. fold_prog (enumerate k ds) (check_disk T) acc s = (Inr acc', s)"
proof (induction ds arbitrary: k acc xs)
  case (Cons d ds)
  from Cons.prems(2) obtain dev mnt ys where xs: "loaded wo s (dev, mnt) d" "list_all2 (loaded wo s) ys ds"
    by (auto simp: list_all2_Cons2)
  from calm_check_disk [OF Cons.prems(1) xs(1)] Cons.prems(3) obtain acc1 where "check_disk T (k, d) acc s = (Inr acc1, s)" by blast
  then show ?case using Cons.IH [OF Cons.prems(1) xs(2) Cons.prems(3)] by (simp add: seq_eq)
qed (simp add: ret_def)

section \<open>The verdict\<close>

lemma report_total:
  "\<exists>k t. reportDone n s = (Inr (), t) \<and> mc_Block t = mc_Block s \<and> mc_Sent t = mc_Sent s @ replicate k (Done n) \<and> 0 < k \<and> k \<le> 12"
  "\<exists>k t. reportError e s = (Inr (), t) \<and> mc_Block t = mc_Block s \<and> mc_Sent t = mc_Sent s @ replicate k (Failed e) \<and> 0 < k \<and> k \<le> 12"
  using postReliable_told [of "Done n" s] postReliable_told [of "Failed e" s] by (auto simp: reportDone_def reportError_def dest!: told_frame)

lemma verify_checked:
  assumes run: "fold_prog (zip devices mounts) (load_disk wo) ([], 0) s = (Inr (disks, n), s1)" and some: "disks \<noteq> []"
    and ch: "fold_prog (enumerate 0 disks) (check_disk T) ([], 0) (s1\<lparr>mc_Prog := p\<rparr>) = (r, s2)"
    and mnts: "distinct mounts" "length mounts = length devices"
  shows "(\<exists>n. r = Inr ([], n)) \<longrightarrow> (\<forall>dev \<in> set devices. \<exists>fs. fs_of s dev = Some fs \<and> verifiable T (wo_Filesystem wo) fs)"
    and "calm s1 \<Longrightarrow> \<forall>dev fs. fs_of s dev = Some fs \<longrightarrow> names_distinct fs \<Longrightarrow>
      \<forall>dev \<in> set devices. \<exists>fs. fs_of s dev = Some fs \<and> verifiable T (wo_Filesystem wo) fs \<Longrightarrow> \<exists>n. r = Inr ([], n)"
proof -
  have "distinct (map snd (zip devices mounts))" using mnts by simp
  from loads_InrD [OF run this] have l: "list_all2 (loaded wo s1) (zip devices mounts) disks" "fs_of s1 = fs_of s" by simp_all
  have "loaded wo (s1\<lparr>mc_Prog := p\<rparr>) = loaded wo s1" by (simp add: loaded_def mounted_def fun_eq_iff)
  with l(1) have l': "list_all2 (loaded wo (s1\<lparr>mc_Prog := p\<rparr>)) (zip devices mounts) disks" by simp
  have d: "fst ` set (zip devices mounts) = set devices" using mnts by (metis list.set_map map_fst_zip)
  note cd = check_disks_InrD [of 0 disks T "[]" 0 "s1\<lparr>mc_Prog := p\<rparr>" _ _ s2, OF _ l', unfolded d]
  show "(\<exists>n. r = Inr ([], n)) \<longrightarrow> (\<forall>dev \<in> set devices. \<exists>fs. fs_of s dev = Some fs \<and> verifiable T (wo_Filesystem wo) fs)"
    using cd ch l(2) by auto
  show "\<exists>n. r = Inr ([], n)" if "calm s1" "\<forall>dev fs. fs_of s dev = Some fs \<longrightarrow> names_distinct fs"
      "\<forall>dev \<in> set devices. \<exists>fs. fs_of s dev = Some fs \<and> verifiable T (wo_Filesystem wo) fs"
  proof -
    have "calm (s1\<lparr>mc_Prog := p\<rparr>)" using that(1) by (simp add: calm_def)
    from calm_checks [OF this l', of 0 T "([], 0)"] that(2) l(2) ch obtain ps n' where "r = Inr (ps, n')" by (auto split: prod.splits)
    then show ?thesis using cd [of ps n'] ch that(3) l(2) by auto
  qed
qed

lemma verify_totals:
  assumes devs: "length devices = length (wo_Disks wo)" "length mounts = length devices" "distinct mounts" "devices \<noteq> []"
    and names: "\<forall>dev fs. fs_of s dev = Some fs \<longrightarrow> names_distinct fs"
  shows "\<exists>r k t. runVerify T wo devices mounts s = (Inr (), t) \<and> mc_Block t = mc_Block s
     \<and> mc_Sent t = mc_Sent s @ replicate k r \<and> 0 < k \<and> k \<le> 12
     \<and> ((\<exists>n. r = Done n) \<longrightarrow> (\<forall>dev \<in> set devices. \<exists>fs. fs_of s dev = Some fs \<and> verifiable T (wo_Filesystem wo) fs))
     \<and> (mc_Faults s = [] \<longrightarrow> (\<forall>dev \<in> set devices. \<exists>fs. fs_of s dev = Some fs \<and> verifiable T (wo_Filesystem wo) fs) \<longrightarrow> (\<exists>n. r = Done n))"
proof -
  let ?ok = "\<forall>dev \<in> set devices. \<exists>fs. fs_of s dev = Some fs \<and> verifiable T (wo_Filesystem wo) fs"

  have xs: "take (length (wo_Disks wo)) (zip devices mounts) = zip devices mounts" using devs by simp
  have d: "fst ` set (zip devices mounts) = set devices" using devs by (metis list.set_map map_fst_zip)
  obtain r1 s1 where load: "fold_prog (zip devices mounts) (load_disk wo) ([], 0) s = (r1, s1)" by fastforce
  have l1: "looks (mc_Block s) (mc_Sent s) s1"
    using keepsD [of "looks (mc_Block s) (mc_Sent s)" "fold_prog (zip devices mounts) (load_disk wo) ([], 0)" s] load
    by (simp add: inv_intros looks_intros looks_def)
  have calm1: "\<exists>acc. r1 = Inr acc \<and> calm s1" if "mc_Faults s = []" ?ok
    using calm_loads [of s "zip devices mounts" T wo "([], 0)"] that load d by (auto simp: calm_def)
  show ?thesis
  proof (cases r1)
    case (Inl e)
    have "runVerify T wo devices mounts s = reportError (error_text e) s1" by (simp add: runVerify_def xs attempt_def load Inl)
    then show ?thesis using report_total(2) [of "error_text e" s1] l1 calm1 Inl by (fastforce simp: looks_def)
  next
    case (Inr acc)
    obtain disks n where acc: "acc = (disks, n)" by fastforce
    have "distinct (map snd (zip devices mounts))" using devs by simp
    from loads_InrD [OF load [unfolded Inr acc] this] have ne: "disks \<noteq> []" using devs by auto
    define p where "p = startJob n no_progress"
    obtain r2 s2 where ch: "fold_prog (enumerate 0 disks) (check_disk T) ([], 0) (s1\<lparr>mc_Prog := p\<rparr>) = (r2, s2)" by fastforce
    have "looks (mc_Block s) (mc_Sent s) (s1\<lparr>mc_Prog := p\<rparr>)" using l1 by (simp add: looks_def)
    then have l2: "looks (mc_Block s) (mc_Sent s) (s2\<lparr>mc_Prog := q\<rparr>)" for q
      using keepsD [of "looks (mc_Block s) (mc_Sent s)" "fold_prog (enumerate 0 disks) (check_disk T) ([], 0)" "s1\<lparr>mc_Prog := p\<rparr>"] ch
      by (simp add: inv_intros looks_intros) (simp add: looks_def)
    note checked = verify_checked [OF load [unfolded Inr acc] ne ch devs(3,2)]
    define s3 where "s3 = s2\<lparr>mc_Prog := progress_update 1 0 (mc_Prog s2)\<rparr>"
    have run: "runVerify T wo devices mounts s = (case r2 of Inl e \<Rightarrow> reportError (error_text e)
        | Inr (problems, got) \<Rightarrow> if problems \<noteq> [] then reportError (verify_message problems) else reportDone got) s3"
      by (simp add: runVerify_def xs attempt_def load Inr acc ne seq_eq track_def change_def ch p_def [symmetric] s3_def)
    have good: "mc_Faults s = [] \<Longrightarrow> ?ok \<Longrightarrow> \<exists>n. r2 = Inr ([], n)" using calm1 checked(2) names by blast
    show ?thesis
    proof (cases "\<exists>n. r2 = Inr ([], n)")
      case True
      then obtain got where "r2 = Inr ([], got)" by blast
      with run have "runVerify T wo devices mounts s = reportDone got s3" by simp
      then show ?thesis using report_total(1) [of got s3] l2 checked(1) True by (fastforce simp: looks_def s3_def)
    next
      case False
      then obtain msg where "runVerify T wo devices mounts s = reportError msg s3"
        using run by (cases r2) (auto split: prod.splits if_splits)
      then show ?thesis using report_total(2) [of msg s3] l2 good False by (fastforce simp: looks_def s3_def)
    qed
  qed
qed

text \<open>
  C4. A verify run changes nothing on the disks and sends exactly one verdict, at most twelve
  times. If the verdict is \<open>done\<close>, every disk mounts and its data files are those its manifest
  lists, byte counts and checksums included; and while no call fails, \<open>done\<close> is the verdict
  exactly in that case.
\<close>

theorem verify_verdict:
  assumes devs: "length devices = length (wo_Disks wo)" "length mounts = length devices" "distinct mounts" "devices \<noteq> []"
    and names: "\<forall>dev fs. fs_of s dev = Some fs \<longrightarrow> names_distinct fs"
  shows "\<exists>r k t. runVerify T wo devices mounts s = (Inr (), t) \<and> mc_Block t = mc_Block s
     \<and> mc_Sent t = mc_Sent s @ replicate k r \<and> 0 < k \<and> k \<le> 12
     \<and> ((\<exists>n. r = Done n) \<longrightarrow> (\<forall>dev \<in> set devices. \<exists>fs. fs_of s dev = Some fs \<and> verifiable T (wo_Filesystem wo) fs))
     \<and> (mc_Faults s = [] \<longrightarrow> (\<forall>dev \<in> set devices. \<exists>fs. fs_of s dev = Some fs \<and> verifiable T (wo_Filesystem wo) fs) \<longrightarrow> (\<exists>n. r = Done n))"
  using assms by (rule verify_totals)


section \<open>A restored copy\<close>

text \<open>\<open>y\<close> holds the same data files as \<open>x\<close>, as far as sizes and checksums tell.\<close>

definition same_files :: "tools \<Rightarrow> filesystem \<Rightarrow> filesystem \<Rightarrow> bool" where
  "same_files T x y \<longleftrightarrow> set (data_rels y) = set (data_rels x) \<and> (\<forall>rel \<in> set (data_rels x). entry T y rel = entry T x rel)"

lemma map_of_pairs: "map_of (map (\<lambda>k. (k, f k)) ks) k = (if k \<in> set ks then Some (f k) else None)"
  by (induction ks) auto

lemma verifiable_copy:
  assumes "described T wo x" "fs_Type y = fs_Type x" "fs_Root y ManifestFile = fs_Root x ManifestFile"
  shows "verifiable T (wo_Filesystem wo) y \<longleftrightarrow> same_files T x y"
  using assms by (auto simp: described_def exact_def verifiable_def intact_def same_files_def exact_manifest_def map_of_pairs image_iff split: if_splits)

text \<open>\<open>y\<close> is a copy of \<open>x\<close> whose data may have suffered.\<close>

definition copies :: "machine \<Rightarrow> string list \<Rightarrow> machine \<Rightarrow> string list \<Rightarrow> bool" where
  "copies t devices u devices' \<longleftrightarrow> list_all2 (\<lambda>dev dev'. \<exists>x y. fs_of t dev = Some x \<and> fs_of u dev' = Some y
     \<and> fs_Type y = fs_Type x \<and> fs_Root y ManifestFile = fs_Root x ManifestFile) devices devices'"

lemma copies_verifiable:
  assumes c: "copies t devices u devices'" and x: "\<forall>dev \<in> set devices. \<exists>fs. fs_of t dev = Some fs \<and> described T wo fs"
    and ty: "wo_Filesystem wo' = wo_Filesystem wo"
  shows "(\<forall>dev' \<in> set devices'. \<exists>fs. fs_of u dev' = Some fs \<and> verifiable T (wo_Filesystem wo') fs)
     \<longleftrightarrow> list_all2 (\<lambda>dev dev'. same_files T (the (fs_of t dev)) (the (fs_of u dev'))) devices devices'"
  using c [unfolded copies_def] x
proof (induction rule: list_all2_induct)
  case (Cons dev devs dev' devs')
  then show ?case using verifiable_copy [of T wo] ty by auto
qed simp

text \<open>
  C5. A verify run of a restored copy: after an initial fill or an incremental run has described
  the disks, a verify on any machine whose disks carry copies of them, manifests included, ends
  with \<open>done\<close> if and only if every disk still holds exactly the files of the original with the
  same sizes and checksums (provided no call fails on that machine).
\<close>

theorem restored_copy_verdict:
  assumes x: "\<forall>dev \<in> set devices. \<exists>fs. fs_of t dev = Some fs \<and> described T wo fs"
    and c: "copies t devices u devices'" and ty: "wo_Filesystem wo' = wo_Filesystem wo" and ok: "mc_Faults u = []"
    and devs: "length devices' = length (wo_Disks wo')" "length mounts = length devices'" "distinct mounts" "devices' \<noteq> []"
    and names: "\<forall>dev fs. fs_of u dev = Some fs \<longrightarrow> names_distinct fs"
  shows "\<exists>r k v. runVerify T wo' devices' mounts u = (Inr (), v) \<and> mc_Sent v = mc_Sent u @ replicate k r \<and> 0 < k
     \<and> ((\<exists>n. r = Done n) \<longleftrightarrow> list_all2 (\<lambda>dev dev'. same_files T (the (fs_of t dev)) (the (fs_of u dev'))) devices devices')"
  using verify_totals [OF devs names, of T] copies_verifiable [OF c x ty] ok by blast

end
