(* ===== verification/AgentRun.thy ===== *)
theory AgentRun
  imports AgentIntact
begin

text \<open>
  The verdict of a run: whatever fails on the way, \<open>runFill\<close> does not panic and tells the
  controller exactly once how it ended. \<open>mum\<close> holds of the steps that send nothing.
\<close>

section \<open>One verdict per run\<close>

text \<open>Steps that send nothing and do not panic, and steps that end a run with one verdict.\<close>

definition mum :: "(machine, 'a) prog \<Rightarrow> bool" where
  "mum m \<longleftrightarrow> (\<forall>s. mc_Sent (snd (m s)) = mc_Sent s \<and> (\<forall>e. fst (m s) = Inl e \<longrightarrow> \<not> panicked e))"

definition tells :: "(machine, unit) prog \<Rightarrow> bool" where
  "tells m \<longleftrightarrow> (\<forall>s. \<exists>r k t. m s = (Inr (), t) \<and> mc_Sent t = mc_Sent s @ replicate k r \<and> 0 < k \<and> k \<le> 12
     \<and> ((\<exists>n. r = Done n) \<or> (\<exists>e. r = Failed e)))"

named_theorems mum_intros \<open>steps that send nothing and do not panic\<close>

lemma mumI: "(\<And>s q t. m s = (q, t) \<Longrightarrow> mc_Sent t = mc_Sent s \<and> (\<forall>e. q = Inl e \<longrightarrow> \<not> panicked e)) \<Longrightarrow> mum m"
  unfolding mum_def by (metis prod.collapse)

lemma mumD: "mum m \<Longrightarrow> m s = (q, t) \<Longrightarrow> mc_Sent t = mc_Sent s \<and> (\<forall>e. q = Inl e \<longrightarrow> \<not> panicked e)"
  unfolding mum_def by (metis fst_conv snd_conv)

lemma panicked_simps [simp]: "\<not> panicked (ErrOther m)" "\<not> panicked ErrNotFound" "panicked (ErrWrap p e) = panicked e"
  by (simp_all add: panicked_def)

lemma mum_basic [mum_intros]: "mum (ret x)" "mum (look f)" "mum (track g)" "\<not> panicked e \<Longrightarrow> mum (fail e)" "mum (unmount mnt)" "mum (mount dev mnt ty ro)"
  "mum (mkfs ty dev)" "mum (fio_process T mnt dir args)" "mum (fs_write mnt h)"
  by (auto simp: mum_def ret_def look_def track_def change_def fail_def unmount_def mount_def mkfs_def fio_process_def fs_write_def syscall_def Let_def
      split: option.splits list.splits prod.splits)

lemma mum_read: "(\<And>fs e. f fs = Inl e \<Longrightarrow> \<not> panicked e) \<Longrightarrow> mum (fs_read mnt f)"
  by (auto simp: mum_def fs_read_def split: option.splits prod.splits)

lemma mum_syscall [mum_intros]: "mum m \<Longrightarrow> mum (syscall m)"
  by (auto simp: mum_def syscall_def split: list.splits option.splits)

lemma mum_attempt [mum_intros]:
  assumes "mum m" "\<And>r. mum (k r)"
  shows "mum (attempt m k)"
proof (rule mumI)
  fix s q t assume run: "attempt m k s = (q, t)"
  obtain r u where m: "m s = (r, u)" by fastforce
  with run have k: "k r u = (q, t)" by (simp add: attempt_def)
  show "mc_Sent t = mc_Sent s \<and> (\<forall>e. q = Inl e \<longrightarrow> \<not> panicked e)" using mumD [OF assms(1) m] mumD [OF assms(2) k] by simp
qed

lemma mum_seq [mum_intros]:
  assumes "mum m" "\<And>x. mum (k x)"
  shows "mum (seq m k)"
proof (rule mumI)
  fix s q t assume run: "seq m k s = (q, t)"
  obtain r u where m: "m s = (r, u)" by fastforce
  show "mc_Sent t = mc_Sent s \<and> (\<forall>e. q = Inl e \<longrightarrow> \<not> panicked e)"
    using run m mumD [OF assms(1) m] mumD [OF assms(2), of _ u q t] by (cases r) (auto simp: seq_eq)
qed

lemma mum_wrap [mum_intros]: "mum m \<Longrightarrow> mum (wrap p m)"
  by (rule mumI) (auto simp: wrap_def attempt_def fail_def ret_def split: prod.splits sum.splits dest: mumD)

lemma mum_ignore [mum_intros]: "mum m \<Longrightarrow> mum (ignore m)"
  unfolding ignore_def by (intro mum_intros)

lemma mum_told [mum_intros]: "mum m \<Longrightarrow> mum (told_as f m)"
  by (rule mumI) (auto simp: told_as_def attempt_def fail_def ret_def split: prod.splits sum.splits dest: mumD)

lemma mum_cases [mum_intros]:
  "(c \<Longrightarrow> mum m) \<Longrightarrow> (\<not> c \<Longrightarrow> mum n) \<Longrightarrow> mum (if c then m else n)"
  "mum m \<Longrightarrow> (\<And>x. mum (f x)) \<Longrightarrow> mum (case p of None \<Rightarrow> m | Some x \<Rightarrow> f x)"
  "(\<And>e. mum (g e)) \<Longrightarrow> (\<And>x. mum (f x)) \<Longrightarrow> mum (case q of Inl e \<Rightarrow> g e | Inr x \<Rightarrow> f x)"
  "(\<And>x y. mum (h x y)) \<Longrightarrow> mum (case z of (x, y) \<Rightarrow> h x y)"
  "(\<And>x. mum (f x)) \<Longrightarrow> mum (Let v f)"
  by (auto split: option.splits sum.splits prod.splits)

lemma mum_loops [mum_intros]: "(\<And>x. mum (f x)) \<Longrightarrow> mum (for_each xs f)" "(\<And>x l. mum (g x l)) \<Longrightarrow> mum (fold_prog xs g l)"
proof -
  show "mum (for_each xs f)" if "\<And>x. mum (f x)" using that by (induction xs) (auto intro: mum_intros)
  show "mum (fold_prog xs g l)" if "\<And>x l. mum (g x l)" using that by (induction xs arbitrary: l) (auto intro: mum_intros)
qed

lemma mum_files [mum_intros]: "mum (read_root mnt name)" "mum (read_dir mnt dir)" "mum (hashFile T mnt rel)" "mum (loadManifest mnt)"
proof -
  show r: "mum (read_root mnt name)" for name unfolding read_root_def by (intro mum_intros mum_read) (auto split: option.splits)
  show "mum (read_dir mnt dir)" unfolding read_dir_def by (intro mum_intros mum_read) (auto split: option.splits)
  show "mum (hashFile T mnt rel)" unfolding hashFile_def by (intro mum_intros mum_read) (auto split: option.splits)
  show "mum (loadManifest mnt)" unfolding loadManifest_def by (auto split: doc.split intro!: mum_intros r)
qed

lemma mum_list [mum_intros]: "mum (listDataFiles mnt)" "mum (writeFileSync mnt name d)"
proof -
  have "mum (list_dir mnt dir out)" for dir out
    unfolding list_dir_def
    by (rule mumI) (auto simp: attempt_def ret_def fail_def split: prod.splits sum.splits if_splits dest: mumD [OF mum_files(2)])
  then show "mum (listDataFiles mnt)" unfolding listDataFiles_def by (intro mum_intros)
  show "mum (writeFileSync mnt name d)" unfolding writeFileSync_def finish_file_def syncDir_def by (intro mum_intros)
qed

lemma mum_manifest [mum_intros]: "mum (updateDiskManifest T mnt r changed)" "mum (writeIdentity mnt wo i)" "mum (writeRunMarker mnt r n)"
  unfolding updateDiskManifest_def add_entry_def [abs_def] fresh_entry_def hash_entry_def writeManifest_def syncDir_def writeIdentity_def writeRunMarker_def
  by (intro mum_intros)+

lemma mum_mounting [mum_intros]: "mum (makeFS dev mnt ty)" "mum (mountFS dev mnt ty)" "mum (mountFSReadOnly dev mnt ty)" "mum (flushDisks mounts)"
  "mum (mark_runs wo mounts n)" "mum (dataDisks k)"
  unfolding makeFS_def mountFS_def mountFSReadOnly_def flushDisks_def mark_runs_def dataDisks_def block_names_def
  by (auto intro!: mum_intros)

lemma mum_fio [mum_intros]: "mum (runFioStreaming T wo mnt dir name rs b extra)"
  unfolding runFioStreaming_def by (auto split: prod.split intro!: mum_intros)

lemma mum_fill_disk [mum_intros]: "wo_FileSizeBytes wo \<noteq> 0 \<Longrightarrow> mum (fill_disk T wo x)"
  unfolding fill_disk_def fillRegion_def mkdir_def by (auto split: prod.split intro!: mum_intros)

lemma mum_plan [mum_intros]: "mum (plan_disk T wo x acc)"
proof -
  have "mum (stat_entry e a)" for e a by (cases e; cases "snd e"; cases a) (simp_all add: stat_entry_def mum_intros)
  then show ?thesis unfolding plan_disk_def planChurn_def by (auto split: prod.split simp: Let_def intro!: mum_intros)
qed

lemma mum_churn [mum_intros]: "wo_FileSizeBytes wo \<noteq> 0 \<Longrightarrow> mum (churn_disk T wo x)"
proof -
  assume f: "wo_FileSizeBytes wo \<noteq> 0"
  have "mum (rewrite_file T wo mnt plan y l)" for mnt plan y l unfolding rewrite_file_def by (auto split: prod.split intro!: mum_intros)
  moreover have "mum (growthFileNames mnt r)" for mnt r
    unfolding growthFileNames_def by (rule mumI) (auto simp: attempt_def ret_def split: prod.splits sum.splits dest: mumD [OF mum_files(2)])
  ultimately show ?thesis using f unfolding churn_disk_def applyChurn_def by (auto split: prod.split intro!: mum_intros)
qed

lemma mum_complete [mum_intros]: "mum (runAlreadyComplete wo devices mounts)"
proof -
  have "mum (complete_disks wo ds n)" for ds n
    by (induction ds arbitrary: n) (auto simp: Let_def intro!: mum_intros)
  then show ?thesis by (simp add: runAlreadyComplete_def)
qed

lemma mum_verify [mum_intros]: "mum (load_disk wo x acc)" "mum (check_disk T y acc')"
  unfolding load_disk_def check_disk_def check_file_def by (auto split: prod.split option.split intro!: mum_intros)

section \<open>Verdicts\<close>

lemma tells_reports: "tells (reportDone n)" "tells (reportError e)"
  unfolding tells_def using report_total by blast+

lemma tellsD: "tells m \<Longrightarrow> \<exists>r k t. m s = (Inr (), t) \<and> mc_Sent t = mc_Sent s @ replicate k r \<and> 0 < k \<and> k \<le> 12 \<and> ((\<exists>n. r = Done n) \<or> (\<exists>e. r = Failed e))"
  by (simp add: tells_def)

text \<open>The steps before the verdict: \<open>m\<close> is in state \<open>s\<close>, and what follows gives one.\<close>

lemma tells_after: "mum m \<Longrightarrow> m s = (q, u) \<Longrightarrow> tells n \<Longrightarrow> \<exists>r k t. n u = (Inr (), t) \<and> mc_Sent t = mc_Sent s @ replicate k r
     \<and> 0 < k \<and> k \<le> 12 \<and> ((\<exists>n. r = Done n) \<or> (\<exists>e. r = Failed e))"
  using tellsD [of n u] mumD [of m s q u] by simp

lemma tells_attempt:
  assumes "mum m" "\<And>r. tells (k r)"
  shows "tells (attempt m k)"
  unfolding tells_def
proof
  fix s
  obtain q u where m: "m s = (q, u)" by fastforce
  show "\<exists>r j t. attempt m k s = (Inr (), t) \<and> mc_Sent t = mc_Sent s @ replicate j r \<and> 0 < j \<and> j \<le> 12 \<and> ((\<exists>n. r = Done n) \<or> (\<exists>e. r = Failed e))"
    using tells_after [OF assms(1) m assms(2) [of q]] by (simp add: attempt_def m)
qed

lemma tells_seq:
  assumes "mum m" "nofail m" "\<And>x. tells (k x)"
  shows "tells (seq m k)"
  unfolding tells_def
proof
  fix s
  obtain x u where m: "m s = (Inr x, u)" using nofailD [OF assms(2)] by blast
  show "\<exists>r j t. seq m k s = (Inr (), t) \<and> mc_Sent t = mc_Sent s @ replicate j r \<and> 0 < j \<and> j \<le> 12 \<and> ((\<exists>n. r = Done n) \<or> (\<exists>e. r = Failed e))"
    using tells_after [OF assms(1) m assms(3) [of x]] by (simp add: seq_eq m)
qed

lemma tells_returned: "mum m \<Longrightarrow> (\<And>r. tells (k r)) \<Longrightarrow> tells (returned m k)"
proof -
  assume m: "mum m" and k: "\<And>r. tells (k r)"
  have "returned m k s = attempt m k s" for s
    using mumD [OF m, of s] by (auto simp: returned_def attempt_def split: prod.splits sum.splits)
  then have "returned m k = attempt m k" by blast
  then show ?thesis using tells_attempt [OF m k] by simp
qed


lemma nofail_steps [nofail_intros]: "nofail (track f)" "nofail (flushDisks mounts)" "nofail (mark_runs wo mounts n)" "nofail (runAlreadyComplete wo devices mounts)"
proof -
  have "nofail (complete_disks wo ds n)" for ds n
    by (induction ds arbitrary: n) (auto simp: Let_def intro!: nofail_intros)
  then show "nofail (runAlreadyComplete wo devices mounts)" by (simp add: runAlreadyComplete_def)
qed (auto simp: track_def flushDisks_def mark_runs_def writeRunMarker_def intro!: nofail_intros)

lemmas tells_intros = tells_reports tells_seq tells_attempt tells_returned mum_cases(1-4) mum_intros nofail_intros

lemma tells_fills: "wo_FileSizeBytes wo \<noteq> 0 \<Longrightarrow> tells (runInitialFill T wo devices mounts)"
  "wo_FileSizeBytes wo \<noteq> 0 \<Longrightarrow> tells (runIncremental T wo devices mounts)"
  unfolding runInitialFill_def runIncremental_def
  by (auto split: sum.split prod.split intro!: tells_intros)

lemma loads_length: "fold_prog xs (load_disk wo) (ds, n) s = (Inr (ds', n'), t) \<Longrightarrow> length ds' = length ds + length xs"
proof (induction xs arbitrary: ds n s)
  case (Cons x xs)
  obtain dev mnt where x: "x = (dev, mnt)" by fastforce
  from Cons.prems x obtain acc s1 where a: "load_disk wo (dev, mnt) (ds, n) s = (Inr acc, s1)"
    and l: "fold_prog xs (load_disk wo) acc s1 = (Inr (ds', n'), t)" by (auto elim!: seq_InrE)
  obtain ds1 n1 where acc: "acc = (ds1, n1)" by fastforce
  show ?case using Cons.IH [OF l [unfolded acc]] load_disk_InrD [OF a [unfolded acc]] by auto
qed (simp add: ret_def)

lemma tells_verify:
  assumes "wo_Disks wo \<noteq> []" "devices \<noteq> []" "mounts \<noteq> []"
  shows "tells (runVerify T wo devices mounts)"
  unfolding tells_def
proof
  fix s
  let ?xs = "take (length (wo_Disks wo)) (zip devices mounts)"
  let ?load = "fold_prog ?xs (load_disk wo) ([], 0)"
  let ?rest = "\<lambda>disks n. seq (track (\<lambda>_. startJob n no_progress)) (\<lambda>_. attempt (fold_prog (enumerate 0 disks) (check_disk T) ([], 0)) (\<lambda>r.
      seq (track (progress_update 1 0)) (\<lambda>_. case r of Inl e \<Rightarrow> reportError (error_text e)
        | Inr (problems, got) \<Rightarrow> if problems \<noteq> [] then reportError (verify_message problems) else reportDone got)))"
  obtain q u where q: "?load s = (q, u)" by fastforce
  have m: "mum ?load" by (intro mum_intros)
  have t: "tells (?rest disks n)" for disks n by (auto split: sum.split prod.split intro!: tells_intros)
  show "\<exists>r j t. runVerify T wo devices mounts s = (Inr (), t) \<and> mc_Sent t = mc_Sent s @ replicate j r \<and> 0 < j \<and> j \<le> 12
      \<and> ((\<exists>n. r = Done n) \<or> (\<exists>e. r = Failed e))"
  proof (cases q)
    case (Inl e)
    then show ?thesis using tells_after [OF m q tells_reports(2)] by (simp add: runVerify_def attempt_def q)
  next
    case (Inr acc)
    obtain disks n where acc: "acc = (disks, n)" by fastforce
    have "length ?xs \<noteq> 0" using assms by (simp add: min_def)
    then have "disks \<noteq> []" using loads_length [OF q [unfolded Inr acc]] by (metis add_0 list.size(3))
    then show ?thesis using tells_after [OF m q t] by (simp add: runVerify_def attempt_def q Inr acc)
  qed
qed

lemma dataDisks_length: "dataDisks k s = (Inr devices, t) \<Longrightarrow> length devices = k"
  by (auto simp: dataDisks_def ret_def fail_def Let_def elim!: seq_InrE split: if_splits)

text \<open>
  C28. Whatever fails on the way, executing a work order ends (the agent does not panic) and
  sends the controller exactly one verdict, \<open>done\<close> or an error, repeated at most twelve times.
\<close>

theorem one_verdict:
  assumes "wo_Disks wo \<noteq> []" "wo_FileSizeBytes wo \<noteq> 0"
  shows "\<exists>r k t. runFill_agent T wo s = (Inr (), t) \<and> mc_Sent t = mc_Sent s @ replicate k r \<and> 0 < k \<and> k \<le> 12
     \<and> ((\<exists>n. r = Done n) \<or> (\<exists>e. r = Failed e))"
proof -
  obtain q u where q: "dataDisks (length (wo_Disks wo)) s = (q, u)" by fastforce
  show ?thesis
  proof (cases q)
    case (Inl e)
    then show ?thesis using tells_after [OF mum_mounting(6) q tells_reports(2)] by (simp add: runFill_agent_def attempt_def q)
  next
    case (Inr devices)
    then have "devices \<noteq> []" "disk_mounts wo \<noteq> []" using dataDisks_length [of "length (wo_Disks wo)" s devices u] q assms(1) by (auto simp: disk_mounts_def)
    then have "tells (if wo_RunType wo = RunVerify then runVerify T wo devices (disk_mounts wo)
        else seq (runAlreadyComplete wo devices (disk_mounts wo)) (\<lambda>(n, ok).
          if ok then seq (flushDisks (disk_mounts wo)) (\<lambda>_. reportDone n)
          else if wo_RunType wo = RunIncremental then runIncremental T wo devices (disk_mounts wo)
          else runInitialFill T wo devices (disk_mounts wo)))"
      using assms by (auto split: prod.split intro!: tells_verify tells_fills tells_intros)
    from tells_after [OF mum_mounting(6) q this] show ?thesis by (simp add: runFill_agent_def attempt_def q Inr Let_def)
  qed
qed

end
