(* ===== verification/AgentHealthy.thy ===== *)
theory AgentHealthy
  imports AgentRun
begin

text \<open>
  Runs on a healthy machine: no system call fails and every fio process ends well. There the steps
  of a run succeed, so that its verdict is known and not only sound: \<open>succeeds\<close> is a
  total-correctness triple over the filesystem a step works on.
\<close>

section \<open>Healthy machines\<close>

definition healthy :: "machine \<Rightarrow> bool" where
  "healthy s \<longleftrightarrow> mc_Faults s = [] \<and> mc_Fio s = []"

definition succeeds :: "string \<Rightarrow> string \<Rightarrow> (filesystem \<Rightarrow> bool) \<Rightarrow> (machine, 'a) prog \<Rightarrow> ('a \<Rightarrow> filesystem \<Rightarrow> bool) \<Rightarrow> bool" where
  "succeeds dev mnt Q m R \<longleftrightarrow> (\<forall>s fs. healthy s \<and> mounted mnt s dev False fs \<and> Q fs \<longrightarrow>
     (\<exists>x t fs'. m s = (Inr x, t) \<and> healthy t \<and> mounted mnt t dev False fs' \<and> R x fs'))"

text \<open>The names of a directory are listed in order, none twice.\<close>

definition ordered :: "filesystem \<Rightarrow> bool" where
  "ordered fs \<longleftrightarrow> (\<forall>dir es. fs_Dirs fs dir = Some es \<longrightarrow> sorted_wrt (<) (map fst es))"

named_theorems ok_intros \<open>rules for \<open>succeeds\<close>\<close>

lemma succeedsD:
  assumes "succeeds dev mnt Q m R" "healthy s" "mounted mnt s dev False fs" "Q fs"
  obtains x t fs' where "m s = (Inr x, t)" "healthy t" "mounted mnt t dev False fs'" "R x fs'"
  using assms unfolding succeeds_def by blast

lemma succeeds_weaken: "succeeds dev mnt Q m R \<Longrightarrow> (\<And>fs. P fs \<Longrightarrow> Q fs) \<Longrightarrow> (\<And>x fs. R x fs \<Longrightarrow> S x fs) \<Longrightarrow> succeeds dev mnt P m S"
  unfolding succeeds_def by meson

lemma succeeds_pre: "(P \<Longrightarrow> succeeds dev mnt Q m R) \<Longrightarrow> succeeds dev mnt (\<lambda>fs. P \<and> Q fs) m R"
  unfolding succeeds_def by blast

lemma succeeds_ret [ok_intros]: "(\<And>fs. Q fs \<Longrightarrow> R x fs) \<Longrightarrow> succeeds dev mnt Q (ret x) R"
  unfolding succeeds_def ret_def by blast

lemma succeeds_seq:
  assumes "succeeds dev mnt Q m R" "\<And>x. succeeds dev mnt (R x) (k x) S"
  shows "succeeds dev mnt Q (seq m k) S"
  unfolding succeeds_def
proof (intro allI impI)
  fix s fs assume "healthy s \<and> mounted mnt s dev False fs \<and> Q fs"
  then obtain x t fs1 where m: "m s = (Inr x, t)" and t: "healthy t" "mounted mnt t dev False fs1" "R x fs1"
    using succeedsD [OF assms(1)] by metis
  from succeedsD [OF assms(2) t] obtain y u fs2 where "k x t = (Inr y, u)" "healthy u" "mounted mnt u dev False fs2" "S y fs2" by metis
  with m show "\<exists>x t fs'. seq m k s = (Inr x, t) \<and> healthy t \<and> mounted mnt t dev False fs' \<and> S x fs'" by (auto simp: seq_eq)
qed

text \<open>A step that works on a fixed predicate, between steps that keep it.\<close>

lemma succeeds_then [ok_intros]: "succeeds dev mnt Q m (\<lambda>_. Q) \<Longrightarrow> (\<And>x. succeeds dev mnt Q (k x) R) \<Longrightarrow> succeeds dev mnt Q (seq m k) R"
  by (rule succeeds_seq)

lemma succeeds_attempt:
  assumes "silent m" "keeps calm m" "\<And>q. succeeds dev mnt Q (k q) R"
  shows "succeeds dev mnt Q (attempt m k) R"
  unfolding succeeds_def
proof (intro allI impI)
  fix s fs assume a: "healthy s \<and> mounted mnt s dev False fs \<and> Q fs"
  obtain q t where m: "m s = (q, t)" by fastforce
  have "still s t" using assms(1) m by (rule silentD)
  then have "healthy t" "mounted mnt t dev False fs" using a keepsD [OF assms(2), of s] m mounted_still stillD [of s t]
    by (auto simp: healthy_def calm_def)
  with a obtain x u fs' where "k q t = (Inr x, u)" "healthy u" "mounted mnt u dev False fs'" "R x fs'"
    using succeedsD [OF assms(3) [of q], of t fs] by metis
  with m show "\<exists>x t fs'. attempt m k s = (Inr x, t) \<and> healthy t \<and> mounted mnt t dev False fs' \<and> R x fs'"
    by (auto simp: attempt_def)
qed

lemma succeeds_wrap [ok_intros]: "succeeds dev mnt Q m R \<Longrightarrow> succeeds dev mnt Q (wrap p m) R"
  unfolding succeeds_def by (fastforce simp: wrap_def attempt_def ret_def)

lemma succeeds_ignore [ok_intros]: "succeeds dev mnt Q m (\<lambda>_. R) \<Longrightarrow> succeeds dev mnt Q (ignore m) (\<lambda>_. R)"
  unfolding succeeds_def by (fastforce simp: ignore_def attempt_def ret_def)

lemma succeeds_if [ok_intros]: "(c \<Longrightarrow> succeeds dev mnt Q m R) \<Longrightarrow> (\<not> c \<Longrightarrow> succeeds dev mnt Q n R) \<Longrightarrow> succeeds dev mnt Q (if c then m else n) R"
  by simp

lemma succeeds_syscall [ok_intros]: "succeeds dev mnt Q m R \<Longrightarrow> succeeds dev mnt Q (syscall m) R"
  unfolding succeeds_def by (simp add: syscall_def healthy_def)

lemma succeeds_read: "(\<And>fs. Q fs \<Longrightarrow> \<exists>x. f fs = Inr x \<and> R x fs) \<Longrightarrow> succeeds dev mnt Q (fs_read mnt f) R"
  unfolding succeeds_def by (fastforce simp: fs_read_def mounted_def)

lemma succeeds_write [ok_intros]: "(\<And>fs. Q fs \<Longrightarrow> R (f fs)) \<Longrightarrow> succeeds dev mnt Q (fs_write mnt f) (\<lambda>_. R)"
  unfolding succeeds_def using fs_of_blocked by (fastforce simp: fs_write_def mounted_def healthy_def fs_of_set_fs)

lemma succeeds_track [ok_intros]: "(\<And>fs. Q fs \<Longrightarrow> R fs) \<Longrightarrow> succeeds dev mnt Q (track f) (\<lambda>_. R)"
  unfolding succeeds_def by (auto simp: track_def change_def mounted_def healthy_def)

lemma succeeds_look [ok_intros]: "(\<And>fs. Q fs \<Longrightarrow> R fs) \<Longrightarrow> succeeds dev mnt Q (look f) (\<lambda>_. R)"
  unfolding succeeds_def by (auto simp: look_def)

lemma succeeds_fold: "(\<And>x l. x \<in> set xs \<Longrightarrow> succeeds dev mnt Q (f x l) (\<lambda>_. Q)) \<Longrightarrow> succeeds dev mnt Q (fold_prog xs f l) (\<lambda>_. Q)"
  by (induction xs arbitrary: l) (auto intro!: ok_intros)

section \<open>Files\<close>

lemma put_entry_fst: "fst ` set (put_entry n c es) = insert n (fst ` set es)"
  by (induction n c es rule: put_entry.induct) auto

lemma sorted_put_entry: "sorted_wrt (<) (map fst es) \<Longrightarrow> sorted_wrt (<) (map fst (put_entry n c es))"
proof (induction n c es rule: put_entry.induct)
  case (2 n c m d es)
  then have "\<forall>k \<in> fst ` set (put_entry n c es). m < k" if "m < n" using that put_entry_fst [of n c es] by auto
  with 2 show ?case by (auto simp: image_iff)
qed simp

lemma ordered_put_files: "ordered fs \<Longrightarrow> ordered (put_files dir ws fs)"
proof -
  assume o: "ordered fs"
  have "sorted_wrt (<) (map fst es) \<Longrightarrow> sorted_wrt (<) (map fst (fold (\<lambda>(n, c). put_entry n (Some c)) ws es))" for es :: directory
    by (induction ws arbitrary: es) (auto simp: sorted_put_entry)
  then show ?thesis using o by (auto simp: ordered_def put_files_def split: option.splits)
qed

lemma ordered_roots [simp]: "ordered (put_root n d fs) = ordered fs" "ordered (fs\<lparr>fs_Root := r\<rparr>) = ordered fs"
  by (simp_all add: ordered_def put_root_def)

lemma ordered_distinct: "ordered fs \<Longrightarrow> names_distinct fs"
  unfolding ordered_def names_distinct_def by (meson strict_sorted_iff)

lemma ordered_mkdir: "ordered fs \<Longrightarrow> ordered (if fs_Dirs fs dir = None then fs\<lparr>fs_Dirs := (fs_Dirs fs)(dir \<mapsto> [])\<rparr> else fs)"
  by (auto simp: ordered_def)

lemma ok_fio:
  assumes "\<And>fs. Q fs \<Longrightarrow> R (put_files dir (fst (tl_fio T (fio_args wo name rs extra))) fs)"
  shows "succeeds dev mnt Q (runFioStreaming T wo mnt dir name rs b extra) (\<lambda>_. R)"
proof -
  have p: "succeeds dev mnt Q (fio_process T mnt dir args) (\<lambda>(ended, out) fs. ended = None \<and> R fs)"
    if "\<And>fs. Q fs \<Longrightarrow> R (put_files dir (fst (tl_fio T args)) fs)" for args
    unfolding succeeds_def
  proof (intro allI impI)
    fix s fs assume a: "healthy s \<and> mounted mnt s dev False fs \<and> Q fs"
    obtain files out where T: "tl_fio T args = (files, out)" by fastforce
    have "fio_process T mnt dir args s = (Inr (None, out), set_fs dev (put_files dir files fs) (s\<lparr>mc_Fio := []\<rparr>))"
      using a T by (simp add: fio_process_def healthy_def fs_write_def mounted_def)
    then show "\<exists>x t fs'. fio_process T mnt dir args s = (Inr x, t) \<and> healthy t \<and> mounted mnt t dev False fs' \<and> (case x of (ended, out) \<Rightarrow> \<lambda>fs. ended = None \<and> R fs) fs'"
      using a T that [of fs] fs_of_blocked [of s dev fs] by (auto simp: healthy_def mounted_def fs_of_set_fs)
  qed
  show ?thesis
    unfolding runFioStreaming_def
    by (rule succeeds_then, rule succeeds_track, assumption, rule succeeds_then, intro ok_intros, assumption,
        rule succeeds_seq, rule p, rule assms, assumption)
      (auto intro!: succeeds_pre ok_intros split: prod.splits)
qed

lemma ok_finish [ok_intros]: "succeeds dev mnt Q (syncDir mnt') (\<lambda>_. Q)" "succeeds dev mnt Q (finish_file mnt') (\<lambda>_. Q)"
  unfolding finish_file_def syncDir_def by (auto intro!: ok_intros)

lemma ok_writeFileSync: "(\<And>fs. Q fs \<Longrightarrow> R (put_root name d fs)) \<Longrightarrow> succeeds dev mnt Q (writeFileSync mnt name d) (\<lambda>_. R)"
  unfolding writeFileSync_def
  by (rule succeeds_seq [where R = "\<lambda>_ fs. \<exists>fs0. Q fs0 \<and> fs = put_root name (DText '''') fs0"], intro ok_intros, blast,
      rule succeeds_seq [where R = "\<lambda>_. R"], rule succeeds_syscall, rule succeeds_write)
    (auto simp: fun_cong [OF put_root_twice, unfolded comp_def] intro!: ok_intros)

lemma ok_mkdir: "succeeds dev mnt ordered (mkdir mnt dir) (\<lambda>_. ordered)"
  unfolding mkdir_def by (intro ok_intros ordered_mkdir)

lemma ok_fillRegion: "wo_FileSizeBytes wo \<noteq> 0 \<Longrightarrow> succeeds dev mnt ordered (fillRegion T wo mnt region b rs) (\<lambda>_. ordered)"
  unfolding fillRegion_def by (auto intro!: ok_intros ok_mkdir ok_fio ordered_put_files)

lemma ok_writeIdentity: "succeeds dev mnt ordered (writeIdentity mnt wo i) (\<lambda>_. ordered)"
  unfolding writeIdentity_def by (auto intro!: ok_intros ok_writeFileSync split: option.split)

lemma ok_hash: "ordered fs0 \<Longrightarrow> rel \<in> set (data_rels fs0) \<Longrightarrow> succeeds dev mnt (\<lambda>fs. fs = fs0) (hash_entry T mnt rel) (\<lambda>_ fs. fs = fs0)"
  using readable [OF ordered_distinct]
  unfolding hash_entry_def hashFile_def
  by (auto intro!: ok_intros succeeds_read split: option.split prod.split)

lemma ok_list_dir: "succeeds dev mnt (\<lambda>fs. fs = fs0) (list_dir mnt dir out) (\<lambda>_ fs. fs = fs0)"
  unfolding succeeds_def
proof (intro allI impI)
  fix s fs assume a: "healthy s \<and> mounted mnt s dev False fs \<and> fs = fs0"
  then obtain x where "list_dir mnt dir out s = (Inr x, s)" using calm_list_dir [of s mnt dev False fs] by (auto simp: healthy_def calm_def)
  with a show "\<exists>x t fs'. list_dir mnt dir out s = (Inr x, t) \<and> healthy t \<and> mounted mnt t dev False fs' \<and> fs' = fs0" by auto
qed

lemma ok_listDataFiles: "succeeds dev mnt (\<lambda>fs. fs = fs0) (listDataFiles mnt) (\<lambda>rels fs. rels = data_rels fs0 \<and> fs = fs0)"
  unfolding succeeds_def
proof (intro allI impI)
  fix s fs assume a: "healthy s \<and> mounted mnt s dev False fs \<and> fs = fs0"
  then obtain x where x: "listDataFiles mnt s = (Inr x, s)" using calm_list [of s mnt dev False fs] by (auto simp: healthy_def calm_def)
  with a show "\<exists>x t fs'. listDataFiles mnt s = (Inr x, t) \<and> healthy t \<and> mounted mnt t dev False fs' \<and> x = data_rels fs0 \<and> fs' = fs0"
    using listDataFiles_InrD [OF x] by auto
qed

lemma ok_writeManifest: "succeeds dev mnt ordered (writeManifest mnt m) (\<lambda>_. ordered)"
  unfolding writeManifest_def by (auto intro!: ok_intros ok_writeFileSync)

lemma ok_updateDiskManifest: "succeeds dev mnt ordered (updateDiskManifest T mnt r changed) (\<lambda>_. ordered)"
proof -
  have "succeeds dev mnt (\<lambda>fs. fs = fs0) (updateDiskManifest T mnt r changed) (\<lambda>_. ordered)" if o: "ordered fs0" for fs0
    unfolding updateDiskManifest_def Let_def
  proof (rule succeeds_attempt [OF silent_loadManifest calm_doc(1)], rule succeeds_seq [OF ok_listDataFiles], rule succeeds_pre,
      rule succeeds_seq [where R = "\<lambda>_ fs. fs = fs0"])
    fix q rels assume "rels = data_rels fs0"
    then show "succeeds dev mnt (\<lambda>fs. fs = fs0) (fold_prog rels (add_entry T mnt (case q of Inl _ \<Rightarrow> [] | Inr m \<Rightarrow> mf_Files m) changed) []) (\<lambda>_ fs. fs = fs0)"
      by (intro succeeds_fold) (auto simp: add_entry_def fresh_entry_def intro!: ok_intros ok_hash o split: option.split)
  next
    show "succeeds dev mnt (\<lambda>fs. fs = fs0) (writeManifest mnt m) (\<lambda>_. ordered)" for m
      by (rule succeeds_weaken [OF ok_writeManifest]) (use o in auto)
  qed
  then show ?thesis unfolding succeeds_def by blast
qed

section \<open>One disk\<close>

lemma healthy_makeFS:
  assumes "healthy s" "map_of (mc_Block s) dev \<noteq> None"
  shows "\<exists>t. makeFS dev mnt ty s = (Inr (), t) \<and> healthy t"
proof -
  have "fs_of (set_fs dev fs (s\<lparr>mc_Mounts := M\<rparr>)) dev = Some fs" for fs M using assms(2) by (simp add: fs_of_set_fs)
  moreover obtain x where "map_of (mc_Block s) dev = Some x" using assms(2) by blast
  ultimately show ?thesis using assms(1)
    by (simp add: makeFS_def seq_eq ignore_def attempt_def ret_def unmount_def change_def wrap_def mkfs_def mount_def healthy_def syscall_def empty_fs_def)
qed

lemma healthy_fill_disk:
  assumes s: "healthy s" "map_of (mc_Block s) dev \<noteq> None" and f: "wo_FileSizeBytes wo \<noteq> 0"
  shows "\<exists>t fs. fill_disk T wo (disk, dev, mnt) s = (Inr (), t) \<and> healthy t \<and> fs_of t dev = Some fs \<and> ordered fs"
proof -
  obtain t where t: "makeFS dev mnt (wo_Filesystem wo) s = (Inr (), t)" "healthy t" using healthy_makeFS [OF s] by blast
  have m: "mounted mnt t dev False (empty_fs (wo_Filesystem wo))" using makeFS_InrD [OF t(1)] by simp
  have o: "ordered (empty_fs (wo_Filesystem wo))" by (simp add: ordered_def empty_fs_def)
  have "succeeds dev mnt ordered (seq (wrap (''disk '' @ dev @ '' global: '') (fillRegion T wo mnt ''global'' (dw_GlobalBytes disk) (dw_GlobalSeed disk))) (\<lambda>_.
     seq (wrap (''disk '' @ dev @ '' local: '') (fillRegion T wo mnt ''local'' (dw_LocalBytes disk) (dw_LocalSeed disk))) (\<lambda>_.
     seq (writeIdentity mnt wo (dw_Index disk)) (\<lambda>_.
     wrap (''disk '' @ dev @ '' manifest: '') (updateDiskManifest T mnt (wo_RunID wo) []))))) (\<lambda>_. ordered)" (is "succeeds _ _ _ ?rest _")
    using f by (intro ok_intros ok_fillRegion ok_writeIdentity ok_updateDiskManifest)
  from succeedsD [OF this t(2) m o] obtain u fs where "?rest t = (Inr (), u)" "healthy u" "mounted mnt u dev False fs" "ordered fs" by auto
  moreover have "fill_disk T wo (disk, dev, mnt) s = ?rest t" using t(1) by (simp add: fill_disk_def seq_eq wrap_def attempt_def ret_def)
  ultimately show ?thesis by (auto simp: mounted_def)
qed

section \<open>An initial fill\<close>

definition orderly :: "machine \<Rightarrow> bool" where
  "orderly s \<longleftrightarrow> (\<forall>dev fs. fs_of s dev = Some fs \<longrightarrow> ordered fs)"

lemma healthy_fill_disks:
  "healthy s \<Longrightarrow> orderly s \<Longrightarrow> wo_FileSizeBytes wo \<noteq> 0 \<Longrightarrow> \<forall>dev \<in> set (map (\<lambda>(_, dev, _). dev) xs). map_of (mc_Block s) dev \<noteq> None \<Longrightarrow>
   \<exists>t. for_each xs (fill_disk T wo) s = (Inr (), t) \<and> healthy t \<and> orderly t"
proof (induction xs arbitrary: s)
  case Nil
  then show ?case by (simp add: ret_def)
next
  case (Cons x xs)
  obtain disk dev mnt where x: "x = (disk, dev, mnt)" by (cases x)
  have "map_of (mc_Block s) dev \<noteq> None" using Cons.prems(4) x by simp
  from healthy_fill_disk [OF Cons.prems(1) this Cons.prems(3)] obtain s1 fs where
    f: "fill_disk T wo (disk, dev, mnt) s = (Inr (), s1)" "healthy s1" "fs_of s1 dev = Some fs" "ordered fs" by blast
  have w: "works dev mnt s s1" using fill_disk_InrD [OF f(1)] by simp
  then have "orderly s1" using Cons.prems(2) f(3,4) unfolding orderly_def works_def by (metis option.inject)
  moreover have "\<forall>dev \<in> set (map (\<lambda>(_, dev, _). dev) xs). map_of (mc_Block s1) dev \<noteq> None"
    using Cons.prems(4) w by (metis (mono_tags, lifting) works_def list.set_intros(2) list.simps(9) map_of_eq_None_iff list.set_map)
  ultimately show ?case using Cons.IH [OF f(2) _ Cons.prems(3)] f(1) x by (simp add: seq_eq)
qed

section \<open>The marker of a run\<close>

definition run_marker :: "work_order \<Rightarrow> int \<Rightarrow> doc" where
  "run_marker wo n = DText (wo_RunID wo @ '' '' @ itoa n)"

definition plain_id :: "string \<Rightarrow> bool" where
  "plain_id s \<longleftrightarrow> s \<noteq> [] \<and> (\<forall>c \<in> set s. \<not> is_space c)"

lemma fields_acc_word: "\<forall>c \<in> set s. \<not> is_space c \<Longrightarrow> fields_acc w (s @ r) = fields_acc (w @ s) r"
  by (induction s arbitrary: w) auto

lemma fields_two: "plain_id a \<Longrightarrow> plain_id b \<Longrightarrow> string_fields (a @ '' '' @ b) = [a, b]"
  using fields_acc_word [of a "[]" "'' '' @ b"] fields_acc_word [of b "[]" "[]"]
  by (auto simp: string_fields_def plain_id_def is_space_def)

lemma itoa_plain: "plain_id (itoa n)"
proof -
  have "\<not> is_space c" if "is_digit c" for c using that by (auto simp: is_digit_iff is_space_def)
  then show ?thesis using itoa_nat_digits by (auto simp: plain_id_def itoa_def is_space_def)
qed

lemma itoa_nat_sign: "hd (itoa_nat k) \<noteq> CHR ''-'' \<and> hd (itoa_nat k) \<noteq> CHR ''+''"
proof -
  have "is_digit (hd (itoa_nat k))" using itoa_nat_digits [of k] hd_in_set [OF itoa_nonempty [of k]] by blast
  then show ?thesis by (auto simp: is_digit_iff)
qed

lemma parse_itoa: "- (2 ^ 63) \<le> n \<Longrightarrow> n < 2 ^ 63 \<Longrightarrow> parse_int64 (itoa n) = n"
proof -
  assume n: "- (2 ^ 63) \<le> n" "n < 2 ^ 63"
  have d: "\<forall>c \<in> set (itoa_nat k). is_digit c" for k by (rule itoa_nat_digits)

  show ?thesis
  proof (cases "n < 0")
    case True
    then show ?thesis using n d by (auto simp: parse_int64_def itoa_def Let_def atoi_itoa_nat)
  next
    case False
    then show ?thesis using n d itoa_nat_sign by (auto simp: parse_int64_def itoa_def Let_def atoi_itoa_nat)
  qed
qed

section \<open>Marking\<close>

definition marked :: "work_order \<Rightarrow> int \<Rightarrow> filesystem \<Rightarrow> bool" where
  "marked wo n fs \<longleftrightarrow> fs_Type fs = wo_Filesystem wo \<and> fs_Root fs runMarkerFile = Some (run_marker wo n)"

lemma calm_write:
  assumes "calm s" "mounted mnt s dev False fs"
  shows "writeFileSync mnt name d s = (Inr (), set_fs dev (put_root name d fs) s)"
proof -
  have b: "map_of (mc_Block s) dev \<noteq> None" using assms(2) fs_of_blocked by (auto simp: mounted_def)
  have c: "calm (set_fs dev f s)" for f using assms(1) by (simp add: calm_def)
  have "syscall (fs_write mnt (put_root name e)) s = (Inr (), set_fs dev (put_root name e fs) s)" for e
    using assms by (simp add: calm_syscall_eq fs_write_def mounted_def)
  moreover have "syscall (fs_write mnt (put_root name e)) (set_fs dev (put_root name e' fs) s) = (Inr (), set_fs dev (put_root name e fs) s)" for e e'
    using assms b by (simp add: calm_syscall_eq [OF c] fs_write_def mounted_def fs_of_set_fs fun_cong [OF put_root_twice, unfolded comp_def])
  moreover have "finish_file mnt (set_fs dev f s) = (Inr (), set_fs dev f s)" for f
    using c [of f] by (simp add: finish_file_def syncDir_def seq_eq calm_syscall_eq ret_def)
  ultimately show ?thesis by (simp add: writeFileSync_def seq_eq)
qed

lemma mark_runs_InrD:
  "calm s \<Longrightarrow> \<forall>(dev, mnt) \<in> set xs. \<exists>fs. mounted mnt s dev False fs \<and> fs_Type fs = wo_Filesystem wo \<Longrightarrow> distinct (map fst xs) \<Longrightarrow>
   mark_runs wo (map snd xs) n s = (q, t) \<Longrightarrow>
   (\<forall>dev \<in> set (map fst xs). \<exists>fs. fs_of t dev = Some fs \<and> marked wo n fs) \<and> (\<forall>d. d \<notin> set (map fst xs) \<longrightarrow> fs_of t d = fs_of s d)
   \<and> mc_Mounts t = mc_Mounts s \<and> map fst (mc_Block t) = map fst (mc_Block s) \<and> mc_Sent t = mc_Sent s \<and> calm t \<and> mc_Fio t = mc_Fio s"
proof (induction xs arbitrary: s)
  case Nil
  then show ?case by (simp add: mark_runs_def ret_def)
next
  case (Cons x xs)
  obtain dev mnt where x: "x = (dev, mnt)" by fastforce
  from Cons.prems(2) x obtain fs where fs: "mounted mnt s dev False fs" "fs_Type fs = wo_Filesystem wo" by auto
  define s1 where "s1 = set_fs dev (put_root runMarkerFile (run_marker wo n) fs) s"
  have w: "writeRunMarker mnt (wo_RunID wo) n s = (Inr (), s1)"
    using calm_write [OF Cons.prems(1) fs(1)] by (simp add: writeRunMarker_def ignore_def attempt_def ret_def s1_def run_marker_def)
  with Cons.prems(4) x have l: "mark_runs wo (map snd xs) n s1 = (q, t)" by (simp add: mark_runs_def seq_eq)
  have b: "map_of (mc_Block s) dev \<noteq> None" using fs(1) fs_of_blocked by (auto simp: mounted_def)
  have c: "calm s1" using Cons.prems(1) by (simp add: calm_def s1_def)
  have o: "fs_of s1 d = fs_of s d" if "d \<noteq> dev" for d using that by (simp add: s1_def fs_of_set_fs)
  have "\<forall>(dev, mnt) \<in> set xs. \<exists>fs. mounted mnt s1 dev False fs \<and> fs_Type fs = wo_Filesystem wo"
  proof (intro ballI, clarify)
    fix dev' mnt' assume i: "(dev', mnt') \<in> set xs"
    then have "dev' \<noteq> dev" using Cons.prems(3) x by force
    moreover obtain fs' where "mounted mnt' s dev' False fs'" "fs_Type fs' = wo_Filesystem wo" using Cons.prems(2) i by fastforce
    ultimately show "\<exists>fs. mounted mnt' s1 dev' False fs \<and> fs_Type fs = wo_Filesystem wo" using o by (auto simp: mounted_def s1_def)
  qed
  from Cons.IH [OF c this _ l] Cons.prems(3) have IH: "\<forall>dev \<in> set (map fst xs). \<exists>fs. fs_of t dev = Some fs \<and> marked wo n fs"
      "\<forall>d. d \<notin> set (map fst xs) \<longrightarrow> fs_of t d = fs_of s1 d" "mc_Mounts t = mc_Mounts s1" "map fst (mc_Block t) = map fst (mc_Block s1)"
      "mc_Sent t = mc_Sent s1" "calm t" "mc_Fio t = mc_Fio s1" by simp_all
  have "fs_of s1 dev = Some (put_root runMarkerFile (run_marker wo n) fs)" using b by (simp add: s1_def fs_of_set_fs)
  then have "\<exists>fs. fs_of t dev = Some fs \<and> marked wo n fs"
    using IH(2) Cons.prems(3) x fs(2) by (auto simp: marked_def put_root_def)
  then show ?case using IH o x by (auto simp: s1_def)
qed

section \<open>Verdicts on healthy machines\<close>

text \<open>The disks of a finished run: described, and marked with the run and its total.\<close>

definition finished :: "tools \<Rightarrow> work_order \<Rightarrow> string list \<Rightarrow> int \<Rightarrow> machine \<Rightarrow> bool" where
  "finished T wo devices n s \<longleftrightarrow> (\<forall>dev \<in> set devices. \<exists>fs. fs_of s dev = Some fs \<and> described T wo fs \<and> marked wo n fs)"

lemma healthy_flush: "healthy s \<Longrightarrow> \<exists>t. flushDisks mounts s = (Inr (), t) \<and> healthy t \<and> mc_Block t = mc_Block s \<and> mc_Sent t = mc_Sent s"
  unfolding flushDisks_def
proof (induction mounts arbitrary: s)
  case Nil
  then show ?case by (simp add: ret_def)
next
  case (Cons m ms)
  define s1 where "s1 = s\<lparr>mc_Mounts := (mc_Mounts s)(m := None)\<rparr>"
  have u: "ignore (unmount m) s = (Inr (), s1)"
    using Cons.prems by (simp add: ignore_def attempt_def ret_def unmount_def change_def healthy_def syscall_def s1_def)
  have h: "healthy s1" using Cons.prems by (simp add: healthy_def s1_def)
  show ?case using Cons.IH [OF h] u by (simp add: seq_eq s1_def)
qed

lemma healthy_done: "healthy s \<Longrightarrow> \<exists>k t. reportDone n s = (Inr (), t) \<and> healthy t \<and> mc_Block t = mc_Block s \<and> mc_Sent t = mc_Sent s @ replicate k (Done n) \<and> 0 < k"
  using postReliable_told [of "Done n" s] by (auto simp: reportDone_def told_def healthy_def)

lemma fs_of_block: "mc_Block t = mc_Block s \<Longrightarrow> fs_of t = fs_of s"
  by (simp add: fs_of_def fun_eq_iff)

text \<open>The end of a run: markers, unmounting, the report.\<close>

lemma healthy_finish:
  assumes s: "healthy s" "orderly s" and len: "length mounts = length devices" and d: "distinct devices"
    and m: "\<forall>(dev, mnt) \<in> set (zip devices mounts). \<exists>fs. mounted mnt s dev False fs \<and> described T wo fs"
  shows "\<exists>k t. seq (mark_runs wo mounts n) (\<lambda>_. seq (flushDisks mounts) (\<lambda>_. reportDone n)) s = (Inr (), t) \<and> healthy t \<and> orderly t
     \<and> finished T wo devices n t \<and> mc_Sent t = mc_Sent s @ replicate k (Done n) \<and> 0 < k \<and> map fst (mc_Block t) = map fst (mc_Block s)"
proof -
  obtain q s1 where mk: "mark_runs wo mounts n s = (q, s1)" by fastforce
  have z: "map snd (zip devices mounts) = mounts" "map fst (zip devices mounts) = devices" using len by simp_all
  have "\<forall>(dev, mnt) \<in> set (zip devices mounts). \<exists>fs. mounted mnt s dev False fs \<and> fs_Type fs = wo_Filesystem wo"
    using m by (fastforce simp: described_def)
  from mark_runs_InrD [OF _ this, unfolded z, OF _ d mk] s(1) have
    1: "\<forall>dev \<in> set devices. \<exists>fs. fs_of s1 dev = Some fs \<and> marked wo n fs" "\<forall>dev. dev \<notin> set devices \<longrightarrow> fs_of s1 dev = fs_of s dev"
      "map fst (mc_Block s1) = map fst (mc_Block s)" "healthy s1" "mc_Sent s1 = mc_Sent s" by (auto simp: healthy_def calm_def)
  note 2 = marked_InrD [OF mk]
  have s0: "\<exists>fs. fs_of s dev = Some fs \<and> described T wo fs" if "dev \<in> set devices" for dev
  proof -
    have "dev \<in> fst ` set (zip devices mounts)" using that z(2) by (metis list.set_map)
    then obtain mnt where "(dev, mnt) \<in> set (zip devices mounts)" by auto
    then show ?thesis using m by (fastforce simp: mounted_def)
  qed
  have fin: "finished T wo devices n s1"
    unfolding finished_def
  proof
    fix dev assume dev: "dev \<in> set devices"
    obtain fs where fs: "fs_of s dev = Some fs" "described T wo fs" using s0 [OF dev] by blast
    then obtain fs1 where f1: "fs_of s1 dev = Some fs1" "same_data fs fs1" using 2 by (auto simp: keeps_data_def)
    then show "\<exists>fs. fs_of s1 dev = Some fs \<and> described T wo fs \<and> marked wo n fs"
      using 1(1) dev fs(2) described_same_data [OF f1(2)] by auto
  qed
  have ord: "orderly s1"
    unfolding orderly_def
  proof (intro allI impI)
    fix dev fs1 assume f: "fs_of s1 dev = Some fs1"
    show "ordered fs1"
    proof (cases "dev \<in> set devices")
      case True
      then obtain fs where fs: "fs_of s dev = Some fs" using s0 by blast
      then have "same_data fs fs1" using 2 f by (fastforce simp: keeps_data_def)
      then show ?thesis using s(2) fs by (auto simp: orderly_def ordered_def same_data_def)
    next
      case False
      then show ?thesis using 1(2) f s(2) by (simp add: orderly_def)
    qed
  qed
  obtain s2 where fl: "flushDisks mounts s1 = (Inr (), s2)" "healthy s2" "mc_Block s2 = mc_Block s1" "mc_Sent s2 = mc_Sent s1"
    using healthy_flush [OF 1(4)] by blast
  obtain k t where r: "reportDone n s2 = (Inr (), t)" "healthy t" "mc_Block t = mc_Block s2" "mc_Sent t = mc_Sent s2 @ replicate k (Done n)" "0 < k"
    using healthy_done [OF fl(2)] by blast
  have "fs_of t = fs_of s1" using fs_of_block r(3) fl(3) by metis
  then have "orderly t" "finished T wo devices n t" using ord fin by (simp_all add: orderly_def finished_def)
  then show ?thesis using mk 2 1 fl r by (intro exI [of _ k] exI [of _ t]) (simp add: seq_eq)
qed

lemma healthy_fill:
  assumes s: "healthy s" "orderly s" and f: "wo_FileSizeBytes wo \<noteq> 0"
    and devs: "distinct devices" "distinct mounts" "length devices = length (wo_Disks wo)" "length mounts = length (wo_Disks wo)"
    and nodes: "set devices \<subseteq> fst ` set (mc_Block s)"
  shows "\<exists>k t. runInitialFill T wo devices mounts s = (Inr (), t) \<and> healthy t \<and> orderly t \<and> finished T wo devices (fill_bytes wo) t
     \<and> mc_Sent t = mc_Sent s @ replicate k (Done (fill_bytes wo)) \<and> 0 < k \<and> map fst (mc_Block t) = map fst (mc_Block s)"
proof -
  define s0 where "s0 = s\<lparr>mc_Prog := no_progress\<rparr>"
  note z = zip_devices [OF devs(3,4)]
  have h0: "healthy s0" "orderly s0" using s by (simp_all add: s0_def healthy_def orderly_def)
  have "\<forall>dev \<in> set (map (\<lambda>(_, dev, _). dev) (zip (wo_Disks wo) (zip devices mounts))). map_of (mc_Block s0) dev \<noteq> None"
    unfolding z using nodes by (auto simp: s0_def map_of_eq_None_iff)
  from healthy_fill_disks [OF h0 f this, of T] obtain s1 where
    l: "for_each (zip (wo_Disks wo) (zip devices mounts)) (fill_disk T wo) s0 = (Inr (), s1)" "healthy s1" "orderly s1" by blast
  note d = fill_disks_InrD [OF l(1), unfolded z, OF devs(1)]
  have m: "\<forall>(dev, mnt) \<in> set (zip devices mounts). \<exists>fs. mounted mnt s1 dev False fs \<and> described T wo fs"
  proof (intro ballI, clarify)
    fix dev mnt assume i: "(dev, mnt) \<in> set (zip devices mounts)"
    then obtain disk where "(disk, dev, mnt) \<in> set (zip (wo_Disks wo) (zip devices mounts))"
      using devs by (metis in_set_impl_in_set_zip2 length_zip min.idem)
    then have "mc_Mounts s1 mnt = Some (dev, False)" using d devs(2) by auto
    moreover have "dev \<in> set devices" using i by (rule set_zip_leftD)
    ultimately show "\<exists>fs. mounted mnt s1 dev False fs \<and> described T wo fs" using d by (auto simp: mounted_def)
  qed
  have "length mounts = length devices" using devs by simp
  from healthy_finish [OF l(2,3) this devs(1) m, of "fill_bytes wo"] obtain k t where
    t: "seq (mark_runs wo mounts (fill_bytes wo)) (\<lambda>_. seq (flushDisks mounts) (\<lambda>_. reportDone (fill_bytes wo))) s1 = (Inr (), t)"
      "healthy t" "orderly t" "finished T wo devices (fill_bytes wo) t" "mc_Sent t = mc_Sent s1 @ replicate k (Done (fill_bytes wo))" "0 < k"
      "map fst (mc_Block t) = map fst (mc_Block s1)" by blast
  have "runInitialFill T wo devices mounts s = (Inr (), t)"
    using t(1) l(1) by (simp add: runInitialFill_def track_def change_def seq_eq returned_def attempt_def s0_def)
  then show ?thesis using t d by (intro exI [of _ k] exI [of _ t]) (simp add: s0_def)
qed

section \<open>Reading on healthy machines\<close>

lemma healthy_mounts:
  assumes "healthy s" "fs_of s dev = Some fs" "fs_Type fs = ty"
  shows "mountFS dev mnt ty s = (Inr (), s\<lparr>mc_Mounts := (mc_Mounts s)(mnt \<mapsto> (dev, False))\<rparr>)"
    and "mountFSReadOnly dev mnt ty s = (Inr (), s\<lparr>mc_Mounts := (mc_Mounts s)(mnt \<mapsto> (dev, True))\<rparr>)"
  using assms
  by (simp_all add: mountFS_def mountFSReadOnly_def seq_eq ignore_def attempt_def ret_def unmount_def change_def wrap_def mount_def healthy_def syscall_def)

lemma healthy_root:
  "healthy s \<Longrightarrow> mounted mnt s dev ro fs \<Longrightarrow> read_root mnt name s = ((case fs_Root fs name of None \<Rightarrow> Inl ErrNotFound | Some d \<Rightarrow> Inr d), s)"
  by (simp add: read_root_def syscall_def healthy_def fs_read_def mounted_def)

lemma healthy_manifest:
  "healthy s \<Longrightarrow> mounted mnt s dev ro fs \<Longrightarrow> fs_Root fs ManifestFile = Some (DManifest m) \<Longrightarrow> loadManifest mnt s = (Inr m, s)"
  by (simp add: loadManifest_def healthy_root seq_eq ret_def)

lemma marked_fields:
  "marked wo n fs \<Longrightarrow> plain_id (wo_RunID wo) \<Longrightarrow> \<exists>d. fs_Root fs runMarkerFile = Some d \<and> string_fields (marker_text d) = [wo_RunID wo, itoa n]"
  using fields_two [OF _ itoa_plain, of "wo_RunID wo" n] by (simp add: marked_def run_marker_def marker_text_def)

section \<open>An incremental run\<close>

lemma ok_rewrite: "succeeds dev mnt ordered (rewrite_file T wo mnt plan x l) (\<lambda>_. ordered)"
  unfolding rewrite_file_def by (auto intro!: ok_intros ok_fio ordered_put_files split: prod.split)

lemma ok_growth: "succeeds dev mnt ordered (growthFileNames mnt r) (\<lambda>_. ordered)"
  unfolding growthFileNames_def
  by (rule succeeds_attempt) (auto simp: read_dir_def intro!: silent_intros calm_intros ok_intros split: sum.split)

lemma ok_applyChurn: "wo_FileSizeBytes wo \<noteq> 0 \<Longrightarrow> succeeds dev mnt ordered (applyChurn T wo mnt plan) (\<lambda>_. ordered)"
  unfolding applyChurn_def
  by (auto intro!: ok_intros succeeds_fold ok_rewrite ok_growth ok_fio ordered_put_files)

lemma ok_churn_disk: "wo_FileSizeBytes wo \<noteq> 0 \<Longrightarrow> succeeds dev mnt ordered (churn_disk T wo ((disk, dev, mnt), plan)) (\<lambda>_. ordered)"
  unfolding churn_disk_def by (auto intro!: ok_intros ok_applyChurn ok_writeIdentity ok_updateDiskManifest)

lemma healthy_churn_disks:
  "healthy s \<Longrightarrow> fio_documented T \<Longrightarrow> wo_FileSizeBytes wo \<noteq> 0 \<Longrightarrow>
   distinct (map (\<lambda>((_, dev, _), _). dev) ys) \<Longrightarrow> distinct (map (\<lambda>((_, _, mnt), _). mnt) ys) \<Longrightarrow>
   \<forall>((disk, dev, mnt), p) \<in> set ys. planned p \<and> (\<exists>fs. mounted mnt s dev False fs \<and> accurate T fs \<and> fs_Type fs = wo_Filesystem wo \<and> ordered fs) \<Longrightarrow>
   \<exists>t. for_each ys (churn_disk T wo) s = (Inr (), t) \<and> healthy t \<and> mc_Sent t = mc_Sent s"
proof (induction ys arbitrary: s)
  case Nil
  then show ?case by (simp add: ret_def)
next
  case (Cons y ys)
  obtain disk dev mnt p where y: "y = ((disk, dev, mnt), p)" by (metis surj_pair)
  from Cons.prems(6) y obtain fs where fs: "planned p" "mounted mnt s dev False fs" "accurate T fs" "fs_Type fs = wo_Filesystem wo" "ordered fs" by auto
  obtain s1 where c: "churn_disk T wo ((disk, dev, mnt), p) s = (Inr (), s1)" "healthy s1"
    using succeedsD [OF ok_churn_disk [OF Cons.prems(3)] Cons.prems(1) fs(2,5)] by (metis old.unit.exhaust)
  have "calm s" using Cons.prems(1) by (simp add: healthy_def calm_def)
  then have w: "works dev mnt s s1" using churn_disk_InrD [OF c(1) Cons.prems(2) fs(1,2,3) _ fs(4)] by simp
  have "\<forall>((disk, dev, mnt), p) \<in> set ys. planned p \<and> (\<exists>fs. mounted mnt s1 dev False fs \<and> accurate T fs \<and> fs_Type fs = wo_Filesystem wo \<and> ordered fs)"
  proof (intro ballI, clarify)
    fix disk' dev' mnt' p' assume i: "((disk', dev', mnt'), p') \<in> set ys"
    then have "dev' \<noteq> dev" "mnt' \<noteq> mnt" using Cons.prems(4,5) y by force+
    moreover have "planned p' \<and> (\<exists>fs. mounted mnt' s dev' False fs \<and> accurate T fs \<and> fs_Type fs = wo_Filesystem wo \<and> ordered fs)"
      using Cons.prems(6) i by fastforce
    ultimately show "planned p' \<and> (\<exists>fs. mounted mnt' s1 dev' False fs \<and> accurate T fs \<and> fs_Type fs = wo_Filesystem wo \<and> ordered fs)"
      using w by (auto simp: works_def mounted_def)
  qed
  moreover have "distinct (map (\<lambda>((_, dev, _), _). dev) ys)" "distinct (map (\<lambda>((_, _, mnt), _). mnt) ys)" using Cons.prems(4,5) by simp_all
  ultimately obtain t where "for_each ys (churn_disk T wo) s1 = (Inr (), t)" "healthy t" "mc_Sent t = mc_Sent s1"
    using Cons.IH [OF c(2) Cons.prems(2,3)] by blast
  then show ?case using c(1) y w by (simp add: seq_eq works_def)
qed

lemma healthy_stats: "healthy s \<Longrightarrow> \<exists>x. fold_prog es stat_entry acc s = (Inr x, s)"
proof (induction es arbitrary: acc)
  case (Cons e es)
  have "\<exists>x. stat_entry e acc s = (Inr x, s)"
    using Cons.prems by (cases e; cases acc; cases "snd e") (auto simp: stat_entry_def seq_eq syscall_def healthy_def ret_def)
  with Cons show ?case by (auto simp: seq_eq)
qed (simp add: ret_def)

lemma healthy_plan_disk:
  assumes "healthy s" "fs_of s dev = Some fs" "fs_Type fs = wo_Filesystem wo" "fs_Dirs fs ''local'' = Some es"
  shows "\<exists>x t. plan_disk T wo (dev, mnt) acc s = (Inr x, t) \<and> healthy t \<and> fs_of t = fs_of s"
proof -
  define s1 where "s1 = s\<lparr>mc_Mounts := (mc_Mounts s)(mnt \<mapsto> (dev, False))\<rparr>"
  have s1: "healthy s1" "fs_of s1 = fs_of s" using assms(1) by (simp_all add: s1_def healthy_def)
  have mo: "mountFS dev mnt (wo_Filesystem wo) s = (Inr (), s1)" using healthy_mounts(1) [OF assms(1-3)] by (simp add: s1_def)
  have rd: "read_dir mnt ''local'' s1 = (Inr es, s1)"
    using assms s1 by (simp add: read_dir_def syscall_def healthy_def fs_read_def s1_def)
  obtain x where st: "fold_prog es stat_entry ([], 0) s1 = (Inr x, s1)" using healthy_stats [OF s1(1)] by blast
  obtain p where "planChurn T wo mnt s1 = (Inr p, s1)"
    using rd st by (cases x) (auto simp: planChurn_def wrap_def attempt_def seq_eq ret_def Let_def)
  then show ?thesis using mo s1 by (cases acc) (auto simp: plan_disk_def wrap_def attempt_def seq_eq ret_def)
qed

lemma healthy_plans:
  "healthy s \<Longrightarrow> \<forall>dev \<in> fst ` set xs. \<exists>fs es. fs_of s dev = Some fs \<and> fs_Type fs = wo_Filesystem wo \<and> fs_Dirs fs ''local'' = Some es \<Longrightarrow>
   \<exists>x t. fold_prog xs (plan_disk T wo) acc s = (Inr x, t) \<and> healthy t"
proof (induction xs arbitrary: acc s)
  case Nil
  then show ?case by (simp add: ret_def)
next
  case (Cons x xs)
  obtain dev mnt where x: "x = (dev, mnt)" by fastforce
  with Cons.prems(2) obtain fs es where "fs_of s dev = Some fs" "fs_Type fs = wo_Filesystem wo" "fs_Dirs fs ''local'' = Some es" by auto
  from healthy_plan_disk [OF Cons.prems(1) this, of T mnt acc] obtain a s1 where
    1: "plan_disk T wo (dev, mnt) acc s = (Inr a, s1)" "healthy s1" "fs_of s1 = fs_of s" by blast
  from Cons.IH [OF 1(2), of a] Cons.prems(2) 1 x show ?case by (simp add: seq_eq)
qed

lemma healthy_incremental:
  assumes s: "healthy s" and f: "wo_FileSizeBytes wo \<noteq> 0" and doc: "fio_documented T" "rand_documented T"
    and devs: "distinct devices" "distinct mounts" "length devices = length (wo_Disks wo)" "length mounts = length (wo_Disks wo)"
    and disks: "\<forall>dev fs. fs_of s dev = Some fs \<longrightarrow> slash_free fs \<and> accurate T fs \<and> ordered fs"
    and filled: "\<forall>dev \<in> set devices. \<exists>fs es. fs_of s dev = Some fs \<and> fs_Type fs = wo_Filesystem wo \<and> fs_Dirs fs ''local'' = Some es"
  shows "\<exists>n k t. runIncremental T wo devices mounts s = (Inr (), t) \<and> mc_Sent t = mc_Sent s @ replicate k (Done n) \<and> 0 < k"
proof -
  let ?xs = "take (length (wo_Disks wo)) (zip devices mounts)"
  have "fst ` set ?xs \<subseteq> set devices" by (auto dest!: in_set_takeD set_zip_leftD)
  then have "\<forall>dev \<in> fst ` set ?xs. \<exists>fs es. fs_of s dev = Some fs \<and> fs_Type fs = wo_Filesystem wo \<and> fs_Dirs fs ''local'' = Some es"
    using filled by blast
  from healthy_plans [OF s this, of T "([], 0)"] obtain plans n s1 where
    plan: "fold_prog ?xs (plan_disk T wo) ([], 0) s = (Inr (plans, n), s1)" "healthy s1" by auto
  have "\<forall>dev fs. fs_of s dev = Some fs \<longrightarrow> slash_free fs" using disks by blast
  note pr = plans_ready [OF plan(1) doc(2) this devs(2-4)]
  note z = zip_plans [OF devs(3,4) conjunct1 [OF pr]]
  let ?ys = "zip (zip (wo_Disks wo) (zip devices mounts)) plans"
  define s2 where "s2 = s1\<lparr>mc_Prog := no_progress\<rparr>"
  have s2: "healthy s2" "fs_of s2 = fs_of s" "mc_Sent s2 = mc_Sent s" using plan(2) pr by (simp_all add: s2_def healthy_def)
  have "\<forall>((disk, dev, mnt), p) \<in> set ?ys. planned p \<and> (\<exists>fs. mounted mnt s2 dev False fs \<and> accurate T fs \<and> fs_Type fs = wo_Filesystem wo \<and> ordered fs)"
    using pr disks by (fastforce simp: mounted_def s2_def)
  moreover have "distinct (map (\<lambda>((_, dev, _), _). dev) ?ys)" "distinct (map (\<lambda>((_, _, mnt), _). mnt) ?ys)" unfolding z using devs(1,2) .
  ultimately obtain s3 where loop: "for_each ?ys (churn_disk T wo) s2 = (Inr (), s3)" "healthy s3" "mc_Sent s3 = mc_Sent s2"
    using healthy_churn_disks [OF s2(1) doc(1) f] by blast
  let ?n = "progress_bytes (mc_Prog s3)"
  obtain q t where fin: "seq (mark_runs wo mounts ?n) (\<lambda>_. seq (flushDisks mounts) (\<lambda>_. reportDone ?n)) s3 = (q, t)" by fastforce
  from finish_run [OF fin] obtain k where "q = Inr ()" "mc_Sent t = mc_Sent s3 @ replicate k (Done ?n)" "0 < k" by blast
  moreover have "runIncremental T wo devices mounts s = (q, t)"
    using plan(1) loop(1) fin by (simp add: runIncremental_def returned_def attempt_def track_def change_def seq_eq look_def s2_def)
  ultimately show ?thesis using loop(3) s2(3) by auto
qed

end
