(* ===== verification/AgentBoot.thy ===== *)
theory AgentBoot
  imports AgentHealthy
begin

text \<open>
  The agent around its runs: the disk inspection of a boot (\<open>cmd/agent/discover.go\<close>), the kernel
  command line, registering, heartbeats and the start of runs (\<open>cmd/agent/main.go\<close>). The
  answers of the controller and the ends of runs are the inputs of a step relation. Its address,
  the wait for one and the reboot call have no part in the state that is modelled.
\<close>

section \<open>Inspecting the disks\<close>

definition allBlockDevices :: "(machine, string list) prog" where
  "allBlockDevices = seq block_names (\<lambda>names. ret (sort (filter is_data_disk names)))"

definition blockDeviceGiB :: "string \<Rightarrow> (machine, int) prog" where
  "blockDeviceGiB name = attempt (syscall (\<lambda>s. case mc_Sectors s name of None \<Rightarrow> (Inl ErrNotFound, s) | Some t \<Rightarrow> (Inr t, s)))
     (\<lambda>r. case r of Inl _ \<Rightarrow> ret 0 | Inr t \<Rightarrow> ret (drop_bit 30 (i64 (parse_int64 (trim_space t) * 512))))"

definition bare_disk :: "string \<Rightarrow> int \<Rightarrow> discovery_disk" where
  "bare_disk name sz = \<lparr>dd_Device = name, dd_SizeGiB = sz, dd_Filesystem = '''', dd_Identity = None, dd_RunID = '''', dd_RunBytes = 0,
     dd_Manifest = False, dd_FileCount = 0\<rparr>"

text \<open>The three markers; a file that cannot be read, or does not parse, leaves its part unset.\<close>

definition with_identity :: "go_error + doc \<Rightarrow> discovery_disk \<Rightarrow> discovery_disk" where
  "with_identity r d = (case r of Inr (DIdentity m) \<Rightarrow> d\<lparr>dd_Identity := Some m\<rparr> | _ \<Rightarrow> d)"

definition with_run :: "go_error + doc \<Rightarrow> discovery_disk \<Rightarrow> discovery_disk" where
  "with_run r d = (case r of Inl _ \<Rightarrow> d | Inr c \<Rightarrow>
     let fields = string_fields (marker_text c);
         d1 = (if length fields \<ge> 1 then d\<lparr>dd_RunID := fields ! 0\<rparr> else d)
     in if length fields \<ge> 2 then d1\<lparr>dd_RunBytes := parse_int64 (fields ! 1)\<rparr> else d1)"

definition with_manifest :: "go_error + manifest \<Rightarrow> discovery_disk \<Rightarrow> discovery_disk" where
  "with_manifest r d = (case r of Inl _ \<Rightarrow> d | Inr m \<Rightarrow> d\<lparr>dd_Manifest := True, dd_FileCount := int (length (mf_Files m))\<rparr>)"

definition discover_mnt :: "nat \<Rightarrow> string" where
  "discover_mnt i = ''/mnt/discover'' @ itoa (int i)"

definition inspect_disk :: "nat \<times> string \<Rightarrow> discovery_disk list \<Rightarrow> (machine, discovery_disk list) prog" where
  "inspect_disk = (\<lambda>(i, name) out. let dev = ''/dev/'' @ name; mnt = discover_mnt i in
     seq (blockDeviceGiB name) (\<lambda>sz.
     attempt (mountFSReadOnly dev mnt ''xfs'') (\<lambda>r. case r of Inl _ \<Rightarrow> ret (out @ [bare_disk name sz]) | Inr _ \<Rightarrow>
       attempt (read_root mnt IdentityFile) (\<lambda>r1.
       attempt (read_root mnt runMarkerFile) (\<lambda>r2.
       attempt (loadManifest mnt) (\<lambda>r3.
       attempt (unmount mnt) (\<lambda>r4.
       seq (case r4 of Inl _ \<Rightarrow> ignore (unmount mnt) | Inr _ \<Rightarrow> ret ()) (\<lambda>_.
       ret (out @ [with_manifest r3 (with_run r2 (with_identity r1 ((bare_disk name sz)\<lparr>dd_Filesystem := ''xfs''\<rparr>)))]))))))))) "

definition inspectDisks :: "(machine, discovery_disk list) prog" where
  "inspectDisks = attempt allBlockDevices (\<lambda>r. case r of
      Inl _ \<Rightarrow> ret []
    | Inr names \<Rightarrow> fold_prog (enumerate 0 names) inspect_disk [])"

section \<open>The agent's life\<close>

text \<open>\<open>readCmdline\<close>: later fields win.\<close>

definition cmdline_field :: "string \<Rightarrow> string \<times> string" where
  "cmdline_field f = (if CHR ''='' \<in> set f
     then (takeWhile (\<lambda>c. c \<noteq> CHR ''='') f, tl (dropWhile (\<lambda>c. c \<noteq> CHR ''='') f)) else (f, ''''))"

definition readCmdline :: "string option \<Rightarrow> string \<rightharpoonup> string" where
  "readCmdline raw = (case raw of None \<Rightarrow> Map.empty | Some s \<Rightarrow> fold (\<lambda>f m. m(fst (cmdline_field f) \<mapsto> snd (cmdline_field f))) (string_fields s) Map.empty)"

definition cmdline_value :: "(string \<rightharpoonup> string) \<Rightarrow> string \<Rightarrow> string" where
  "cmdline_value m k = (case m k of None \<Rightarrow> '''' | Some v \<Rightarrow> v)"

datatype phase = Halted | Discovering | Registering | Serving | Rebooting

text \<open>Up to the first request: the command line, and whether an address came up.\<close>

definition boot_phase :: "string option \<Rightarrow> bool \<Rightarrow> phase" where
  "boot_phase raw ipv6 = (let c = readCmdline raw in
     if cmdline_value c ''ghostfleet.url'' = '''' \<or> cmdline_value c ''ghostfleet.token'' = '''' then Halted
     else if \<not> ipv6 then Halted
     else if cmdline_value c ''ghostfleet.discover'' = ''1'' then Discovering else Registering)"

text \<open>An answer: a transport error, or a status and a body, \<open>None\<close> where it does not parse.\<close>

record agent_response =
  ar_VMName :: string
  ar_Action :: string
  ar_WorkOrder :: "work_order option"

type_synonym answer = "(int \<times> agent_response option) option"

definition pollWith :: "answer \<Rightarrow> agent_response option" where
  "pollWith a = (case a of None \<Rightarrow> None | Some (status, body) \<Rightarrow> if status \<noteq> 200 then None else body)"

text \<open>A turn of the loop of \<open>runDiscovery\<close>.\<close>

definition discovery_turn :: "answer \<Rightarrow> phase" where
  "discovery_turn a = (case pollWith a of
      None \<Rightarrow> Discovering
    | Some r \<Rightarrow> if ar_Action r = ''reboot'' then Rebooting else Discovering)"

record dispatcher =
  dp_running :: string
  dp_completed :: "string set"
  dp_jobs :: "work_order list"

definition no_runs :: dispatcher where
  "no_runs = \<lparr>dp_running = '''', dp_completed = {}, dp_jobs = []\<rparr>"

definition dispatch :: "agent_response \<Rightarrow> dispatcher \<Rightarrow> dispatcher" where
  "dispatch r d = (case ar_WorkOrder r of
      None \<Rightarrow> d
    | Some wo \<Rightarrow>
        if ar_Action r \<noteq> ''fill'' then d
        else if dp_running d = wo_RunID wo \<or> wo_RunID wo \<in> dp_completed d then d
        else d\<lparr>dp_running := wo_RunID wo, dp_jobs := dp_jobs d @ [wo]\<rparr>)"

text \<open>The end of the goroutine of a run.\<close>

definition run_ended :: "work_order \<Rightarrow> dispatcher \<Rightarrow> dispatcher" where
  "run_ended wo d = d\<lparr>dp_jobs := remove1 wo (dp_jobs d), dp_completed := insert (wo_RunID wo) (dp_completed d), dp_running := ''''\<rparr>"

datatype event = Answer answer | Ended work_order

inductive agent_step :: "phase \<times> dispatcher \<Rightarrow> event \<Rightarrow> phase \<times> dispatcher \<Rightarrow> bool" where
  register_failed: "pollWith a = None \<Longrightarrow> agent_step (Registering, d) (Answer a) (Registering, d)"
| registered: "pollWith a = Some r \<Longrightarrow> agent_step (Registering, d) (Answer a) (Serving, dispatch r d)"
| heartbeat_failed: "pollWith a = None \<Longrightarrow> agent_step (Serving, d) (Answer a) (Serving, d)"
| heartbeat: "pollWith a = Some r \<Longrightarrow> agent_step (Serving, d) (Answer a) (Serving, dispatch r d)"
| ended: "wo \<in> set (dp_jobs d) \<Longrightarrow> agent_step (Serving, d) (Ended wo) (Serving, run_ended wo d)"
| discovering: "agent_step (Discovering, d) (Answer a) (discovery_turn a, d)"

inductive_cases agent_stepE: "agent_step (p, d) ev (p', d')"

section \<open>One run at a time\<close>

text \<open>The controller hands out no other run while one executes here.\<close>

definition considerate :: "dispatcher \<Rightarrow> event \<Rightarrow> bool" where
  "considerate d ev \<longleftrightarrow> (\<forall>a r wo. ev = Answer a \<longrightarrow> pollWith a = Some r \<longrightarrow> ar_WorkOrder r = Some wo \<longrightarrow>
     (\<forall>j \<in> set (dp_jobs d). wo_RunID j = wo_RunID wo))"

text \<open>A life of the agent from boot, with the runs it has started so far.\<close>

inductive served :: "phase \<times> dispatcher \<Rightarrow> work_order list \<Rightarrow> bool" where
  served_boot: "served (boot_phase raw up, no_runs) []"
| served_step: "served (p, d) hist \<Longrightarrow> agent_step (p, d) ev (p', d') \<Longrightarrow> considerate d ev \<Longrightarrow>
    served (p', d') (hist @ drop (length (dp_jobs d)) (dp_jobs d'))"

definition one_run :: "dispatcher \<Rightarrow> work_order list \<Rightarrow> bool" where
  "one_run d hist \<longleftrightarrow> distinct (map wo_RunID hist) \<and> wo_RunID ` set hist = dp_completed d \<union> wo_RunID ` set (dp_jobs d)
     \<and> (case dp_jobs d of [] \<Rightarrow> dp_running d = '''' | [j] \<Rightarrow> dp_running d = wo_RunID j \<and> wo_RunID j \<notin> dp_completed d | _ \<Rightarrow> False)"

lemma one_run_dispatch:
  assumes "one_run d hist" "\<And>wo. ar_WorkOrder r = Some wo \<Longrightarrow> \<forall>j \<in> set (dp_jobs d). wo_RunID j = wo_RunID wo"
  shows "one_run (dispatch r d) (hist @ drop (length (dp_jobs d)) (dp_jobs (dispatch r d)))"
proof (cases "ar_WorkOrder r")
  case None
  then show ?thesis using assms(1) by (simp add: dispatch_def)
next
  case (Some wo)
  show ?thesis
  proof (cases "dp_jobs d")
    case Nil
    then show ?thesis using assms(1) Some by (auto simp: dispatch_def one_run_def)
  next
    case (Cons j js)
    have "wo_RunID j = wo_RunID wo" using assms(2) [OF Some] Cons by simp
    moreover have "dp_running d = wo_RunID j" using assms(1) Cons by (cases js) (simp_all add: one_run_def)
    ultimately show ?thesis using assms(1) Some by (simp add: dispatch_def)
  qed
qed

lemma one_run_ended:
  assumes "one_run d hist" "wo \<in> set (dp_jobs d)"
  shows "one_run (run_ended wo d) (hist @ drop (length (dp_jobs d)) (dp_jobs (run_ended wo d)))"
proof -
  have "dp_jobs d = [wo]" using assms by (auto simp: one_run_def split: list.splits)
  then show ?thesis using assms(1) by (auto simp: one_run_def run_ended_def)
qed

lemma served_one_run: "served c hist \<Longrightarrow> one_run (snd c) hist"
proof (induction rule: served.induct)
  case (served_boot raw up)
  then show ?case by (simp add: one_run_def no_runs_def)
next
  case (served_step p d hist ev p' d')
  have IH: "one_run d hist" using served_step.IH by simp
  from served_step.hyps(2) consider "d' = d" | a r where "ev = Answer a" "pollWith a = Some r" "d' = dispatch r d"
    | wo where "wo \<in> set (dp_jobs d)" "d' = run_ended wo d"
    by (cases rule: agent_stepE) blast+
  then show ?case
  proof cases
    case 1
    then show ?thesis using IH by simp
  next
    case 2
    have "\<forall>j \<in> set (dp_jobs d). wo_RunID j = wo_RunID wo" if "ar_WorkOrder r = Some wo" for wo
      using served_step.hyps(3) 2(1,2) that unfolding considerate_def by blast
    from one_run_dispatch [OF IH this] show ?thesis unfolding 2(3) by simp
  next
    case 3
    then show ?thesis using one_run_ended [OF IH] by simp
  qed
qed

text \<open>
  C29. As long as the controller hands out no other run while one executes, the agent executes at
  most one run at a time and starts no run twice in its lifetime, however often the same work order
  is handed out again, before or after the run ended.
\<close>

theorem one_run_at_a_time:
  assumes "served (p, d) hist"
  shows "length (dp_jobs d) \<le> 1 \<and> distinct (map wo_RunID hist) \<and> wo_RunID ` set (dp_jobs d) \<subseteq> wo_RunID ` set hist"
  using served_one_run [OF assms] by (auto simp: one_run_def split: list.splits)

text \<open>Without that, the guard fails: when the first of two runs ends, the agent forgets that the
  second one executes, and starts it a second time beside itself.\<close>

definition hand_out :: "work_order \<Rightarrow> agent_response" where
  "hand_out wo = \<lparr>ar_VMName = wo_VMName wo, ar_Action = ''fill'', ar_WorkOrder = Some wo\<rparr>"

theorem run_dispatched_twice:
  assumes "wo_RunID a \<noteq> wo_RunID b" "wo_RunID a \<noteq> ''''" "wo_RunID b \<noteq> ''''"
  shows "dp_jobs (dispatch (hand_out b) (run_ended a (dispatch (hand_out b) (dispatch (hand_out a) no_runs)))) = [b, b]"
proof -
  have "a \<noteq> b" using assms(1) by blast
  with assms show ?thesis by (simp add: dispatch_def hand_out_def run_ended_def no_runs_def)
qed

section \<open>What an inspection finds after a run\<close>

lemma inspect_finished:
  assumes s: "healthy s" "fs_of s (''/dev/'' @ name) = Some fs" and fs: "fs_Type fs = ''xfs''" "described T wo fs" "marked wo n fs"
    and id: "plain_id (wo_RunID wo)" and n: "- (2 ^ 63) \<le> n" "n < 2 ^ 63"
  shows "\<exists>d t. inspect_disk (i, name) out s = (Inr (out @ [d]), t) \<and> healthy t \<and> mc_Block t = mc_Block s \<and> mc_Sent t = mc_Sent s
     \<and> dd_Device d = name \<and> dd_RunID d = wo_RunID wo \<and> dd_RunBytes d = n \<and> dd_Manifest d \<and> dd_FileCount d = int (length (data_rels fs))"
proof -
  define mnt where "mnt = discover_mnt i"
  obtain sz where sz: "blockDeviceGiB name s = (Inr sz, s)"
    using s(1) by (cases "mc_Sectors s name") (auto simp: blockDeviceGiB_def attempt_def syscall_def healthy_def ret_def)
  define s1 where "s1 = s\<lparr>mc_Mounts := (mc_Mounts s)(mnt \<mapsto> (''/dev/'' @ name, True))\<rparr>"
  have s1: "healthy s1" "mounted mnt s1 (''/dev/'' @ name) True fs" using s by (simp_all add: s1_def healthy_def mounted_def)
  have mo: "mountFSReadOnly (''/dev/'' @ name) mnt ''xfs'' s = (Inr (), s1)" using healthy_mounts(2) [OF s fs(1)] by (simp add: s1_def)
  have lo: "loadManifest mnt s1 = (Inr (exact_manifest T (wo_RunID wo) fs), s1)"
    using healthy_manifest [OF s1] fs(2) by (simp add: described_def exact_def)
  obtain c where c: "fs_Root fs runMarkerFile = Some c" "string_fields (marker_text c) = [wo_RunID wo, itoa n]"
    using marked_fields [OF fs(3) id] by blast
  have un: "unmount mnt s1 = (Inr (), s1\<lparr>mc_Mounts := (mc_Mounts s1)(mnt := None)\<rparr>)"
    using s1(1) by (simp add: unmount_def change_def syscall_def healthy_def)
  define d where "d = with_manifest (Inr (exact_manifest T (wo_RunID wo) fs)) (with_run (Inr c) (with_identity (case fs_Root fs IdentityFile of None \<Rightarrow> Inl ErrNotFound | Some d \<Rightarrow> Inr d)
      ((bare_disk name sz)\<lparr>dd_Filesystem := ''xfs''\<rparr>)))"
  have "inspect_disk (i, name) out s = (Inr (out @ [d]), s1\<lparr>mc_Mounts := (mc_Mounts s1)(mnt := None)\<rparr>)"
    using sz mo healthy_root [OF s1] lo un c(1)
    by (simp add: inspect_disk_def Let_def seq_eq attempt_def mnt_def [symmetric] ret_def d_def)
  moreover have "dd_Device (with_identity q x) = dd_Device x" for q x by (auto simp: with_identity_def split: sum.splits doc.splits)
  ultimately show ?thesis using s1(1) c(2) parse_itoa [OF n]
    by (intro exI [of _ d] exI) (auto simp: d_def with_manifest_def with_run_def bare_disk_def exact_manifest_def healthy_def s1_def)
qed

lemma inspects_finished:
  assumes id: "plain_id (wo_RunID wo)" and n: "- (2 ^ 63) \<le> n" "n < 2 ^ 63" and ty: "wo_Filesystem wo = ''xfs''"
  shows "healthy s \<Longrightarrow> finished T wo (map (\<lambda>name. ''/dev/'' @ name) names) n s \<Longrightarrow>
     \<exists>ds t. fold_prog (enumerate k names) inspect_disk out s = (Inr (out @ ds), t) \<and> healthy t \<and> mc_Block t = mc_Block s \<and> mc_Sent t = mc_Sent s
       \<and> map dd_Device ds = names \<and> (\<forall>d \<in> set ds. dd_RunID d = wo_RunID wo \<and> dd_RunBytes d = n \<and> dd_Manifest d)"
proof (induction names arbitrary: k out s)
  case Nil
  then show ?case by (simp add: ret_def)
next
  case (Cons name names)
  from Cons.prems(2) obtain fs where fs: "fs_of s (''/dev/'' @ name) = Some fs" "described T wo fs" "marked wo n fs" by (auto simp: finished_def)
  have "fs_Type fs = ''xfs''" using fs(2) ty by (simp add: described_def)
  from inspect_finished [OF Cons.prems(1) fs(1) this fs(2,3) id n, of k out] obtain d s1 where
    1: "inspect_disk (k, name) out s = (Inr (out @ [d]), s1)" "healthy s1" "mc_Block s1 = mc_Block s" "mc_Sent s1 = mc_Sent s"
      "dd_Device d = name \<and> dd_RunID d = wo_RunID wo \<and> dd_RunBytes d = n \<and> dd_Manifest d" by blast
  have "finished T wo (map (\<lambda>name. ''/dev/'' @ name) names) n s1" using Cons.prems(2) fs_of_block [OF 1(3)] by (simp add: finished_def)
  from Cons.IH [OF 1(2) this, of "Suc k" "out @ [d]"] obtain ds t where
    2: "fold_prog (enumerate (Suc k) names) inspect_disk (out @ [d]) s1 = (Inr (out @ d # ds), t)" "healthy t" "mc_Block t = mc_Block s1" "mc_Sent t = mc_Sent s1"
      "map dd_Device ds = names \<and> (\<forall>d \<in> set ds. dd_RunID d = wo_RunID wo \<and> dd_RunBytes d = n \<and> dd_Manifest d)" by auto
  show ?case using 1 2 by (intro exI [of _ "d # ds"] exI [of _ t]) (simp add: seq_eq)
qed

end
