(* ===== verification/AgentResume.thy ===== *)
theory AgentResume
  imports AgentBoot
begin

text \<open>
  A fill across reboots: what the agent finds, reports and verifies on disks that a run has
  finished, in whatever state the machine comes up later.
\<close>

section \<open>The data disks of a machine\<close>

definition wired :: "machine \<Rightarrow> bool" where
  "wired s \<longleftrightarrow> distinct (map fst (mc_Block s)) \<and> (\<forall>dev \<in> fst ` set (mc_Block s). has_prefix dev ''/dev/'')"

definition data_names :: "machine \<Rightarrow> string list" where
  "data_names s = sort (filter is_data_disk (map (drop 5) (map fst (mc_Block s))))"

definition node :: "string \<Rightarrow> string" where
  "node name = ''/dev/'' @ name"

lemma healthy_names: "healthy s \<Longrightarrow> block_names s = (Inr (map (drop 5) (map fst (mc_Block s))), s)"
  by (simp add: block_names_def syscall_def healthy_def look_def split_beta)

lemma healthy_dataDisks: "healthy s \<Longrightarrow> n \<le> length (data_names s) \<Longrightarrow> dataDisks n s = (Inr (map node (take n (data_names s))), s)"
  using healthy_names [of s]
  by (simp add: dataDisks_def wrap_def attempt_def seq_eq ret_def Let_def data_names_def node_def [abs_def])

lemma node_drop: "has_prefix dev ''/dev/'' \<Longrightarrow> node (drop 5 dev) = dev"
  by (metis append_take_drop_id has_prefix_def length_Cons list.size(3) node_def numeral_eq_Suc pred_numeral_simps BitM.simps)

lemma wired_nodes:
  assumes "wired s"
  shows "distinct (map node (take n (data_names s)))" "set (map node (take n (data_names s))) \<subseteq> fst ` set (mc_Block s)"
proof -
  let ?devs = "map fst (mc_Block s)"
  have p: "\<forall>dev \<in> set ?devs. node (drop 5 dev) = dev" using assms node_drop by (auto simp: wired_def)
  have "distinct (map (drop 5) ?devs)" using assms p by (simp add: wired_def distinct_map inj_on_def) metis
  then have "distinct (data_names s)" by (simp add: data_names_def)
  then show "distinct (map node (take n (data_names s)))" by (simp add: distinct_map inj_on_def node_def)
  have "node ` set (data_names s) \<subseteq> set ?devs" using p by (auto simp: data_names_def)
  then show "set (map node (take n (data_names s))) \<subseteq> fst ` set (mc_Block s)" using set_take_subset [of n "data_names s"] by auto
qed

lemma itoa_inj: "itoa m = itoa n \<Longrightarrow> m = n"
proof -
  assume e: "itoa m = itoa n"
  have "itoa_nat (nat m) \<noteq> CHR ''-'' # r" "CHR ''-'' # r \<noteq> itoa_nat (nat n)" for r using itoa_nat_sign by (metis list.sel(1))+
  then show ?thesis using e itoa_nat_inj by (auto simp: itoa_def split: if_splits dest!: itoa_nat_inj)
qed

lemma disk_mounts_distinct: "distinct (map dw_Index (wo_Disks wo)) \<Longrightarrow> distinct (disk_mounts wo)"
  by (auto simp: disk_mounts_def distinct_map inj_on_def dest!: itoa_inj)

lemma fill_bytes_range: "- (2 ^ 63) \<le> fill_bytes wo \<and> fill_bytes wo < 2 ^ 63"
proof -
  have i: "- (2 ^ 63) \<le> i64 x \<and> i64 x < 2 ^ 63" for x
    using signed_take_bit_int_greater_eq_minus_exp [of 63 x] signed_take_bit_int_less_exp [of 63 x] by (simp add: i64_signed_take_bit)
  have "- (2 ^ 63) \<le> n \<and> n < 2 ^ 63 \<Longrightarrow> - (2 ^ 63) \<le> fold (\<lambda>d n. i64 (n + i64 (dw_GlobalBytes d + dw_LocalBytes d))) ds n
      \<and> fold (\<lambda>d n. i64 (n + i64 (dw_GlobalBytes d + dw_LocalBytes d))) ds n < 2 ^ 63" for ds n
    by (induction ds arbitrary: n) (use i in simp_all)
  from this [of 0 "wo_Disks wo"] show ?thesis by (simp add: fill_bytes_def)
qed

section \<open>Run markers\<close>

text \<open>The disk carries the marker of this run.\<close>

definition carries :: "work_order \<Rightarrow> filesystem \<Rightarrow> bool" where
  "carries wo fs \<longleftrightarrow> (\<exists>d f r. fs_Root fs runMarkerFile = Some d \<and> string_fields (marker_text d) = f # r \<and> f = wo_RunID wo)"

lemma complete_disks_healthy:
  "healthy s \<Longrightarrow> \<exists>n' ok t. complete_disks wo xs n s = (Inr (n', ok), t) \<and> healthy t \<and> mc_Block t = mc_Block s \<and> mc_Sent t = mc_Sent s
     \<and> (ok \<longrightarrow> (\<forall>dev \<in> fst ` set xs. \<exists>fs. fs_of s dev = Some fs \<and> carries wo fs))"
proof (induction xs arbitrary: n s)
  case Nil
  then show ?case by (intro exI [of _ n] exI [of _ True] exI [of _ s]) (simp add: ret_def)
next
  case (Cons x xs)
  obtain dev mnt where x: "x = (dev, mnt)" by fastforce
  show ?case
  proof (cases "\<exists>fs. fs_of s dev = Some fs \<and> fs_Type fs = wo_Filesystem wo")
    case False
    define s1 where "s1 = s\<lparr>mc_Mounts := (mc_Mounts s)(mnt := None)\<rparr>"
    have "\<exists>e. mountFS dev mnt (wo_Filesystem wo) s = (Inl e, s1)"
      using False Cons.prems
      by (cases "fs_of s dev") (auto simp: mountFS_def seq_eq ignore_def attempt_def ret_def fail_def unmount_def change_def wrap_def mount_def healthy_def syscall_def s1_def)
    then show ?thesis using x Cons.prems by (auto simp: attempt_def ret_def s1_def healthy_def)
  next
    case True
    then obtain fs where fs: "fs_of s dev = Some fs" "fs_Type fs = wo_Filesystem wo" by blast
    define s1 where "s1 = s\<lparr>mc_Mounts := (mc_Mounts s)(mnt \<mapsto> (dev, False))\<rparr>"
    have mo: "mountFS dev mnt (wo_Filesystem wo) s = (Inr (), s1)" using healthy_mounts(1) [OF Cons.prems fs] by (simp add: s1_def)
    have s1: "healthy s1" "mounted mnt s1 dev False fs" using Cons.prems fs(1) by (simp_all add: s1_def healthy_def mounted_def)
    have o: "mc_Block s1 = mc_Block s" "mc_Sent s1 = mc_Sent s" "fs_of s1 = fs_of s" by (simp_all add: s1_def)
    show ?thesis
    proof (cases "carries wo fs")
      case False
      then have "complete_disks wo (x # xs) n s = (Inr (0, False), s1)"
        using x mo healthy_root [OF s1] unfolding carries_def
        by (cases "fs_Root fs runMarkerFile") (auto simp: attempt_def Let_def ret_def neq_Nil_conv)
      then show ?thesis using s1(1) o by (intro exI [of _ 0] exI [of _ False] exI [of _ s1]) simp
    next
      case True
      then obtain m where "complete_disks wo (x # xs) n s = complete_disks wo xs m s1"
        using x mo healthy_root [OF s1] by (auto simp: carries_def attempt_def Let_def)
      then show ?thesis using Cons.IH [OF s1(1), of m] o x fs(1) True by auto
    qed
  qed
qed

lemma complete_disks_finished:
  "healthy s \<Longrightarrow> finished T wo (map fst xs) n s \<Longrightarrow> plain_id (wo_RunID wo) \<Longrightarrow> - (2 ^ 63) \<le> n \<Longrightarrow> n < 2 ^ 63 \<Longrightarrow>
   \<exists>t. complete_disks wo xs k s = (Inr (if xs = [] then k else n, True), t) \<and> healthy t \<and> mc_Block t = mc_Block s \<and> mc_Sent t = mc_Sent s"
proof (induction xs arbitrary: k s)
  case Nil
  then show ?case by (simp add: ret_def)
next
  case (Cons x xs)
  obtain dev mnt where x: "x = (dev, mnt)" by fastforce
  from Cons.prems(2) x obtain fs where fs: "fs_of s dev = Some fs" "described T wo fs" "marked wo n fs" by (auto simp: finished_def)
  define s1 where "s1 = s\<lparr>mc_Mounts := (mc_Mounts s)(mnt \<mapsto> (dev, False))\<rparr>"
  have mo: "mountFS dev mnt (wo_Filesystem wo) s = (Inr (), s1)"
    using healthy_mounts(1) [OF Cons.prems(1) fs(1)] fs(2) by (simp add: s1_def described_def)
  have s1: "healthy s1" "mounted mnt s1 dev False fs" using Cons.prems(1) fs(1) by (simp_all add: s1_def healthy_def mounted_def)
  obtain c where c: "fs_Root fs runMarkerFile = Some c" "string_fields (marker_text c) = [wo_RunID wo, itoa n]"
    using marked_fields [OF fs(3) Cons.prems(3)] by blast
  have "complete_disks wo (x # xs) k s = complete_disks wo xs n s1"
    using x mo healthy_root [OF s1] c parse_itoa [OF Cons.prems(4,5)] by (simp add: attempt_def Let_def)
  moreover have "finished T wo (map fst xs) n s1" using Cons.prems(2) by (simp add: finished_def s1_def)
  ultimately show ?case using Cons.IH [OF s1(1) _ Cons.prems(3-5), of n] by (auto simp: s1_def split: if_splits)
qed

section \<open>The runs of a finished machine\<close>

lemma runFill_agent_devices:
  assumes "healthy s" "length (wo_Disks wo) \<le> length (data_names s)"
  shows "runFill_agent T wo s = (let devices = map node (take (length (wo_Disks wo)) (data_names s)); mounts = disk_mounts wo in
        if wo_RunType wo = RunVerify then runVerify T wo devices mounts
        else seq (runAlreadyComplete wo devices mounts) (\<lambda>(n, ok).
          if ok then seq (flushDisks mounts) (\<lambda>_. reportDone n)
          else if wo_RunType wo = RunIncremental then runIncremental T wo devices mounts
          else runInitialFill T wo devices mounts)) s"
  using healthy_dataDisks [OF assms] by (simp add: runFill_agent_def attempt_def Let_def)

lemma rerun_finished:
  assumes u: "healthy u" "finished T wo (map node (take (length (wo_Disks wo)) (data_names u))) n u"
    and wo: "wo_RunType wo \<noteq> RunVerify" "plain_id (wo_RunID wo)" "wo_Disks wo \<noteq> []" "length (wo_Disks wo) \<le> length (data_names u)"
    and n: "- (2 ^ 63) \<le> n" "n < 2 ^ 63"
  shows "\<exists>k v. runFill_agent T wo u = (Inr (), v) \<and> mc_Sent v = mc_Sent u @ replicate k (Done n) \<and> 0 < k \<and> mc_Block v = mc_Block u"
proof -
  let ?devs = "map node (take (length (wo_Disks wo)) (data_names u))" and ?xs = "zip (map node (take (length (wo_Disks wo)) (data_names u))) (disk_mounts wo)"
  have len: "length ?devs = length (wo_Disks wo)" "length (disk_mounts wo) = length (wo_Disks wo)" using wo(4) by (simp_all add: disk_mounts_def)
  then have xs: "take (length (wo_Disks wo)) ?xs = ?xs" "?xs \<noteq> []" "map fst ?xs = ?devs" using wo(3) by auto
  from complete_disks_finished [of u T wo ?xs n, unfolded xs(3), OF u wo(2) n, of 0] xs(2) obtain t where
    c: "runAlreadyComplete wo ?devs (disk_mounts wo) u = (Inr (n, True), t)" "healthy t" "mc_Block t = mc_Block u" "mc_Sent t = mc_Sent u"
    by (auto simp: runAlreadyComplete_def xs(1))
  obtain v where f: "flushDisks (disk_mounts wo) t = (Inr (), v)" "healthy v" "mc_Block v = mc_Block t" "mc_Sent v = mc_Sent t"
    using healthy_flush [OF c(2)] by blast
  obtain k w where r: "reportDone n v = (Inr (), w)" "mc_Block w = mc_Block v" "mc_Sent w = mc_Sent v @ replicate k (Done n)" "0 < k"
    using healthy_done [OF f(2)] by blast
  show ?thesis using runFill_agent_devices [OF u(1) wo(4), of T] wo(1) c f r by (simp add: Let_def seq_eq)
qed

lemma verify_finished:
  assumes u: "healthy u" "orderly u" "finished T wo (map node (take (length (wo_Disks wo)) (data_names u))) n u"
    and wo': "wo_RunType wo' = RunVerify" "wo_Filesystem wo' = wo_Filesystem wo" "length (wo_Disks wo') = length (wo_Disks wo)"
      "distinct (map dw_Index (wo_Disks wo'))" "wo_Disks wo \<noteq> []" "length (wo_Disks wo) \<le> length (data_names u)"
  shows "\<exists>m k v. runFill_agent T wo' u = (Inr (), v) \<and> mc_Sent v = mc_Sent u @ replicate k (Done m) \<and> 0 < k \<and> mc_Block v = mc_Block u"
proof -
  let ?devs = "map node (take (length (wo_Disks wo)) (data_names u))"
  have len: "length ?devs = length (wo_Disks wo')" "length (disk_mounts wo') = length ?devs" "distinct (disk_mounts wo')" "?devs \<noteq> []"
    using wo' disk_mounts_distinct [of wo'] by (auto simp: disk_mounts_def)
  have names: "\<forall>dev fs. fs_of u dev = Some fs \<longrightarrow> names_distinct fs" using u(2) ordered_distinct by (auto simp: orderly_def)
  have ok: "\<forall>dev \<in> set ?devs. \<exists>fs. fs_of u dev = Some fs \<and> verifiable T (wo_Filesystem wo') fs"
    using u(3) exact_intact [of T "wo_RunID wo" _ "wo_Filesystem wo'"] wo'(2) by (fastforce simp: finished_def described_def)
  have le: "length (wo_Disks wo') \<le> length (data_names u)" using wo'(3,6) by simp
  have "runFill_agent T wo' u = runVerify T wo' ?devs (disk_mounts wo') u" using runFill_agent_devices [OF u(1) le, of T] wo'(1,3) by (simp add: Let_def)
  moreover have "mc_Faults u = []" using u(1) by (simp add: healthy_def)
  ultimately show ?thesis using verify_totals [OF len names, of T] ok by metis
qed

lemma inspect_all_finished:
  assumes u: "healthy u" "finished T wo (map node (data_names u)) n u" and wo: "plain_id (wo_RunID wo)" "wo_Filesystem wo = ''xfs''"
    and n: "- (2 ^ 63) \<le> n" "n < 2 ^ 63" and some: "data_names u \<noteq> []"
  shows "\<exists>ds v. inspectDisks u = (Inr ds, v) \<and> mc_Block v = mc_Block u \<and> mc_Sent v = mc_Sent u \<and> map dd_Device ds = data_names u
     \<and> (\<forall>d \<in> set ds. dd_RunBytes d = n) \<and> DataState ds = (DataFilled, wo_RunID wo, True)"
proof -
  have a: "allBlockDevices u = (Inr (data_names u), u)"
    using healthy_names [OF u(1)] by (simp add: allBlockDevices_def seq_eq ret_def data_names_def)
  have "node = (\<lambda>name. ''/dev/'' @ name)" by (simp add: node_def fun_eq_iff)
  from inspects_finished [OF wo(1) n wo(2) u [unfolded this], of 0 "[]"] obtain ds t where
    f: "fold_prog (enumerate 0 (data_names u)) inspect_disk [] u = (Inr ds, t)" "mc_Block t = mc_Block u" "mc_Sent t = mc_Sent u"
      "map dd_Device ds = data_names u" "\<forall>d \<in> set ds. dd_RunID d = wo_RunID wo \<and> dd_RunBytes d = n \<and> dd_Manifest d" by auto
  have "wo_RunID wo \<noteq> ''''" using wo(1) by (simp add: plain_id_def)
  then have "data_state_loop es (m, r, True) = (m + length es, if r = '''' \<and> es \<noteq> [] then wo_RunID wo else r, True)" if "set es \<subseteq> set ds" for es m r
    using that f(5) by (induction es arbitrary: m r) (auto simp: disk_marked_def)
  then have "DataState ds = (DataFilled, wo_RunID wo, True)" using f(4) some by (auto simp: DataState_def)
  then show ?thesis using a f by (simp add: inspectDisks_def attempt_def)
qed

text \<open>Disks the work order has not been carried out on: one of them lacks the run's marker.\<close>

definition undone :: "work_order \<Rightarrow> machine \<Rightarrow> bool" where
  "undone wo s \<longleftrightarrow> (\<exists>name \<in> set (data_names s). \<forall>fs. fs_of s (node name) = Some fs \<longrightarrow> \<not> carries wo fs)"

text \<open>A work order for all data disks of a machine.\<close>

definition fits :: "work_order \<Rightarrow> machine \<Rightarrow> bool" where
  "fits wo s \<longleftrightarrow> wo_Filesystem wo = ''xfs'' \<and> length (wo_Disks wo) = length (data_names s) \<and> wo_Disks wo \<noteq> []
     \<and> distinct (map dw_Index (wo_Disks wo))"

lemma first_fill:
  assumes s: "healthy s" "orderly s" "wired s" "fits wo s" "undone wo s"
    and wo: "wo_RunType wo = RunInitialFill" "wo_FileSizeBytes wo \<noteq> 0"
  shows "\<exists>k t. runFill_agent T wo s = (Inr (), t) \<and> mc_Sent t = mc_Sent s @ replicate k (Done (fill_bytes wo)) \<and> 0 < k
     \<and> orderly t \<and> data_names t = data_names s \<and> finished T wo (map node (data_names s)) (fill_bytes wo) t"
proof -
  let ?devs = "map node (data_names s)" and ?mnts = "disk_mounts wo"
  have len: "length ?devs = length (wo_Disks wo)" "length ?mnts = length (wo_Disks wo)" using s(4) by (simp_all add: disk_mounts_def fits_def)
  then have all: "take (length (wo_Disks wo)) (data_names s) = data_names s" by simp
  note nodes = wired_nodes [OF s(3), of "length (wo_Disks wo)", unfolded all]
  have z: "take (length (wo_Disks wo)) (zip ?devs ?mnts) = zip ?devs ?mnts" using len by simp
  obtain n ok s1 where c: "runAlreadyComplete wo ?devs ?mnts s = (Inr (n, ok), s1)" "healthy s1" "mc_Block s1 = mc_Block s" "mc_Sent s1 = mc_Sent s"
      "ok \<longrightarrow> (\<forall>dev \<in> fst ` set (zip ?devs ?mnts). \<exists>fs. fs_of s dev = Some fs \<and> carries wo fs)"
    using complete_disks_healthy [OF s(1), of wo "zip ?devs ?mnts" 0] unfolding runAlreadyComplete_def z by blast
  have "fst ` set (zip ?devs ?mnts) = set ?devs" using len by (metis list.set_map map_fst_zip)
  with c(5) s(5) have "\<not> ok" by (fastforce simp: undone_def)
  then have run: "runFill_agent T wo s = runInitialFill T wo ?devs ?mnts s1"
    using runFill_agent_devices [OF s(1), of wo T] len(1) c(1) wo(1) by (simp add: Let_def seq_eq all)
  have s1: "orderly s1" "set ?devs \<subseteq> fst ` set (mc_Block s1)" using s(2) fs_of_block [OF c(3)] nodes(2) c(3) by (simp_all add: orderly_def)
  have "distinct ?mnts" using s(4) disk_mounts_distinct by (simp add: fits_def)
  from healthy_fill [OF c(2) s1(1) wo(2) nodes(1) this len s1(2), of T] obtain k t where
    t: "runInitialFill T wo ?devs ?mnts s1 = (Inr (), t)" "orderly t" "finished T wo ?devs (fill_bytes wo) t"
      "mc_Sent t = mc_Sent s1 @ replicate k (Done (fill_bytes wo))" "0 < k" "map fst (mc_Block t) = map fst (mc_Block s1)" by blast
  have "data_names t = data_names s" using t(6) c(3) by (simp add: data_names_def)
  with t c(4) run show ?thesis by (intro exI [of _ k] exI [of _ t]) simp
qed

text \<open>
  C1. An initial fill of a healthy machine reports \<open>done\<close> with the total of the work order, and its
  disks stand for it from then on: whatever boot the machine finds itself in later with these disks
  and no failing calls, being handed the work order again it reports the same total and writes
  nothing; the inspection at boot reports all disks filled by this run, manifests and total
  included; and a verify run ends with \<open>done\<close>, writing nothing.
\<close>

theorem fill_survives_reboots:
  assumes s: "healthy s" "orderly s" "wired s" "fits wo s" "undone wo s"
    and wo: "wo_RunType wo = RunInitialFill" "wo_FileSizeBytes wo \<noteq> 0" "plain_id (wo_RunID wo)"
    and verify: "wo_RunType wo' = RunVerify" "fits wo' s"
  shows "\<exists>k t. runFill_agent T wo s = (Inr (), t) \<and> mc_Sent t = mc_Sent s @ replicate k (Done (fill_bytes wo)) \<and> 0 < k
     \<and> (\<forall>u. healthy u \<and> mc_Block u = mc_Block t \<longrightarrow>
         (\<exists>k v. runFill_agent T wo u = (Inr (), v) \<and> mc_Sent v = mc_Sent u @ replicate k (Done (fill_bytes wo)) \<and> 0 < k \<and> mc_Block v = mc_Block u)
       \<and> (\<exists>ds v. inspectDisks u = (Inr ds, v) \<and> mc_Block v = mc_Block u \<and> (\<forall>d \<in> set ds. dd_RunBytes d = fill_bytes wo)
           \<and> DataState ds = (DataFilled, wo_RunID wo, True))
       \<and> (\<exists>n k v. runFill_agent T wo' u = (Inr (), v) \<and> mc_Sent v = mc_Sent u @ replicate k (Done n) \<and> 0 < k \<and> mc_Block v = mc_Block u))"
proof -
  obtain k t where t: "runFill_agent T wo s = (Inr (), t)" "mc_Sent t = mc_Sent s @ replicate k (Done (fill_bytes wo))" "0 < k"
      "orderly t" "data_names t = data_names s" "finished T wo (map node (data_names s)) (fill_bytes wo) t"
    using first_fill [OF s wo(1,2), of T] by blast
  note n = fill_bytes_range [of wo]
  have "(\<exists>k v. runFill_agent T wo u = (Inr (), v) \<and> mc_Sent v = mc_Sent u @ replicate k (Done (fill_bytes wo)) \<and> 0 < k \<and> mc_Block v = mc_Block u)
       \<and> (\<exists>ds v. inspectDisks u = (Inr ds, v) \<and> mc_Block v = mc_Block u \<and> (\<forall>d \<in> set ds. dd_RunBytes d = fill_bytes wo)
           \<and> DataState ds = (DataFilled, wo_RunID wo, True))
       \<and> (\<exists>n k v. runFill_agent T wo' u = (Inr (), v) \<and> mc_Sent v = mc_Sent u @ replicate k (Done n) \<and> 0 < k \<and> mc_Block v = mc_Block u)"
    if u: "healthy u" "mc_Block u = mc_Block t" for u
  proof -
    have d: "data_names u = data_names s" "take (length (wo_Disks wo)) (data_names u) = data_names u" "length (wo_Disks wo) \<le> length (data_names u)"
      using u(2) t(5) s(4) by (simp_all add: data_names_def fits_def)
    have fin: "finished T wo (map node (data_names u)) (fill_bytes wo) u" "orderly u"
      using t(4,6) fs_of_block [OF u(2)] by (simp_all add: d finished_def orderly_def)
    note rerun_finished [OF u(1), of T wo "fill_bytes wo", unfolded d(2), OF fin(1) _ wo(3) _ d(3)]
    moreover note inspect_all_finished [OF u(1) fin(1) wo(3)]
    moreover note verify_finished [OF u(1) fin(2), of T wo "fill_bytes wo" wo', unfolded d(2), OF fin(1) verify(1) _ _ _ _ d(3)]
    ultimately show ?thesis using n wo(1) s(4) verify(2) d(1) by (fastforce simp: fits_def)
  qed
  then show ?thesis using t(1-3) by blast
qed

end
