(* ===== verification/AgentDemo.thy ===== *)
theory AgentDemo
  imports AgentResume
begin

text \<open>
  The agent's properties at work: a small fleet member with one data disk, a checksum and a fio
  that are computable stand-ins for the real ones, an initial fill, an incremental run and a verify
  run evaluated on it, and the theorems about runs applied to them.
\<close>

section \<open>Tools\<close>

definition file_arg :: "string list \<Rightarrow> string option" where
  "file_arg args = find (\<lambda>a. has_prefix a ''--filename='') args"

definition base_name :: "string \<Rightarrow> string" where
  "base_name p = rev (takeWhile (\<lambda>c. c \<noteq> CHR ''/'') (rev p))"

definition demo_fio :: "string list \<Rightarrow> (string \<times> string) list \<times> string" where
  "demo_fio args = (case file_arg args of
      Some a \<Rightarrow> [(base_name a, args ! 7)]
    | None \<Rightarrow> [(drop 7 (hd args) @ ''.0.0'', args ! 7)], '''')"

definition demo_tools :: tools where
  "demo_tools = \<lparr>tl_sha = (\<lambda>s. s), tl_fio = demo_fio, tl_rand = (\<lambda>_ _ i. 0)\<rparr>"

lemma base_name_join: "CHR ''/'' \<notin> set f \<Longrightarrow> base_name (dir @ ''/'' @ f) = f"
proof -
  assume "CHR ''/'' \<notin> set f"
  then have "takeWhile (\<lambda>c. c \<noteq> CHR ''/'') (rev f @ CHR ''/'' # rev dir) = rev f" by (auto simp: takeWhile_append)
  then show ?thesis by (simp add: base_name_def)
qed


lemma file_arg_skip: "file_arg (fio_args wo name rs extra) = file_arg (extra @ (if wo_RateLimitKBps wo > 0 then [''--rate='' @ itoa (wo_RateLimitKBps wo) @ ''k''] else []))"
  by (simp add: file_arg_def fio_args_def has_prefix_def)

lemma demo_documented: "fio_documented demo_tools" "rand_documented demo_tools"
proof -
  have dir: "has_prefix f (name @ ''.'')" if "f \<in> fst ` set (fst (tl_fio demo_tools (fio_args wo name rs (dir_job dir b nr fsz))))"
    for wo name rs dir b nr fsz f
  proof -
    have "file_arg (fio_args wo name rs (dir_job dir b nr fsz)) = None"
      unfolding file_arg_skip by (simp add: file_arg_def dir_job_def has_prefix_def)
    then have "f = name @ ''.0.0''" using that by (simp add: demo_tools_def demo_fio_def fio_args_def)
    then show ?thesis by (simp add: has_prefix_def)
  qed
  have one: "fst ` set (fst (tl_fio demo_tools (fio_args wo name rs (file_job (dir @ ''/'' @ f) b)))) \<subseteq> {f}"
    if "CHR ''/'' \<notin> set f" for wo name rs dir f b
  proof -
    have "file_arg (fio_args wo name rs (file_job (dir @ ''/'' @ f) b)) = Some ((''--filename='' @ dir) @ ''/'' @ f)"
      unfolding file_arg_skip by (simp add: file_arg_def file_job_def has_prefix_def)
    then show ?thesis using base_name_join [OF that, of "''--filename='' @ dir"] by (simp add: demo_tools_def demo_fio_def)
  qed
  show "fio_documented demo_tools" unfolding fio_documented_def by (intro conjI allI ballI impI) (fact dir, fact one)
  show "rand_documented demo_tools" by (simp add: rand_documented_def demo_tools_def)
qed

section \<open>A machine and its work orders\<close>

definition demo_work :: disk_work where
  "demo_work = \<lparr>dw_Index = 0, dw_SizeGiB = 1, dw_GlobalBytes = 4, dw_LocalBytes = 4, dw_GlobalSeed = 1, dw_LocalSeed = 2\<rparr>"

definition demo_order :: "string \<Rightarrow> run_type \<Rightarrow> work_order" where
  "demo_order r ty = \<lparr>wo_RunID = r, wo_RunType = ty, wo_VMName = ''vm'', wo_Filesystem = ''xfs'', wo_CompressPercent = 50,
     wo_DedupePercent = 20, wo_BlockSize = ''1M'', wo_FileSizeBytes = 4, wo_RateLimitKBps = 0, wo_Disks = [demo_work],
     wo_ChangePercent = 100, wo_GrowthPercent = 50, wo_RunSeed = 7, wo_Identity = None\<rparr>"

definition demo_machine :: machine where
  "demo_machine = \<lparr>mc_Block = [(''/dev/sda'', None)], mc_Sectors = (\<lambda>_. None), mc_Mounts = Map.empty, mc_Faults = [], mc_Fio = [],
     mc_Prog = no_progress, mc_Net = [], mc_Sent = [], mc_Slept = 0\<rparr>"

text \<open>A disk that holds one data file, and its manifest.\<close>

definition demo_data :: "string \<Rightarrow> filesystem" where
  "demo_data c = \<lparr>fs_Type = ''xfs'', fs_Root = Map.empty, fs_Dirs = [''local'' \<mapsto> [(''a'', Some c)]]\<rparr>"

definition demo_fs :: filesystem where
  "demo_fs = new_manifest (exact_manifest demo_tools ''r1'' (demo_data ''x'')) (demo_data ''x'')"

text \<open>The same disk after its file was damaged.\<close>

definition damaged_fs :: filesystem where
  "damaged_fs = demo_fs\<lparr>fs_Dirs := [''local'' \<mapsto> [(''a'', Some ''y'')]]\<rparr>"

definition holding :: "filesystem \<Rightarrow> machine" where
  "holding fs = demo_machine\<lparr>mc_Block := [(''/dev/sda'', Some fs)]\<rparr>"

lemma holding_fs: "fs_of (holding fs) dev = (if dev = ''/dev/sda'' then Some fs else None)"
  by (simp add: holding_def fs_of_def)

lemma demo_machine_ok: "healthy demo_machine" "orderly demo_machine" "wired demo_machine" "data_names demo_machine = [''sda'']" "fs_of demo_machine dev = None"
  "healthy (holding fs)"
  by (simp_all add: healthy_def orderly_def wired_def data_names_def is_data_disk_def has_prefix_def holding_def demo_machine_def fs_of_def)

lemma demo_order_sel [simp]: "wo_RunID (demo_order r ty) = r" "wo_RunType (demo_order r ty) = ty" "wo_Filesystem (demo_order r ty) = ''xfs''"
  "wo_FileSizeBytes (demo_order r ty) = 4" "wo_Disks (demo_order r ty) = [demo_work]"
  by (simp_all add: demo_order_def)

lemma demo_fill_bytes: "fill_bytes (demo_order r ty) = 8"
  by (simp add: fill_bytes_def demo_work_def)

lemma demo_dirs: "fs_Dirs demo_fs = [''local'' \<mapsto> [(''a'', Some ''x'')]]" "fs_Dirs damaged_fs = [''local'' \<mapsto> [(''a'', Some ''y'')]]"
  "fs_Root damaged_fs = fs_Root demo_fs" "fs_Type demo_fs = ''xfs''" "fs_Type damaged_fs = ''xfs''"
  by (simp_all add: demo_fs_def damaged_fs_def new_manifest_def demo_data_def)

lemma demo_described: "described demo_tools (demo_order ''r1'' ty) demo_fs"
  using described_new_manifest [of demo_tools "demo_order ''r1'' ty" "demo_data ''x''"] by (simp add: demo_fs_def demo_data_def)

section \<open>The properties on it\<close>

theorem fill_survives_reboots_witness:
  "\<exists>k t. runFill_agent demo_tools (demo_order ''r1'' RunInitialFill) demo_machine = (Inr (), t) \<and> mc_Sent t = replicate k (Done 8) \<and> 0 < k"
proof -
  have "fits (demo_order ''r1'' ty) demo_machine" for ty by (simp add: fits_def demo_machine_ok)
  moreover have "undone (demo_order ''r1'' RunInitialFill) demo_machine" by (simp add: undone_def demo_machine_ok)
  moreover have "plain_id (wo_RunID (demo_order ''r1'' RunInitialFill))" by (simp add: plain_id_def is_space_def)
  moreover have "mc_Sent demo_machine = []" by (simp add: demo_machine_def)
  ultimately show ?thesis
    using fill_survives_reboots [of demo_machine "demo_order ''r1'' RunInitialFill" "demo_order ''r1'' RunVerify" demo_tools] demo_machine_ok demo_fill_bytes
    by auto
qed

theorem fill_leaves_exact_witness:
  "\<exists>t fs. runInitialFill demo_tools (demo_order ''r1'' RunInitialFill) [''/dev/sda''] [''/mnt/disk0''] demo_machine = (Inr (), t)
     \<and> fs_of t ''/dev/sda'' = Some fs \<and> described demo_tools (demo_order ''r1'' RunInitialFill) fs"
proof -
  obtain k t where t: "runInitialFill demo_tools (demo_order ''r1'' RunInitialFill) [''/dev/sda''] [''/mnt/disk0''] demo_machine = (Inr (), t)"
      "mc_Sent t = mc_Sent demo_machine @ replicate k (Done 8)" "0 < k"
    using healthy_fill [of demo_machine "demo_order ''r1'' RunInitialFill" "[''/dev/sda'']" "[''/mnt/disk0'']" demo_tools] demo_machine_ok
    by (auto simp: demo_fill_bytes demo_machine_def)
  show ?thesis using fill_leaves_exact [OF t] t(1) by simp
qed

theorem incremental_keeps_exact_witness:
  "\<exists>t fs. runIncremental demo_tools (demo_order ''r2'' RunIncremental) [''/dev/sda''] [''/mnt/disk0''] (holding demo_fs) = (Inr (), t)
     \<and> fs_of t ''/dev/sda'' = Some fs \<and> described demo_tools (demo_order ''r2'' RunIncremental) fs"
proof -
  have "exact demo_tools ''r1'' demo_fs" using demo_described by (simp add: described_def)
  then have a: "accurate demo_tools demo_fs" by (rule exact_accurate)
  have c: "slash_free demo_fs" "ordered demo_fs" by (simp_all add: slash_free_def ordered_def demo_dirs)
  have all: "\<forall>dev fs. fs_of (holding demo_fs) dev = Some fs \<longrightarrow> slash_free fs \<and> accurate demo_tools fs \<and> ordered fs" using a c by (simp add: holding_fs)
  obtain n k t where t: "runIncremental demo_tools (demo_order ''r2'' RunIncremental) [''/dev/sda''] [''/mnt/disk0''] (holding demo_fs) = (Inr (), t)"
      "mc_Sent t = mc_Sent (holding demo_fs) @ replicate k (Done n)" "0 < k"
    using healthy_incremental [of "holding demo_fs" "demo_order ''r2'' RunIncremental" demo_tools "[''/dev/sda'']" "[''/mnt/disk0'']"]
      demo_machine_ok(6) demo_documented all by (simp add: holding_fs demo_dirs) blast
  have "calm (holding demo_fs)" by (simp add: calm_def holding_def demo_machine_def)
  then show ?thesis using incremental_keeps_exact [OF t demo_documented] t(1) a c by (auto simp: holding_fs)
qed

theorem verify_verdict_witness:
  "\<exists>r k t. runVerify demo_tools (demo_order ''v'' RunVerify) [''/dev/sda''] [''/mnt/disk0''] (holding demo_fs) = (Inr (), t)
     \<and> mc_Sent t = replicate k r \<and> 0 < k \<and> (\<exists>n. r = Done n)"
proof -
  have v: "verifiable demo_tools ''xfs'' demo_fs" using demo_described [of RunVerify] exact_intact [of demo_tools "''r1''" demo_fs "''xfs''"] by (simp add: described_def)
  have "names_distinct demo_fs" by (rule ordered_distinct) (simp add: ordered_def demo_dirs)
  then have d: "\<forall>dev fs. fs_of (holding demo_fs) dev = Some fs \<longrightarrow> names_distinct fs" by (simp add: holding_fs)
  have e: "mc_Sent (holding demo_fs) = []" "mc_Faults (holding demo_fs) = []" by (simp_all add: holding_def demo_machine_def)
  show ?thesis
    using verify_verdict [of "[''/dev/sda'']" "demo_order ''v'' RunVerify" "[''/mnt/disk0'']" "holding demo_fs" demo_tools] v d e by (simp add: holding_fs) blast
qed

theorem restored_copy_verdict_witness:
  "\<exists>r k v. runVerify demo_tools (demo_order ''v'' RunVerify) [''/dev/sda''] [''/mnt/disk0''] (holding damaged_fs) = (Inr (), v)
     \<and> mc_Sent v = replicate k r \<and> 0 < k \<and> \<not> (\<exists>n. r = Done n)"
proof -
  have c: "copies (holding demo_fs) [''/dev/sda''] (holding damaged_fs) [''/dev/sda'']" by (simp add: copies_def holding_fs demo_dirs)
  have "names_distinct damaged_fs" by (rule ordered_distinct) (simp add: ordered_def demo_dirs)
  then have d: "\<forall>dev fs. fs_of (holding damaged_fs) dev = Some fs \<longrightarrow> names_distinct fs" by (simp add: holding_fs)
  have e: "mc_Sent (holding damaged_fs) = []" "mc_Faults (holding damaged_fs) = []" by (simp_all add: holding_def demo_machine_def)
  have r: "data_rels demo_fs = [''local/a'']" by (simp add: data_rels_def demo_dirs dataDirs_def regular_def)
  have "entry demo_tools damaged_fs ''local/a'' \<noteq> entry demo_tools demo_fs ''local/a''"
    by (simp add: entry_def content_def file_at_def demo_dirs demo_tools_def)
  then have "\<not> same_files demo_tools demo_fs damaged_fs" by (simp add: same_files_def r)
  then show ?thesis
    using restored_copy_verdict [of "[''/dev/sda'']" "holding demo_fs" demo_tools "demo_order ''r1'' RunInitialFill" "holding damaged_fs" "[''/dev/sda'']"
        "demo_order ''v'' RunVerify" "[''/mnt/disk0'']"] demo_described c d e by (simp add: holding_fs)
qed

theorem one_verdict_witness:
  "\<exists>r k t. runFill_agent demo_tools (demo_order ''r1'' RunInitialFill) demo_machine = (Inr (), t) \<and> mc_Sent t = replicate k r \<and> 0 < k"
  using one_verdict [of "demo_order ''r1'' RunInitialFill" demo_tools demo_machine] by (auto simp: demo_machine_def)

theorem one_run_at_a_time_witness:
  "\<exists>p d. served (p, d) [demo_order ''r1'' RunInitialFill] \<and> length (dp_jobs d) \<le> 1"
proof -
  let ?wo = "demo_order ''r1'' RunInitialFill"
  let ?a = "Some (200, Some (hand_out ?wo))"
  have b: "boot_phase (Some ''ghostfleet.url=u ghostfleet.token=t'') True = Registering" by code_simp
  have "served (Registering, no_runs) []" using served_boot [of "Some ''ghostfleet.url=u ghostfleet.token=t''" True] by (simp only: b)
  moreover have "agent_step (Registering, no_runs) (Answer ?a) (Serving, dispatch (hand_out ?wo) no_runs)"
    by (intro registered) (simp add: pollWith_def)
  moreover have "considerate no_runs (Answer ?a)" by (simp add: considerate_def no_runs_def)
  ultimately have "served (Serving, dispatch (hand_out ?wo) no_runs) ([] @ drop (length (dp_jobs no_runs)) (dp_jobs (dispatch (hand_out ?wo) no_runs)))"
    by (rule served_step)
  then have s: "served (Serving, dispatch (hand_out ?wo) no_runs) [?wo]" by (simp add: dispatch_def hand_out_def no_runs_def)
  then show ?thesis using one_run_at_a_time [OF s] by blast
qed

end
