(* ===== verification/Secrets.thy ===== *)
theory Secrets
  imports Prog
begin

text \<open>
  \<open>internal/secrets/secrets.go\<close>: credentials are encrypted with AES-256-GCM under a key that
  lives in a file beside the database and is made on the first start. The cipher is Go's
  \<open>crypto/aes\<close> and \<open>crypto/cipher\<close>: a record \<open>aead\<close> of its methods, obtained from a key by the
  parameter \<open>gcm\<close> (\<open>aes.NewCipher\<close> followed by \<open>cipher.NewGCM\<close>). What its documentation
  promises is \<open>aead_documented\<close>: \<open>Open\<close> undoes \<open>Seal\<close> under the same nonce. The random source
  is a parameter that answers the number of bytes asked for, or an error.
\<close>

section \<open>The key file and the box\<close>

record aead =
  NonceSize :: nat
  Seal :: "string \<Rightarrow> string \<Rightarrow> string"
  OpenSealed :: "string \<Rightarrow> string \<Rightarrow> go_error + string"

type_synonym rand = "nat \<Rightarrow> go_error + string"

text \<open>The key file: its content (\<open>None\<close>: it does not exist), and what reading or writing it
  fails with, if anything.\<close>

record key_file =
  kf_Content :: "string option"
  kf_ReadErr :: "go_error option"
  kf_WriteErr :: "go_error option"

definition read_key :: "(key_file, string option) prog" where
  "read_key f = (case kf_ReadErr f of Some e \<Rightarrow> (Inl e, f) | None \<Rightarrow> (Inr (kf_Content f), f))"

definition write_key :: "string \<Rightarrow> (key_file, unit) prog" where
  "write_key key f = (case kf_WriteErr f of Some e \<Rightarrow> (Inl e, f) | None \<Rightarrow> (Inr (), f\<lparr>kf_Content := Some key\<rparr>))"

definition lift_result :: "go_error + 'a \<Rightarrow> ('s, 'a) prog" where
  "lift_result r = (case r of Inl e \<Rightarrow> fail e | Inr x \<Rightarrow> ret x)"

definition key_size_error :: "string \<Rightarrow> string \<Rightarrow> string" where
  "key_size_error keyPath key = ''key file '' @ keyPath @ '' has '' @ itoa_nat (length key) @ '' bytes, want 32''"

definition OpenBox :: "(string \<Rightarrow> go_error + aead) \<Rightarrow> rand \<Rightarrow> string \<Rightarrow> (key_file, aead) prog" where
  "OpenBox gcm rnd keyPath =
     seq (wrap ''reading key file: '' read_key) (\<lambda>content.
     seq (case content of
         Some key \<Rightarrow> ret key
       | None \<Rightarrow> seq (wrap ''generating key: '' (lift_result (rnd 32))) (\<lambda>key.
           seq (wrap ''writing key file: '' (write_key key)) (\<lambda>_. ret key))) (\<lambda>key.
     if length key \<noteq> 32 then fail (ErrOther (key_size_error keyPath key))
     else lift_result (gcm key)))"

text \<open>\<open>nonce || ciphertext\<close>\<close>

definition Encrypt :: "aead \<Rightarrow> rand \<Rightarrow> string \<Rightarrow> go_error + string" where
  "Encrypt box rnd plaintext = (case rnd (NonceSize box) of
      Inl e \<Rightarrow> Inl e
    | Inr nonce \<Rightarrow> Inr (nonce @ Seal box nonce plaintext))"

definition Decrypt :: "aead \<Rightarrow> string \<Rightarrow> go_error + string" where
  "Decrypt box blob =
     (if length blob < NonceSize box then Inl (ErrOther ''ciphertext too short'')
      else case OpenSealed box (take (NonceSize box) blob) (drop (NonceSize box) blob) of
        Inl e \<Rightarrow> Inl (ErrWrap ''decrypting: '' e)
      | Inr plaintext \<Rightarrow> Inr plaintext)"

section \<open>What is documented of the cipher and the random source\<close>

definition aead_documented :: "aead \<Rightarrow> bool" where
  "aead_documented box \<longleftrightarrow> (\<forall>nonce plaintext. length nonce = NonceSize box \<longrightarrow>
     OpenSealed box nonce (Seal box nonce plaintext) = Inr plaintext)"

text \<open>\<open>rand.Read\<close> fills the slice it is given, or fails.\<close>

definition rand_fills :: "rand \<Rightarrow> bool" where
  "rand_fills rnd \<longleftrightarrow> (\<forall>n b. rnd n = Inr b \<longrightarrow> length b = n)"

section \<open>Round trips\<close>

lemma Decrypt_Encrypt:
  assumes "aead_documented box" and "rand_fills rnd" and "Encrypt box rnd plaintext = Inr blob"
  shows "Decrypt box blob = Inr plaintext"
proof -
  obtain nonce where n: "rnd (NonceSize box) = Inr nonce" and b: "blob = nonce @ Seal box nonce plaintext"
    using assms(3) by (auto simp: Encrypt_def split: sum.splits)
  then have "length nonce = NonceSize box" using assms(2) by (simp add: rand_fills_def)
  then show ?thesis using assms(1) by (simp add: Decrypt_def b aead_documented_def)
qed

text \<open>A successful opening leaves a key of 32 bytes in the file and the box is the cipher under
  that key; opening the same file again gives the same box and leaves the file alone.\<close>

lemma OpenBox_key:
  assumes "OpenBox gcm rnd path f = (Inr box, f')"
  shows "\<exists>key. kf_Content f' = Some key \<and> length key = 32 \<and> gcm key = Inr box
           \<and> (kf_Content f = None \<or> f' = f) \<and> kf_ReadErr f' = None"
  using assms
  by (auto simp: OpenBox_def lift_result_def read_key_def write_key_def seq_eq ret_def fail_def wrap_def attempt_def
      split: option.splits sum.splits prod.splits if_splits)

lemma OpenBox_again:
  assumes "kf_Content f = Some key" "length key = 32" "gcm key = Inr box" "kf_ReadErr f = None"
  shows "OpenBox gcm rnd path f = (Inr box, f)"
  using assms by (simp add: OpenBox_def lift_result_def read_key_def seq_eq ret_def wrap_def attempt_def)

text \<open>
  Secrets survive a restart: what was encrypted with the box of one start is decrypted by
  the box that the next start opens from the same key file, whatever the random source says
  then; the second start neither fails nor touches the file.
\<close>

theorem secrets_survive_restart:
  assumes cipher: "\<forall>key box. gcm key = Inr box \<longrightarrow> aead_documented box" and "rand_fills rnd"
    and first: "OpenBox gcm rnd path f = (Inr box, f')" and enc: "Encrypt box rnd' plaintext = Inr blob"
    and "rand_fills rnd'"
  shows "\<exists>box'. OpenBox gcm rnd'' path f' = (Inr box', f') \<and> Decrypt box' blob = Inr plaintext"
proof -
  obtain key where k: "kf_Content f' = Some key" "length key = 32" "gcm key = Inr box" "kf_ReadErr f' = None"
    using OpenBox_key [OF first] by blast
  then have "OpenBox gcm rnd'' path f' = (Inr box, f')" by (intro OpenBox_again)
  moreover have "Decrypt box blob = Inr plaintext"
    using Decrypt_Encrypt cipher k(3) enc assms(5) by blast
  ultimately show ?thesis by blast
qed

text \<open>A cipher that keeps its laws, to run the model on: the key and the nonce in front.\<close>

definition demo_gcm :: "string \<Rightarrow> go_error + aead" where
  "demo_gcm key = Inr \<lparr>NonceSize = 12, Seal = (\<lambda>nonce plaintext. nonce @ key @ plaintext),
     OpenSealed = (\<lambda>nonce c. if take (12 + length key) c = nonce @ key then Inr (drop (12 + length key) c)
        else Inl (ErrOther ''cipher: message authentication failed''))\<rparr>"

definition fixed_rand :: rand where
  "fixed_rand n = Inr (replicate n CHR ''r'')"

lemma fixed_rand_fills: "rand_fills fixed_rand"
  by (simp add: rand_fills_def fixed_rand_def)

lemma demo_gcm_documented: "demo_gcm key = Inr box \<Longrightarrow> aead_documented box"
  by (auto simp: demo_gcm_def aead_documented_def)

theorem secrets_survive_restart_witness:
  "let f = \<lparr>kf_Content = None, kf_ReadErr = None, kf_WriteErr = None\<rparr>;
       (r, f') = OpenBox demo_gcm fixed_rand ''k'' f
   in \<exists>box blob box'. r = Inr box \<and> Encrypt box fixed_rand ''pw'' = Inr blob
        \<and> OpenBox demo_gcm fixed_rand ''k'' f' = (Inr box', f') \<and> Decrypt box' blob = Inr ''pw''"
proof -
  let ?f = "\<lparr>kf_Content = None, kf_ReadErr = None, kf_WriteErr = None\<rparr>"
  let ?key = "replicate 32 CHR ''r''"
  obtain box where b: "demo_gcm ?key = Inr box" by (simp add: demo_gcm_def)
  have opened: "OpenBox demo_gcm fixed_rand ''k'' ?f = (Inr box, ?f\<lparr>kf_Content := Some ?key\<rparr>)"
    using b by (simp add: OpenBox_def lift_result_def read_key_def write_key_def seq_eq ret_def wrap_def attempt_def fixed_rand_def)
  obtain blob where e: "Encrypt box fixed_rand ''pw'' = Inr blob" by (simp add: Encrypt_def fixed_rand_def)
  show ?thesis
    using secrets_survive_restart [OF _ fixed_rand_fills opened e fixed_rand_fills, of fixed_rand] demo_gcm_documented opened e
    by auto
qed

end
