(* ===== verification/Http.thy ===== *)
theory Http
  imports Adopt ScheduleTimes Secrets
begin

text \<open>
  \<open>internal/api/server.go\<close> (configuration and JSON helpers) and \<open>internal/api/auth.go\<close>: what a
  handler answers with, how errors become statuses, and who may pass the gate. A handler is a
  \<open>prog\<close> that always returns a \<open>response\<close>: a status, a body and possibly a cookie. Decoding a
  request body is \<open>encoding/json\<close>'s: a body arrives decoded, or as the text of the decoder's
  error. The session store maps tokens to their expiry; \<open>time.Now()\<close> and the random bytes are
  arguments.
\<close>

section \<open>Responses\<close>

text \<open>Texts of errors: literal ones, and those computed by the validations of the model.\<close>

datatype message = Msg string | SpecMsg spec_error | ScheduleMsg schedule_error

record profile_document =
  pd_Kind :: string
  pd_Name :: string
  pd_Spec :: "profile_spec option"

record console_session =
  cs_Text :: string
  cs_StartedAt :: string
  cs_Partial :: bool

datatype body =
    NoBody
  | ErrorBody message
  | TextBody string
  | FileBody string
  | StatusBody "(string \<times> string) list"
  | SessionBody bool bool
  | LoginBody bool
  | ConnectionBody connection
  | ConnectionsBody "connection list"
  | InfoBody hv_info
  | PlacementBody placement_options
  | ProfileBody profile
  | ProfilesBody "profile list"
  | VersionBody profile_version
  | VersionsBody "profile_version list"
  | ExportBody string profile_document
  | DeploymentBody deployment bool bool
  | DeploymentsBody "(deployment \<times> bool \<times> bool) list"
  | RunBody run
  | RunsBody "run list"
  | SamplesBody "run_sample list"
  | VMsBody "managed_vm list"
  | ConflictsBody "vm_conflict list"
  | ConsoleBody nat nat "(nat \<times> string \<times> bool) list" string
  | ScheduleBody schedule
  | SchedulesBody "schedule list"
  | DiscoveredBody "discovered_vm list"
  | AdoptBody adopt_result
  | AgentBody string "work_order option"
  | ActionBody string

record cookie =
  ck_Name :: string
  ck_Value :: string
  ck_Path :: string
  ck_HttpOnly :: bool
  ck_Secure :: bool
  ck_SameSiteLax :: bool
  ck_MaxAge :: int

record response =
  re_Status :: nat
  re_Body :: body
  re_Cookie :: "cookie option"
  re_Link :: string

definition writeJSON :: "nat \<Rightarrow> body \<Rightarrow> response" where
  "writeJSON status v = \<lparr>re_Status = status, re_Body = v, re_Cookie = None, re_Link = []\<rparr>"

definition writeError :: "nat \<Rightarrow> message \<Rightarrow> response" where
  "writeError status msg = writeJSON status (ErrorBody msg)"

definition noContent :: response where
  "noContent = writeJSON 204 NoBody"

text \<open>The chain of wrapped errors is searched for a known one.\<close>

definition writeStoreError :: "go_error \<Rightarrow> response" where
  "writeStoreError e = (case error_root e of
      ErrNotFound \<Rightarrow> writeError 404 (Msg ''not found'')
    | ErrConflict reason \<Rightarrow> writeError 409 (Msg reason)
    | _ \<Rightarrow> writeError 500 (Msg ''internal error''))"

definition writeJobError :: "go_error \<Rightarrow> response" where
  "writeJobError e = (case error_root e of
      ErrBusy _ \<Rightarrow> writeError 409 (Msg (error_text (error_root e)))
    | ErrNotRunning _ \<Rightarrow> writeError 409 (Msg (error_text (error_root e)))
    | ErrPrecondition _ \<Rightarrow> writeError 409 (Msg (error_text (error_root e)))
    | _ \<Rightarrow> writeStoreError e)"

definition writeConnectError :: "go_error \<Rightarrow> response" where
  "writeConnectError e =
     (if error_root e = ErrNotFound then writeStoreError e
      else writeError 502 (Msg (''hypervisor: '' @ error_text e)))"

definition writeAdoptError :: "go_error \<Rightarrow> response" where
  "writeAdoptError e = (case error_root e of
      ErrPrecondition reason \<Rightarrow> writeError 409 (Msg reason)
    | ErrConflict reason \<Rightarrow> writeError 409 (Msg reason)
    | ErrNotFound \<Rightarrow> writeError 404 (Msg ''not found'')
    | _ \<Rightarrow> writeError 502 (Msg (''adopting: '' @ error_text e)))"

text \<open>\<open>if err != nil { w(err); return }\<close>, and the body of a request.\<close>

definition or_write :: "('s, 'a) prog \<Rightarrow> (go_error \<Rightarrow> response) \<Rightarrow> ('a \<Rightarrow> ('s, response) prog) \<Rightarrow> ('s, response) prog" where
  "or_write m w k = attempt m (\<lambda>r. case r of Inl e \<Rightarrow> ret (w e) | Inr x \<Rightarrow> k x)"

definition readJSON :: "string + 'b \<Rightarrow> ('b \<Rightarrow> ('s, response) prog) \<Rightarrow> ('s, response) prog" where
  "readJSON body k = (case body of
      Inl err \<Rightarrow> ret (writeError 400 (Msg (''invalid JSON body: '' @ err)))
    | Inr b \<Rightarrow> k b)"

section \<open>Configuration and requests\<close>

record config =
  cf_Password :: string
  cf_APIKeys :: "string list"
  cf_SecureCookies :: string
  cf_BootURL :: string
  cf_Discovery :: bool

text \<open>What the gate and the cookies look at in a request.\<close>

record request =
  rq_Cookie :: "string option"
  rq_APIKey :: string
  rq_Authorization :: string
  rq_QueryKey :: string
  rq_TLS :: bool
  rq_ForwardedProto :: string

section \<open>Sessions\<close>

type_synonym sessions = "string \<rightharpoonup> int"

definition sessionCookie :: string where "sessionCookie = ''ghostfleet_session''"
definition sessionLifetime :: int where "sessionLifetime = 24 * 3600 * ns"

definition hex_string :: "string \<Rightarrow> string" where
  "hex_string b = concat (map (\<lambda>c. [hex_digit (of_char c div 16), hex_digit (of_char c mod 16)]) b)"

definition session_create :: "int \<Rightarrow> string \<Rightarrow> sessions \<Rightarrow> string \<times> sessions" where
  "session_create t bytes ss = (let token = hex_string bytes in
     (token, (\<lambda>k. case ss k of None \<Rightarrow> None | Some ex \<Rightarrow> if t > ex then None else Some ex)(token \<mapsto> t + sessionLifetime)))"

definition session_valid :: "int \<Rightarrow> string \<Rightarrow> sessions \<Rightarrow> bool" where
  "session_valid t token ss = (case ss token of None \<Rightarrow> False | Some ex \<Rightarrow> t < ex)"

definition session_revoke :: "string \<Rightarrow> sessions \<Rightarrow> sessions" where
  "session_revoke token ss = ss(token := None)"

section \<open>The gate\<close>

definition authRequired :: "config \<Rightarrow> bool" where
  "authRequired cf \<longleftrightarrow> cf_Password cf \<noteq> '''' \<or> length (cf_APIKeys cf) > 0"

definition authenticated :: "int \<Rightarrow> request \<Rightarrow> sessions \<Rightarrow> bool" where
  "authenticated t rq ss = (case rq_Cookie rq of None \<Rightarrow> False | Some v \<Rightarrow> session_valid t v ss)"

text \<open>The key of a request: header, bearer token or query parameter, in this order.\<close>

definition bearer :: string where "bearer = ''Bearer ''"

definition request_key :: "request \<Rightarrow> string" where
  "request_key rq =
     (let key = rq_APIKey rq;
          key = (if key = '''' \<and> has_prefix (rq_Authorization rq) bearer
                 then trim_space (drop (length bearer) (rq_Authorization rq)) else key)
      in if key = '''' then rq_QueryKey rq else key)"

definition hasValidAPIKey :: "config \<Rightarrow> request \<Rightarrow> bool" where
  "hasValidAPIKey cf rq = (let key = request_key rq in key \<noteq> '''' \<and> list_ex (\<lambda>k. k = key) (cf_APIKeys cf))"

definition allowed :: "config \<Rightarrow> int \<Rightarrow> request \<Rightarrow> sessions \<Rightarrow> bool" where
  "allowed cf t rq ss \<longleftrightarrow> \<not> authRequired cf \<or> authenticated t rq ss \<or> hasValidAPIKey cf rq"

definition requireAuth :: "config \<Rightarrow> int \<Rightarrow> request \<Rightarrow> sessions \<Rightarrow> ('s, response) prog \<Rightarrow> ('s, response) prog" where
  "requireAuth cf t rq ss handler =
     (if allowed cf t rq ss then handler else ret (writeError 401 (Msg ''authentication required'')))"

section \<open>Session endpoints\<close>

text \<open>\<open>strings.EqualFold(s, "https")\<close>: besides the case of the letters, Unicode folding takes the
  long s (two bytes in UTF-8) for an s.\<close>

definition equal_fold_https :: "string \<Rightarrow> bool" where
  "equal_fold_https s \<longleftrightarrow> to_lower s = ''https'' \<or> (to_lower (take 4 s) = ''http'' \<and> drop 4 s = [CHR 0xC5, CHR 0xBF])"

definition first_hop :: "string \<Rightarrow> string" where
  "first_hop proto = takeWhile (\<lambda>c. c \<noteq> CHR '','') proto"

definition secureCookie :: "config \<Rightarrow> request \<Rightarrow> bool" where
  "secureCookie cf rq =
     (let mode = to_lower (trim_space (cf_SecureCookies cf)) in
      if mode \<in> set [''on'', ''true'', ''yes'', ''1''] then True
      else if mode \<in> set [''off'', ''false'', ''no'', ''0''] then False
      else if rq_TLS rq then True
      else equal_fold_https (trim_space (first_hop (rq_ForwardedProto rq))))"

definition sessionCookieFor :: "config \<Rightarrow> request \<Rightarrow> string \<Rightarrow> int \<Rightarrow> cookie" where
  "sessionCookieFor cf rq v maxAge = \<lparr>ck_Name = sessionCookie, ck_Value = v, ck_Path = ''/'', ck_HttpOnly = True,
     ck_Secure = secureCookie cf rq, ck_SameSiteLax = True, ck_MaxAge = maxAge\<rparr>"

definition setSessionCookie :: "config \<Rightarrow> request \<Rightarrow> string \<Rightarrow> int \<Rightarrow> response \<Rightarrow> response" where
  "setSessionCookie cf rq v maxAge r = r\<lparr>re_Cookie := Some (sessionCookieFor cf rq v maxAge)\<rparr>"

definition handleSessionStatus :: "config \<Rightarrow> int \<Rightarrow> request \<Rightarrow> (sessions, response) prog" where
  "handleSessionStatus cf t rq = seq (look (allowed cf t rq)) (\<lambda>ok.
     ret (writeJSON 200 (SessionBody (cf_Password cf \<noteq> '''') ok)))"

definition handleLogin :: "config \<Rightarrow> int \<Rightarrow> string \<Rightarrow> request \<Rightarrow> string + string \<Rightarrow> (sessions, response) prog" where
  "handleLogin cf t bytes rq body =
     (if cf_Password cf = '''' then ret (writeJSON 200 (LoginBody True))
      else readJSON body (\<lambda>password.
        if password \<noteq> cf_Password cf then ret (writeError 401 (Msg ''wrong password''))
        else seq (look (session_create t bytes)) (\<lambda>(token, ss').
             seq (change (\<lambda>_. ss')) (\<lambda>_.
             ret (setSessionCookie cf rq token 86400 (writeJSON 200 (LoginBody True)))))))"

definition handleLogout :: "config \<Rightarrow> request \<Rightarrow> (sessions, response) prog" where
  "handleLogout cf rq =
     seq (case rq_Cookie rq of None \<Rightarrow> ret () | Some v \<Rightarrow> change (session_revoke v)) (\<lambda>_.
     ret (setSessionCookie cf rq '''' (- 1) noContent))"

section \<open>What handlers keep\<close>

lemma keeps_or_write [inv_intros]:
  assumes "keeps I m" and "\<And>x. keeps I (k x)"
  shows "keeps I (or_write m w k)"
  unfolding or_write_def by (intro keeps_attempt assms(1) keeps_sum keeps_ret assms(2))

lemma keeps_readJSON [inv_intros]: "(\<And>b. keeps I (k b)) \<Longrightarrow> keeps I (readJSON body k)"
  unfolding readJSON_def by (intro inv_intros)

lemma keeps_requireAuth [inv_intros]: "keeps I h \<Longrightarrow> keeps I (requireAuth cf t rq ss h)"
  unfolding requireAuth_def by (intro inv_intros)

text \<open>A handler answers, whatever its operations return.\<close>

lemma nofail_or_write [nofail_intros]: "(\<And>x. nofail (k x)) \<Longrightarrow> nofail (or_write m w k)"
  unfolding or_write_def by (intro nofail_intros)

lemma nofail_readJSON [nofail_intros]: "(\<And>b. nofail (k b)) \<Longrightarrow> nofail (readJSON body k)"
  unfolding readJSON_def by (intro nofail_intros)

lemma nofail_requireAuth [nofail_intros]: "nofail h \<Longrightarrow> nofail (requireAuth cf t rq ss h)"
  unfolding requireAuth_def by (intro nofail_intros)

lemma or_write_eq: "or_write m w k s = (case m s of (Inl e, s') \<Rightarrow> (Inr (w e), s') | (Inr x, s') \<Rightarrow> k x s')"
  by (auto simp: or_write_def prog_defs split: prod.splits sum.splits)

lemma writeError_sel [simp]: "re_Status (writeError n m) = n" "re_Body (writeError n m) = ErrorBody m"
  by (simp_all add: writeError_def writeJSON_def)

lemma writeJSON_sel [simp]: "re_Status (writeJSON n b) = n" "re_Body (writeJSON n b) = b"
  by (simp_all add: writeJSON_def)

text \<open>An error is never answered with a status of success.\<close>

lemma error_statuses:
  "re_Status (writeStoreError e) \<in> {404, 409, 500}" "re_Status (writeJobError e) \<in> {404, 409, 500}"
  "re_Status (writeConnectError e) \<in> {404, 502}" "re_Status (writeAdoptError e) \<in> {404, 409, 502}"
  by (auto simp: writeStoreError_def writeJobError_def writeConnectError_def writeAdoptError_def
      split: go_error.splits)

lemma error_not_success [simp]:
  "(re_Status (writeStoreError e) = 200) = False" "(re_Status (writeStoreError e) = 201) = False"
  "(re_Status (writeStoreError e) = 202) = False" "(re_Status (writeStoreError e) = 204) = False"
  "(re_Status (writeJobError e) = 202) = False" "(re_Status (writeConnectError e) = 200) = False"
  "(re_Status (writeAdoptError e) = 200) = False"
  using error_statuses [of e] by auto

section \<open>The life of a session\<close>

text \<open>What happens to the session store, with the time of each event.\<close>

datatype session_event = Login int string | Logout int string

fun event_time :: "session_event \<Rightarrow> int" where
  "event_time (Login t _) = t"
| "event_time (Logout t _) = t"

fun session_step :: "session_event \<Rightarrow> sessions \<Rightarrow> sessions" where
  "session_step (Login t bytes) ss = snd (session_create t bytes ss)"
| "session_step (Logout t token) ss = session_revoke token ss"

definition session_run :: "session_event list \<Rightarrow> sessions" where
  "session_run evs = fold session_step evs Map.empty"

text \<open>The reference: the latest event about the token is a login less than a day ago. Latest
  first.\<close>

fun logged_in :: "int \<Rightarrow> string \<Rightarrow> session_event list \<Rightarrow> bool" where
  "logged_in t token [] = False"
| "logged_in t token (Login t0 bytes # evs) =
     (if hex_string bytes = token then t < t0 + sessionLifetime else logged_in t token evs)"
| "logged_in t token (Logout t0 k # evs) = (if k = token then False else logged_in t token evs)"

lemma session_run_snoc: "session_run (evs @ [e]) = session_step e (session_run evs)"
  by (simp add: session_run_def)

text \<open>The clean-up of expired tokens during a login is invisible.\<close>

lemma session_valid_step:
  assumes "event_time e \<le> t"
  shows "session_valid t token (session_step e ss) = (case e of
      Login t0 bytes \<Rightarrow> if hex_string bytes = token then t < t0 + sessionLifetime else session_valid t token ss
    | Logout _ k \<Rightarrow> if k = token then False else session_valid t token ss)"
  using assms by (cases e) (auto simp: session_valid_def session_create_def session_revoke_def Let_def split: option.splits)

text \<open>
  The session store answers as its log of events does: at any later moment a token is
  accepted exactly when the latest login or logout that concerns it is a login of the last 24
  hours. Cleaning up during other logins changes no answer.
\<close>

theorem session_lifetime_exact:
  assumes "\<forall>e \<in> set evs. event_time e \<le> t"
  shows "session_valid t token (session_run evs) = logged_in t token (rev evs)"
  using assms
proof (induction evs rule: rev_induct)
  case Nil
  then show ?case by (simp add: session_run_def session_valid_def)
next
  case (snoc e evs)
  then show ?case by (simp add: session_run_snoc session_valid_step split: session_event.split)
qed

theorem session_lifetime_exact_witness:
  "let evs = [Login 0 ''a'', Login 5 ''b'', Logout 9 (hex_string ''b'')] in
   session_valid 10 (hex_string ''a'') (session_run evs) = logged_in 10 (hex_string ''a'') (rev evs)
   \<and> logged_in 10 (hex_string ''a'') (rev evs) \<and> \<not> logged_in 10 (hex_string ''b'') (rev evs)"
proof -
  let ?evs = "[Login 0 ''a'', Login 5 ''b'', Logout 9 (hex_string ''b'')]"
  have "session_valid 10 (hex_string ''a'') (session_run ?evs) = logged_in 10 (hex_string ''a'') (rev ?evs)"
    by (rule session_lifetime_exact) simp
  moreover have "logged_in 10 (hex_string ''a'') (rev ?evs)" "\<not> logged_in 10 (hex_string ''b'') (rev ?evs)"
    by code_simp+
  ultimately show ?thesis by simp
qed

end
