(* ===== verification/Frames.thy ===== *)
theory Frames
  imports Fill
begin

text \<open>
  What the store's operations leave alone. A projection of the database is \<open>indifferent\<close> about the
  pending faults, and \<open>blind\<close> when it does not see the drawn identifiers either; the lemmas of
  the locales say which operations it does not see: reads, and writes to tables it is blind
  to. The component theories interpret the locales with the projections their properties
  speak of.
\<close>

named_theorems frame_intros \<open>operations a projection does not see\<close>

locale indifferent =
  fixes view :: "store \<Rightarrow> 'x"
  assumes blind_faults: "\<And>s fs. view (s\<lparr>st_faults := fs\<rparr>) = view s"
begin

abbreviation unseen :: "'a store_op \<Rightarrow> bool" where
  "unseen m \<equiv> (\<forall>c. keeps (\<lambda>s. view s = c) m)"

lemma unseenD: "unseen m \<Longrightarrow> view (snd (m s)) = view s"
  by (simp add: keeps_def)

lemma unseenI: "(\<And>s. view (snd (m s)) = view s) \<Longrightarrow> unseen m"
  by (simp add: keeps_def)

lemma view_pop [simp]: "view (pop_fault s) = view s"
  by (simp add: pop_fault_def blind_faults)

text \<open>Statements.\<close>

lemma unseen_sql: "(\<And>s. view (snd (f s)) = view s) \<Longrightarrow> keeps (\<lambda>s. view s = c) (sql f)"
  by (simp add: keeps_def sql_def)

lemma unseen_select [frame_intros]: "keeps (\<lambda>s. view s = c) (sql_select q)"
  unfolding sql_select_def by (rule unseen_sql) (simp add: look_def)

lemma unseen_query_row [frame_intros]: "keeps (\<lambda>s. view s = c) (query_row tbl p)"
  unfolding query_row_def by (intro keeps_seq unseen_select keeps_option keeps_fail keeps_ret)

lemma unseen_must_affect [frame_intros]: "keeps (\<lambda>s. view s = c) m \<Longrightarrow> keeps (\<lambda>s. view s = c) (must_affect m)"
  unfolding must_affect_def by (intro keeps_seq keeps_if keeps_fail keeps_ret)

lemma unseen_now [frame_intros]: "keeps (\<lambda>s. view s = c) now"
  by (simp add: now_def keeps_look)

lemma unseen_insert [frame_intros]:
  "(\<And>s. view (put (\<lambda>rows. rows @ [row]) s) = view s) \<Longrightarrow> keeps (\<lambda>s. view s = c) (sql_insert tbl put uniq refs row)"
  unfolding sql_insert_def by (rule unseen_sql) simp

lemma unseen_update_key [frame_intros]:
  "(\<And>s. view (put (update_where p f) s) = view s) \<Longrightarrow> keeps (\<lambda>s. view s = c) (sql_update_key tbl put uniq p f)"
  unfolding sql_update_key_def by (rule unseen_sql) simp

lemma unseen_update [frame_intros]:
  "(\<And>s. view (put (update_where p f) s) = view s) \<Longrightarrow> keeps (\<lambda>s. view s = c) (sql_update tbl put p f)"
  unfolding sql_update_def by (rule unseen_update_key)

lemma unseen_delete [frame_intros]:
  "(\<And>s. view (put (delete_where p) s) = view s) \<Longrightarrow> keeps (\<lambda>s. view s = c) (sql_delete tbl put p)"
  unfolding sql_delete_def by (rule unseen_sql) simp

text \<open>Writes that are seen but keep a predicate on what is seen.\<close>

lemma unseen_keeps: "(\<And>c. keeps (\<lambda>s. view s = c) m) \<Longrightarrow> keeps (\<lambda>s. P (view s)) m"
  by (simp add: keeps_def)

lemma sql_view: "(\<And>s. P (view s) \<Longrightarrow> P (view (snd (f s)))) \<Longrightarrow> keeps (\<lambda>s. P (view s)) (sql f)"
  by (simp add: keeps_def sql_def)

lemma insert_view:
  "(\<And>s. P (view s) \<Longrightarrow> P (view (put (\<lambda>rows. rows @ [row]) s))) \<Longrightarrow> keeps (\<lambda>s. P (view s)) (sql_insert tbl put uniq refs row)"
  unfolding sql_insert_def by (rule sql_view) simp

lemma update_key_view:
  "(\<And>s. P (view s) \<Longrightarrow> P (view (put (update_where p f) s))) \<Longrightarrow> keeps (\<lambda>s. P (view s)) (sql_update_key tbl put uniq p f)"
  unfolding sql_update_key_def by (rule sql_view) simp

lemma tx_view:
  assumes "keeps (\<lambda>s. P (view s)) body"
  shows "keeps (\<lambda>s. P (view s)) (tx body)"
proof (rule keepsI)
  let ?m = "seq (sql (ret ())) (\<lambda>_. seq body (\<lambda>x. seq (sql (ret ())) (\<lambda>_. ret x)))"
  fix s assume c: "P (view s)"
  have begin_commit: "keeps (\<lambda>s. P (view s)) (sql (ret ()))" by (rule sql_view) (simp add: ret_def)
  have "keeps (\<lambda>s. P (view s)) ?m" using assms begin_commit by (intro keeps_seq keeps_ret)
  then have "P (view (snd (?m s)))" using c by (rule keepsD)
  then show "P (view (snd (tx body s)))"
    using c by (auto simp: tx_def blind_faults split: prod.splits sum.splits)
qed

lemma unseen_tx [frame_intros]: "keeps (\<lambda>s. view s = c) body \<Longrightarrow> keeps (\<lambda>s. view s = c) (tx body)"
  by (rule tx_view [where P = "\<lambda>v. v = c"])

text \<open>Reads, seen by no such projection.\<close>

lemma unseen_reads [frame_intros]:
  "keeps (\<lambda>s. view s = c) (GetConnection i)" "keeps (\<lambda>s. view s = c) (GetConnectionSecret i)"
  "keeps (\<lambda>s. view s = c) ListConnections" "keeps (\<lambda>s. view s = c) (GetProfile i)"
  "keeps (\<lambda>s. view s = c) ListProfiles" "keeps (\<lambda>s. view s = c) (GetProfileVersion i n)"
  "keeps (\<lambda>s. view s = c) (ListProfileVersions i)" "keeps (\<lambda>s. view s = c) (GetDeployment i)"
  "keeps (\<lambda>s. view s = c) ListDeployments" "keeps (\<lambda>s. view s = c) (HasSucceededRun i rt)"
  "keeps (\<lambda>s. view s = c) FilledDeploymentIDs" "keeps (\<lambda>s. view s = c) (GetRun i)"
  "keeps (\<lambda>s. view s = c) (ListRuns i)" "keeps (\<lambda>s. view s = c) (ListRunSamples i)"
  "keeps (\<lambda>s. view s = c) (GetManagedVM i)" "keeps (\<lambda>s. view s = c) (GetManagedVMByToken i)"
  "keeps (\<lambda>s. view s = c) (GetManagedVMByMAC i)" "keeps (\<lambda>s. view s = c) (GetManagedVMByName i m)"
  "keeps (\<lambda>s. view s = c) (ListManagedVMs i)" "keeps (\<lambda>s. view s = c) (CountFillStatus i st)"
  "keeps (\<lambda>s. view s = c) (GetSchedule i)" "keeps (\<lambda>s. view s = c) (ListSchedules i)"
  "keeps (\<lambda>s. view s = c) (GetDiscoveredVM i)" "keeps (\<lambda>s. view s = c) (GetDiscoveredVMByToken i)"
  "keeps (\<lambda>s. view s = c) ListDiscoveredVMs"
  unfolding GetConnection_def GetConnectionSecret_def ListConnections_def GetProfile_def ListProfiles_def
    GetProfileVersion_def ListProfileVersions_def GetDeployment_def ListDeployments_def HasSucceededRun_def
    FilledDeploymentIDs_def GetRun_def ListRuns_def ListRunSamples_def GetManagedVM_def GetManagedVMByToken_def
    GetManagedVMByMAC_def GetManagedVMByName_def ListManagedVMs_def CountFillStatus_def GetSchedule_def
    ListSchedules_def GetDiscoveredVM_def GetDiscoveredVMByToken_def ListDiscoveredVMs_def
  by (intro frame_intros keeps_seq keeps_ret keeps_option keeps_fail)+

lemma unseen_DeploymentFilled [frame_intros]: "keeps (\<lambda>s. view s = c) (DeploymentFilled i)"
  unfolding DeploymentFilled_def by (intro frame_intros keeps_seq keeps_ret keeps_if keeps_prod)

end

locale blind = indifferent view for view :: "store \<Rightarrow> 'x" +
  assumes blind_drawn: "\<And>s n. view (s\<lparr>st_drawn := n\<rparr>) = view s"
begin

lemma unseen_newID [frame_intros]: "keeps (\<lambda>s. view s = c) newID"
  by (simp add: keeps_def newID_def blind_drawn)

text \<open>Operations on one table.\<close>

lemma conn_ops:
  assumes "\<And>f s. view (st_conns_update f s) = view s"
  shows "keeps (\<lambda>s. view s = c) (CreateConnection k b)" "keeps (\<lambda>s. view s = c) (UpdateConnection k b')"
    "keeps (\<lambda>s. view s = c) (DeleteConnection i)"
proof -
  show "keeps (\<lambda>s. view s = c) (CreateConnection k b)"
    unfolding CreateConnection_def Let_def
    by (intro frame_intros keeps_seq keeps_ret keeps_on_unique) (simp add: assms)
  show "keeps (\<lambda>s. view s = c) (UpdateConnection k b')"
    unfolding UpdateConnection_def by (intro frame_intros keeps_seq keeps_on_unique) (simp add: assms)
  show "keeps (\<lambda>s. view s = c) (DeleteConnection i)"
    unfolding DeleteConnection_def
    by (intro frame_intros keeps_seq keeps_if keeps_fail unseen_sql) (simp add: assms)
qed

lemma vm_ops:
  assumes "\<And>f s. view (st_vms_update f s) = view s"
  shows "keeps (\<lambda>s. view s = c) (AddManagedVM v)" "keeps (\<lambda>s. view s = c) (TouchAgent i)"
    "keeps (\<lambda>s. view s = c) (SetVMDataState i ds n mf)" "keeps (\<lambda>s. view s = c) (RebindManagedVM i mac ref)"
    "keeps (\<lambda>s. view s = c) (AssignFill i n b)" "keeps (\<lambda>s. view s = c) (SetFillTotal i b)"
    "keeps (\<lambda>s. view s = c) (SetFillStatus i st)" "keeps (\<lambda>s. view s = c) (ReportFillProgress i b mb fin msg)"
    "keeps (\<lambda>s. view s = c) (WorkOrderForToken vm)"
proof -
  show status: "keeps (\<lambda>s. view s = c) (SetFillStatus i st)" for i st
    unfolding SetFillStatus_def by (intro frame_intros keeps_seq keeps_ret) (simp add: assms)
  show "keeps (\<lambda>s. view s = c) (AddManagedVM v)"
    unfolding AddManagedVM_def insert_vm_def by (intro frame_intros keeps_seq) (simp add: assms)
  show "keeps (\<lambda>s. view s = c) (TouchAgent i)" "keeps (\<lambda>s. view s = c) (SetVMDataState i ds n mf)"
    "keeps (\<lambda>s. view s = c) (RebindManagedVM i mac ref)" "keeps (\<lambda>s. view s = c) (AssignFill i n b)"
    "keeps (\<lambda>s. view s = c) (SetFillTotal i b)"
    unfolding TouchAgent_def SetVMDataState_def RebindManagedVM_def AssignFill_def SetFillTotal_def
    by (intro frame_intros keeps_seq keeps_ret; simp add: assms)+
  show "keeps (\<lambda>s. view s = c) (ReportFillProgress i b mb fin msg)"
    unfolding ReportFillProgress_def Let_def
    by (intro frame_intros keeps_seq keeps_ret keeps_if keeps_look; simp add: assms)
  have slot: "keeps (\<lambda>s. view s = c) (claim_slot d r v)" for d r v
    unfolding claim_slot_def Let_def
    by (intro frame_intros keeps_seq keeps_attempt keeps_ret keeps_if keeps_ignore status)
  show "keeps (\<lambda>s. view s = c) (WorkOrderForToken vm)"
    unfolding WorkOrderForToken_def by (intro frame_intros keeps_seq keeps_attempt keeps_sum keeps_ret keeps_if slot)
qed

lemma sched_ops:
  assumes "\<And>f s. view (st_scheds_update f s) = view s"
  shows "keeps (\<lambda>s. view s = c) (CreateSchedule sc)" "keeps (\<lambda>s. view s = c) (UpdateSchedule sc)"
    "keeps (\<lambda>s. view s = c) (DeleteSchedule i)"
  unfolding CreateSchedule_def UpdateSchedule_def DeleteSchedule_def insert_sched_def Let_def
  by (intro frame_intros keeps_seq keeps_ret; simp add: assms)+

lemma disc_ops:
  assumes "\<And>f s. view (st_disc_update f s) = view s"
  shows "keeps (\<lambda>s. view s = c) (EnsureDiscoveredVM mac)" "keeps (\<lambda>s. view s = c) (SetDiscoveredInspection i rep)"
    "keeps (\<lambda>s. view s = c) (TouchDiscoveredAgent i)" "keeps (\<lambda>s. view s = c) (SetDiscoveredStatus i dst)"
    "keeps (\<lambda>s. view s = c) (DeleteDiscoveredVM i)"
proof -
  show "keeps (\<lambda>s. view s = c) (EnsureDiscoveredVM mac)"
    unfolding EnsureDiscoveredVM_def Let_def by (intro frame_intros keeps_seq unseen_sql) (simp add: assms)
  show "keeps (\<lambda>s. view s = c) (SetDiscoveredInspection i rep)" "keeps (\<lambda>s. view s = c) (TouchDiscoveredAgent i)"
    "keeps (\<lambda>s. view s = c) (SetDiscoveredStatus i dst)" "keeps (\<lambda>s. view s = c) (DeleteDiscoveredVM i)"
    unfolding SetDiscoveredInspection_def TouchDiscoveredAgent_def SetDiscoveredStatus_def DeleteDiscoveredVM_def
    by (intro frame_intros keeps_seq keeps_ret; simp add: assms)+
qed

lemma run_ops:
  assumes "\<And>f s. view (st_runs_update f s) = view s"
  shows "keeps (\<lambda>s. view s = c) (CreateRun i rt)" "keeps (\<lambda>s. view s = c) (StartRun i)"
  unfolding CreateRun_def StartRun_def insert_run_def Let_def
  by (intro frame_intros keeps_seq keeps_ret; simp add: assms)+

lemma dep_ops:
  assumes "\<And>f s. view (st_deps_update f s) = view s"
  shows "keeps (\<lambda>s. view s = c) (CreateDeployment d)" "keeps (\<lambda>s. view s = c) (UpdateDeploymentSpec i spec)"
    "keeps (\<lambda>s. view s = c) (SetDeploymentStatus i ds)"
    "(\<And>f s. view (st_scheds_update f s) = view s) \<Longrightarrow> keeps (\<lambda>s. view s = c) (MarkDeploymentDeleted i)"
  unfolding CreateDeployment_def UpdateDeploymentSpec_def SetDeploymentStatus_def MarkDeploymentDeleted_def
    DeleteDeploymentSchedules_def insert_dep_def Let_def
  by (intro frame_intros keeps_seq keeps_ret keeps_on_unique; simp add: assms)+

lemma profile_ops:
  assumes "\<And>f s. view (st_profiles_update f s) = view s" "\<And>f s. view (st_versions_update f s) = view s"
  shows "keeps (\<lambda>s. view s = c) (CreateProfile n spec)" "keeps (\<lambda>s. view s = c) (UpdateProfileSpec i spec)"
    "keeps (\<lambda>s. view s = c) (RenameProfile i n)"
    "(\<And>f s. view (st_deps_update f s) = view s) \<Longrightarrow> keeps (\<lambda>s. view s = c) (DeleteProfile i)"
proof -
  have ins: "keeps (\<lambda>s. view s = c) (insert_version v)" for v
    unfolding insert_version_def by (intro frame_intros) (simp add: assms)
  show "keeps (\<lambda>s. view s = c) (CreateProfile n spec)"
    unfolding CreateProfile_def by (intro frame_intros keeps_seq keeps_ret keeps_on_unique ins) (simp add: assms)
  show "keeps (\<lambda>s. view s = c) (UpdateProfileSpec i spec)"
    unfolding UpdateProfileSpec_def next_version_def Let_def
    by (intro frame_intros keeps_seq keeps_ret ins) (simp add: assms)
  show "keeps (\<lambda>s. view s = c) (RenameProfile i n)"
    unfolding RenameProfile_def by (intro frame_intros keeps_seq keeps_on_unique) (simp add: assms)
  show "keeps (\<lambda>s. view s = c) (DeleteProfile i)" if "\<And>f s. view (st_deps_update f s) = view s"
    unfolding DeleteProfile_def
    by (intro frame_intros keeps_seq keeps_if keeps_fail unseen_sql) (simp add: assms that)
qed

end

end
