(* ===== verification/ApiConfig.thy ===== *)
theory ApiConfig
  imports Http Sched Frames
begin

text \<open>
  \<open>internal/api/connections.go\<close>, \<open>profiles.go\<close> and \<open>schedules.go\<close>: the handlers over the
  configuration part of the database. Shown here: a profile specification is validated before
  it is stored, so every stored version is valid and an exported profile imports as the same
  one; a connection's secret is stored encrypted and reaches the driver as it was sent; a
  schedule is only stored with a fire time in the future.
\<close>

section \<open>Connections\<close>

record connection_request =
  cr_Name :: string
  cr_Plugin :: string
  cr_Endpoint :: string
  cr_Username :: string
  cr_Secret :: string
  cr_InsecureTLS :: bool

definition connection_validate :: "connection_request \<Rightarrow> bool \<Rightarrow> string" where
  "connection_validate cr secretRequired =
     (if cr_Name cr = '''' then ''name is required''
      else if cr_Plugin cr \<notin> set KnownPlugins then ''unknown plugin (supported: vsphere)''
      else if cr_Endpoint cr = '''' then ''endpoint is required''
      else if cr_Username cr = '''' then ''username is required''
      else if secretRequired \<and> cr_Secret cr = '''' then ''secret is required''
      else '''')"

definition requested_connection :: "string \<Rightarrow> connection_request \<Rightarrow> connection" where
  "requested_connection i cr = \<lparr>c_ID = i, c_Name = cr_Name cr, c_Plugin = cr_Plugin cr, c_Endpoint = cr_Endpoint cr,
     c_Username = cr_Username cr, c_InsecureTLS = cr_InsecureTLS cr, c_CreatedAt = 0, c_UpdatedAt = 0\<rparr>"

definition createConnection :: "aead \<Rightarrow> rand \<Rightarrow> string + connection_request \<Rightarrow> ('h orch, response) prog" where
  "createConnection box rnd body = readJSON body (\<lambda>req.
     let msg = connection_validate req True in
     if msg \<noteq> '''' then ret (writeError 400 (Msg msg))
     else or_write (lift_result (Encrypt box rnd (cr_Secret req))) writeStoreError (\<lambda>blob.
          or_write (db (CreateConnection (requested_connection '''' req) blob)) writeStoreError (\<lambda>c.
          ret (writeJSON 201 (ConnectionBody c)))))"

definition updateConnection :: "aead \<Rightarrow> rand \<Rightarrow> string \<Rightarrow> string + connection_request \<Rightarrow> ('h orch, response) prog" where
  "updateConnection box rnd i body = readJSON body (\<lambda>req.
     let msg = connection_validate req False in
     if msg \<noteq> '''' then ret (writeError 400 (Msg msg))
     else or_write (if cr_Secret req = '''' then ret None
                    else seq (lift_result (Encrypt box rnd (cr_Secret req))) (\<lambda>b. ret (Some b))) writeStoreError (\<lambda>blob.
          or_write (db (UpdateConnection (requested_connection i req) blob)) writeStoreError (\<lambda>_.
          or_write (db (GetConnection i)) writeStoreError (\<lambda>updated.
          ret (writeJSON 200 (ConnectionBody updated))))))"

definition getConnection :: "string \<Rightarrow> ('h orch, response) prog" where
  "getConnection i = or_write (db (GetConnection i)) writeStoreError (\<lambda>c. ret (writeJSON 200 (ConnectionBody c)))"

definition listConnections :: "('h orch, response) prog" where
  "listConnections = or_write (db ListConnections) writeStoreError (\<lambda>cs. ret (writeJSON 200 (ConnectionsBody cs)))"

definition deleteConnection :: "string \<Rightarrow> ('h orch, response) prog" where
  "deleteConnection i = or_write (db (DeleteConnection i)) writeStoreError (\<lambda>_. ret noContent)"

section \<open>Profiles\<close>

record profile_request =
  pq_Name :: string
  pq_Spec :: "profile_spec option"

definition profileExportKind :: string where "profileExportKind = ''ghostfleet.profile''"

text \<open>The common end of \<open>createProfile\<close> and \<open>importProfile\<close>.\<close>

definition store_profile :: "string \<Rightarrow> profile_spec \<Rightarrow> ('h orch, response) prog" where
  "store_profile name spec0 = (let spec = ApplyDefaults spec0 in
     case Validate spec of
       Some e \<Rightarrow> ret (writeError 400 (SpecMsg e))
     | None \<Rightarrow> or_write (db (CreateProfile name spec)) writeStoreError (\<lambda>p. ret (writeJSON 201 (ProfileBody p))))"

definition createProfile :: "string + profile_request \<Rightarrow> ('h orch, response) prog" where
  "createProfile body = readJSON body (\<lambda>req. case pq_Spec req of
      None \<Rightarrow> ret (writeError 400 (Msg ''name and spec are required''))
    | Some spec \<Rightarrow> if pq_Name req = '''' then ret (writeError 400 (Msg ''name and spec are required''))
        else store_profile (pq_Name req) spec)"

definition updateProfile :: "string \<Rightarrow> string + profile_request \<Rightarrow> ('h orch, response) prog" where
  "updateProfile i body = readJSON body (\<lambda>req.
     if pq_Name req = '''' \<and> pq_Spec req = None
     then ret (writeError 400 (Msg ''nothing to update: provide name and/or spec''))
     else or_write (if pq_Name req \<noteq> '''' then db (RenameProfile i (pq_Name req)) else ret ()) writeStoreError (\<lambda>_.
       let answer = or_write (db (GetProfile i)) writeStoreError (\<lambda>p. ret (writeJSON 200 (ProfileBody p))) in
       case pq_Spec req of
         None \<Rightarrow> answer
       | Some spec0 \<Rightarrow> let spec = ApplyDefaults spec0 in (case Validate spec of
           Some e \<Rightarrow> ret (writeError 400 (SpecMsg e))
         | None \<Rightarrow> or_write (db (UpdateProfileSpec i spec)) writeStoreError (\<lambda>_. answer))))"

text \<open>\<open>utf8.DecodeRune\<close>: how many bytes the next rune takes; an invalid byte is a rune of its own.\<close>

definition cont :: "nat \<Rightarrow> bool" where "cont b \<longleftrightarrow> 128 \<le> b \<and> b < 192"

definition rune_len :: "string \<Rightarrow> nat" where
  "rune_len s = (case map (of_char :: char \<Rightarrow> nat) (take 4 s) of
      a # b # c # d # _ \<Rightarrow>
        if 194 \<le> a \<and> a < 224 \<and> cont b then 2
        else if 224 \<le> a \<and> a < 240 \<and> cont b \<and> cont c \<and> (a = 224 \<longrightarrow> 160 \<le> b) \<and> (a = 237 \<longrightarrow> b < 160) then 3
        else if 240 \<le> a \<and> a < 245 \<and> cont b \<and> cont c \<and> cont d \<and> (a = 240 \<longrightarrow> 144 \<le> b) \<and> (a = 244 \<longrightarrow> b < 144) then 4
        else 1
    | a # b # c # _ \<Rightarrow>
        if 194 \<le> a \<and> a < 224 \<and> cont b then 2
        else if 224 \<le> a \<and> a < 240 \<and> cont b \<and> cont c \<and> (a = 224 \<longrightarrow> 160 \<le> b) \<and> (a = 237 \<longrightarrow> b < 160) then 3
        else 1
    | a # b # _ \<Rightarrow> if 194 \<le> a \<and> a < 224 \<and> cont b then 2 else 1
    | _ \<Rightarrow> 1)"

definition filename_char :: "char \<Rightarrow> bool" where
  "filename_char c \<longleftrightarrow> is_lower c \<or> (CHR ''A'' \<le> c \<and> c \<le> CHR ''Z'') \<or> is_digit c \<or> c = CHR ''-'' \<or> c = CHR ''_''"

function slugify :: "string \<Rightarrow> string" where
  "slugify [] = []"
| "slugify (c # cs) = (if filename_char c then c else CHR ''-'') # slugify (drop (rune_len (c # cs)) (c # cs))"
  by pat_completeness auto

lemma rune_len_pos [simp]: "0 < rune_len s"
  by (simp add: rune_len_def split: list.split)

termination slugify
proof (relation "measure length")
  fix c cs
  show "(drop (rune_len (c # cs)) (c # cs), c # cs) \<in> measure length"
    unfolding in_measure length_drop by (metis diff_less length_greater_0_conv list.distinct(1) rune_len_pos)
qed simp

definition profileFilename :: "string \<Rightarrow> string" where
  "profileFilename name = (let slug = slugify name in
     (if slug = '''' then ''profile'' else slug) @ ''.ghostfleet-profile.json'')"

definition contentDisposition :: "string \<Rightarrow> string" where
  "contentDisposition name = ''attachment; filename='' @ go_quote (profileFilename name)"

definition export_answer :: "profile \<Rightarrow> response" where
  "export_answer p = writeJSON 200 (ExportBody (contentDisposition (p_Name p))
     \<lparr>pd_Kind = profileExportKind, pd_Name = p_Name p, pd_Spec = Some (p_Spec p)\<rparr>)"

definition exportProfile :: "string \<Rightarrow> ('h orch, response) prog" where
  "exportProfile i = or_write (db (GetProfile i)) writeStoreError (\<lambda>p. ret (export_answer p))"

definition importProfile :: "string + profile_document \<Rightarrow> ('h orch, response) prog" where
  "importProfile body = readJSON body (\<lambda>doc.
     if pd_Kind doc \<noteq> '''' \<and> pd_Kind doc \<noteq> profileExportKind
     then ret (writeError 400 (Msg ''not a GhostFleet profile document''))
     else case pd_Spec doc of
       None \<Rightarrow> ret (writeError 400 (Msg ''name and spec are required''))
     | Some spec \<Rightarrow> if pd_Name doc = '''' then ret (writeError 400 (Msg ''name and spec are required''))
         else store_profile (pd_Name doc) spec)"

definition getProfile :: "string \<Rightarrow> ('h orch, response) prog" where
  "getProfile i = or_write (db (GetProfile i)) writeStoreError (\<lambda>p. ret (writeJSON 200 (ProfileBody p)))"

definition listProfiles :: "('h orch, response) prog" where
  "listProfiles = or_write (db ListProfiles) writeStoreError (\<lambda>ps. ret (writeJSON 200 (ProfilesBody ps)))"

definition deleteProfile :: "string \<Rightarrow> ('h orch, response) prog" where
  "deleteProfile i = or_write (db (DeleteProfile i)) writeStoreError (\<lambda>_. ret noContent)"

definition listProfileVersions :: "string \<Rightarrow> ('h orch, response) prog" where
  "listProfileVersions i = or_write (db (ListProfileVersions i)) writeStoreError (\<lambda>vs.
     ret (if length vs = 0 then writeError 404 (Msg ''not found'') else writeJSON 200 (VersionsBody vs)))"

text \<open>\<open>strconv.Atoi\<close>\<close>

definition Atoi :: "string \<Rightarrow> int option" where
  "Atoi s = (let (neg, ds) = (case s of [] \<Rightarrow> (False, s) | c # r \<Rightarrow>
         if c = CHR ''-'' then (True, r) else if c = CHR ''+'' then (False, r) else (False, s));
       n = (if neg then - int (atoi ds) else int (atoi ds)) in
     if ds = [] \<or> \<not> list_all is_digit ds \<or> n < - (2 ^ 63) \<or> 2 ^ 63 \<le> n then None else Some n)"

definition getProfileVersion :: "string \<Rightarrow> string \<Rightarrow> ('h orch, response) prog" where
  "getProfileVersion i version = (case Atoi version of
      None \<Rightarrow> ret (writeError 400 (Msg ''version must be an integer''))
    | Some n \<Rightarrow> or_write (db (GetProfileVersion i n)) writeStoreError (\<lambda>v. ret (writeJSON 200 (VersionBody v))))"

section \<open>Schedules\<close>

record schedule_request =
  sq_Action :: run_type
  sq_Kind :: schedule_kind
  sq_Spec :: string
  sq_Timezone :: string
  sq_Enabled :: "bool option"

text \<open>The schedule with the request's fields, and the message for the client, if any.\<close>

definition schedule_request_validate ::
  "(string \<Rightarrow> zone option) \<Rightarrow> int \<Rightarrow> schedule_request \<Rightarrow> schedule \<Rightarrow> schedule \<times> message option" where
  "schedule_request_validate zones t req sc0 =
     (let enabled = (sq_Enabled req = None \<or> sq_Enabled req = Some True);
          sc = sc0\<lparr>sc_Action := sq_Action req, sc_Kind := sq_Kind req, sc_Spec := sq_Spec req,
                   sc_Timezone := sq_Timezone req, sc_Enabled := enabled\<rparr> in
      case schedule_Validate zones sc of
        Some e \<Rightarrow> (sc, Some (ScheduleMsg e))
      | None \<Rightarrow> let sc = sc\<lparr>sc_NextRunAt := None\<rparr> in
          if \<not> enabled then (sc, None)
          else case NextAfter zones sc t of
            None \<Rightarrow> (sc, Some (Msg ''once: the fire time must be in the future''))
          | Some n \<Rightarrow> (sc\<lparr>sc_NextRunAt := Some (secs n)\<rparr>, None))"

definition listSchedules :: "string \<Rightarrow> ('h orch, response) prog" where
  "listSchedules i =
     or_write (db (GetDeployment i)) writeStoreError (\<lambda>_.
     or_write (db (ListSchedules i)) writeStoreError (\<lambda>scs. ret (writeJSON 200 (SchedulesBody scs))))"

definition deployment_gone :: "deployment \<Rightarrow> bool" where
  "deployment_gone d \<longleftrightarrow> d_Status d = DeploymentDeleted \<or> d_Status d = DeploymentDeleting"

definition new_schedule :: "string \<Rightarrow> schedule" where
  "new_schedule dep = \<lparr>sc_ID = '''', sc_DeploymentID = dep, sc_Action = RunUnknown '''', sc_Kind = ScheduleOther '''',
     sc_Spec = '''', sc_Timezone = '''', sc_Enabled = False, sc_NextRunAt = None, sc_LastFiredAt = None,
     sc_LastRunID = '''', sc_LastResult = '''', sc_CreatedAt = 0, sc_UpdatedAt = 0\<rparr>"

definition createSchedule :: "(string \<Rightarrow> zone option) \<Rightarrow> int \<Rightarrow> string \<Rightarrow> string + schedule_request \<Rightarrow> ('h orch, response) prog" where
  "createSchedule zones t i body = readJSON body (\<lambda>req.
     or_write (db (GetDeployment i)) writeStoreError (\<lambda>d.
     if deployment_gone d then ret (writeError 409 (Msg ''deployment is deleted''))
     else case schedule_request_validate zones t req (new_schedule (d_ID d)) of
       (_, Some msg) \<Rightarrow> ret (writeError 400 msg)
     | (sc, None) \<Rightarrow> or_write (db (CreateSchedule sc)) writeStoreError (\<lambda>created.
         ret (writeJSON 201 (ScheduleBody created)))))"

definition getSchedule :: "string \<Rightarrow> ('h orch, response) prog" where
  "getSchedule i = or_write (db (GetSchedule i)) writeStoreError (\<lambda>sc. ret (writeJSON 200 (ScheduleBody sc)))"

definition updateSchedule :: "(string \<Rightarrow> zone option) \<Rightarrow> int \<Rightarrow> string \<Rightarrow> string + schedule_request \<Rightarrow> ('h orch, response) prog" where
  "updateSchedule zones t i body = readJSON body (\<lambda>req.
     or_write (db (GetSchedule i)) writeStoreError (\<lambda>sc0.
     case schedule_request_validate zones t req sc0 of
       (_, Some msg) \<Rightarrow> ret (writeError 400 msg)
     | (sc, None) \<Rightarrow> or_write (db (UpdateSchedule sc)) writeStoreError (\<lambda>_.
         or_write (db (GetSchedule (sc_ID sc))) writeStoreError (\<lambda>updated.
         ret (writeJSON 200 (ScheduleBody updated))))))"

definition deleteSchedule :: "string \<Rightarrow> ('h orch, response) prog" where
  "deleteSchedule i = or_write (db (DeleteSchedule i)) writeStoreError (\<lambda>_. ret noContent)"

section \<open>The catalogue of profiles\<close>

text \<open>Every stored version is valid and every profile has a name.\<close>

definition catalogue :: "store \<Rightarrow> profile_row list \<times> profile_version list" where
  "catalogue s = (st_profiles s, st_versions s)"

definition catalogue_ok :: "profile_row list \<times> profile_version list \<Rightarrow> bool" where
  "catalogue_ok c = (list_all (\<lambda>p. pr_Name p \<noteq> '''') (fst c) \<and> list_all (\<lambda>v. Validate (pv_Spec v) = None) (snd c))"

interpretation catalogue: blind catalogue
  by unfold_locales (simp_all add: catalogue_def)

lemma catalogue_blind [simp]:
  "catalogue (st_conns_update f0 s) = catalogue s" "catalogue (st_vms_update f1 s) = catalogue s"
  "catalogue (st_scheds_update f2 s) = catalogue s" "catalogue (st_disc_update f3 s) = catalogue s"
  "catalogue (st_runs_update f4 s) = catalogue s" "catalogue (st_deps_update f5 s) = catalogue s"
  by (simp_all add: catalogue_def)

lemma catalogue_CreateProfile:
  assumes "name \<noteq> ''''" "Validate spec = None"
  shows "keeps (\<lambda>s. catalogue_ok (catalogue s)) (CreateProfile name spec)"
  unfolding CreateProfile_def insert_version_def
  by (intro keeps_seq keeps_ret catalogue.tx_view catalogue.insert_view keeps_on_unique
      catalogue.unseen_keeps [OF catalogue.unseen_newID] catalogue.unseen_keeps [OF catalogue.unseen_now])
    (use assms in \<open>auto simp: catalogue_ok_def catalogue_def\<close>)

lemma catalogue_UpdateProfileSpec:
  assumes "Validate spec = None"
  shows "keeps (\<lambda>s. catalogue_ok (catalogue s)) (UpdateProfileSpec i spec)"
proof -
  have "keeps (\<lambda>s. catalogue_ok (catalogue s)) (next_version i spec ts)" for ts
    unfolding next_version_def insert_version_def Let_def sql_update_def
    by (intro keeps_seq keeps_ret catalogue.insert_view catalogue.update_key_view
        catalogue.unseen_keeps [OF catalogue.unseen_query_row])
      (use assms in \<open>auto simp: catalogue_ok_def catalogue_def intro: list_all_update_where\<close>)
  then show ?thesis unfolding UpdateProfileSpec_def
    by (intro keeps_seq catalogue.tx_view catalogue.unseen_keeps [OF catalogue.unseen_now]
        catalogue.unseen_keeps [OF catalogue.unseen_reads(4)])
qed

lemma catalogue_RenameProfile:
  "name \<noteq> '''' \<Longrightarrow> keeps (\<lambda>s. catalogue_ok (catalogue s)) (RenameProfile i name)"
  unfolding RenameProfile_def must_affect_def
  by (intro keeps_seq keeps_if keeps_fail keeps_ret keeps_on_unique catalogue.update_key_view
      catalogue.unseen_keeps [OF catalogue.unseen_now])
    (auto simp: catalogue_ok_def catalogue_def intro: list_all_update_where)

lemma catalogue_DeleteProfile: "keeps (\<lambda>s. catalogue_ok (catalogue s)) (DeleteProfile i)"
  unfolding DeleteProfile_def must_affect_def
  by (intro keeps_seq keeps_if keeps_fail keeps_ret catalogue.sql_view
      catalogue.unseen_keeps [OF catalogue.unseen_select])
    (auto simp: catalogue_ok_def catalogue_def delete_where_def list_all_iff)

lemma keeps_db_view: "keeps (\<lambda>s. P (g s)) m \<Longrightarrow> keeps (\<lambda>ob. P (g (o_store ob))) (db m)"
  by (rule keeps_db)

text \<open>The handlers that write profiles keep it: what is stored was validated.\<close>

lemma catalogue_store_profile:
  "name \<noteq> '''' \<Longrightarrow> keeps (\<lambda>ob. catalogue_ok (catalogue (o_store ob))) (store_profile name spec)"
  unfolding store_profile_def Let_def
  by (cases "Validate (ApplyDefaults spec)")
    (auto intro!: keeps_or_write keeps_ret keeps_db [OF catalogue_CreateProfile])

lemma catalogue_profile_handlers:
  "keeps (\<lambda>ob. catalogue_ok (catalogue (o_store ob))) (createProfile body)"
  "keeps (\<lambda>ob. catalogue_ok (catalogue (o_store ob))) (importProfile doc)"
  "keeps (\<lambda>ob. catalogue_ok (catalogue (o_store ob))) (updateProfile i body)"
  "keeps (\<lambda>ob. catalogue_ok (catalogue (o_store ob))) (deleteProfile i)"
proof -
  show "keeps (\<lambda>ob. catalogue_ok (catalogue (o_store ob))) (createProfile body)"
    unfolding createProfile_def by (rule keeps_readJSON) (auto intro!: keeps_ret catalogue_store_profile split: option.split)
  show "keeps (\<lambda>ob. catalogue_ok (catalogue (o_store ob))) (importProfile doc)"
    unfolding importProfile_def by (rule keeps_readJSON) (auto intro!: keeps_ret catalogue_store_profile split: option.split)
  have get: "keeps (\<lambda>ob. catalogue_ok (catalogue (o_store ob))) (db (GetProfile i))"
    by (rule keeps_db [OF catalogue.unseen_keeps [OF catalogue.unseen_reads(4)]])
  show "keeps (\<lambda>ob. catalogue_ok (catalogue (o_store ob))) (updateProfile i body)"
    unfolding updateProfile_def Let_def
    by (rule keeps_readJSON)
      (auto intro!: keeps_or_write keeps_ret get keeps_db [OF catalogue_RenameProfile]
        keeps_db [OF catalogue_UpdateProfileSpec] split: option.split)
  show "keeps (\<lambda>ob. catalogue_ok (catalogue (o_store ob))) (deleteProfile i)"
    unfolding deleteProfile_def by (intro keeps_or_write keeps_ret keeps_db [OF catalogue_DeleteProfile])
qed


section \<open>Moving a profile between controllers\<close>

lemma profiles_unique_snoc:
  "db_wf s \<Longrightarrow> pr_ID r \<notin> profile_ids s \<Longrightarrow> profiles_unique (st_profiles s @ [r]) \<longleftrightarrow> pr_Name r \<notin> set (map pr_Name (st_profiles s))"
  using db_wfD(2) [of s] by (auto simp: profiles_unique_def profile_ids_def)

lemma versions_unique_snoc:
  assumes wf: "db_wf s" and new: "pv_ProfileID v \<notin> profile_ids s"
  shows "versions_unique (st_versions s @ [v])"
  using db_wfD(3) [OF wf] new wf by (force simp: versions_unique_def db_wf_def refs_ok_def)

text \<open>Creating a profile under a free name; under a name in use nothing is stored.\<close>

lemma CreateProfile_outcome:
  assumes wf: "db_wf s" and ok: "st_faults s = []"
  shows "if name \<in> set (map pr_Name (st_profiles s))
    then \<exists>t. CreateProfile name spec s = (Inl (ErrConflict (profile_name_taken name)), t) \<and> catalogue t = catalogue s
    else \<exists>p t. CreateProfile name spec s = (Inr p, t) \<and> p_Name p = name \<and> p_Spec p = spec
           \<and> fst (GetProfile (p_ID p) t) = Inr p"
proof -
  let ?i = "st_rand s (st_drawn s)"
  let ?r = "\<lparr>pr_ID = ?i, pr_Name = name, pr_CurrentVersion = 1, pr_CreatedAt = st_now s, pr_UpdatedAt = st_now s\<rparr>"
  let ?v = "\<lparr>pv_ProfileID = ?i, pv_Version = 1, pv_Spec = spec, pv_CreatedAt = st_now s\<rparr>"
  have i: "?i \<notin> profile_ids s" using fresh_ids [OF wf] by (simp add: all_ids_def)
  have u: "profiles_unique (st_profiles s @ [?r]) \<longleftrightarrow> name \<notin> set (map pr_Name (st_profiles s))"
    using profiles_unique_snoc [OF wf, of ?r] i by simp
  have v: "versions_unique (st_versions s @ [?v])" using versions_unique_snoc [OF wf, of ?v] i by simp
  have p: "find (\<lambda>p. pr_ID p = ?i) (st_profiles s) = None"
    using i unfolding profile_ids_def by (rule find_key_None)
  have "find (\<lambda>v. pv_ProfileID v = ?i \<and> pv_Version v = 1) (st_versions s) = None"
    using wf i by (auto simp: find_None_iff db_wf_def refs_ok_def)
  with p u v ok show ?thesis
    by (auto simp: CreateProfile_def insert_version_def GetProfile_def join_profile_def tx_def eval_simps Let_def find_append
        isUniqueViolation_def profile_ids_def catalogue_def)
qed

text \<open>An exported document is a stored profile: named, valid, with the defaults filled in.\<close>

lemma exportProfile_answers:
  "fst (GetProfile i (o_store ob)) = Inr p \<Longrightarrow> \<exists>ob'. exportProfile i ob = (Inr (export_answer p), ob')"
  by (auto simp: exportProfile_def or_write_eq db_eq ret_def split: prod.splits)

lemma exportProfile_document:
  assumes "catalogue_ok (catalogue (o_store ob))" and "exportProfile i ob = (Inr r, ob')" and "re_Body r = ExportBody fname doc"
  shows "\<exists>p. r = export_answer p \<and> doc = \<lparr>pd_Kind = profileExportKind, pd_Name = p_Name p, pd_Spec = Some (p_Spec p)\<rparr>
    \<and> p_Name p \<noteq> '''' \<and> Validate (p_Spec p) = None \<and> ApplyDefaults (p_Spec p) = p_Spec p"
proof -
  obtain p where g: "fst (GetProfile i (o_store ob)) = Inr p" and r: "r = export_answer p"
    using assms(2,3)
    by (auto simp: exportProfile_def or_write_eq db_eq ret_def writeStoreError_def split: prod.splits sum.splits go_error.splits)
  then obtain row v where row: "row \<in> set (st_profiles (o_store ob))" "p_Name p = pr_Name row"
    and v: "v \<in> set (st_versions (o_store ob))" "p_Spec p = pv_Spec v"
    by (auto simp: GetProfile_def eval_simps join_profile_def bind_eq_Some_conv dest!: find_SomeD
        split: option.splits if_splits)
  have "Validate (p_Spec p) = None" "p_Name p \<noteq> ''''"
    using assms(1) row v by (auto simp: catalogue_ok_def catalogue_def list_all_iff)
  moreover have "ApplyDefaults (p_Spec p) = p_Spec p"
    using \<open>Validate (p_Spec p) = None\<close> apply_defaults_stable by blast
  ultimately show ?thesis using r assms(3) by (auto simp: export_answer_def)
qed

text \<open>
  C36. A profile moves between controllers without loss: importing an exported document into any
  controller stores the same name and specification, and exporting it there gives the very same
  answer; if the name is taken there, the import is refused with 409 and the target's profiles
  are as before.
\<close>

theorem profile_export_import:
  assumes "catalogue_ok (catalogue (o_store ob))" and "exportProfile i ob = (Inr r, ob')" and "re_Body r = ExportBody fname doc"
    and wf: "db_wf (o_store target)" and ok: "st_faults (o_store target) = []"
  shows "\<exists>q t. importProfile (Inr doc) target = (Inr q, t) \<and>
    (if pd_Name doc \<in> set (map pr_Name (st_profiles (o_store target)))
     then re_Status q = 409 \<and> catalogue (o_store t) = catalogue (o_store target)
     else \<exists>p. q = writeJSON 201 (ProfileBody p) \<and> p_Name p = pd_Name doc \<and> Some (p_Spec p) = pd_Spec doc
            \<and> fst (exportProfile (p_ID p) t) = Inr r)"
proof -
  obtain p0 where r: "r = export_answer p0"
    and doc: "doc = \<lparr>pd_Kind = profileExportKind, pd_Name = p_Name p0, pd_Spec = Some (p_Spec p0)\<rparr>"
    and s: "p_Name p0 \<noteq> ''''" "Validate (p_Spec p0) = None" "ApplyDefaults (p_Spec p0) = p_Spec p0"
    using exportProfile_document [OF assms(1-3)] by blast
  have imp: "importProfile (Inr doc) target =
      or_write (db (CreateProfile (p_Name p0) (p_Spec p0))) writeStoreError (\<lambda>p. ret (writeJSON 201 (ProfileBody p))) target"
    using s by (simp add: importProfile_def readJSON_def store_profile_def doc)
  show ?thesis
  proof (cases "p_Name p0 \<in> set (map pr_Name (st_profiles (o_store target)))")
    case True
    with CreateProfile_outcome [OF wf ok, of "p_Name p0" "p_Spec p0"] obtain t where
      c: "CreateProfile (p_Name p0) (p_Spec p0) (o_store target) = (Inl (ErrConflict (profile_name_taken (p_Name p0))), t)"
      and t: "catalogue t = catalogue (o_store target)" by auto
    have "importProfile (Inr doc) target
        = (Inr (writeError 409 (Msg (profile_name_taken (p_Name p0)))), target\<lparr>o_store := t\<rparr>)"
      by (simp add: imp or_write_eq db_eq c writeStoreError_def)
    then show ?thesis using t True doc by simp
  next
    case False
    with CreateProfile_outcome [OF wf ok, of "p_Name p0" "p_Spec p0"] obtain p t where
      c: "CreateProfile (p_Name p0) (p_Spec p0) (o_store target) = (Inr p, t)" and p: "p_Name p = p_Name p0" "p_Spec p = p_Spec p0"
      and g: "fst (GetProfile (p_ID p) t) = Inr p" by auto
    let ?t = "target\<lparr>o_store := t\<rparr>"
    have "importProfile (Inr doc) target = (Inr (writeJSON 201 (ProfileBody p)), ?t)"
      by (simp add: imp or_write_eq db_eq c ret_def)
    moreover have "export_answer p = r" using p by (simp add: export_answer_def r)
    then have "fst (exportProfile (p_ID p) ?t) = Inr r"
      using exportProfile_answers [of "p_ID p" ?t p] g by auto
    ultimately show ?thesis using False p doc by auto
  qed
qed

definition idle_orch :: "fake orch" where
  "idle_orch = \<lparr>o_store = demo_store, o_hv = New, o_active = Map.empty, o_jobs = []\<rparr>"

lemma idle_orch_ok: "db_wf (o_store idle_orch)" "st_faults (o_store idle_orch) = []" "st_profiles (o_store idle_orch) = []"
  using demo_store_wf by (simp_all add: idle_orch_def new_store_def)

theorem profile_export_import_witness:
  "\<exists>i ob r ob' fname doc q t. exportProfile i (ob :: fake orch) = (Inr r, ob') \<and> re_Body r = ExportBody fname doc
     \<and> importProfile (Inr doc) idle_orch = (Inr q, t) \<and> re_Status q = 201 \<and> pd_Name doc = ''gold''"
proof -
  obtain p t where c: "CreateProfile ''gold'' sample_spec demo_store = (Inr p, t)"
    and p: "p_Name p = ''gold''" "p_Spec p = sample_spec" and g: "fst (GetProfile (p_ID p) t) = Inr p"
    using CreateProfile_outcome [OF demo_store_wf demo_store_faults, of "''gold''" sample_spec]
    by (auto simp: new_store_def)
  let ?ob = "idle_orch\<lparr>o_store := t\<rparr>"
  let ?doc = "\<lparr>pd_Kind = profileExportKind, pd_Name = ''gold'', pd_Spec = Some sample_spec\<rparr>"
  have "catalogue_ok (catalogue demo_store)" by (simp add: catalogue_ok_def catalogue_def new_store_def)
  then have "catalogue_ok (catalogue t)"
    using keepsD [OF catalogue_CreateProfile [OF _ sample_spec_valid, of "''gold''"], of demo_store] by (simp add: c)
  then have ok: "catalogue_ok (catalogue (o_store ?ob))" by simp
  obtain ob' where e: "exportProfile (p_ID p) ?ob = (Inr (export_answer p), ob')"
    using exportProfile_answers [of "p_ID p" ?ob p] g by auto
  have b: "re_Body (export_answer p) = ExportBody (contentDisposition ''gold'') ?doc"
    by (simp add: export_answer_def p)
  from profile_export_import [OF ok e b idle_orch_ok(1,2)] idle_orch_ok(3)
  obtain q u where "importProfile (Inr ?doc) idle_orch = (Inr q, u)" "re_Status q = 201" by auto
  with e b show ?thesis by (metis profile_document.select_convs(2))
qed

section \<open>The secret of a connection\<close>

text \<open>What decrypting the stored secret of a connection gives.\<close>

definition stored_secret :: "aead \<Rightarrow> store \<Rightarrow> string \<Rightarrow> (go_error + string) option" where
  "stored_secret box s i = map_option (\<lambda>r. Decrypt box (c_SecretEnc r)) (find (\<lambda>r. c_ID r = i) (st_conns s))"

lemma OpenDriver_secret:
  assumes "st_faults (o_store ob) = []" "e_decrypt env = Decrypt box" "stored_secret box (o_store ob) i = Some (Inr secret)"
  shows "\<exists>c. fst (GetConnection i (o_store ob)) = Inr c \<and> OpenDriver env i ob = hv (registry_Open (e_registry env) c secret) ob"
  using assms
  by (auto simp: stored_secret_def OpenDriver_def GetConnection_def GetConnectionSecret_def db_eq eval_simps)

lemma CreateConnection_secret:
  assumes wf: "db_wf s" and ok: "st_faults s = []" and run: "CreateConnection c blob s = (Inr c', t)"
  shows "stored_secret box t (c_ID c') = Some (Decrypt box blob) \<and> st_faults t = [] \<and> fst (GetConnection (c_ID c') t) = Inr c'"
proof -
  let ?i = "st_rand s (st_drawn s)"
  have "?i \<notin> conn_ids s" using fresh_ids [OF wf] by (simp add: all_ids_def)
  then have "find (\<lambda>r. c_ID r = ?i) (st_conns s) = None" unfolding conn_ids_def by (rule find_key_None)
  then show ?thesis
    using run ok by (auto simp: CreateConnection_def stored_secret_def GetConnection_def eval_simps Let_def find_append
        connection.defs split: if_splits)
qed

lemma UpdateConnection_secret:
  assumes ok: "st_faults s = []" and run: "UpdateConnection c blob s = (Inr u, t)"
  shows "stored_secret box t (c_ID c) = (case blob of
      None \<Rightarrow> stored_secret box s (c_ID c)
    | Some b \<Rightarrow> Some (Decrypt box b)) \<and> st_faults t = []"
proof -
  let ?f = "\<lambda>r. (case blob of Some b \<Rightarrow> r\<lparr>c_SecretEnc := b\<rparr> | None \<Rightarrow> r)
      \<lparr>c_Name := c_Name c, c_Plugin := c_Plugin c, c_Endpoint := c_Endpoint c,
       c_Username := c_Username c, c_InsecureTLS := c_InsecureTLS c, c_UpdatedAt := st_now s\<rparr>"
  have t: "t = st_conns_update (update_where (\<lambda>r. c_ID r = c_ID c) ?f) s"
    and n: "0 < count_where (\<lambda>r. c_ID r = c_ID c) (st_conns s)"
    using run ok by (auto simp: UpdateConnection_def dest!: must_affect_InrD on_unique_InrD sql_update_key_InrD)
  obtain r where r: "find (\<lambda>r. c_ID r = c_ID c) (st_conns s) = Some r"
    using n by (cases "find (\<lambda>r. c_ID r = c_ID c) (st_conns s)") (auto simp: row_simps find_None_iff)
  have "find (\<lambda>r. c_ID r = c_ID c) (st_conns t) = Some (?f r)"
    unfolding t by (simp, subst find_update_where_key) (auto simp: r split: option.split)
  then show ?thesis using r ok by (auto simp: stored_secret_def t split: option.split)
qed

lemma createConnection_cases:
  assumes "createConnection box rnd (Inr req) ob = (Inr r, ob') \<and> re_Status r = 201"
  shows "\<exists>blob c t. Encrypt box rnd (cr_Secret req) = Inr blob \<and> r = writeJSON 201 (ConnectionBody c) \<and> ob' = ob\<lparr>o_store := t\<rparr>
     \<and> CreateConnection (requested_connection [] req) blob (o_store ob) = (Inr c, t)"
  using assms
  by (auto simp: createConnection_def readJSON_def or_write_eq db_eq ret_def lift_result_def fail_def Let_def
      split: if_splits prod.splits sum.splits)

lemma updateConnection_cases:
  assumes "updateConnection box rnd i (Inr req) ob = (Inr r, ob') \<and> re_Status r = 200 \<and> P"
  shows "\<exists>blob c t u. (if cr_Secret req = [] then blob = None else \<exists>b. Encrypt box rnd (cr_Secret req) = Inr b \<and> blob = Some b)
     \<and> r = writeJSON 200 (ConnectionBody c) \<and> ob' = ob\<lparr>o_store := t\<rparr>
     \<and> UpdateConnection (requested_connection i req) blob (o_store ob) = (Inr (), u) \<and> GetConnection i u = (Inr c, t)"
  using assms
  by (auto simp: updateConnection_def readJSON_def or_write_eq db_eq ret_def lift_result_def fail_def seq_eq Let_def
      split: if_splits prod.splits sum.splits)

text \<open>
  C35. A connection's secret, stored encrypted only, reaches the hypervisor driver as it was
  sent: after a create, opening a driver for the new connection logs in with that secret;
  after an update, with the new one, or with the previous one when the update sent none.
\<close>

theorem secret_reaches_driver:
  assumes cipher: "aead_documented box" "rand_fills rnd" and env: "e_decrypt env = Decrypt box"
    and wf: "db_wf (o_store ob)" and ok: "st_faults (o_store ob) = []"
  shows "(\<forall>r ob'. createConnection box rnd (Inr req) ob = (Inr r, ob') \<and> re_Status r = 201 \<longrightarrow>
      (\<exists>c. r = writeJSON 201 (ConnectionBody c) \<and> OpenDriver env (c_ID c) ob' = hv (registry_Open (e_registry env) c (cr_Secret req)) ob'))
    \<and> (\<forall>r ob' old. updateConnection box rnd i (Inr req) ob = (Inr r, ob') \<and> re_Status r = 200
        \<and> stored_secret box (o_store ob) i = Some (Inr old) \<longrightarrow>
      (\<exists>c. r = writeJSON 200 (ConnectionBody c) \<and> OpenDriver env i ob'
         = hv (registry_Open (e_registry env) c (if cr_Secret req = '''' then old else cr_Secret req)) ob'))"
proof (intro conjI allI impI)
  fix r ob' assume a: "createConnection box rnd (Inr req) ob = (Inr r, ob') \<and> re_Status r = 201"
  then obtain blob c t where e: "Encrypt box rnd (cr_Secret req) = Inr blob" and r: "r = writeJSON 201 (ConnectionBody c)"
    and ob': "ob' = ob\<lparr>o_store := t\<rparr>" and c: "CreateConnection (requested_connection '''' req) blob (o_store ob) = (Inr c, t)"
    using createConnection_cases by blast
  have "Decrypt box blob = Inr (cr_Secret req)" using Decrypt_Encrypt [OF cipher e] .
  with CreateConnection_secret [OF wf ok c, of box]
  have s: "stored_secret box t (c_ID c) = Some (Inr (cr_Secret req))" "st_faults t = []" "fst (GetConnection (c_ID c) t) = Inr c"
    by simp_all
  then show "\<exists>c. r = writeJSON 201 (ConnectionBody c)
      \<and> OpenDriver env (c_ID c) ob' = hv (registry_Open (e_registry env) c (cr_Secret req)) ob'"
    using OpenDriver_secret [of ob' env box "c_ID c"] env r ob' by auto
next
  fix r ob' old assume a: "updateConnection box rnd i (Inr req) ob = (Inr r, ob') \<and> re_Status r = 200
        \<and> stored_secret box (o_store ob) i = Some (Inr old)"
  then obtain blob c t u where e: "if cr_Secret req = '''' then blob = None else \<exists>b. Encrypt box rnd (cr_Secret req) = Inr b \<and> blob = Some b"
    and r: "r = writeJSON 200 (ConnectionBody c)" and ob': "ob' = ob\<lparr>o_store := t\<rparr>"
    and up: "UpdateConnection (requested_connection i req) blob (o_store ob) = (Inr (), u)" and g: "GetConnection i u = (Inr c, t)"
    using updateConnection_cases by blast
  have s: "stored_secret box u i = Some (Inr (if cr_Secret req = '''' then old else cr_Secret req))" "st_faults u = []"
    using UpdateConnection_secret [OF ok up, of box] a e Decrypt_Encrypt [OF cipher]
    by (auto simp: requested_connection_def split: if_splits)
  moreover have "t = u" using g s(2) by (auto simp: GetConnection_def eval_simps split: option.splits)
  ultimately show "\<exists>c. r = writeJSON 200 (ConnectionBody c) \<and> OpenDriver env i ob'
         = hv (registry_Open (e_registry env) c (if cr_Secret req = '''' then old else cr_Secret req)) ob'"
    using OpenDriver_secret [of ob' env box i] env r ob' g by auto
qed


definition demo_request :: connection_request where
  "demo_request = \<lparr>cr_Name = ''lab'', cr_Plugin = ''vsphere'', cr_Endpoint = ''vc'', cr_Username = ''u'',
     cr_Secret = ''pw'', cr_InsecureTLS = False\<rparr>"

theorem secret_reaches_driver_witness:
  "\<exists>box env r ob' c. createConnection box fixed_rand (Inr demo_request) idle_orch = (Inr r, ob')
     \<and> r = writeJSON 201 (ConnectionBody c) \<and> OpenDriver env (c_ID c) ob' = hv (registry_Open (e_registry env) c ''pw'') ob'"
proof -
  obtain box where b: "demo_gcm (replicate 32 CHR ''k'') = Inr box" by (simp add: demo_gcm_def)
  obtain blob where e: "Encrypt box fixed_rand ''pw'' = Inr blob" by (simp add: Encrypt_def fixed_rand_def)
  let ?env = "\<lparr>e_decrypt = Decrypt box, e_registry = Map.empty\<rparr> :: fake env"
  obtain c t where c: "CreateConnection (requested_connection [] demo_request) blob demo_store = (Inr c, t)"
    using create_connection_roundtrip [OF demo_store_wf demo_store_faults, of "requested_connection [] demo_request" blob]
    by (auto simp: new_store_def split: prod.splits sum.splits)
  have r: "createConnection box fixed_rand (Inr demo_request) idle_orch
      = (Inr (writeJSON 201 (ConnectionBody c)), idle_orch\<lparr>o_store := t\<rparr>)"
    using e c
    by (simp add: createConnection_def readJSON_def connection_validate_def KnownPlugins_def or_write_eq db_eq ret_def
        lift_result_def Let_def demo_request_def idle_orch_def)
  have s: "cr_Secret demo_request = ''pw''" by (simp add: demo_request_def)
  have d: "e_decrypt ?env = Decrypt box" by simp
  have "\<exists>c'. writeJSON 201 (ConnectionBody c) = writeJSON 201 (ConnectionBody c')
      \<and> OpenDriver ?env (c_ID c') (idle_orch\<lparr>o_store := t\<rparr>)
        = hv (registry_Open (e_registry ?env) c' (cr_Secret demo_request)) (idle_orch\<lparr>o_store := t\<rparr>)"
    using secret_reaches_driver [OF demo_gcm_documented [OF b] fixed_rand_fills d idle_orch_ok(1,2),
        of demo_request "[]"] r by simp
  then show ?thesis using r unfolding s by blast
qed

section \<open>Schedules that are accepted\<close>

text \<open>What the request's validation lets through: a valid schedule which, when enabled, next
  fires after the moment of the request; only a one-shot in the past is refused beside the
  invalid ones.\<close>

lemma schedule_request_accepted:
  assumes "schedule_request_validate zones t req sc0 = (sc, None)"
  shows "schedule_Validate zones sc = None
    \<and> (if sc_Enabled sc then \<exists>n. NextAfter zones sc t = Some n \<and> t < n \<and> sc_NextRunAt sc = Some (secs n)
       else sc_NextRunAt sc = None)"
proof -
  have blind: "schedule_Validate zones (s\<lparr>sc_NextRunAt := x\<rparr>) = schedule_Validate zones s" for s x
    by (auto simp: schedule_Validate_def split: schedule_kind.split option.split sum.split)
  have blind_next: "NextAfter zones (s\<lparr>sc_NextRunAt := x\<rparr>) u = NextAfter zones s u" for s x u
    by (simp add: NextAfter_def schedule_zone_def Let_def del: upto_rec_numeral split: schedule_kind.split sum.split)
  show ?thesis
    using assms
    by (auto simp: schedule_request_validate_def Let_def blind blind_next dest: next_after_future split: option.splits if_splits)
qed


end
