(* ===== verification/ApiFleet.thy ===== *)
theory ApiFleet
  imports ApiConfig Filling
begin

text \<open>
  \<open>internal/api/deployments.go\<close>, \<open>operations.go\<close> and \<open>powerDeployment\<close> of \<open>boot.go\<close>: the
  handlers over deployments, their jobs and their VMs' consoles. Shown here: the effective
  specification of a deployment only ever grows, and the split of a serial log into boots
  loses nothing and gives one session per boot.
\<close>

section \<open>Deployments\<close>

record deployment_request =
  dq_Name :: string
  dq_ProfileID :: string
  dq_ProfileVersion :: int
  dq_ConnectionID :: string
  dq_Spec :: "profile_spec option"
  dq_Placement :: "placement option"

definition requested_deployment :: "deployment_request \<Rightarrow> int \<Rightarrow> profile_spec \<Rightarrow> deployment" where
  "requested_deployment req version spec = \<lparr>d_ID = '''', d_Name = dq_Name req, d_ProfileID = dq_ProfileID req,
     d_ProfileVersion = version, d_ConnectionID = dq_ConnectionID req, d_Spec = spec,
     d_Placement = (case dq_Placement req of None \<Rightarrow> Map.empty | Some p \<Rightarrow> p), d_Status = DeploymentUnset,
     d_CreatedAt = 0, d_UpdatedAt = 0, d_Origin = OriginCreated\<rparr>"

definition createDeployment :: "string + deployment_request \<Rightarrow> ('h orch, response) prog" where
  "createDeployment body = readJSON body (\<lambda>req.
     if dq_Name req = '''' \<or> dq_ProfileID req = '''' \<or> dq_ConnectionID req = ''''
     then ret (writeError 400 (Msg ''name, profileId and connectionId are required''))
     else or_write (db (GetConnection (dq_ConnectionID req))) (\<lambda>_. writeError 400 (Msg ''connectionId: no such connection'')) (\<lambda>_.
     or_write (db (GetProfile (dq_ProfileID req))) (\<lambda>_. writeError 400 (Msg ''profileId: no such profile'')) (\<lambda>profile.
     let version = (if dq_ProfileVersion req = 0 then p_CurrentVersion profile else dq_ProfileVersion req) in
     or_write (case dq_Spec req of
         Some spec \<Rightarrow> ret spec
       | None \<Rightarrow> seq (db (GetProfileVersion (dq_ProfileID req) version)) (\<lambda>v. ret (pv_Spec v))) writeStoreError (\<lambda>spec0.
     let spec = ApplyDefaults spec0 in
     case Validate spec of
       Some e \<Rightarrow> ret (writeError 400 (SpecMsg e))
     | None \<Rightarrow> or_write (db (CreateDeployment (requested_deployment req version spec))) writeStoreError (\<lambda>d.
         ret (writeJSON 201 (DeploymentBody d False False)))))))"

text \<open>The dimensions that map to hypervisor objects or written data.\<close>

definition shrink_dims :: "profile_spec \<Rightarrow> profile_spec \<Rightarrow> (string \<times> int \<times> int) list" where
  "shrink_dims old new =
     [(''vmCount'', VMCount old, VMCount new), (''disksPerVM'', DisksPerVM old, DisksPerVM new),
      (''diskSizeGiB'', DiskSizeGiB old, DiskSizeGiB new), (''dataPerDiskGiB'', DataPerDiskGiB old, DataPerDiskGiB new)]"

definition shrinkCheck :: "profile_spec \<Rightarrow> profile_spec \<Rightarrow> string" where
  "shrinkCheck old new = (case find (\<lambda>(_, a, b). b < a) (shrink_dims old new) of
      None \<Rightarrow> ''''
    | Some (name, a, b) \<Rightarrow> ''deployments cannot shrink: '' @ name @ '' '' @ itoa a @ '' -> '' @ itoa b
        @ '' (delete the deployment instead)'')"

definition updateDeploymentSpec :: "string \<Rightarrow> string + profile_spec \<Rightarrow> ('h orch, response) prog" where
  "updateDeploymentSpec i body = readJSON body (\<lambda>spec0.
     or_write (db (GetDeployment i)) writeStoreError (\<lambda>d.
     let spec = ApplyDefaults spec0 in
     case Validate spec of
       Some e \<Rightarrow> ret (writeError 400 (SpecMsg e))
     | None \<Rightarrow> let msg = shrinkCheck (d_Spec d) spec in
         if msg \<noteq> '''' then ret (writeError 409 (Msg msg))
         else or_write (db (UpdateDeploymentSpec (d_ID d) spec)) writeStoreError (\<lambda>_.
              or_write (db (GetDeployment (d_ID d))) writeStoreError (\<lambda>updated.
              ret (writeJSON 200 (DeploymentBody updated False False))))))"

definition getDeployment :: "string \<Rightarrow> ('h orch, response) prog" where
  "getDeployment i = or_write (db (GetDeployment i)) writeStoreError (\<lambda>d.
     attempt (db (DeploymentFilled (d_ID d))) (\<lambda>f.
     seq (look (\<lambda>ob. IsActive ob (d_ID d))) (\<lambda>running.
     ret (writeJSON 200 (DeploymentBody d (case f of Inr b \<Rightarrow> b | Inl _ \<Rightarrow> False) running)))))"

definition listDeployments :: "('h orch, response) prog" where
  "listDeployments = or_write (db ListDeployments) writeStoreError (\<lambda>ds.
     attempt (db FilledDeploymentIDs) (\<lambda>f.
     seq (look (\<lambda>ob. map (\<lambda>d. (d, d_ID d \<in> set (case f of Inr ids \<Rightarrow> ids | Inl _ \<Rightarrow> []), IsActive ob (d_ID d))) ds)) (\<lambda>views.
     ret (writeJSON 200 (DeploymentsBody views)))))"

definition listRuns :: "string \<Rightarrow> ('h orch, response) prog" where
  "listRuns i =
     or_write (db (GetDeployment i)) writeStoreError (\<lambda>_.
     or_write (db (ListRuns i)) writeStoreError (\<lambda>rs. ret (writeJSON 200 (RunsBody rs))))"

section \<open>Operations\<close>

definition validateConnection :: "'h env \<Rightarrow> string \<Rightarrow> ('h orch, response) prog" where
  "validateConnection env i =
     or_write (OpenDriver env i) writeConnectError (\<lambda>drv.
     or_write (hv (Info drv)) writeConnectError (\<lambda>info. ret (writeJSON 200 (InfoBody info))))"

definition listPlacementOptions :: "'h env \<Rightarrow> string \<Rightarrow> ('h orch, response) prog" where
  "listPlacementOptions env i =
     or_write (OpenDriver env i) writeConnectError (\<lambda>drv.
     or_write (hv (ListPlacement drv)) writeConnectError (\<lambda>opts. ret (writeJSON 200 (PlacementBody opts))))"

definition on_conflict_of :: "string \<Rightarrow> on_conflict" where
  "on_conflict_of s = (if s = ''abort'' then OnConflictAbort else if s = ''adopt'' then OnConflictAdopt
     else if s = ''clean'' then OnConflictClean else OnConflictOther s)"

text \<open>The body is optional: \<open>None\<close> stands for a content length of 0.\<close>

definition deployDeployment :: "string \<Rightarrow> (string + string) option \<Rightarrow> ('h orch, response) prog" where
  "deployDeployment i body =
     readJSON (case body of None \<Rightarrow> Inr '''' | Some b \<Rightarrow> b) (\<lambda>choice.
     let onConflict = (if choice = '''' then OnConflictAbort else on_conflict_of choice) in
     if onConflict \<notin> set [OnConflictAbort, OnConflictAdopt, OnConflictClean]
     then ret (writeError 400 (Msg ''onConflict must be abort, adopt or clean''))
     else or_write (db (GetDeployment i)) writeStoreError (\<lambda>d.
       if deployment_gone d then ret (writeError 409 (Msg ''deployment is deleted''))
       else or_write (StartDeploy d onConflict) writeJobError (\<lambda>r. ret (writeJSON 202 (RunBody r)))))"

definition listConflicts :: "'h env \<Rightarrow> string \<Rightarrow> ('h orch, response) prog" where
  "listConflicts env i =
     or_write (db (GetDeployment i)) writeStoreError (\<lambda>d.
     or_write (DetectConflicts env d) writeConnectError (\<lambda>cs. ret (writeJSON 200 (ConflictsBody cs))))"

definition teardownDeployment :: "string \<Rightarrow> ('h orch, response) prog" where
  "teardownDeployment i =
     or_write (db (GetDeployment i)) writeStoreError (\<lambda>d.
     if d_Status d = DeploymentDeleted then ret (writeError 409 (Msg ''deployment is already deleted''))
     else or_write (db (ListManagedVMs (d_ID d))) writeStoreError (\<lambda>vms.
       if length vms = 0
       then or_write (db (MarkDeploymentDeleted (d_ID d))) writeStoreError (\<lambda>_. ret noContent)
       else or_write (StartTeardown d) writeJobError (\<lambda>r. ret (writeJSON 202 (RunBody r)))))"

definition fillDeployment :: "string \<Rightarrow> string + run_type \<Rightarrow> ('h orch, response) prog" where
  "fillDeployment i body = readJSON body (\<lambda>rt.
     if rt \<noteq> RunInitialFill \<and> rt \<noteq> RunIncremental \<and> rt \<noteq> RunVerify
     then ret (writeError 400 (Msg ''type must be initial-fill, incremental or verify''))
     else or_write (db (GetDeployment i)) writeStoreError (\<lambda>d.
       if d_Status d \<noteq> DeploymentReady then ret (writeError 409 (Msg ''deployment must be ready (deploy it first)''))
       else or_write (StartFill d rt) writeJobError (\<lambda>r. ret (writeJSON 202 (RunBody r)))))"

definition powerDeployment :: "string \<Rightarrow> string + bool \<Rightarrow> ('h orch, response) prog" where
  "powerDeployment i body = readJSON body (\<lambda>on.
     or_write (db (GetDeployment i)) writeStoreError (\<lambda>d.
       if deployment_gone d then ret (writeError 409 (Msg ''deployment is deleted''))
       else or_write (StartPower d on) writeJobError (\<lambda>r. ret (writeJSON 202 (RunBody r)))))"

definition cancelDeployment :: "string \<Rightarrow> ('h orch, response) prog" where
  "cancelDeployment i =
     or_write (db (GetDeployment i)) writeStoreError (\<lambda>_.
     or_write (Cancel i) writeJobError (\<lambda>_. ret (writeJSON 202 NoBody)))"

definition listDeploymentVMs :: "string \<Rightarrow> ('h orch, response) prog" where
  "listDeploymentVMs i =
     or_write (db (GetDeployment i)) writeStoreError (\<lambda>_.
     or_write (db (ListManagedVMs i)) writeStoreError (\<lambda>vms. ret (writeJSON 200 (VMsBody vms))))"

definition listRunSamples :: "string \<Rightarrow> ('h orch, response) prog" where
  "listRunSamples runID = or_write (db (ListRunSamples runID)) writeStoreError (\<lambda>xs. ret (writeJSON 200 (SamplesBody xs)))"

section \<open>Consoles\<close>

definition newline :: char where "newline = CHR 0x0A"
definition bootBanner :: string where "bootBanner = ''Linux version''"
definition rtc_prefix :: string where "rtc_prefix = ''setting system clock to ''"

text \<open>\<open>setting system clock to (\S+) UTC\<close>: the group of the leftmost match. The run of
  non-space characters is maximal, because a space must follow it.\<close>

definition is_ws :: "char \<Rightarrow> bool" where
  "is_ws c \<longleftrightarrow> c \<in> set [CHR 0x09, CHR 0x0A, CHR 0x0C, CHR 0x0D, CHR '' '']"

fun rtc_match :: "string \<Rightarrow> string option" where
  "rtc_match [] = None"
| "rtc_match (c # cs) =
     (let rest = drop (length rtc_prefix) (c # cs); w = takeWhile (\<lambda>c. \<not> is_ws c) rest in
      if has_prefix (c # cs) rtc_prefix \<and> w \<noteq> [] \<and> has_prefix (drop (length w) rest) '' UTC'' then Some w
      else rtc_match cs)"

definition session_of :: "string \<Rightarrow> console_session" where
  "session_of text = \<lparr>cs_Text = text, cs_StartedAt = (case rtc_match text of None \<Rightarrow> '''' | Some ts \<Rightarrow> ts),
     cs_Partial = (\<not> contains text bootBanner)\<rparr>"

definition flush :: "string \<Rightarrow> console_session list \<Rightarrow> console_session list" where
  "flush cur sessions = (if cur = [] then sessions else sessions @ [session_of cur])"

fun console_loop :: "string list \<Rightarrow> string \<Rightarrow> console_session list \<Rightarrow> console_session list" where
  "console_loop [] cur sessions = flush cur sessions"
| "console_loop (line # ls) cur sessions =
     (if contains line bootBanner then console_loop ls (line @ [newline]) (flush cur sessions)
      else console_loop ls (cur @ line @ [newline]) sessions)"

definition splitConsoleSessions :: "string \<Rightarrow> console_session list" where
  "splitConsoleSessions text =
     (if trim_space text = '''' then [] else console_loop (split_on newline text) [] [])"

definition selected_session :: "nat \<Rightarrow> string \<Rightarrow> nat" where
  "selected_session n q = (case Atoi q of
      Some k \<Rightarrow> if 1 \<le> k \<and> k \<le> int n then nat k else n
    | None \<Rightarrow> n)"

definition getVMConsole :: "'h env \<Rightarrow> string \<Rightarrow> string \<Rightarrow> ('h orch, response) prog" where
  "getVMConsole env vmID q =
     or_write (db (GetManagedVM vmID)) writeStoreError (\<lambda>vm.
     or_write (db (GetDeployment (v_DeploymentID vm))) writeStoreError (\<lambda>d.
     or_write (OpenDriver env (d_ConnectionID d)) writeConnectError (\<lambda>drv.
     or_write (hv (ReadConsole drv (v_Ref vm))) (\<lambda>e. writeError 502 (Msg (''reading console: '' @ error_text e))) (\<lambda>text.
     let sessions = splitConsoleSessions text; sel = selected_session (length sessions) q in
     ret (writeJSON 200 (ConsoleBody (length sessions) sel
       (map2 (\<lambda>k s. (k, cs_StartedAt s, cs_Partial s)) [1..<Suc (length sessions)] sessions)
       (if 1 \<le> sel \<and> sel \<le> length sessions then cs_Text (sessions ! (sel - 1)) else '''')))))))"

subsection \<open>The split loses nothing\<close>

definition unlines :: "string list \<Rightarrow> string" where
  "unlines ls = concat (map (\<lambda>l. l @ [newline]) ls)"

lemma unlines_split: "unlines (split_on newline s) = s @ [newline]"
  unfolding unlines_def
proof (induction s)
  case (Cons c cs)
  then show ?case by (cases "split_on newline cs") (auto simp: newline_def)
qed simp

lemma banner_facts: "bootBanner \<noteq> []" "newline \<notin> set bootBanner"
  by (simp_all add: bootBanner_def newline_def)

lemma contains_append: "contains a sub \<Longrightarrow> contains (a @ b) sub"
proof (induction a)
  case Nil
  then show ?case by (cases b) (auto simp: has_prefix_def)
next
  case (Cons c a)
  show ?case
  proof (cases "has_prefix (c # a) sub")
    case True
    then have "length sub \<le> length (c # a)" unfolding has_prefix_def by (metis length_take min.cobounded2 min.commute)
    then have "take (length sub) (c # a @ b) = take (length sub) (c # a)" by (metis append_Cons append_Nil2 diff_is_0_eq take_append take_eq_Nil)
    with True show ?thesis by (simp add: has_prefix_def)
  qed (use Cons in simp)
qed

text \<open>A text without newlines is found within one line.\<close>

lemma has_prefix_break: "newline \<notin> set sub \<Longrightarrow> has_prefix (a @ newline # b) sub = has_prefix a sub"
proof (induction a arbitrary: sub)
  case Nil
  then show ?case by (cases sub) (auto simp: has_prefix_def)
next
  case (Cons c a)
  show ?case
  proof (cases sub)
    case (Cons x xs)
    then have "newline \<notin> set xs" using Cons.prems by simp
    from Cons.IH [OF this] show ?thesis by (simp add: has_prefix_def Cons del: take_append)
  qed (simp add: has_prefix_def)
qed

lemma contains_break:
  "newline \<notin> set sub \<Longrightarrow> sub \<noteq> [] \<Longrightarrow> contains (a @ newline # b) sub \<longleftrightarrow> contains a sub \<or> contains b sub"
proof (induction a)
  case Nil
  then show ?case using has_prefix_break [of sub "[]" b] by (auto simp: has_prefix_def)
next
  case (Cons c a)
  then show ?case using has_prefix_break [of sub "c # a" b] by auto
qed

text \<open>What is in the builder is made of whole lines.\<close>

definition whole_lines :: "string \<Rightarrow> bool" where
  "whole_lines cur \<longleftrightarrow> cur = [] \<or> last cur = newline"

lemma contains_line: "contains (line @ [newline]) bootBanner = contains line bootBanner"
  using contains_break [of bootBanner line "[]"] banner_facts by simp

lemma contains_next_line:
  assumes "whole_lines cur"
  shows "contains (cur @ line @ [newline]) bootBanner \<longleftrightarrow> contains cur bootBanner \<or> contains line bootBanner"
proof (cases "cur = []")
  case True
  then show ?thesis using banner_facts contains_line by simp
next
  case False
  then obtain x where x: "cur = x @ [newline]" using assms unfolding whole_lines_def by (metis append_butlast_last_id)
  then show ?thesis using contains_break [of bootBanner x "line @ [newline]"] contains_line banner_facts
    by simp
qed

definition first_line :: "string \<Rightarrow> string" where
  "first_line text = takeWhile (\<lambda>c. c \<noteq> newline) text"

lemma first_line_append: "whole_lines cur \<Longrightarrow> cur \<noteq> [] \<Longrightarrow> first_line (cur @ s) = first_line cur"
  unfolding whole_lines_def first_line_def
  by (metis (mono_tags, lifting) last_in_set takeWhile_append1)

definition boot_session :: "console_session \<Rightarrow> bool" where
  "boot_session s \<longleftrightarrow> \<not> cs_Partial s"

definition starts_boot :: "string \<Rightarrow> bool" where
  "starts_boot cur \<longleftrightarrow> (contains cur bootBanner \<longrightarrow> contains (first_line cur) bootBanner)"

lemma boot_session_of [simp]: "boot_session (session_of cur) = contains cur bootBanner" "cs_Text (session_of cur) = cur"
  by (simp_all add: boot_session_def session_of_def)

lemma concat_flush: "concat (map cs_Text (flush cur acc)) = concat (map cs_Text acc) @ cur"
  by (simp add: flush_def)

lemma console_loop_text:
  "concat (map cs_Text (console_loop ls cur acc)) = concat (map cs_Text acc) @ cur @ unlines ls"
  by (induction ls cur acc rule: console_loop.induct) (auto simp: concat_flush unlines_def)

lemma count_flush:
  "length (filter boot_session (flush cur acc)) = length (filter boot_session acc) + of_bool (contains cur bootBanner)"
  using banner_facts by (auto simp: flush_def)

lemma whole_next: "whole_lines (cur @ line @ [newline])" "whole_lines (line @ [newline])" "whole_lines []"
  by (simp_all add: whole_lines_def)

lemma console_loop_count:
  "whole_lines cur \<Longrightarrow> length (filter boot_session (console_loop ls cur acc))
    = length (filter boot_session acc) + of_bool (contains cur bootBanner) + length (filter (\<lambda>l. contains l bootBanner) ls)"
proof (induction ls cur acc rule: console_loop.induct)
  case (1 cur acc)
  then show ?case by (simp add: count_flush)
next
  case (2 line ls cur acc)
  then show ?case using contains_next_line [OF 2(3), of line] contains_line [of line]
    by (simp add: count_flush whole_next)
qed

text \<open>Only the first session can lack its banner; the others begin with it.\<close>

lemma starts_boot_line: "newline \<notin> set line \<Longrightarrow> starts_boot (line @ [newline])"
  by (simp add: starts_boot_def first_line_def takeWhile_append contains_line)

lemma starts_boot_next:
  assumes "whole_lines cur" "starts_boot cur" "\<not> contains line bootBanner"
  shows "starts_boot (cur @ line @ [newline])"
proof (cases "cur = []")
  case True
  then show ?thesis using assms(3) by (simp add: starts_boot_def contains_line)
next
  case False
  then show ?thesis using assms contains_next_line [OF assms(1)] first_line_append [OF assms(1) False]
    by (simp add: starts_boot_def)
qed

lemma console_loop_shape:
  assumes "\<forall>l \<in> set ls. newline \<notin> set l" "whole_lines cur" "starts_boot cur" "\<forall>s \<in> set acc. starts_boot (cs_Text s)"
    "\<forall>s \<in> set (tl acc). boot_session s" "acc \<noteq> [] \<longrightarrow> contains cur bootBanner"
  shows "(\<forall>s \<in> set (console_loop ls cur acc). starts_boot (cs_Text s)) \<and> (\<forall>s \<in> set (tl (console_loop ls cur acc)). boot_session s)"
  using assms
proof (induction ls cur acc rule: console_loop.induct)
  case (1 cur acc)
  then show ?case by (cases acc) (auto simp: flush_def)
next
  case (2 line ls cur acc)
  show ?case
  proof (cases "contains line bootBanner")
    case True
    have "\<forall>s \<in> set (flush cur acc). starts_boot (cs_Text s)" using "2.prems" by (auto simp: flush_def)
    moreover have "\<forall>s \<in> set (tl (flush cur acc)). boot_session s" using "2.prems" by (cases acc) (auto simp: flush_def)
    ultimately show ?thesis
      using True "2.IH"(1) "2.prems"(1) starts_boot_line contains_line whole_next by simp
  next
    case False
    then show ?thesis
      using "2.IH"(2) "2.prems" starts_boot_next [OF "2.prems"(2,3) False] contains_next_line [OF "2.prems"(2), of line] whole_next
      by simp
  qed
qed

definition tells_boot :: "console_session \<Rightarrow> bool" where
  "tells_boot s \<longleftrightarrow> boot_session s = contains (cs_Text s) bootBanner"

lemma console_loop_sessions: "\<forall>s \<in> set acc. tells_boot s \<Longrightarrow> \<forall>s \<in> set (console_loop ls cur acc). tells_boot s"
proof (induction ls cur acc rule: console_loop.induct)
  case (1 cur acc)
  then show ?case by (auto simp: flush_def tells_boot_def)
next
  case (2 line ls cur acc)
  moreover have "\<forall>s \<in> set (flush cur acc). tells_boot s" using 2(3) by (auto simp: flush_def tells_boot_def)
  ultimately show ?case by simp
qed

text \<open>
  Splitting a serial log into boot sessions loses nothing: the sessions joined are the log
  (with its last line ended), there is one complete session for each line with the kernel
  banner, each of them begins with that line, and only the first session can be a partial one.
\<close>

theorem console_sessions_exact:
  assumes "trim_space text \<noteq> ''''"
  shows "concat (map cs_Text (splitConsoleSessions text)) = text @ [newline]
    \<and> length (filter boot_session (splitConsoleSessions text))
        = length (filter (\<lambda>l. contains l bootBanner) (split_on newline text))
    \<and> (\<forall>s \<in> set (splitConsoleSessions text). boot_session s \<longrightarrow> contains (first_line (cs_Text s)) bootBanner)
    \<and> (\<forall>s \<in> set (tl (splitConsoleSessions text)). boot_session s)"
proof -
  let ?ls = "split_on newline text"
  have unfolded: "splitConsoleSessions text = console_loop ?ls [] []" using assms by (simp add: splitConsoleSessions_def)
  have "starts_boot []" using banner_facts by (simp add: starts_boot_def)
  then have shape: "(\<forall>s \<in> set (console_loop ?ls [] []). starts_boot (cs_Text s)) \<and> (\<forall>s \<in> set (tl (console_loop ?ls [] [])). boot_session s)"
    using split_on_pieces [where sep = newline] by (intro console_loop_shape) (auto simp: whole_next)
  have sessions: "\<forall>s \<in> set (console_loop ?ls [] []). tells_boot s"
    by (rule console_loop_sessions) simp
  have "\<forall>s \<in> set (console_loop ?ls [] []). boot_session s \<longrightarrow> contains (first_line (cs_Text s)) bootBanner"
    using shape sessions unfolding starts_boot_def tells_boot_def by blast
  moreover have "concat (map cs_Text (console_loop ?ls [] [])) = text @ [newline]"
    by (simp add: console_loop_text unlines_split)
  moreover have "length (filter boot_session (console_loop ?ls [] [])) = length (filter (\<lambda>l. contains l bootBanner) ?ls)"
    using console_loop_count [of "[]" ?ls "[]"] banner_facts by (simp add: whole_next)
  ultimately show ?thesis using shape by (simp add: unfolded)
qed

definition demo_log :: string where
  "demo_log = unlines [''tail'', ''[0.0] Linux version 6.1'', ''rtc: setting system clock to 2026-06-15T13:30:52 UTC (1)'',
     ''[0.0] Linux version 6.2'']"

theorem console_sessions_exact_witness:
  "concat (map cs_Text (splitConsoleSessions demo_log)) = demo_log @ [newline]
   \<and> map cs_Partial (splitConsoleSessions demo_log) = [True, False, False]
   \<and> map cs_StartedAt (splitConsoleSessions demo_log) = [[], ''2026-06-15T13:30:52'', []]"
proof -
  have "trim_space demo_log \<noteq> ''''" by code_simp
  moreover have "map cs_Partial (splitConsoleSessions demo_log) = [True, False, False]" by code_simp
  moreover have "map cs_StartedAt (splitConsoleSessions demo_log) = [[], ''2026-06-15T13:30:52'', []]" by code_simp
  ultimately show ?thesis using console_sessions_exact by blast
qed

section \<open>Growing only\<close>

text \<open>The four dimensions of a specification, ordered componentwise.\<close>

datatype dims = Dims (dim_vms: int) (dim_disks: int) (dim_size: int) (dim_data: int)

definition dims_of :: "profile_spec \<Rightarrow> dims" where
  "dims_of spec = Dims (VMCount spec) (DisksPerVM spec) (DiskSizeGiB spec) (DataPerDiskGiB spec)"

instantiation dims :: order
begin

definition less_eq_dims :: "dims \<Rightarrow> dims \<Rightarrow> bool" where
  "less_eq_dims a b \<longleftrightarrow> dim_vms a \<le> dim_vms b \<and> dim_disks a \<le> dim_disks b \<and> dim_size a \<le> dim_size b \<and> dim_data a \<le> dim_data b"

definition less_dims :: "dims \<Rightarrow> dims \<Rightarrow> bool" where
  "less_dims a b \<longleftrightarrow> a \<le> b \<and> a \<noteq> b"

instance
  by standard (auto simp: less_eq_dims_def less_dims_def dims.expand)

end

lemma shrinkCheck_ok: "shrinkCheck old new = '''' \<longleftrightarrow> dims_of old \<le> dims_of new"
  by (auto simp: shrinkCheck_def shrink_dims_def dims_of_def less_eq_dims_def split: option.split)

text \<open>The end of the handler, from the write of the new specification on.\<close>

lemma spec_write_outcome:
  assumes up: "UpdateDeploymentSpec i spec s = (u, s')"
    and rest: "(Inr r, ob') = or_write (\<lambda>ob. (u, ob\<lparr>o_store := s'\<rparr>)) writeStoreError (\<lambda>_.
              or_write (db (GetDeployment i)) writeStoreError (\<lambda>updated.
              ret (writeJSON 200 (DeploymentBody updated False False)))) ob"
  shows "(st_deps (o_store ob') = st_deps s \<and> re_Status r \<noteq> 200)
    \<or> (st_deps (o_store ob') = update_where (\<lambda>d. d_ID d = i) (\<lambda>d. d\<lparr>d_Spec := spec, d_UpdatedAt := st_now s\<rparr>) (st_deps s)
        \<and> re_Status r \<in> {200, 404, 500})"
proof (cases u)
  case (Inl e)
  then have "st_deps s' = st_deps s"
    using up by (auto simp: UpdateDeploymentSpec_def eval_simps row_simps split: if_splits intro!: update_where_id)
  then show ?thesis using rest Inl by (auto simp: or_write_eq)
next
  case (Inr x)
  then have "st_deps s' = update_where (\<lambda>d. d_ID d = i) (\<lambda>d. d\<lparr>d_Spec := spec, d_UpdatedAt := st_now s\<rparr>) (st_deps s)"
    using up by (auto simp: UpdateDeploymentSpec_def dest!: must_affect_InrD sql_update_InrD)
  moreover have "st_deps (o_store ob') = st_deps s' \<and> re_Status r \<in> {200, 404, 500}"
    using rest Inr
    by (auto simp: writeStoreError_def db_failed_def or_write_eq db_eq ret_def GetDeployment_def eval_simps split: option.splits if_splits)
  ultimately show ?thesis by simp
qed

text \<open>
  C34. A deployment only grows: whatever an update of its specification answers, the table of
  deployments is as before, or exactly this deployment's specification has become the one sent
  (with its defaults), which is valid and in no dimension smaller; an answer of 200 says the
  latter happened, and any refusal by validation or by the grow-only rule the former.
\<close>

theorem spec_update_grows:
  assumes run: "updateDeploymentSpec i (Inr spec0) ob = (Inr r, ob')"
  shows "(st_deps (o_store ob') = st_deps (o_store ob) \<and> re_Status r \<noteq> 200)
    \<or> (\<exists>d \<in> set (st_deps (o_store ob)). d_ID d = i \<and> Validate (ApplyDefaults spec0) = None
        \<and> dims_of (d_Spec d) \<le> dims_of (ApplyDefaults spec0)
        \<and> st_deps (o_store ob') = update_where (\<lambda>x. d_ID x = i)
            (\<lambda>x. x\<lparr>d_Spec := ApplyDefaults spec0, d_UpdatedAt := st_now (o_store ob)\<rparr>) (st_deps (o_store ob))
        \<and> re_Status r \<in> {200, 404, 500})"
proof -
  let ?spec = "ApplyDefaults spec0"
  obtain q s1 where g: "GetDeployment i (o_store ob) = (q, s1)" by fastforce
  have s1: "st_deps s1 = st_deps (o_store ob)" "st_now s1 = st_now (o_store ob)"
    using g by (auto simp: GetDeployment_def eval_simps split: option.splits if_splits)
  show ?thesis
  proof (cases q)
    case (Inl e)
    then show ?thesis using run g s1
      by (auto simp: updateDeploymentSpec_def readJSON_def or_write_eq db_eq)
  next
    case (Inr d)
    then have d: "d \<in> set (st_deps (o_store ob))" "d_ID d = i"
      using g by (auto simp: GetDeployment_def dest!: query_row_InrD find_SomeD)
    show ?thesis
    proof (cases "Validate ?spec = None \<and> dims_of (d_Spec d) \<le> dims_of ?spec")
      case False
      then show ?thesis using run g s1 Inr shrinkCheck_ok [of "d_Spec d" ?spec]
        by (auto simp: updateDeploymentSpec_def readJSON_def or_write_eq db_eq ret_def Let_def split: option.splits)
    next
      case True
      obtain u s2 where up: "UpdateDeploymentSpec i ?spec s1 = (u, s2)" by fastforce
      have "(Inr r, ob') = or_write (\<lambda>ob. (u, ob\<lparr>o_store := s2\<rparr>)) writeStoreError (\<lambda>_.
              or_write (db (GetDeployment i)) writeStoreError (\<lambda>updated.
              ret (writeJSON 200 (DeploymentBody updated False False)))) (ob\<lparr>o_store := s1\<rparr>)"
        using run g Inr True d(2) up shrinkCheck_ok [of "d_Spec d" ?spec]
        by (simp add: updateDeploymentSpec_def readJSON_def or_write_eq db_eq Let_def)
      from spec_write_outcome [OF up this] s1 d True show ?thesis by auto
    qed
  qed
qed

definition larger_spec :: profile_spec where
  "larger_spec = sample_spec\<lparr>VMCount := 3\<rparr>"

lemma larger_spec_valid: "Validate larger_spec = None"
  using sample_spec_valid by (simp add: Validate_None larger_spec_def sample_spec_def)

theorem spec_update_grows_witness:
  "\<exists>r ob'. updateDeploymentSpec (demo_rand 1) (Inr larger_spec) vm_orch = (Inr r, ob') \<and> re_Status r = 200
     \<and> map (\<lambda>d. VMCount (d_Spec d)) (st_deps (o_store ob')) = [3]"
proof -
  have d: "ApplyDefaults larger_spec = larger_spec" using apply_defaults_stable larger_spec_valid by blast
  have larger_count: "VMCount larger_spec = 3" by (simp add: larger_spec_def)
  have g: "dims_of sample_spec \<le> dims_of larger_spec" by (simp add: dims_of_def less_eq_dims_def larger_spec_def sample_spec_def)
  have dep: "st_deps vm_store = [demo_dep\<lparr>d_ID := demo_rand 1, d_Status := DeploymentNew\<rparr>]" "d_Spec demo_dep = sample_spec"
    by (simp_all add: vm_store_eq fleet_store_eq demo_dep_def)
  obtain r ob' where run: "updateDeploymentSpec (demo_rand 1) (Inr larger_spec) vm_orch = (Inr r, ob')" and ok: "re_Status r = 200"
    using d larger_spec_valid g dep vm_store_eq(2)
    by (auto simp: updateDeploymentSpec_def readJSON_def or_write_eq db_eq ret_def Let_def shrinkCheck_ok vm_orch_def
        GetDeployment_def UpdateDeploymentSpec_def eval_simps)
  from spec_update_grows [OF run] ok dep
  have "map (\<lambda>d. VMCount (d_Spec d)) (st_deps (o_store ob')) = [3]"
    by (auto simp: d vm_orch_def larger_count)
  with run ok show ?thesis by (intro exI conjI)
qed


section \<open>Deleting without the lock\<close>

text \<open>A deployment without VM records is deleted at once, whatever job runs for it: also while
  a deploy job has not created its first VM yet.\<close>

lemma teardown_skips_lock:
  "\<exists>ob'. teardownDeployment (demo_rand 1) \<lparr>o_store = fleet_store, o_hv = (hv0 :: 'h), o_active = act, o_jobs = js\<rparr>
       = (Inr noContent, ob')
     \<and> map d_Status (st_deps (o_store ob')) = [DeploymentDeleted] \<and> o_active ob' = act \<and> o_jobs ob' = js"
proof -
  obtain r t where m: "MarkDeploymentDeleted (demo_rand 1) fleet_store = (r, t)" by fastforce
  have ok: "r = Inr ()" "map d_Status (st_deps t) = [DeploymentDeleted]"
    using m by (auto simp: MarkDeploymentDeleted_def DeleteDeploymentSchedules_def eval_simps fleet_store_eq unique_defs)
  have "GetDeployment (demo_rand 1) fleet_store = (Inr (demo_dep\<lparr>d_ID := demo_rand 1, d_Status := DeploymentNew\<rparr>), fleet_store)"
    "ListManagedVMs (demo_rand 1) fleet_store = (Inr [], fleet_store)"
    by (simp_all add: GetDeployment_def ListManagedVMs_def vms_of_def eval_simps fleet_store_eq)
  then show ?thesis using m ok
    by (simp add: teardownDeployment_def or_write_eq db_eq ret_def)
qed

end
