(* ===== verification/ApiAgent.thy ===== *)
theory ApiAgent
  imports ApiFleet
begin

text \<open>
  \<open>internal/api/boot.go\<close> and \<open>discovery.go\<close>: the endpoints that firmware and agents reach
  without a session, authorized by a VM's boot token, and the operator's view of discovered
  machines. Shown here: a boot token gives access to one VM's row only, and a discovery token
  to nothing but its own discovery record.
\<close>

section \<open>Netboot\<close>

definition boot_script :: "string \<Rightarrow> string \<Rightarrow> string \<Rightarrow> string \<Rightarrow> string" where
  "boot_script url first token args = unlines
     [''#!ipxe'', ''echo GhostFleet: '' @ first,
      ''kernel '' @ url @ ''/boot/vmlinuz console=tty0 console=ttyS0 ghostfleet.url='' @ url @ '' ghostfleet.token='' @ token @ args,
      ''initrd '' @ url @ ''/boot/initramfs.gz'', ''boot'']"

definition vm_script :: "config \<Rightarrow> managed_vm \<Rightarrow> string" where
  "vm_script cf vm = boot_script (cf_BootURL cf) (''booting '' @ v_Name vm) (v_BootToken vm) ('' ghostfleet.name='' @ v_Name vm)"

definition discovery_script :: "config \<Rightarrow> string \<Rightarrow> discovered_vm \<Rightarrow> string" where
  "discovery_script cf mac dv = boot_script (cf_BootURL cf) (''unknown MAC '' @ mac @ '' - booting for discovery'') (dv_Token dv)
     '' ghostfleet.discover=1 ghostfleet.name=discovery''"

definition give_up_script :: "string \<Rightarrow> string" where
  "give_up_script why = unlines [''#!ipxe'', ''echo GhostFleet: '' @ why, ''sleep 10'', ''exit'']"

definition handleDiscoveryBoot :: "config \<Rightarrow> string \<Rightarrow> ('h orch, response) prog" where
  "handleDiscoveryBoot cf mac =
     (if \<not> cf_Discovery cf
      then ret (writeJSON 200 (TextBody (give_up_script (''MAC '' @ mac @ '' is not a managed VM''))))
      else attempt (db (EnsureDiscoveredVM mac)) (\<lambda>r. ret (writeJSON 200 (TextBody (case r of
          Inl _ \<Rightarrow> give_up_script (''discovery failed for MAC '' @ mac)
        | Inr dv \<Rightarrow> discovery_script cf mac dv)))))"

text \<open>Whatever error the lookup gives, the machine is taken for an unknown one.\<close>

definition handleBootScript :: "config \<Rightarrow> string \<Rightarrow> ('h orch, response) prog" where
  "handleBootScript cf mac =
     (if mac = '''' then ret (writeError 400 (Msg ''mac query parameter required''))
      else attempt (db (GetManagedVMByMAC mac)) (\<lambda>r. case r of
          Inl _ \<Rightarrow> handleDiscoveryBoot cf mac
        | Inr vm \<Rightarrow> ret (writeJSON 200 (TextBody (vm_script cf vm)))))"

definition handleBootFile :: "string \<Rightarrow> ('h orch, response) prog" where
  "handleBootFile name =
     (if name = ''vmlinuz'' \<or> name = ''initramfs.gz'' then ret (writeJSON 200 (FileBody name))
      else ret (writeError 404 (Msg ''unknown boot artifact'')))"

section \<open>The agent plane\<close>

record agent_request =
  aq_Token :: string
  aq_Disks :: "discovery_disk list"

definition agentAuth :: "string + agent_request \<Rightarrow> (managed_vm \<Rightarrow> agent_request \<Rightarrow> ('h orch, response) prog) \<Rightarrow> ('h orch, response) prog" where
  "agentAuth body k = readJSON body (\<lambda>req.
     or_write (db (GetManagedVMByToken (aq_Token req))) (\<lambda>_. writeError 401 (Msg ''unknown boot token'')) (\<lambda>vm. k vm req))"

text \<open>\<open>WorkOrderForToken\<close> has no error result.\<close>

definition agentRespond :: "managed_vm \<Rightarrow> ('h orch, response) prog" where
  "agentRespond vm =
     or_write (db (TouchAgent (v_ID vm))) writeStoreError (\<lambda>_.
     attempt (db (WorkOrderForToken vm)) (\<lambda>w.
     ret (writeJSON 200 (AgentBody (v_Name vm) (case w of Inr order \<Rightarrow> order | Inl _ \<Rightarrow> None)))))"

definition handleAgentRegister :: "string + agent_request \<Rightarrow> ('h orch, response) prog" where
  "handleAgentRegister body = agentAuth body (\<lambda>vm req.
     or_write (if length (aq_Disks req) > 0
               then case DataState (aq_Disks req) of (state, runID, manifest) \<Rightarrow> db (SetVMDataState (v_ID vm) state runID manifest)
               else ret ()) writeStoreError (\<lambda>_.
     agentRespond vm))"

definition handleAgentHeartbeat :: "string + agent_request \<Rightarrow> ('h orch, response) prog" where
  "handleAgentHeartbeat body = agentAuth body (\<lambda>vm _. agentRespond vm)"

record progress_request =
  gq_Token :: string
  gq_BytesWritten :: int
  gq_BytesTotal :: int
  gq_MBps :: f64
  gq_Done :: bool
  gq_Error :: string

definition handleAgentProgress :: "string + progress_request \<Rightarrow> ('h orch, response) prog" where
  "handleAgentProgress body = readJSON body (\<lambda>req.
     or_write (db (GetManagedVMByToken (gq_Token req))) (\<lambda>_. writeError 401 (Msg ''unknown boot token'')) (\<lambda>vm.
     or_write (if gq_BytesTotal req > 0 then db (SetFillTotal (v_ID vm) (gq_BytesTotal req)) else ret ()) writeStoreError (\<lambda>_.
     or_write (db (ReportFillProgress (v_ID vm) (gq_BytesWritten req) (gq_MBps req) (gq_Done req) (gq_Error req))) writeStoreError (\<lambda>_.
     ret noContent))))"

section \<open>The discovery plane\<close>

definition discoveryAuth :: "string \<Rightarrow> (discovered_vm \<Rightarrow> ('h orch, response) prog) \<Rightarrow> ('h orch, response) prog" where
  "discoveryAuth token k =
     or_write (db (GetDiscoveredVMByToken token)) (\<lambda>_. writeError 401 (Msg ''unknown discovery token'')) k"

definition discoveryAction :: "discovered_vm \<Rightarrow> string" where
  "discoveryAction dv = (if dv_Status dv = DiscoveredAdopted then ''reboot'' else ''idle'')"

definition handleDiscoveryReport :: "string + agent_request \<Rightarrow> ('h orch, response) prog" where
  "handleDiscoveryReport body = readJSON body (\<lambda>req. discoveryAuth (aq_Token req) (\<lambda>dv.
     or_write (db (SetDiscoveredInspection (dv_ID dv) \<lparr>rp_Disks = aq_Disks req\<rparr>)) writeStoreError (\<lambda>_.
     ret (writeJSON 200 (ActionBody (discoveryAction dv))))))"

definition handleDiscoveryHeartbeat :: "string + string \<Rightarrow> ('h orch, response) prog" where
  "handleDiscoveryHeartbeat body = readJSON body (\<lambda>token. discoveryAuth token (\<lambda>dv.
     or_write (db (TouchDiscoveredAgent (dv_ID dv))) writeStoreError (\<lambda>_.
     ret (writeJSON 200 (ActionBody (discoveryAction dv))))))"

section \<open>Discovered machines\<close>

definition listDiscoveredVMs :: "('h orch, response) prog" where
  "listDiscoveredVMs = or_write (db ListDiscoveredVMs) writeStoreError (\<lambda>dvs. ret (writeJSON 200 (DiscoveredBody dvs)))"

definition deleteDiscoveredVM :: "string \<Rightarrow> ('h orch, response) prog" where
  "deleteDiscoveredVM i =
     or_write (db (GetDiscoveredVM i)) writeStoreError (\<lambda>_.
     or_write (db (DeleteDiscoveredVM i)) writeStoreError (\<lambda>_. ret noContent))"

record adopt_request =
  dr_Mode :: string
  dr_Name :: string
  dr_ConnectionID :: string
  dr_DeploymentID :: string

definition adoptDiscoveredVM :: "'h env \<Rightarrow> string \<Rightarrow> string + adopt_request \<Rightarrow> ('h orch, response) prog" where
  "adoptDiscoveredVM env i body = readJSON body (\<lambda>req.
     or_write (db (GetDiscoveredVM i)) writeStoreError (\<lambda>dv.
     let answer = (\<lambda>res. ret (writeJSON 200 (AdoptBody res))) in
     if dr_Mode req = ''rebind'' then or_write (AdoptRebind env dv) writeAdoptError answer
     else if dr_Mode req = ''new-deployment''
     then or_write (AdoptNew env dv (dr_Name req) (dr_ConnectionID req) (dr_DeploymentID req)) writeAdoptError answer
     else ret (writeError 400 (Msg ''mode must be rebind or new-deployment''))))"

section \<open>What a token reaches\<close>

text \<open>Everything but discovery records; and everything but what is volatile in one VM's row
  (liveness, data state and progress: not its identity, its token or its assigned run).\<close>

definition but_disc :: "store \<Rightarrow> store" where
  "but_disc s = s\<lparr>st_disc := [], st_drawn := 0, st_faults := []\<rparr>"

definition fixed_columns :: "string \<Rightarrow> managed_vm \<Rightarrow> managed_vm" where
  "fixed_columns i v = (if v_ID v = i
     then v\<lparr>v_AgentStatus := AgentUnset, v_AgentSeenAt := None, v_DataState := DataUnknown, v_DataRunID := '''',
            v_DataManifest := False, v_DataSeenAt := None, v_FillStatus := FillUnset, v_BytesWritten := 0,
            v_BytesTotal := 0, v_MBps := 0, v_FillError := ''''\<rparr>
     else v)"

definition but_vm :: "string \<Rightarrow> store \<Rightarrow> store" where
  "but_vm i s = s\<lparr>st_vms := map (fixed_columns i) (st_vms s), st_drawn := 0, st_faults := []\<rparr>"

interpretation one_vm: blind "but_vm i" for i
  by unfold_locales (simp_all add: but_vm_def)

interpretation disc: blind but_disc
  by unfold_locales (simp_all add: but_disc_def)

lemma but_disc_blind: "but_disc (st_disc_update f s) = but_disc s"
  by (simp add: but_disc_def)

lemma but_vm_update:
  assumes "\<And>v. p v \<Longrightarrow> fixed_columns i (f v) = fixed_columns i v"
  shows "but_vm i (st_vms_update (update_where p f) s) = but_vm i s"
  using assms by (simp add: but_vm_def update_where_def)

lemma agent_ops:
  "keeps (\<lambda>s. but_vm i s = c) (TouchAgent i)" "keeps (\<lambda>s. but_vm i s = c) (SetVMDataState i ds n mf)"
  "keeps (\<lambda>s. but_vm i s = c) (SetFillTotal i b)" "keeps (\<lambda>s. but_vm i s = c) (SetFillStatus i st)"
  "keeps (\<lambda>s. but_vm i s = c) (ReportFillProgress i b mb fin msg)"
  unfolding TouchAgent_def SetVMDataState_def SetFillTotal_def SetFillStatus_def ReportFillProgress_def Let_def
  by (intro frame_intros keeps_seq keeps_ret keeps_if keeps_look but_vm_update; simp add: fixed_columns_def)+

lemma agent_work_order: "keeps (\<lambda>s. but_vm (v_ID vm) s = c) (WorkOrderForToken vm)"
proof -
  have "keeps (\<lambda>s. but_vm (v_ID vm) s = c) (claim_slot d r vm)" for d r
    unfolding claim_slot_def Let_def
    by (intro one_vm.unseen_reads one_vm.unseen_select keeps_seq keeps_attempt keeps_ret keeps_if keeps_ignore agent_ops)
  then show ?thesis unfolding WorkOrderForToken_def
    by (intro one_vm.unseen_reads keeps_seq keeps_attempt keeps_sum keeps_ret keeps_if)
qed

text \<open>The orchestrator's side of the state.\<close>

definition jobs_side :: "'h orch \<Rightarrow> 'h \<times> (string \<rightharpoonup> bool) \<times> job list" where
  "jobs_side ob = (o_hv ob, o_active ob, o_jobs ob)"

lemma keeps_db_only:
  "keeps (\<lambda>s. view s = c) m \<Longrightarrow> keeps (\<lambda>ob. view (o_store ob) = c \<and> jobs_side ob = d) (db m)"
  by (fastforce simp: keeps_def db_eq jobs_side_def split: prod.splits)

lemma keeps_agentRespond: "keeps (\<lambda>ob. but_vm (v_ID vm) (o_store ob) = c \<and> jobs_side ob = d) (agentRespond vm)"
  unfolding agentRespond_def
  by (intro keeps_or_write keeps_attempt keeps_ret keeps_db_only [where view = "but_vm (v_ID vm)"] agent_ops agent_work_order)

text \<open>The answer to an agent concerns the VM whose token it presented.\<close>

definition answers_vm :: "managed_vm \<Rightarrow> response \<Rightarrow> bool" where
  "answers_vm vm r \<longleftrightarrow> (\<forall>name w. re_Body r = AgentBody name w \<longrightarrow> name = v_Name vm
     \<and> (\<forall>order. w = Some order \<longrightarrow> wo_VMName order = v_Name vm \<and> wo_RunID order = v_FillRunID vm))"

lemma store_error_body: "\<exists>m. re_Body (writeStoreError e) = ErrorBody m"
  by (auto simp: writeStoreError_def split: go_error.splits)

lemma BuildWorkOrder_subject [simp]:
  "wo_VMName (BuildWorkOrder dep depName runID rt vmName spec) = vmName"
  "wo_RunID (BuildWorkOrder dep depName runID rt vmName spec) = runID"
  by (simp_all add: BuildWorkOrder_def Let_def)

lemma WorkOrderForToken_subject:
  "WorkOrderForToken vm s = (Inr (Some order), s') \<Longrightarrow> wo_VMName order = v_Name vm \<and> wo_RunID order = v_FillRunID vm"
  by (auto simp: WorkOrderForToken_def attempt_def seq_eq ret_def fail_def GetRun_def
      dest!: query_row_InrD find_SomeD split: if_splits prod.splits sum.splits)

lemma answers_vm_error: "answers_vm vm (writeStoreError e)"
  using store_error_body [of e] by (auto simp: answers_vm_def)

lemma answers_vm_noContent: "answers_vm vm noContent"
  by (simp add: answers_vm_def noContent_def)

lemma agentRespond_answers:
  assumes run: "agentRespond vm ob = (Inr r, ob')"
  shows "answers_vm vm r"
proof -
  obtain q s where t: "TouchAgent (v_ID vm) (o_store ob) = (q, s)" by fastforce
  obtain w s' where w: "WorkOrderForToken vm s = (w, s')" by fastforce
  show ?thesis
  proof (cases q)
    case (Inl e)
    then have "r = writeStoreError e" using run t by (simp add: agentRespond_def or_write_eq db_eq)
    then show ?thesis by (simp add: answers_vm_error)
  next
    case (Inr x)
    then have "r = writeJSON 200 (AgentBody (v_Name vm) (case w of Inr order \<Rightarrow> order | Inl _ \<Rightarrow> None))"
      using run t w by (simp add: agentRespond_def or_write_eq attempt_def db_eq ret_def)
    then show ?thesis using w WorkOrderForToken_subject [of vm s] by (auto simp: answers_vm_def split: sum.splits)
  qed
qed

text \<open>The three calls of an agent, and what they do for a token.\<close>

definition agent_call :: "string \<Rightarrow> ('h orch, response) prog \<Rightarrow> bool" where
  "agent_call tok m \<longleftrightarrow> (\<exists>req. aq_Token req = tok \<and> (m = handleAgentRegister (Inr req) \<or> m = handleAgentHeartbeat (Inr req)))
     \<or> (\<exists>req. gq_Token req = tok \<and> m = handleAgentProgress (Inr req))"

lemma agent_callI: "agent_call (aq_Token req) (handleAgentHeartbeat (Inr req))"
  unfolding agent_call_def by (intro disjI1 exI [of _ req]) simp

lemma agent_call_form:
  assumes "agent_call tok m"
  shows "\<exists>k. m = or_write (db (GetManagedVMByToken tok)) (\<lambda>_. writeError 401 (Msg ''unknown boot token'')) k
    \<and> (\<forall>vm c d. keeps (\<lambda>ob. but_vm (v_ID vm) (o_store ob) = c \<and> jobs_side ob = d) (k vm))
    \<and> (\<forall>vm ob r ob'. k vm ob = (Inr r, ob') \<longrightarrow> answers_vm vm r)"
proof -
  consider (reg) req where "aq_Token req = tok" "m = handleAgentRegister (Inr req)"
    | (beat) req where "aq_Token req = tok" "m = handleAgentHeartbeat (Inr req)"
    | (prog) req where "gq_Token req = tok" "m = handleAgentProgress (Inr req)"
    using assms by (auto simp: agent_call_def)
  then show ?thesis
  proof cases
    case reg
    let ?k = "\<lambda>vm. or_write (if length (aq_Disks req) > 0
               then case DataState (aq_Disks req) of (state, runID, manifest) \<Rightarrow> db (SetVMDataState (v_ID vm) state runID manifest)
               else ret ()) writeStoreError (\<lambda>_. agentRespond vm)"
    have "keeps (\<lambda>ob. but_vm (v_ID vm) (o_store ob) = c \<and> jobs_side ob = d) (?k vm)" for vm c d
      by (intro keeps_or_write keeps_if keeps_prod keeps_ret keeps_agentRespond keeps_db_only [where view = "but_vm (v_ID vm)"] agent_ops)
    moreover have "answers_vm vm r" if "?k vm ob = (Inr r, ob')" for vm ob r ob'
      using that agentRespond_answers answers_vm_error
      by (auto simp: or_write_eq split: prod.splits sum.splits)
    moreover have "m = or_write (db (GetManagedVMByToken tok)) (\<lambda>_. writeError 401 (Msg ''unknown boot token'')) ?k"
      using reg by (simp add: handleAgentRegister_def agentAuth_def readJSON_def)
    ultimately show ?thesis by blast
  next
    case beat
    then have "m = or_write (db (GetManagedVMByToken tok)) (\<lambda>_. writeError 401 (Msg ''unknown boot token'')) agentRespond"
      by (simp add: handleAgentHeartbeat_def agentAuth_def readJSON_def)
    then show ?thesis using keeps_agentRespond agentRespond_answers by blast
  next
    case prog
    let ?k = "\<lambda>vm. or_write (if gq_BytesTotal req > 0 then db (SetFillTotal (v_ID vm) (gq_BytesTotal req)) else ret ()) writeStoreError (\<lambda>_.
     or_write (db (ReportFillProgress (v_ID vm) (gq_BytesWritten req) (gq_MBps req) (gq_Done req) (gq_Error req))) writeStoreError (\<lambda>_.
     ret noContent))"
    have "keeps (\<lambda>ob. but_vm (v_ID vm) (o_store ob) = c \<and> jobs_side ob = d) (?k vm)" for vm c d
      by (intro keeps_or_write keeps_if keeps_ret keeps_db_only [where view = "but_vm (v_ID vm)"] agent_ops)
    moreover have "answers_vm vm r" if "?k vm ob = (Inr r, ob')" for vm ob r ob'
      using that answers_vm_error
      by (auto simp: or_write_eq ret_def answers_vm_noContent split: prod.splits sum.splits)
    moreover have "m = or_write (db (GetManagedVMByToken tok)) (\<lambda>_. writeError 401 (Msg ''unknown boot token'')) ?k"
      using prog by (simp add: handleAgentProgress_def readJSON_def)
    ultimately show ?thesis by blast
  qed
qed

text \<open>
  C21. A boot token reaches one VM: whatever an agent registers, asks or reports with it, all
  other rows, this VM's identity, token and assigned run, every other table, the platform and
  the jobs stay as they were, and the answer is about this VM, with at most the work order of
  the run assigned to it. A token that no VM has is refused with 401 and changes nothing.
\<close>

theorem agent_token_scope:
  assumes "agent_call tok m" and run: "m ob = (Inr r, ob')"
  shows "jobs_side ob' = jobs_side ob
    \<and> (case find (\<lambda>v. v_BootToken v = tok) (st_vms (o_store ob)) of
         None \<Rightarrow> re_Status r = 401 \<and> o_store ob' = pop_fault (o_store ob)
       | Some vm \<Rightarrow> but_vm (v_ID vm) (o_store ob') = but_vm (v_ID vm) (o_store ob) \<and> answers_vm vm r)"
proof -
  obtain k where m: "m = or_write (db (GetManagedVMByToken tok)) (\<lambda>_. writeError 401 (Msg ''unknown boot token'')) k"
    and keep: "\<And>vm c d. keeps (\<lambda>ob. but_vm (v_ID vm) (o_store ob) = c \<and> jobs_side ob = d) (k vm)"
    and ans: "\<And>vm ob r ob'. k vm ob = (Inr r, ob') \<Longrightarrow> answers_vm vm r"
    using agent_call_form [OF assms(1)] by blast
  let ?s = "pop_fault (o_store ob)"
  have view: "but_vm i ?s = but_vm i (o_store ob)" for i by (simp add: but_vm_def pop_fault_def)
  have side: "jobs_side (ob\<lparr>o_store := s\<rparr>) = jobs_side ob" for s by (simp add: jobs_side_def)
  have g: "GetManagedVMByToken tok (o_store ob) =
      (if next_fault (o_store ob) then Inl db_failed
       else case find (\<lambda>v. v_BootToken v = tok) (st_vms (o_store ob)) of None \<Rightarrow> Inl ErrNotFound | Some v \<Rightarrow> Inr v, ?s)"
    by (auto simp: GetManagedVMByToken_def eval_simps split: option.split)
  show ?thesis
  proof (cases "next_fault (o_store ob) \<or> find (\<lambda>v. v_BootToken v = tok) (st_vms (o_store ob)) = None")
    case True
    then have "r = writeError 401 (Msg ''unknown boot token'')" "ob' = ob\<lparr>o_store := ?s\<rparr>"
      using run g by (auto simp: m or_write_eq db_eq split: if_splits)
    then show ?thesis using side view by (auto simp: answers_vm_def split: option.split)
  next
    case False
    then obtain vm where vm: "find (\<lambda>v. v_BootToken v = tok) (st_vms (o_store ob)) = Some vm" by blast
    then have k: "k vm (ob\<lparr>o_store := ?s\<rparr>) = (Inr r, ob')"
      using run g False by (simp add: m or_write_eq db_eq)
    have "but_vm (v_ID vm) (o_store ob') = but_vm (v_ID vm) (o_store ob) \<and> jobs_side ob' = jobs_side ob"
      using keepsD [OF keep [of vm "but_vm (v_ID vm) (o_store ob)" "jobs_side ob"], of "ob\<lparr>o_store := ?s\<rparr>"] k side view
      by simp
    then show ?thesis using vm ans [OF k] by simp
  qed
qed

theorem agent_token_scope_witness:
  "\<exists>r ob'. handleAgentHeartbeat (Inr \<lparr>aq_Token = demo_rand 3, aq_Disks = []\<rparr>) vm_orch = (Inr r, ob')
     \<and> re_Body r = AgentBody (v_Name demo_vm) None \<and> st_deps (o_store ob') = st_deps vm_store
     \<and> map v_AgentStatus (st_vms (o_store ob')) = [AgentOnline]"
proof -
  let ?m = "handleAgentHeartbeat (Inr \<lparr>aq_Token = demo_rand 3, aq_Disks = []\<rparr>) :: (fake orch, response) prog"
  have call: "agent_call (demo_rand 3) ?m" using agent_callI [of "\<lparr>aq_Token = demo_rand 3, aq_Disks = []\<rparr>"] by simp
  obtain r ob' where run: "?m vm_orch = (Inr r, ob')" and on: "map v_AgentStatus (st_vms (o_store ob')) = [AgentOnline]"
    and body: "re_Body r = AgentBody (v_Name demo_vm) None"
    using vm_store_eq
    by (simp add: handleAgentHeartbeat_def agentAuth_def readJSON_def agentRespond_def or_write_eq attempt_def db_eq vm_orch_def
        GetManagedVMByToken_def TouchAgent_def WorkOrderForToken_def eval_simps demo_vm_def numeral_eq_Suc)
  have "find (\<lambda>v. v_BootToken v = demo_rand 3) (st_vms (o_store vm_orch)) = Some (hd (st_vms vm_store))"
    using vm_store_eq by (simp add: vm_orch_def)
  with agent_token_scope [OF call run]
  have "but_vm (v_ID (hd (st_vms vm_store))) (o_store ob') = but_vm (v_ID (hd (st_vms vm_store))) vm_store"
    by (simp add: vm_orch_def)
  from arg_cong [where f = st_deps, OF this] have "st_deps (o_store ob') = st_deps vm_store" unfolding but_vm_def by simp
  with run on body show ?thesis by (intro exI conjI)
qed

lemma agent_call_refused:
  assumes "agent_call tok m" and none: "find (\<lambda>v. v_BootToken v = tok) (st_vms (o_store ob)) = None"
  shows "\<exists>q ob'. m ob = (Inr q, ob') \<and> re_Status q = 401 \<and> o_store ob' = pop_fault (o_store ob) \<and> jobs_side ob' = jobs_side ob"
proof -
  obtain k where m: "m = or_write (db (GetManagedVMByToken tok)) (\<lambda>_. writeError 401 (Msg ''unknown boot token'')) k"
    using agent_call_form [OF assms(1)] by blast
  have "\<exists>e. GetManagedVMByToken tok (o_store ob) = (Inl e, pop_fault (o_store ob))"
    using none by (auto simp: GetManagedVMByToken_def eval_simps)
  then show ?thesis by (auto simp: m or_write_eq db_eq jobs_side_def)
qed

text \<open>What the endpoints of the discovery plane touch.\<close>

definition discovery_call :: "('h orch, response) prog \<Rightarrow> bool" where
  "discovery_call m \<longleftrightarrow> (\<exists>body. m = handleDiscoveryReport body) \<or> (\<exists>body. m = handleDiscoveryHeartbeat body)
     \<or> (\<exists>cf mac. m = handleBootScript cf mac) \<or> (\<exists>f. m = handleBootFile f)"

lemma disc_unseen:
  "keeps (\<lambda>s. but_disc s = c) (EnsureDiscoveredVM mac)" "keeps (\<lambda>s. but_disc s = c) (SetDiscoveredInspection i rep)"
  "keeps (\<lambda>s. but_disc s = c) (TouchDiscoveredAgent i)"
  by (rule disc.disc_ops [OF but_disc_blind])+

lemma keeps_discovery_call:
  assumes "discovery_call m"
  shows "keeps (\<lambda>ob. but_disc (o_store ob) = c \<and> jobs_side ob = d) m"
  using assms
  by (auto simp: discovery_call_def handleDiscoveryReport_def handleDiscoveryHeartbeat_def discoveryAuth_def
      handleBootScript_def handleDiscoveryBoot_def handleBootFile_def
      intro!: keeps_readJSON keeps_or_write keeps_attempt keeps_if keeps_sum keeps_ret disc_unseen
        keeps_db_only [where view = but_disc] disc.unseen_reads)

lemma keeps_wf_discovery: "discovery_call m \<Longrightarrow> keeps (\<lambda>ob. db_wf (o_store ob)) m"
  by (auto simp: discovery_call_def handleDiscoveryReport_def handleDiscoveryHeartbeat_def discoveryAuth_def
      handleBootScript_def handleDiscoveryBoot_def handleBootFile_def intro!: inv_intros)

lemma discovery_token_unknown:
  assumes "db_wf s" "dv \<in> set (st_disc s)"
  shows "find (\<lambda>v. v_BootToken v = dv_Token dv) (st_vms s) = None"
  using db_wfD(9) [OF assms(1)] assms(2) by (auto simp: tokens_def find_None_iff)

text \<open>
  C22. The discovery plane is inert: fetching boot scripts and files, reporting disks and
  heartbeats with a discovery token touch nothing but discovery records, and no token of a
  discovered machine, however obtained, is good for an agent call: it gets 401, no work
  order, and changes nothing.
\<close>

theorem discovery_plane_inert:
  assumes "db_wf (o_store ob)" "discovery_call m" and run: "m ob = (Inr r, ob')"
  shows "but_disc (o_store ob') = but_disc (o_store ob) \<and> jobs_side ob' = jobs_side ob
    \<and> (\<forall>dv \<in> set (st_disc (o_store ob')). \<forall>m'. agent_call (dv_Token dv) m' \<longrightarrow>
        (\<exists>q ob''. m' ob' = (Inr q, ob'') \<and> re_Status q = 401 \<and> o_store ob'' = pop_fault (o_store ob') \<and> jobs_side ob'' = jobs_side ob'))"
proof -
  have "but_disc (o_store ob') = but_disc (o_store ob) \<and> jobs_side ob' = jobs_side ob"
    using keepsD [OF keeps_discovery_call [OF assms(2), of "but_disc (o_store ob)" "jobs_side ob"], of ob] run by simp
  moreover have wf: "db_wf (o_store ob')"
    using keepsD [OF keeps_wf_discovery [OF assms(2)], of ob] run assms(1) by simp
  have "\<exists>q ob''. m' ob' = (Inr q, ob'') \<and> re_Status q = 401 \<and> o_store ob'' = pop_fault (o_store ob') \<and> jobs_side ob'' = jobs_side ob'"
    if "dv \<in> set (st_disc (o_store ob'))" "agent_call (dv_Token dv) m'" for dv m'
    by (rule agent_call_refused [OF that(2) discovery_token_unknown [OF wf that(1)]])
  ultimately show ?thesis by blast
qed


definition demo_config :: config where
  "demo_config = \<lparr>cf_Password = ''pw'', cf_APIKeys = [''k1''], cf_SecureCookies = '''', cf_BootURL = ''http://10.0.0.1'',
     cf_Discovery = True\<rparr>"

theorem discovery_plane_inert_witness:
  "\<exists>r ob' dv. handleBootScript demo_config ''00:99'' vm_orch = (Inr r, ob') \<and> st_disc (o_store ob') = [dv]
     \<and> re_Body r = TextBody (discovery_script demo_config ''00:99'' dv)
     \<and> (\<exists>q ob''. handleAgentHeartbeat (Inr \<lparr>aq_Token = dv_Token dv, aq_Disks = []\<rparr>) ob' = (Inr q, ob'') \<and> re_Status q = 401)"
proof -
  let ?m = "handleBootScript demo_config ''00:99'' :: (fake orch, response) prog"
  have call: "discovery_call ?m" unfolding discovery_call_def by blast
  have wf: "db_wf (o_store vm_orch)" using vm_store_wf by (simp add: vm_orch_def)
  obtain r ob' dv where run: "?m vm_orch = (Inr r, ob')" and dv: "st_disc (o_store ob') = [dv]"
    and body: "re_Body r = TextBody (discovery_script demo_config ''00:99'' dv)"
    using vm_store_eq
    by (auto simp: handleBootScript_def handleDiscoveryBoot_def attempt_def db_eq vm_orch_def GetManagedVMByMAC_def
        EnsureDiscoveredVM_def eval_simps Let_def demo_config_def to_lower_def lower_char_def unique_defs)
  let ?m' = "handleAgentHeartbeat (Inr \<lparr>aq_Token = dv_Token dv, aq_Disks = []\<rparr>) :: (fake orch, response) prog"
  have "agent_call (dv_Token dv) ?m'" using agent_callI [of "\<lparr>aq_Token = dv_Token dv, aq_Disks = []\<rparr>"] by simp
  with discovery_plane_inert [OF wf call run] dv
  have "\<exists>q ob''. ?m' ob' = (Inr q, ob'') \<and> re_Status q = 401" by auto
  with run dv body show ?thesis by blast
qed

end
