(* ===== verification/Routes.thy ===== *)
theory Routes
  imports ApiAgent Lifecycle
begin

text \<open>
  \<open>internal/api/server.go\<close>, the router: \<open>New\<close> with its table of routes, the public and the
  protected ones, as a datatype of calls and the function that serves them over the server's
  state (the orchestrator with its database, and the sessions). Matching a URL against the
  patterns is \<open>net/http\<close>'s: a call is a matched route with its path values, its query and its
  decoded body. Shown here: without credentials nothing protected happens, over any sequence
  of requests, and every request is a sequence of steps of the life cycle of jobs.
\<close>

section \<open>Routes\<close>

datatype api_call =
    CListConnections | CCreateConnection "string + connection_request" | CGetConnection string
  | CUpdateConnection string "string + connection_request" | CDeleteConnection string
  | CValidateConnection string | CListPlacement string
  | CListProfiles | CCreateProfile "string + profile_request" | CImportProfile "string + profile_document"
  | CGetProfile string | CExportProfile string | CUpdateProfile string "string + profile_request"
  | CDeleteProfile string | CListProfileVersions string | CGetProfileVersion string string
  | CListDeployments | CCreateDeployment "string + deployment_request" | CGetDeployment string
  | CUpdateDeploymentSpec string "string + profile_spec" | CTeardown string | CListRuns string | CListRunSamples string
  | CDeploy string "(string + string) option" | CListConflicts string | CPower string "string + bool"
  | CFill string "string + run_type" | CCancel string | CListVMs string | CConsole string string
  | CListSchedules string | CCreateSchedule string "string + schedule_request" | CGetSchedule string
  | CUpdateSchedule string "string + schedule_request" | CDeleteSchedule string
  | CListDiscovered | CDeleteDiscovered string | CAdopt string "string + adopt_request"

datatype call =
    Healthz | VersionCall | OpenAPI | LLMS
  | SessionStatus | LoginCall "string + string" | LogoutCall
  | BootScript string | BootFile string
  | AgentRegister "string + agent_request" | AgentHeartbeat "string + agent_request" | AgentProgressCall "string + progress_request"
  | DiscoveryReport "string + agent_request" | DiscoveryHeartbeat "string + string"
  | Protected api_call
  | Page string

text \<open>What \<open>New\<close> wires together, with the files embedded or served; \<open>ap_Web\<close> tells which paths
  of the web UI's directory can be opened, if there is such a directory.\<close>

record 'h api =
  ap_Config :: config
  ap_Env :: "'h env"
  ap_Box :: aead
  ap_Zones :: "string \<Rightarrow> zone option"
  ap_Version :: string
  ap_OpenAPI :: string
  ap_LLMS :: string
  ap_Web :: "(string \<Rightarrow> bool) option"

text \<open>The clock and the random source as a request finds them.\<close>

record moment =
  mo_Now :: int
  mo_Rand :: rand

record 'h server =
  sv_orch :: "'h orch"
  sv_sessions :: sessions

definition api_handler :: "'h api \<Rightarrow> moment \<Rightarrow> api_call \<Rightarrow> ('h orch, response) prog" where
  "api_handler ap mo c = (case c of
      CListConnections \<Rightarrow> listConnections
    | CCreateConnection b \<Rightarrow> createConnection (ap_Box ap) (mo_Rand mo) b
    | CGetConnection i \<Rightarrow> getConnection i
    | CUpdateConnection i b \<Rightarrow> updateConnection (ap_Box ap) (mo_Rand mo) i b
    | CDeleteConnection i \<Rightarrow> deleteConnection i
    | CValidateConnection i \<Rightarrow> validateConnection (ap_Env ap) i
    | CListPlacement i \<Rightarrow> listPlacementOptions (ap_Env ap) i
    | CListProfiles \<Rightarrow> listProfiles
    | CCreateProfile b \<Rightarrow> createProfile b
    | CImportProfile b \<Rightarrow> importProfile b
    | CGetProfile i \<Rightarrow> getProfile i
    | CExportProfile i \<Rightarrow> exportProfile i
    | CUpdateProfile i b \<Rightarrow> updateProfile i b
    | CDeleteProfile i \<Rightarrow> deleteProfile i
    | CListProfileVersions i \<Rightarrow> listProfileVersions i
    | CGetProfileVersion i v \<Rightarrow> getProfileVersion i v
    | CListDeployments \<Rightarrow> listDeployments
    | CCreateDeployment b \<Rightarrow> createDeployment b
    | CGetDeployment i \<Rightarrow> getDeployment i
    | CUpdateDeploymentSpec i b \<Rightarrow> updateDeploymentSpec i b
    | CTeardown i \<Rightarrow> teardownDeployment i
    | CListRuns i \<Rightarrow> listRuns i
    | CListRunSamples i \<Rightarrow> listRunSamples i
    | CDeploy i b \<Rightarrow> deployDeployment i b
    | CListConflicts i \<Rightarrow> listConflicts (ap_Env ap) i
    | CPower i b \<Rightarrow> powerDeployment i b
    | CFill i b \<Rightarrow> fillDeployment i b
    | CCancel i \<Rightarrow> cancelDeployment i
    | CListVMs i \<Rightarrow> listDeploymentVMs i
    | CConsole i q \<Rightarrow> getVMConsole (ap_Env ap) i q
    | CListSchedules i \<Rightarrow> listSchedules i
    | CCreateSchedule i b \<Rightarrow> createSchedule (ap_Zones ap) (mo_Now mo) i b
    | CGetSchedule i \<Rightarrow> getSchedule i
    | CUpdateSchedule i b \<Rightarrow> updateSchedule (ap_Zones ap) (mo_Now mo) i b
    | CDeleteSchedule i \<Rightarrow> deleteSchedule i
    | CListDiscovered \<Rightarrow> listDiscoveredVMs
    | CDeleteDiscovered i \<Rightarrow> deleteDiscoveredVM i
    | CAdopt i b \<Rightarrow> adoptDiscoveredVM (ap_Env ap) i b)"

section \<open>The public endpoints\<close>

definition serviceDescLink :: string where
  "serviceDescLink = ''</api/v1/openapi.yaml>; rel=\"service-desc\"; type=\"application/yaml\"''"

definition handleHealthz :: response where
  "handleHealthz = (writeJSON 200 (StatusBody [(''status'', ''ok'')]))\<lparr>re_Link := serviceDescLink\<rparr>"

definition handleVersion :: "'h api \<Rightarrow> response" where
  "handleVersion ap = writeJSON 200 (StatusBody [(''version'', ap_Version ap)])"

definition handleOpenAPI :: "'h api \<Rightarrow> response" where
  "handleOpenAPI ap = writeJSON 200 (TextBody (ap_OpenAPI ap))"

definition handleLLMS :: "'h api \<Rightarrow> response" where
  "handleLLMS ap = writeJSON 200 (TextBody (ap_LLMS ap))"

text \<open>Files as they are, every other path as the index page.\<close>

definition spaHandler :: "(string \<Rightarrow> bool) \<Rightarrow> string \<Rightarrow> response" where
  "spaHandler opens path =
     (if path \<noteq> ''/'' then
        (if opens path then writeJSON 200 (FileBody path)
         else (writeJSON 200 (FileBody ''/index.html''))\<lparr>re_Link := serviceDescLink\<rparr>)
      else (writeJSON 200 (FileBody path))\<lparr>re_Link := serviceDescLink\<rparr>)"

definition page :: "'h api \<Rightarrow> string \<Rightarrow> response" where
  "page ap path = (case ap_Web ap of None \<Rightarrow> writeError 404 (Msg ''404 page not found'') | Some opens \<Rightarrow> spaHandler opens path)"

section \<open>Serving a call\<close>

definition on_orch :: "('h orch, 'a) prog \<Rightarrow> ('h server, 'a) prog" where
  "on_orch m = on_part sv_orch sv_orch_update m"

definition on_sessions :: "(sessions, 'a) prog \<Rightarrow> ('h server, 'a) prog" where
  "on_sessions m = on_part sv_sessions sv_sessions_update m"

text \<open>\<open>rand.Read\<close> in \<open>create\<close>: its error is ignored, the slice stays zero.\<close>

definition session_bytes :: "moment \<Rightarrow> string" where
  "session_bytes mo = (case mo_Rand mo 32 of Inr b \<Rightarrow> b | Inl _ \<Rightarrow> replicate 32 (char_of (0::nat)))"

definition serve :: "'h api \<Rightarrow> moment \<Rightarrow> request \<Rightarrow> call \<Rightarrow> ('h server, response) prog" where
  "serve ap mo rq c = (let cf = ap_Config ap; t = mo_Now mo in case c of
      Healthz \<Rightarrow> ret handleHealthz
    | VersionCall \<Rightarrow> ret (handleVersion ap)
    | OpenAPI \<Rightarrow> ret (handleOpenAPI ap)
    | LLMS \<Rightarrow> ret (handleLLMS ap)
    | SessionStatus \<Rightarrow> on_sessions (handleSessionStatus cf t rq)
    | LoginCall b \<Rightarrow> on_sessions (handleLogin cf t (session_bytes mo) rq b)
    | LogoutCall \<Rightarrow> on_sessions (handleLogout cf rq)
    | BootScript mac \<Rightarrow> on_orch (handleBootScript cf mac)
    | BootFile f \<Rightarrow> on_orch (handleBootFile f)
    | AgentRegister b \<Rightarrow> on_orch (handleAgentRegister b)
    | AgentHeartbeat b \<Rightarrow> on_orch (handleAgentHeartbeat b)
    | AgentProgressCall b \<Rightarrow> on_orch (handleAgentProgress b)
    | DiscoveryReport b \<Rightarrow> on_orch (handleDiscoveryReport b)
    | DiscoveryHeartbeat b \<Rightarrow> on_orch (handleDiscoveryHeartbeat b)
    | Protected a \<Rightarrow> seq (look sv_sessions) (\<lambda>ss. requireAuth cf t rq ss (on_orch (api_handler ap mo a)))
    | Page path \<Rightarrow> ret (page ap path))"

text \<open>A sequence of requests, each at its moment, with the answers.\<close>

type_synonym arrival = "moment \<times> request \<times> call"

fun serve_all :: "'h api \<Rightarrow> arrival list \<Rightarrow> 'h server \<Rightarrow> response list \<times> 'h server" where
  "serve_all ap [] sv = ([], sv)"
| "serve_all ap ((mo, rq, c) # rest) sv = (case serve ap mo rq c sv of (r, sv') \<Rightarrow>
     apfst (\<lambda>rs. (case r of Inr x \<Rightarrow> x | Inl e \<Rightarrow> writeStoreError e) # rs) (serve_all ap rest sv'))"

section \<open>Without credentials\<close>

text \<open>An outsider holds no valid key, no session of the server and not the password.\<close>

definition outsider :: "config \<Rightarrow> sessions \<Rightarrow> arrival \<Rightarrow> bool" where
  "outsider cf ss a \<longleftrightarrow> (case a of (mo, rq, c) \<Rightarrow> \<not> hasValidAPIKey cf rq
     \<and> (\<forall>v. rq_Cookie rq = Some v \<longrightarrow> ss v = None)
     \<and> (\<forall>password. c = LoginCall (Inr password) \<longrightarrow> cf_Password cf = '''' \<or> password \<noteq> cf_Password cf))"

text \<open>The calls that the isolated network serves.\<close>

fun isolated_plane :: "call \<Rightarrow> bool" where
  "isolated_plane (BootScript _) = True"
| "isolated_plane (BootFile _) = True"
| "isolated_plane (AgentRegister _) = True"
| "isolated_plane (AgentHeartbeat _) = True"
| "isolated_plane (AgentProgressCall _) = True"
| "isolated_plane (DiscoveryReport _) = True"
| "isolated_plane (DiscoveryHeartbeat _) = True"
| "isolated_plane _ = False"

definition refused :: response where
  "refused = writeError 401 (Msg ''authentication required'')"

lemma on_orch_eq: "on_orch m sv = (case m (sv_orch sv) of (r, ob) \<Rightarrow> (r, sv\<lparr>sv_orch := ob\<rparr>))"
  by (simp add: on_orch_def on_part_def)

lemma on_sessions_eq: "on_sessions m sv = (case m (sv_sessions sv) of (r, ss) \<Rightarrow> (r, sv\<lparr>sv_sessions := ss\<rparr>))"
  by (simp add: on_sessions_def on_part_def)

lemma on_snd: "snd (on_orch m sv) = sv\<lparr>sv_orch := snd (m (sv_orch sv))\<rparr>"
  "snd (on_sessions m' sv) = sv\<lparr>sv_sessions := snd (m' (sv_sessions sv))\<rparr>"
  by (simp_all add: on_orch_eq on_sessions_eq split: prod.split)

lemma status_snd: "snd (handleSessionStatus cf t rq ss) = ss"
  by (simp add: handleSessionStatus_def ret_def)

lemma outsider_not_allowed:
  "authRequired cf \<Longrightarrow> outsider cf ss (mo, rq, c) \<Longrightarrow> \<not> allowed cf t rq ss"
  by (auto simp: allowed_def outsider_def authenticated_def session_valid_def split: option.splits)

lemma outsider_logout: "outsider cf ss (mo, rq, c) \<Longrightarrow> snd (handleLogout cf rq ss) = ss"
  by (auto simp: outsider_def handleLogout_def session_revoke_def seq_eq ret_def change_def split: option.splits)

lemma outsider_login: "outsider cf ss (mo, rq, LoginCall b) \<Longrightarrow> snd (handleLogin cf t bytes rq b ss) = ss"
  by (auto simp: outsider_def handleLogin_def readJSON_def ret_def split: sum.splits)

lemma serve_outsider:
  assumes auth: "authRequired (ap_Config ap)" and out: "outsider (ap_Config ap) (sv_sessions sv) (mo, rq, c)"
  shows "sv_sessions (snd (serve ap mo rq c sv)) = sv_sessions sv"
    and "\<not> isolated_plane c \<Longrightarrow> snd (serve ap mo rq c sv) = sv"
    and "c = Protected a \<Longrightarrow> fst (serve ap mo rq c sv) = Inr refused"
proof -
  have "fst (serve ap mo rq (Protected a) sv) = Inr refused" "snd (serve ap mo rq (Protected a) sv) = sv"
    if "outsider (ap_Config ap) (sv_sessions sv) (mo, rq, Protected a)" for a
    using outsider_not_allowed [OF auth that] by (simp_all add: serve_def Let_def requireAuth_def refused_def ret_def)
  then show "sv_sessions (snd (serve ap mo rq c sv)) = sv_sessions sv"
    "\<not> isolated_plane c \<Longrightarrow> snd (serve ap mo rq c sv) = sv"
    "c = Protected a \<Longrightarrow> fst (serve ap mo rq c sv) = Inr refused"
    using out outsider_login [of "ap_Config ap" "sv_sessions sv" mo rq] outsider_logout [OF out]
    by (cases c; simp add: serve_def Let_def on_snd status_snd ret_def)+
qed


section \<open>Requests and the life cycle of jobs\<close>

text \<open>A step of the life cycle that is neither a crash; statements may fail along the way.\<close>

definition api_step :: "'h env \<Rightarrow> 'h life \<Rightarrow> 'h life \<Rightarrow> bool" where
  "api_step env l l' \<longleftrightarrow> life_step env Normal l l' \<or> life_step env Fault l l'"

definition simulated :: "'h env \<Rightarrow> ('h orch, 'a) prog \<Rightarrow> bool" where
  "simulated env m \<longleftrightarrow> (\<forall>l. (api_step env)\<^sup>*\<^sup>* l (l\<lparr>lf_orch := snd (m (lf_orch l))\<rparr>))"

named_theorems sim_intros \<open>programs that are sequences of steps of the life cycle\<close>

lemma simulated_still: "(\<And>ob. snd (m ob) = ob) \<Longrightarrow> simulated env m"
  by (simp add: simulated_def)

lemma simulated_one: "(\<And>l. api_step env l (l\<lparr>lf_orch := snd (m (lf_orch l))\<rparr>)) \<Longrightarrow> simulated env m"
  by (simp add: simulated_def r_into_rtranclp)

lemma simulated_basic [sim_intros]: "simulated env (ret x)" "simulated env (fail e)" "simulated env (look f)"
  "simulated env (lift_result q)"
  by (rule simulated_still; simp add: ret_def fail_def look_def lift_result_def split: sum.split)+

lemma simulated_attempt [sim_intros]:
  fixes env :: "'h env"
  assumes "simulated env m" and "\<And>r. simulated env (k r)"
  shows "simulated env (attempt m k)"
  unfolding simulated_def
proof
  fix l :: "'h life"
  obtain r ob where m: "m (lf_orch l) = (r, ob)" by fastforce
  let ?l = "l\<lparr>lf_orch := ob\<rparr>"
  have "(api_step env)\<^sup>*\<^sup>* l ?l" using assms(1) m unfolding simulated_def by (metis snd_conv)
  moreover have "(api_step env)\<^sup>*\<^sup>* ?l (?l\<lparr>lf_orch := snd (k r (lf_orch ?l))\<rparr>)"
    using assms(2) unfolding simulated_def by blast
  ultimately show "(api_step env)\<^sup>*\<^sup>* l (l\<lparr>lf_orch := snd (attempt m k (lf_orch l))\<rparr>)"
    by (simp add: attempt_def m)
qed

lemma simulated_cases [sim_intros]:
  "(c \<Longrightarrow> simulated env m) \<Longrightarrow> (\<not> c \<Longrightarrow> simulated env n) \<Longrightarrow> simulated env (if c then m else n)"
  "simulated env m \<Longrightarrow> (\<And>x. simulated env (f x)) \<Longrightarrow> simulated env (case p of None \<Rightarrow> m | Some x \<Rightarrow> f x)"
  "(\<And>e. simulated env (g e)) \<Longrightarrow> (\<And>x. simulated env (f' x)) \<Longrightarrow> simulated env (case q of Inl e \<Rightarrow> g e | Inr x \<Rightarrow> f' x)"
  "(\<And>x y. simulated env (h x y)) \<Longrightarrow> simulated env (case t of (x, y) \<Rightarrow> h x y)"
  by (auto split: option.splits sum.splits prod.splits)

lemma simulated_seq [sim_intros]: "simulated env m \<Longrightarrow> (\<And>x. simulated env (k x)) \<Longrightarrow> simulated env (seq m k)"
  unfolding seq_def by (intro sim_intros)

lemma simulated_write [sim_intros]:
  "simulated env m \<Longrightarrow> (\<And>x. simulated env (k x)) \<Longrightarrow> simulated env (or_write m w k)"
  "(\<And>b. simulated env (k' b)) \<Longrightarrow> simulated env (readJSON body k')"
  "simulated env m \<Longrightarrow> simulated env (wrap p m)"
  unfolding or_write_def readJSON_def wrap_def by (intro sim_intros; assumption?)+

lemma simulated_loop [sim_intros]: "(\<And>x l. simulated env (f x l)) \<Longrightarrow> simulated env (fold_prog xs f l)"
  by (induction xs arbitrary: l) (auto intro: sim_intros)

text \<open>Reading the database pops faults at most: a step labelled so.\<close>

interpretation reading: indifferent "\<lambda>s. s\<lparr>st_faults := []\<rparr>"
  by unfold_locales simp

lemma only_faults: "t\<lparr>st_faults := []\<rparr> = s\<lparr>st_faults := []\<rparr> \<Longrightarrow> t = s\<lparr>st_faults := st_faults t\<rparr>"
  by (cases t; cases s) simp

lemma simulated_read:
  fixes env :: "'h env"
  assumes "\<And>c. keeps (\<lambda>s. s\<lparr>st_faults := []\<rparr> = c) m"
  shows "simulated env (db m)"
proof (rule simulated_one)
  fix l :: "'h life"
  have "(snd (m s))\<lparr>st_faults := []\<rparr> = s\<lparr>st_faults := []\<rparr>" for s
    using assms by (simp add: keeps_def)
  from only_faults [OF this] obtain fs where fs: "snd (m (o_store (lf_orch l))) = (o_store (lf_orch l))\<lparr>st_faults := fs\<rparr>" by metis
  have "snd (db m (lf_orch l)) = lf_orch l\<lparr>o_store := snd (m (o_store (lf_orch l)))\<rparr>"
    by (simp add: db_eq split: prod.split)
  then show "api_step env l (l\<lparr>lf_orch := snd (db m (lf_orch l))\<rparr>)"
    unfolding api_step_def fs by (simp add: life_step.ls_fault)
qed

lemmas simulated_reads [sim_intros] = reading.unseen_reads [THEN simulated_read] reading.unseen_DeploymentFilled [THEN simulated_read]

text \<open>The writes to the database are the steps of the world.\<close>

lemma simulated_world: "(\<And>s. world_step s (snd (m s))) \<Longrightarrow> simulated env (db m)"
  by (rule simulated_one) (auto simp: api_step_def db_eq intro!: life_step.ls_world split: prod.split, metis snd_conv)

lemma simulated_writes [sim_intros]:
  "simulated env (db (CreateConnection k b))" "simulated env (db (UpdateConnection k b'))"
  "simulated env (db (DeleteConnection i))" "simulated env (db (CreateProfile n spec))"
  "simulated env (db (UpdateProfileSpec i spec))" "simulated env (db (RenameProfile i n))"
  "simulated env (db (DeleteProfile i))" "simulated env (db (CreateDeployment d))"
  "simulated env (db (UpdateDeploymentSpec i spec))" "simulated env (db (MarkDeploymentDeleted i))"
  "simulated env (db (AddManagedVM v))" "simulated env (db (TouchAgent i))"
  "simulated env (db (SetVMDataState i ds n mf))" "simulated env (db (RebindManagedVM i n n'))"
  "simulated env (db (SetFillTotal i z))" "simulated env (db (WorkOrderForToken vm))"
  "simulated env (db (ReportFillProgress i z mb fin n))" "simulated env (db (CreateSchedule sc))"
  "simulated env (db (UpdateSchedule sc))" "simulated env (db (DeleteSchedule i))"
  "simulated env (db (EnsureDiscoveredVM n))" "simulated env (db (SetDiscoveredInspection i rep))"
  "simulated env (db (TouchDiscoveredAgent i))" "simulated env (db (SetDiscoveredStatus i dst))"
  "simulated env (db (DeleteDiscoveredVM i))"
  by (rule simulated_world; rule world_step.intros)+

lemma simulated_platform [sim_intros]: "simulated env (hv m)"
  by (rule simulated_one) (auto simp: api_step_def hv_eq intro: life_step.ls_platform split: prod.split)

lemma simulated_starts [sim_intros]:
  "simulated env (StartDeploy d oc)" "simulated env (StartTeardown d)" "simulated env (StartPower d on)"
  "simulated env (Cancel i)"
  "rt \<in> {RunInitialFill, RunIncremental, RunVerify} \<Longrightarrow> simulated env (StartFill d rt)"
  by (rule simulated_one; auto simp: api_step_def intro: life_step.intros)+

lemma simulated_OpenDriver [sim_intros]: "simulated env (OpenDriver env' i)"
  unfolding OpenDriver_def by (intro sim_intros)

lemma simulated_conflicts [sim_intros]: "simulated env (DetectConflicts env' d)"
  unfolding DetectConflicts_def findConflicts_def conflict_of_def Let_def by (intro sim_intros)

lemma simulated_adopt [sim_intros]: "simulated env (AdoptRebind env' dv)" "simulated env (AdoptNew env' dv n c j)"
  unfolding AdoptRebind_def AdoptNew_def original_def locate_def old_vm_warning_def setDataStateFromReport_def
    join_target_def default_connection_def target_deployment_def add_vm_def Let_def
  by (intro sim_intros)+

text \<open>The handlers, file by file.\<close>

lemma simulated_config_handlers [sim_intros]:
  "simulated env (createConnection box rnd b1)" "simulated env (updateConnection box rnd i b1)"
  "simulated env (getConnection i)" "simulated env listConnections" "simulated env (deleteConnection i)"
  "simulated env (createProfile b2)" "simulated env (updateProfile i b2)" "simulated env (exportProfile i)"
  "simulated env (importProfile b3)" "simulated env (getProfile i)" "simulated env listProfiles"
  "simulated env (deleteProfile i)" "simulated env (listProfileVersions i)" "simulated env (getProfileVersion i v)"
  "simulated env (listSchedules i)" "simulated env (createSchedule zones t i b4)" "simulated env (getSchedule i)"
  "simulated env (updateSchedule zones t i b4)" "simulated env (deleteSchedule i)"
  unfolding createConnection_def updateConnection_def getConnection_def listConnections_def deleteConnection_def
    createProfile_def updateProfile_def exportProfile_def importProfile_def store_profile_def getProfile_def
    listProfiles_def deleteProfile_def listProfileVersions_def getProfileVersion_def listSchedules_def
    createSchedule_def getSchedule_def updateSchedule_def deleteSchedule_def Let_def
  by (intro sim_intros)+

lemma simulated_fleet_handlers [sim_intros]:
  "simulated env (createDeployment b1)" "simulated env (updateDeploymentSpec i b2)" "simulated env (getDeployment i)"
  "simulated env listDeployments" "simulated env (listRuns i)" "simulated env (validateConnection env' i)"
  "simulated env (listPlacementOptions env' i)" "simulated env (deployDeployment i b3)" "simulated env (listConflicts env' i)"
  "simulated env (teardownDeployment i)" "simulated env (powerDeployment i b4)" "simulated env (cancelDeployment i)"
  "simulated env (listDeploymentVMs i)" "simulated env (listRunSamples i)" "simulated env (getVMConsole env' i q)"
  unfolding createDeployment_def updateDeploymentSpec_def getDeployment_def listDeployments_def listRuns_def
    validateConnection_def listPlacementOptions_def deployDeployment_def listConflicts_def teardownDeployment_def
    powerDeployment_def cancelDeployment_def listDeploymentVMs_def listRunSamples_def getVMConsole_def Let_def
  by (intro sim_intros)+

lemma simulated_fill_handler [sim_intros]: "simulated env (fillDeployment i b)"
  unfolding fillDeployment_def by (intro sim_intros) auto

lemma simulated_agent_handlers [sim_intros]:
  "simulated env (handleBootScript cf mac)" "simulated env (handleBootFile f)" "simulated env (handleAgentRegister b1)"
  "simulated env (handleAgentHeartbeat b1)" "simulated env (handleAgentProgress b2)"
  "simulated env (handleDiscoveryReport b1)" "simulated env (handleDiscoveryHeartbeat b3)"
  "simulated env listDiscoveredVMs" "simulated env (deleteDiscoveredVM i)" "simulated env (adoptDiscoveredVM env' i b4)"
  unfolding handleBootScript_def handleDiscoveryBoot_def handleBootFile_def handleAgentRegister_def handleAgentHeartbeat_def
    agentAuth_def agentRespond_def handleAgentProgress_def handleDiscoveryReport_def handleDiscoveryHeartbeat_def
    discoveryAuth_def listDiscoveredVMs_def deleteDiscoveredVM_def adoptDiscoveredVM_def Let_def
  by (intro sim_intros)+

lemma simulated_api: "simulated env (api_handler ap mo c)"
  unfolding api_handler_def by (cases c) (simp_all add: sim_intros)

lemma serve_orch:
  "\<exists>m :: ('h orch, response) prog. simulated env m \<and> sv_orch (snd (serve ap mo rq c sv)) = snd (m (sv_orch sv))"
proof -
  have still: "\<exists>m :: ('h orch, response) prog. simulated env m \<and> sv_orch sv = snd (m (sv_orch sv))"
    by (rule exI [of _ "ret noContent"]) (simp add: sim_intros, simp add: ret_def)
  have run: "\<exists>m' :: ('h orch, response) prog. simulated env m' \<and> snd (m (sv_orch sv)) = snd (m' (sv_orch sv))"
    if "simulated env m" for m :: "('h orch, response) prog"
    using that by blast
  show ?thesis
  proof (cases c)
    case (Protected a)
    then show ?thesis using still run [OF simulated_api [of env ap mo a]]
      by (auto simp: serve_def Let_def requireAuth_def on_snd ret_def)
  qed (use still in \<open>auto simp: serve_def Let_def on_snd ret_def intro!: run sim_intros\<close>)
qed

text \<open>
  C8. The API refines the life cycle of jobs: whatever request is served from a reachable
  state, with or without failing statements, is a sequence of life-cycle steps other than a
  crash, so the state it leaves is reachable as well and every invariant of the life cycle
  holds of a system driven by its HTTP API.
\<close>

theorem api_refines_life:
  assumes "life_reach env A l" and "{Normal, Fault} \<subseteq> A" and "serve ap mo rq c \<lparr>sv_orch = lf_orch l, sv_sessions = ss\<rparr> = (r, sv)"
  shows "(api_step env)\<^sup>*\<^sup>* l (l\<lparr>lf_orch := sv_orch sv\<rparr>) \<and> life_reach env A (l\<lparr>lf_orch := sv_orch sv\<rparr>)"
proof -
  obtain m :: "('a orch, response) prog" where m: "simulated env m" "sv_orch sv = snd (m (lf_orch l))"
    using serve_orch [of env ap mo rq c "\<lparr>sv_orch = lf_orch l, sv_sessions = ss\<rparr>"] assms(3) by auto
  then have steps: "(api_step env)\<^sup>*\<^sup>* l (l\<lparr>lf_orch := sv_orch sv\<rparr>)" by (simp add: simulated_def)
  then have "life_reach env A (l\<lparr>lf_orch := sv_orch sv\<rparr>)"
  proof (induction rule: rtranclp_induct)
    case (step x y)
    then show ?case using assms(2) unfolding api_step_def by (auto intro: lr_step)
  qed (rule assms(1))
  with steps show ?thesis ..
qed

section \<open>The server at work\<close>

definition demo_api :: "fake api" where
  "demo_api = \<lparr>ap_Config = demo_config, ap_Env = demo_env,
     ap_Box = \<lparr>NonceSize = 12, Seal = (\<lambda>nonce p. p), OpenSealed = (\<lambda>nonce c. Inr c)\<rparr>,
     ap_Zones = (\<lambda>_. None), ap_Version = ''dev'', ap_OpenAPI = ''openapi: 3.1.0'', ap_LLMS = ''# GhostFleet'', ap_Web = None\<rparr>"

definition demo_moment :: moment where
  "demo_moment = \<lparr>mo_Now = 7, mo_Rand = fixed_rand\<rparr>"

definition with_key :: "string \<Rightarrow> request" where
  "with_key k = \<lparr>rq_Cookie = Some ''stale'', rq_APIKey = k, rq_Authorization = '''', rq_QueryKey = '''',
     rq_TLS = False, rq_ForwardedProto = ''''\<rparr>"


theorem api_refines_life_witness:
  "let l = \<lparr>lf_orch = vm_orch, lf_fills = []\<rparr>; sv = \<lparr>sv_orch = vm_orch, sv_sessions = Map.empty\<rparr>
   in \<exists>r sv'. serve demo_api demo_moment (with_key ''k1'') (Protected (CPower (demo_rand 1) (Inr True))) sv = (Inr r, sv')
        \<and> re_Status r = 202 \<and> length (o_jobs (sv_orch sv')) = 1
        \<and> life_reach demo_env {Normal, Fault} (l\<lparr>lf_orch := sv_orch sv'\<rparr>)"
proof -
  let ?l = "\<lparr>lf_orch = vm_orch, lf_fills = []\<rparr> :: fake life" and ?sv = "\<lparr>sv_orch = vm_orch, sv_sessions = Map.empty\<rparr>"
  have reach: "life_reach demo_env {Normal, Fault} ?l"
    unfolding vm_orch_def by (rule lr_init) (simp_all add: vm_store_reachable vm_store_eq)
  have allow: "allowed (ap_Config demo_api) (mo_Now demo_moment) (with_key ''k1'') Map.empty"
    by (simp add: allowed_def demo_api_def demo_config_def with_key_def hasValidAPIKey_def request_key_def)
  have dep: "st_deps vm_store = [demo_dep\<lparr>d_ID := demo_rand 1, d_Status := DeploymentNew\<rparr>]"
    by (simp add: vm_store_eq fleet_store_eq)
  obtain r ob where run: "powerDeployment (demo_rand 1) (Inr True) vm_orch = (Inr r, ob)"
    and ok: "re_Status r = 202" "length (o_jobs ob) = 1"
    using dep vm_store_eq
    by (auto simp: powerDeployment_def readJSON_def or_write_eq db_eq vm_orch_def GetDeployment_def StartPower_def acquire_def
        or_release_def CreateRun_def insert_run_def spawn_def deployment_gone_def eval_simps Let_def runs_unique_def dep_ids_def)
  have s: "serve demo_api demo_moment (with_key ''k1'') (Protected (CPower (demo_rand 1) (Inr True))) ?sv
      = (Inr r, ?sv\<lparr>sv_orch := ob\<rparr>)"
    using allow run by (simp add: serve_def Let_def requireAuth_def on_orch_eq api_handler_def)
  have "serve demo_api demo_moment (with_key ''k1'') (Protected (CPower (demo_rand 1) (Inr True)))
      \<lparr>sv_orch = lf_orch ?l, sv_sessions = Map.empty\<rparr> = (Inr r, ?sv\<lparr>sv_orch := ob\<rparr>)"
    using s by simp
  note refined = api_refines_life [OF reach _ this]
  show ?thesis using s ok refined by (simp add: Let_def)
qed

end
