(* ===== verification/Vsphere.thy ===== *)
theory Vsphere
  imports Hypervisor
begin

text \<open>
  \<open>internal/hypervisor/vsphere/driver.go\<close>: the driver for VMware vCenter. What the code calls
  of the govmomi SDK is the record \<open>vcenter\<close>, a parameter of every operation: calls to the
  server, which change its state \<open>'v\<close> or fail, and a few pure helpers. Starting a task and
  waiting for it is one call where the code treats both errors alike. Managed objects are their
  references. Of a device the model keeps what the driver writes or reads; bus and unit numbers
  are the SDK's. The \<open>context\<close> is part of the server's state, as in theory \<open>Hypervisor\<close>.
\<close>

section \<open>The SDK\<close>

type_synonym moref = string

record vdisk =
  dk_Key :: int
  dk_File :: string
  dk_Mode :: string
  dk_Thin :: bool
  dk_CapacityKB :: int

datatype device =
    ParaVirtualSCSI
  | VirtualDisk vdisk
  | EthernetCard string string string
  | SerialPort "string option" bool
  | OtherDevice

record vm_config =
  vg_Annotation :: string
  vg_Devices :: "device list"

record vm_props =
  mp_Self :: moref
  mp_Name :: string
  mp_PoweredOn :: bool
  mp_Config :: "vm_config option"
  mp_Datastores :: "moref list"

record config_spec =
  sp_Name :: string
  sp_GuestId :: string
  sp_Firmware :: string
  sp_NumCPUs :: int
  sp_MemoryMB :: int
  sp_VmPathName :: string
  sp_Annotation :: string
  sp_Devices :: "device list"
  sp_NetworkBoot :: string

datatype reconfigure = Annotate string | CreateDevices "device list" | EditDisks "vdisk list"

text \<open>A response: its status code and text, and the body as the chunks that \<open>Read\<close> yields
  before it ends or fails.\<close>

type_synonym stream = "string list \<times> go_error option"

record download =
  dl_Status :: nat
  dl_Text :: string
  dl_Body :: stream

record 'v vcenter =
  vc_ParseURL :: "string \<Rightarrow> go_error + string"
  vc_Connect :: "string \<Rightarrow> string \<Rightarrow> string \<Rightarrow> bool \<Rightarrow> ('v, unit) prog"
  vc_Login :: "('v, unit) prog"
  vc_About :: "'v \<Rightarrow> string \<times> string"
  vc_RootFolder :: "'v \<Rightarrow> moref"
  vc_Datacenter :: "string \<Rightarrow> ('v, moref) prog"
  vc_DefaultDatacenter :: "('v, moref) prog"
  vc_DatacenterList :: "('v, (moref \<times> string) list) prog"
  vc_ComputeResourceList :: "moref \<Rightarrow> ('v, (moref \<times> string) list) prog"
  vc_Hosts :: "moref \<Rightarrow> ('v, moref list) prog"
  vc_ObjectName :: "moref \<Rightarrow> ('v, string) prog"
  vc_ResourcePoolList :: "moref \<Rightarrow> ('v, string list) prog"
  vc_DatastoreList :: "moref \<Rightarrow> ('v, (moref \<times> string) list) prog"
  vc_Summary :: "moref \<Rightarrow> ('v, int \<times> int) prog"
  vc_NetworkList :: "moref \<Rightarrow> ('v, string list) prog"
  vc_CreateContainerView :: "moref \<Rightarrow> string \<Rightarrow> ('v, moref) prog"
  vc_DestroyView :: "moref \<Rightarrow> ('v, unit) prog"
  vc_RetrieveFolders :: "moref \<Rightarrow> ('v, (moref \<times> string list) list) prog"
  vc_RetrieveView :: "moref \<Rightarrow> ('v, vm_props list) prog"
  vc_RetrieveVMs :: "moref list \<Rightarrow> ('v, vm_props list) prog"
  vc_InventoryPath :: "moref \<Rightarrow> ('v, string) prog"
  vc_HostSystem :: "moref \<Rightarrow> string \<Rightarrow> ('v, moref) prog"
  vc_HostPool :: "moref \<Rightarrow> ('v, moref) prog"
  vc_ResourcePool :: "moref \<Rightarrow> string \<Rightarrow> ('v, moref) prog"
  vc_DefaultResourcePool :: "moref \<Rightarrow> ('v, moref) prog"
  vc_ComputeResource :: "moref \<Rightarrow> string \<Rightarrow> ('v, moref) prog"
  vc_ComputePool :: "moref \<Rightarrow> ('v, moref) prog"
  vc_Datastore :: "moref \<Rightarrow> string \<Rightarrow> ('v, string) prog"
  vc_Network :: "moref \<Rightarrow> string \<Rightarrow> ('v, moref) prog"
  vc_EthernetBacking :: "moref \<Rightarrow> ('v, string) prog"
  vc_Folder :: "moref \<Rightarrow> string \<Rightarrow> ('v, moref) prog"
  vc_DefaultFolder :: "moref \<Rightarrow> ('v, moref) prog"
  vc_CreateFolder :: "moref \<Rightarrow> string \<Rightarrow> ('v, moref) prog"
  vc_Children :: "moref \<Rightarrow> ('v, (string \<times> moref) list) prog"
  vc_CreateVM :: "moref \<Rightarrow> config_spec \<Rightarrow> moref \<Rightarrow> moref option \<Rightarrow> ('v, moref) prog"
  vc_Reconfigure :: "moref \<Rightarrow> reconfigure \<Rightarrow> ('v, unit) prog"
  vc_Device :: "moref \<Rightarrow> ('v, device list) prog"
  vc_Properties :: "moref \<Rightarrow> ('v, vm_props) prog"
  vc_PowerOn :: "moref \<Rightarrow> ('v, unit) prog"
  vc_PowerOff :: "moref \<Rightarrow> ('v, unit) prog"
  vc_Destroy :: "moref \<Rightarrow> ('v, unit) prog"
  vc_GetCategory :: "string \<Rightarrow> ('v, string) prog"
  vc_CreateCategory :: "string \<Rightarrow> ('v, string) prog"
  vc_GetTag :: "string \<Rightarrow> string \<Rightarrow> ('v, string) prog"
  vc_CreateTag :: "string \<Rightarrow> string \<Rightarrow> ('v, string) prog"
  vc_AttachTag :: "string \<Rightarrow> moref \<Rightarrow> ('v, unit) prog"
  vc_ServiceTicket :: "moref \<Rightarrow> string \<Rightarrow> ('v, string \<times> string option) prog"
  vc_Download :: "string \<Rightarrow> string \<Rightarrow> string option \<Rightarrow> ('v, download) prog"
  vc_DatastorePath :: "string \<Rightarrow> (string \<times> string) option"
  vc_NewKey :: "device list \<Rightarrow> int"
  vc_IsGone :: "go_error \<Rightarrow> bool"
  vc_NameTaken :: "go_error \<Rightarrow> bool"

section \<open>The driver's state\<close>

text \<open>Beside the server: whether the REST client, needed for tags only, has logged in.\<close>

record 'v vsphere =
  vd_Center :: 'v
  vd_Rest :: bool

definition vc :: "('v, 'a) prog \<Rightarrow> ('v vsphere, 'a) prog" where
  "vc m = on_part vd_Center vd_Center_update m"

text \<open>\<open>if x, err := m; err == nil { k }\<close>, and \<open>defer d\<close>.\<close>

definition on_ok :: "('s, 'a) prog \<Rightarrow> ('a \<Rightarrow> 'l \<Rightarrow> ('s, 'l) prog) \<Rightarrow> 'l \<Rightarrow> ('s, 'l) prog" where
  "on_ok m k l = attempt m (\<lambda>r. case r of Inl _ \<Rightarrow> ret l | Inr x \<Rightarrow> k x l)"

definition deferring :: "('s, unit) prog \<Rightarrow> ('s, 'a) prog \<Rightarrow> ('s, 'a) prog" where
  "deferring d m = attempt m (\<lambda>r. attempt d (\<lambda>_. case r of Inl e \<Rightarrow> fail e | Inr x \<Rightarrow> ret x))"

definition restClient :: "'v vcenter \<Rightarrow> ('v vsphere, unit) prog" where
  "restClient C = seq (look vd_Rest) (\<lambda>there.
     if there then ret ()
     else seq (wrap ''vAPI login (needed for tags): '' (vc (vc_Login C))) (\<lambda>_. change (vd_Rest_update (\<lambda>_. True))))"

definition vs_Info :: "'v vcenter \<Rightarrow> ('v vsphere, hv_info) prog" where
  "vs_Info C = look (\<lambda>s. case vc_About C (vd_Center s) of (product, version) \<Rightarrow>
     \<lparr>in_Product = product, in_Version = version\<rparr>)"

section \<open>Placements\<close>

definition defaultFolder :: string where "defaultFolder = ''ghostfleet''"

text \<open>A finder is its datacenter.\<close>

definition finder :: "'v vcenter \<Rightarrow> placement \<Rightarrow> ('v vsphere, moref) prog" where
  "finder C p = (let name = placement_get p ''datacenter'' in
     wrap ''resolving datacenter: '' (vc (if name \<noteq> '''' then vc_Datacenter C name else vc_DefaultDatacenter C)))"

definition listVMFolders :: "'v vcenter \<Rightarrow> moref \<Rightarrow> ('v vsphere, string list) prog" where
  "listVMFolders C dc =
     seq (vc (vc_CreateContainerView C dc ''Folder'')) (\<lambda>v.
     deferring (vc (vc_DestroyView C v)) (
     seq (vc (vc_RetrieveFolders C v)) (\<lambda>folders.
     fold_prog folders (\<lambda>(ref, childType) out.
       if ''VirtualMachine'' \<notin> set childType then ret out
       else on_ok (vc (vc_InventoryPath C ref)) (\<lambda>p out. ret (out @ [p])) out) [])))"

definition last_segment :: "string \<Rightarrow> string" where
  "last_segment path = rev (takeWhile (\<lambda>c. c \<noteq> CHR ''/'') (rev path))"

definition list_hosts :: "'v vcenter \<Rightarrow> moref \<times> string \<Rightarrow> placement_options \<Rightarrow> ('v vsphere, placement_options) prog" where
  "list_hosts C = (\<lambda>(cr, cluster) opts.
     on_ok (vc (vc_Hosts C cr)) (\<lambda>hosts. fold_prog hosts (\<lambda>h.
       on_ok (vc (vc_ObjectName C h)) (\<lambda>name l.
         ret (l\<lparr>po_Hosts := po_Hosts l @ [\<lparr>ho_Name = name, ho_Cluster = cluster\<rparr>]\<rparr>))))
       (opts\<lparr>po_Clusters := po_Clusters opts @ [cluster]\<rparr>))"

definition list_datastore :: "'v vcenter \<Rightarrow> moref \<times> string \<Rightarrow> placement_options \<Rightarrow> ('v vsphere, placement_options) prog" where
  "list_datastore C = (\<lambda>(ds, name) opts.
     seq (on_ok (vc (vc_Summary C ds)) (\<lambda>(capacity, free) d. ret (d\<lparr>do_CapacityBytes := capacity, do_FreeBytes := free\<rparr>))
       \<lparr>do_Name = name, do_FreeBytes = 0, do_CapacityBytes = 0\<rparr>) (\<lambda>d.
     ret (opts\<lparr>po_Datastores := po_Datastores opts @ [d]\<rparr>)))"

definition list_datacenter :: "'v vcenter \<Rightarrow> moref \<times> string \<Rightarrow> placement_options \<Rightarrow> ('v vsphere, placement_options) prog" where
  "list_datacenter C = (\<lambda>(dc, name) l0.
     seq (on_ok (vc (vc_ComputeResourceList C dc)) (\<lambda>crs. fold_prog crs (list_hosts C))
       (l0\<lparr>po_Datacenters := po_Datacenters l0 @ [name]\<rparr>)) (\<lambda>l1.
     seq (on_ok (vc (vc_ResourcePoolList C dc)) (\<lambda>pools l. ret (l\<lparr>po_ResourcePools := po_ResourcePools l @ pools\<rparr>)) l1) (\<lambda>l2.
     seq (on_ok (vc (vc_DatastoreList C dc)) (\<lambda>dss. fold_prog dss (list_datastore C)) l2) (\<lambda>l3.
     seq (on_ok (vc (vc_NetworkList C dc)) (\<lambda>nets l. ret (l\<lparr>po_Networks := po_Networks l @ map last_segment nets\<rparr>)) l3) (\<lambda>l4.
     on_ok (listVMFolders C dc) (\<lambda>folders l. ret (l\<lparr>po_Folders := po_Folders l @ folders\<rparr>)) l4)))))"

definition vs_ListPlacement :: "'v vcenter \<Rightarrow> ('v vsphere, placement_options) prog" where
  "vs_ListPlacement C =
     seq (wrap ''listing datacenters: '' (vc (vc_DatacenterList C))) (\<lambda>dcs.
     fold_prog dcs (list_datacenter C) \<lparr>po_Datacenters = [], po_Clusters = [], po_Hosts = [], po_ResourcePools = [],
       po_Datastores = [], po_Networks = [], po_Folders = []\<rparr>)"

text \<open>The named folder, or the default one, made on first use; a lost race is resolved again.\<close>

definition ensureFolder :: "'v vcenter \<Rightarrow> moref \<Rightarrow> string \<Rightarrow> ('v vsphere, moref) prog" where
  "ensureFolder C dc name =
     (if name \<noteq> '''' then wrap (''resolving folder '' @ go_quote name @ '': '') (vc (vc_Folder C dc name))
      else attempt (vc (vc_Folder C dc defaultFolder)) (\<lambda>r. case r of
          Inr folder \<Rightarrow> ret folder
        | Inl _ \<Rightarrow> seq (wrap ''resolving root VM folder: '' (vc (vc_DefaultFolder C dc))) (\<lambda>root.
            attempt (vc (vc_CreateFolder C root defaultFolder)) (\<lambda>q. case q of
                Inr folder \<Rightarrow> ret folder
              | Inl e \<Rightarrow> attempt (vc (vc_Folder C dc defaultFolder)) (\<lambda>again. case again of
                  Inr existing \<Rightarrow> ret existing
                | Inl _ \<Rightarrow> fail (ErrWrap (''creating folder '' @ go_quote defaultFolder @ '': '') e))))))"

definition resolve_pool :: "'v vcenter \<Rightarrow> moref \<Rightarrow> placement \<Rightarrow> moref option \<Rightarrow> ('v vsphere, moref) prog" where
  "resolve_pool C dc p host =
     (let named = placement_get p ''resourcePool''; cluster = placement_get p ''cluster'' in
      if named \<noteq> '''' then wrap (''resolving resource pool '' @ go_quote named @ '': '') (vc (vc_ResourcePool C dc named))
      else case host of
        Some h \<Rightarrow> wrap (''resource pool of host '' @ go_quote (placement_get p ''host'') @ '': '') (vc (vc_HostPool C h))
      | None \<Rightarrow>
          if cluster \<noteq> '''' then
            seq (wrap (''resolving cluster '' @ go_quote cluster @ '': '') (vc (vc_ComputeResource C dc cluster))) (\<lambda>cr.
            wrap (''resource pool of '' @ go_quote cluster @ '': '') (vc (vc_ComputePool C cr)))
          else wrap ''resolving default resource pool: '' (vc (vc_DefaultResourcePool C dc)))"

record resolved =
  rs_Pool :: moref
  rs_Host :: "moref option"
  rs_Datastore :: string
  rs_Network :: "moref option"
  rs_Folder :: moref

definition resolvePlacement :: "'v vcenter \<Rightarrow> placement \<Rightarrow> ('v vsphere, resolved) prog" where
  "resolvePlacement C p =
     seq (finder C p) (\<lambda>dc.
     seq (let name = placement_get p ''host'' in if name = '''' then ret None
          else wrap (''resolving host '' @ go_quote name @ '': '') (seq (vc (vc_HostSystem C dc name)) (\<lambda>h. ret (Some h)))) (\<lambda>host.
     seq (resolve_pool C dc p host) (\<lambda>pool.
     case Datastores p of
       [] \<Rightarrow> fail (ErrOther ''placement: datastore is required'')
     | dsName # _ \<Rightarrow>
         seq (wrap (''resolving datastore '' @ go_quote dsName @ '': '') (vc (vc_Datastore C dc dsName))) (\<lambda>ds.
         seq (let name = placement_get p ''network'' in if name = '''' then ret None
              else wrap (''resolving network '' @ go_quote name @ '': '') (seq (vc (vc_Network C dc name)) (\<lambda>n. ret (Some n)))) (\<lambda>network.
         seq (ensureFolder C dc (placement_get p ''folder'')) (\<lambda>folder.
         ret \<lparr>rs_Pool = pool, rs_Host = host, rs_Datastore = ds, rs_Network = network, rs_Folder = folder\<rparr>))))))"


section \<open>Ownership in the annotation\<close>

definition annotationOwnerKey :: string where "annotationOwnerKey = ''ghostfleet-deployment-id''"

text \<open>The first line has an em dash, three bytes in UTF-8.\<close>

definition annotation_head :: string where
  "annotation_head = ''Generated by GhostFleet '' @ [CHR 0xE2, CHR 0x80, CHR 0x94] @ '' OS-less backup source VM''"

definition vmAnnotation :: "vm_spec \<Rightarrow> string" where
  "vmAnnotation spec =
     (let a = annotation_head;
          a = (if vs_DeploymentName spec \<noteq> '''' then a @ CHR 0x0A # ''deployment: '' @ vs_DeploymentName spec else a)
      in if vs_DeploymentID spec \<noteq> '''' then a @ CHR 0x0A # annotationOwnerKey @ '': '' @ vs_DeploymentID spec else a)"

text \<open>\<open>strings.CutPrefix\<close>\<close>

definition cut_prefix :: "string \<Rightarrow> string \<Rightarrow> string option" where
  "cut_prefix s p = (if has_prefix s p then Some (drop (length p) s) else None)"

definition owner_line :: "string \<Rightarrow> string \<times> string \<Rightarrow> string \<times> string" where
  "owner_line line0 = (\<lambda>(i, name). let line = trim_space line0 in
     case cut_prefix line (annotationOwnerKey @ '':'') of
       Some v \<Rightarrow> (trim_space v, name)
     | None \<Rightarrow> (case cut_prefix line ''deployment:'' of Some v \<Rightarrow> (i, trim_space v) | None \<Rightarrow> (i, name)))"

definition parseOwner :: "string \<Rightarrow> string \<times> string" where
  "parseOwner annotation = fold owner_line (split_on CHR 0x0A annotation) ('''', '''')"

section \<open>Looking at VMs\<close>

definition isNotFound :: "'v vcenter \<Rightarrow> go_error \<Rightarrow> bool" where
  "isNotFound C e \<longleftrightarrow> vc_IsGone C e \<or> contains (error_text e) ''ManagedObjectNotFound''"

definition power_state :: "vm_props \<Rightarrow> vm_state" where
  "power_state v = (if mp_PoweredOn v then StatePoweredOn else StatePoweredOff)"

text \<open>The number of disks and the MAC of the first network card that has one.\<close>

definition scan_device :: "device \<Rightarrow> int \<times> string \<Rightarrow> int \<times> string" where
  "scan_device dev = (\<lambda>(n, mac). case dev of
      VirtualDisk _ \<Rightarrow> (n + 1, mac)
    | EthernetCard _ _ m \<Rightarrow> if mac = '''' then (n, to_lower m) else (n, mac)
    | _ \<Rightarrow> (n, mac))"

definition scan_devices :: "device list \<Rightarrow> int \<times> string" where
  "scan_devices devs = fold scan_device devs (0, '''')"

definition annotation_of :: "vm_props \<Rightarrow> string" where
  "annotation_of v = (case mp_Config v of None \<Rightarrow> '''' | Some cf \<Rightarrow> vg_Annotation cf)"

definition devices_of :: "vm_props \<Rightarrow> device list" where
  "devices_of v = (case mp_Config v of None \<Rightarrow> [] | Some cf \<Rightarrow> vg_Devices cf)"

definition full_view :: "string \<Rightarrow> vm_props \<Rightarrow> hv_vm" where
  "full_view ref v = (case scan_devices (devices_of v) of (diskCount, mac) \<Rightarrow>
     case parseOwner (annotation_of v) of (ownerID, ownerName) \<Rightarrow>
     \<lparr>h_Ref = ref, h_Name = mp_Name v, h_State = power_state v, h_DiskCount = diskCount, h_MAC = mac,
      h_OwnerID = ownerID, h_OwnerName = ownerName\<rparr>)"

definition vs_GetVM :: "'v vcenter \<Rightarrow> string \<Rightarrow> ('v vsphere, hv_vm option) prog" where
  "vs_GetVM C ref = attempt (vc (vc_Properties C ref)) (\<lambda>r. case r of
      Inl e \<Rightarrow> if isNotFound C e then ret None else fail e
    | Inr v \<Rightarrow> ret (Some (full_view ref v)))"

text \<open>Only the name and the owner are read; \<open>hv_vm\<close>'s other fields stay zero (the zero of the
  power state is neither of its constants; nothing reads it here).\<close>

definition owner_view :: "vm_props \<Rightarrow> hv_vm" where
  "owner_view v = (case parseOwner (annotation_of v) of (ownerID, ownerName) \<Rightarrow>
     \<lparr>h_Ref = mp_Self v, h_Name = mp_Name v, h_State = StatePoweredOff, h_DiskCount = 0, h_MAC = '''',
      h_OwnerID = ownerID, h_OwnerName = ownerName\<rparr>)"

definition child_vms :: "(string \<times> moref) list \<Rightarrow> moref list" where
  "child_vms children = map snd (filter (\<lambda>(ty, _). ty = ''VirtualMachine'') children)"

definition vs_FindVMs :: "'v vcenter \<Rightarrow> placement \<Rightarrow> string list \<Rightarrow> ('v vsphere, hv_vm list) prog" where
  "vs_FindVMs C p names =
     seq (resolvePlacement C p) (\<lambda>rs.
     seq (wrap ''listing folder: '' (vc (vc_Children C (rs_Folder rs)))) (\<lambda>children.
     let refs = child_vms children in
     if refs = [] then ret []
     else seq (wrap ''reading VMs: '' (vc (vc_RetrieveVMs C refs))) (\<lambda>vms.
          ret (map owner_view (filter (\<lambda>v. mp_Name v \<in> set names) vms)))))"

definition vs_FindVMByMAC :: "'v vcenter \<Rightarrow> string \<Rightarrow> ('v vsphere, hv_vm option) prog" where
  "vs_FindVMByMAC C mac0 = (let mac = to_lower mac0 in
     seq (look (\<lambda>s. vc_RootFolder C (vd_Center s))) (\<lambda>root.
     seq (wrap ''creating VM view: '' (vc (vc_CreateContainerView C root ''VirtualMachine''))) (\<lambda>view.
     deferring (vc (vc_DestroyView C view)) (
     seq (wrap ''reading VMs: '' (vc (vc_RetrieveView C view))) (\<lambda>vms.
     ret (map_option (\<lambda>v. full_view (mp_Self v) v)
       (find (\<lambda>v. mp_Config v \<noteq> None \<and> snd (scan_devices (devices_of v)) = mac) vms)))))))"

definition not_in_folder :: go_error where "not_in_folder = ErrOther ''not found in target folder''"

fun find_named :: "'v vcenter \<Rightarrow> string \<Rightarrow> moref list \<Rightarrow> ('v vsphere, moref) prog" where
  "find_named C name [] = fail not_in_folder"
| "find_named C name (ref # refs) = seq (vc (vc_ObjectName C ref)) (\<lambda>n.
     if n = name then ret ref else find_named C name refs)"

definition findVMByName :: "'v vcenter \<Rightarrow> moref \<Rightarrow> string \<Rightarrow> ('v vsphere, moref) prog" where
  "findVMByName C folder name =
     seq (wrap ''listing folder: '' (vc (vc_Children C folder))) (\<lambda>children. find_named C name (child_vms children))"

section \<open>Tags\<close>

definition isAlreadyExists :: "go_error \<Rightarrow> bool" where
  "isAlreadyExists e \<longleftrightarrow> contains (to_lower (error_text e)) ''already_exists''"

definition tagCategory :: string where "tagCategory = ''ghostfleet''"

text \<open>Get or create; losing the race against another creation counts as success.\<close>

definition get_or_create :: "string \<Rightarrow> string \<Rightarrow> ('s, string) prog \<Rightarrow> ('s, string) prog \<Rightarrow> ('s, string) prog" where
  "get_or_create what name get create = attempt get (\<lambda>g. case g of
      Inr i \<Rightarrow> ret i
    | Inl _ \<Rightarrow> attempt create (\<lambda>c. case c of
        Inr i \<Rightarrow> ret i
      | Inl e \<Rightarrow> if isAlreadyExists e then wrap (''resolving existing '' @ what @ '' '' @ go_quote name @ '': '') get
          else fail (ErrWrap (''creating '' @ what @ '' '' @ go_quote name @ '': '') e)))"

definition ensureTagID :: "'v vcenter \<Rightarrow> string \<Rightarrow> string \<Rightarrow> ('v vsphere, string) prog" where
  "ensureTagID C category tag =
     seq (get_or_create ''tag category'' category (vc (vc_GetCategory C category)) (vc (vc_CreateCategory C category))) (\<lambda>catID.
     get_or_create ''tag'' tag (vc (vc_GetTag C tag catID)) (vc (vc_CreateTag C tag catID)))"

text \<open>\<open>strings.Cut(tag, "=")\<close>\<close>

definition tag_parts :: "string \<Rightarrow> string \<times> string" where
  "tag_parts tag = (if CHR ''='' \<in> set tag
     then (takeWhile (\<lambda>c. c \<noteq> CHR ''='') tag, tl (dropWhile (\<lambda>c. c \<noteq> CHR ''='') tag))
     else (tagCategory, tag))"

definition assignTag :: "'v vcenter \<Rightarrow> moref \<Rightarrow> string \<Rightarrow> ('v vsphere, unit) prog" where
  "assignTag C ref tag0 =
     seq (restClient C) (\<lambda>_.
     case tag_parts tag0 of (category, tag) \<Rightarrow>
     seq (ensureTagID C category tag) (\<lambda>tagID. vc (vc_AttachTag C tagID ref)))"

section \<open>Changing VMs\<close>

text \<open>Conversion to \<open>int32\<close>.\<close>

definition i32 :: "int \<Rightarrow> int" where
  "i32 n = (n + 2 ^ 31) mod 2 ^ 32 - 2 ^ 31"

definition newDisk :: "'v vcenter \<Rightarrow> device list \<Rightarrow> string \<Rightarrow> disk_spec \<Rightarrow> vdisk" where
  "newDisk C devices fileName spec = \<lparr>dk_Key = vc_NewKey C devices, dk_File = fileName, dk_Mode = ''persistent'',
     dk_Thin = ds_Thin spec, dk_CapacityKB = i64 (i64 (ds_SizeGiB spec * 1024) * 1024)\<rparr>"

definition disk_file :: "string \<Rightarrow> string \<Rightarrow> int \<Rightarrow> string" where
  "disk_file ds name i = ''['' @ ds @ ''] '' @ name @ ''/'' @ name @ ''_'' @ itoa i @ ''.vmdk''"

text \<open>The disks appended to a device list, numbered from \<open>first\<close>.\<close>

fun append_disks :: "'v vcenter \<Rightarrow> string \<Rightarrow> string \<Rightarrow> int \<Rightarrow> disk_spec list \<Rightarrow> device list \<Rightarrow> device list" where
  "append_disks C ds name first [] devices = devices"
| "append_disks C ds name first (d # disks) devices =
     append_disks C ds name (first + 1) disks (devices @ [VirtualDisk (newDisk C devices (disk_file ds name first) d)])"

definition console_port :: "string \<Rightarrow> string \<Rightarrow> device" where
  "console_port ds name = SerialPort (Some (''['' @ ds @ ''] '' @ name @ ''/console.log'')) True"

definition vm_config_spec :: "vm_spec \<Rightarrow> string \<Rightarrow> device list \<Rightarrow> config_spec" where
  "vm_config_spec spec ds devices = \<lparr>sp_Name = vs_Name spec, sp_GuestId = ''otherGuest64'', sp_Firmware = ''efi'',
     sp_NumCPUs = i32 (vs_VCPUs spec), sp_MemoryMB = vs_MemoryMiB spec, sp_VmPathName = ''['' @ ds @ '']'',
     sp_Annotation = vmAnnotation spec, sp_Devices = devices, sp_NetworkBoot = ''ipv6''\<rparr>"

text \<open>Creating, or adopting the VM that a half-finished attempt left. The re-stamping of its
  annotation is best effort: both its errors are dropped. The reference that comes back beside a
  tagging error is read by nobody.\<close>

definition create_or_adopt :: "'v vcenter \<Rightarrow> resolved \<Rightarrow> vm_spec \<Rightarrow> config_spec \<Rightarrow> ('v vsphere, moref) prog" where
  "create_or_adopt C rs spec config =
     attempt (vc (vc_CreateVM C (rs_Folder rs) config (rs_Pool rs) (rs_Host rs))) (\<lambda>r. case r of
         Inr ref \<Rightarrow> ret ref
       | Inl e \<Rightarrow>
           if vc_NameTaken C e then
             seq (wrap (''adopting existing VM '' @ go_quote (vs_Name spec) @ '': '') (findVMByName C (rs_Folder rs) (vs_Name spec))) (\<lambda>ref.
             seq (ignore (vc (vc_Reconfigure C ref (Annotate (vmAnnotation spec))))) (\<lambda>_. ret ref))
           else fail (ErrWrap (''creating VM '' @ go_quote (vs_Name spec) @ '': '') e))"

definition vs_CreateVM :: "'v vcenter \<Rightarrow> vm_spec \<Rightarrow> ('v vsphere, string) prog" where
  "vs_CreateVM C spec =
     seq (resolvePlacement C (vs_Placement spec)) (\<lambda>rs.
     let ds = rs_Datastore rs; devices = append_disks C ds (vs_Name spec) 1 (vs_Disks spec) [ParaVirtualSCSI] in
     seq (case rs_Network rs of
         None \<Rightarrow> ret devices
       | Some n \<Rightarrow> seq (wrap ''network backing: '' (vc (vc_EthernetBacking C n))) (\<lambda>backing.
           ret (devices @ [EthernetCard ''vmxnet3'' backing '''']))) (\<lambda>devices.
     seq (create_or_adopt C rs spec (vm_config_spec spec ds (devices @ [console_port ds (vs_Name spec)]))) (\<lambda>ref.
     if vs_Tag spec \<noteq> ''''
     then seq (wrap (''tagging VM '' @ go_quote (vs_Name spec) @ '': '') (assignTag C ref (vs_Tag spec))) (\<lambda>_. ret ref)
     else ret ref)))"

fun disks_in :: "device list \<Rightarrow> vdisk list" where
  "disks_in [] = []"
| "disks_in (VirtualDisk d # devs) = d # disks_in devs"
| "disks_in (_ # devs) = disks_in devs"

definition vs_AddDisks :: "'v vcenter \<Rightarrow> string \<Rightarrow> disk_spec list \<Rightarrow> ('v vsphere, unit) prog" where
  "vs_AddDisks C ref disks =
     seq (wrap ''reading devices: '' (vc (vc_Device C ref))) (\<lambda>devices.
     if ParaVirtualSCSI \<notin> set devices then fail (ErrOther (''vm '' @ ref @ '' has no pvscsi controller''))
     else seq (wrap ''resolving VM datastore: '' (vc (vc_Properties C ref))) (\<lambda>v.
     case mp_Datastores v of
       [] \<Rightarrow> fail (ErrOther (''vm '' @ ref @ '' has no datastore''))
     | ds # _ \<Rightarrow> seq (wrap ''datastore name: '' (vc (vc_ObjectName C ds))) (\<lambda>dsName.
         let existing = length (disks_in devices) in
         vc (vc_Reconfigure C ref (CreateDevices (drop (length devices)
           (append_disks C dsName (mp_Name v) (int existing + 1) disks devices)))))))"

definition vs_ExtendDisks :: "'v vcenter \<Rightarrow> string \<Rightarrow> int \<Rightarrow> ('v vsphere, unit) prog" where
  "vs_ExtendDisks C ref sizeGiB =
     seq (wrap ''reading devices: '' (vc (vc_Device C ref))) (\<lambda>devices.
     let target = i64 (i64 (sizeGiB * 1024) * 1024);
         change = map (dk_CapacityKB_update (\<lambda>_. target)) (filter (\<lambda>d. dk_CapacityKB d < target) (disks_in devices)) in
     if length change = 0 then ret () else vc (vc_Reconfigure C ref (EditDisks change)))"

definition vs_PowerOn :: "'v vcenter \<Rightarrow> string \<Rightarrow> ('v vsphere, unit) prog" where
  "vs_PowerOn C ref = vc (vc_PowerOn C ref)"

definition vs_PowerOff :: "'v vcenter \<Rightarrow> string \<Rightarrow> ('v vsphere, unit) prog" where
  "vs_PowerOff C ref = vc (vc_PowerOff C ref)"

definition vs_DeleteVM :: "'v vcenter \<Rightarrow> string \<Rightarrow> ('v vsphere, unit) prog" where
  "vs_DeleteVM C ref = seq (vs_GetVM C ref) (\<lambda>existing. case existing of
      None \<Rightarrow> ret ()
    | Some v \<Rightarrow> seq (if h_State v = StatePoweredOn then ignore (vc (vc_PowerOff C ref)) else ret ()) (\<lambda>_.
        vc (vc_Destroy C ref)))"


section \<open>The serial console\<close>

definition consoleTailBytes :: nat where "consoleTailBytes = 4 * 2 ^ 20"

text \<open>The rolling tail: NULs dropped, never much more than twice what is kept.\<close>

definition keep_last :: "nat \<Rightarrow> 'a list \<Rightarrow> 'a list" where
  "keep_last n buf = drop (length buf - n) buf"

fun tail_loop :: "nat \<Rightarrow> string list \<Rightarrow> string \<Rightarrow> string" where
  "tail_loop n [] buf = buf"
| "tail_loop n (chunk # chunks) buf =
     (let buf = buf @ filter (\<lambda>b. b \<noteq> CHR 0x00) chunk in
      tail_loop n chunks (if length buf > 2 * n then keep_last n buf else buf))"

definition tailText :: "stream \<Rightarrow> nat \<Rightarrow> go_error + string" where
  "tailText r n = (case r of (chunks, err) \<Rightarrow> let buf = tail_loop n chunks [] in
     case err of Some e \<Rightarrow> Inl e | None \<Rightarrow> Inr (if length buf > n then keep_last n buf else buf))"

text \<open>The status comes back beside the error.\<close>

definition datastoreGet :: "'v vcenter \<Rightarrow> moref \<Rightarrow> string \<Rightarrow> string \<Rightarrow> ('v vsphere, nat \<times> (go_error + stream)) prog" where
  "datastoreGet C ds path byteRange =
     attempt (vc (vc_ServiceTicket C ds path)) (\<lambda>t. case t of
         Inl e \<Rightarrow> ret (0, Inl e)
       | Inr (u, ticket) \<Rightarrow> attempt (vc (vc_Download C u byteRange ticket)) (\<lambda>d. case d of
           Inl e \<Rightarrow> ret (0, Inl e)
         | Inr res \<Rightarrow>
             if dl_Status res \<noteq> 200 \<and> dl_Status res \<noteq> 206
             then ret (dl_Status res, Inl (ErrOther (''download '' @ path @ '': '' @ dl_Text res)))
             else ret (dl_Status res, Inr (dl_Body res))))"

definition downloadTail :: "'v vcenter \<Rightarrow> moref \<Rightarrow> string \<Rightarrow> nat \<Rightarrow> ('v vsphere, nat \<times> (go_error + stream)) prog" where
  "downloadTail C ds path n =
     seq (datastoreGet C ds path (''bytes=-'' @ itoa_nat n)) (\<lambda>(status, r). case r of
         Inl _ \<Rightarrow> if status \<noteq> 404 then datastoreGet C ds path '''' else ret (status, r)
       | Inr _ \<Rightarrow> ret (status, r))"

definition last_console :: "device list \<Rightarrow> string" where
  "last_console devs = fold (\<lambda>dev path. case dev of SerialPort (Some file) _ \<Rightarrow> file | _ \<Rightarrow> path) devs ''''"

definition lift_text :: "go_error + 'a \<Rightarrow> ('s, 'a) prog" where
  "lift_text r = (case r of Inl e \<Rightarrow> fail e | Inr x \<Rightarrow> ret x)"

definition read_console :: "'v vcenter \<Rightarrow> moref \<Rightarrow> string \<Rightarrow> string \<Rightarrow> ('v vsphere, string) prog" where
  "read_console C ds path logPath =
     seq (downloadTail C ds path consoleTailBytes) (\<lambda>(status, r). case r of
         Inl e \<Rightarrow> if status = 404 then ret '''' else fail (ErrWrap (''reading '' @ logPath @ '': '') e)
       | Inr rc \<Rightarrow> seq (lift_text (tailText rc consoleTailBytes)) (\<lambda>txt.
           if trim_space txt = '''' then
             seq (datastoreGet C ds path '''') (\<lambda>(_, q). case q of
                 Inl _ \<Rightarrow> ret ''''
               | Inr rc \<Rightarrow> lift_text (tailText rc consoleTailBytes))
           else ret txt))"

text \<open>The datastore is found among the VM's by its name.\<close>

fun console_in :: "'v vcenter \<Rightarrow> string \<times> string \<Rightarrow> string \<Rightarrow> moref list \<Rightarrow> ('v vsphere, string) prog" where
  "console_in C dp logPath [] = ret ''''"
| "console_in C dp logPath (ds # dss) = attempt (vc (vc_ObjectName C ds)) (\<lambda>r.
     if r = Inr (fst dp) then read_console C ds (snd dp) logPath else console_in C dp logPath dss)"

definition vs_ReadConsole :: "'v vcenter \<Rightarrow> string \<Rightarrow> ('v vsphere, string) prog" where
  "vs_ReadConsole C ref = attempt (vc (vc_Properties C ref)) (\<lambda>r. case r of
      Inl e \<Rightarrow> if isNotFound C e then ret '''' else fail e
    | Inr v \<Rightarrow> let logPath = last_console (devices_of v) in
        if logPath = '''' then ret ''''
        else case vc_DatastorePath C logPath of
          None \<Rightarrow> fail (ErrOther (''unparseable console path '' @ go_quote logPath))
        | Some dp \<Rightarrow> console_in C dp logPath (mp_Datastores v))"

section \<open>The driver\<close>

definition vsphere_driver :: "'v vcenter \<Rightarrow> 'v vsphere driver" where
  "vsphere_driver C = \<lparr>Info = vs_Info C, ListPlacement = vs_ListPlacement C, CreateVM = vs_CreateVM C,
     AddDisks = vs_AddDisks C, ExtendDisks = vs_ExtendDisks C, GetVM = vs_GetVM C, FindVMs = vs_FindVMs C,
     FindVMByMAC = vs_FindVMByMAC C, PowerOn = vs_PowerOn C, PowerOff = vs_PowerOff C, ReadConsole = vs_ReadConsole C,
     DeleteVM = vs_DeleteVM C\<rparr>"

text \<open>Only the SOAP client logs in; the REST client does so on the first use of a tag.\<close>

definition vsphere_New :: "'v vcenter \<Rightarrow> 'v vsphere factory" where
  "vsphere_New C conn secret = (case vc_ParseURL C (c_Endpoint conn) of
      Inl e \<Rightarrow> fail (ErrWrap ''parsing endpoint: '' e)
    | Inr u \<Rightarrow> seq (wrap ''connecting to vCenter: '' (vc (vc_Connect C u (c_Username conn) secret (c_InsecureTLS conn)))) (\<lambda>_.
        seq (change (vd_Rest_update (\<lambda>_. False))) (\<lambda>_. ret (vsphere_driver C))))"

section \<open>The tail of a log\<close>

lemma keep_last_append: "keep_last n (keep_last n xs @ ys) = keep_last n (xs @ ys)"
proof (cases "length xs \<le> n")
  case False
  then have "xs @ ys = take (length xs - n) xs @ keep_last n xs @ ys" by (simp add: keep_last_def)
  then show ?thesis using False by (simp add: keep_last_def add.commute)
qed (simp add: keep_last_def)

lemma tail_loop_exact: "keep_last n (tail_loop n chunks buf) = keep_last n (buf @ filter (\<lambda>b. b \<noteq> CHR 0x00) (concat chunks))"
proof (induction chunks arbitrary: buf)
  case (Cons chunk chunks)
  then show ?case by (simp add: Let_def keep_last_append)
qed simp

text \<open>
  The console shows the end of the log: however the transfer is cut into chunks, a stream
  that ends gives exactly its last bytes that are not NUL, at most as many as asked for, and a
  stream that fails gives its error.
\<close>

theorem tail_text_exact:
  "tailText (chunks, err) n = (case err of
      Some e \<Rightarrow> Inl e
    | None \<Rightarrow> Inr (keep_last n (filter (\<lambda>b. b \<noteq> CHR 0x00) (concat chunks))))"
proof (cases err)
  case None
  have "keep_last n (tail_loop n chunks []) = keep_last n (filter (\<lambda>b. b \<noteq> CHR 0x00) (concat chunks))"
    by (simp add: tail_loop_exact)
  moreover have "(if length buf > n then keep_last n buf else buf) = keep_last n buf" for buf :: string
    by (simp add: keep_last_def)
  ultimately show ?thesis using None by (simp add: tailText_def Let_def)
qed (simp add: tailText_def Let_def)

section \<open>The owner is read back\<close>

lemma has_prefix_simps [simp]:
  "has_prefix s []" "has_prefix (c # s) (d # p) \<longleftrightarrow> c = d \<and> has_prefix s p" "has_prefix (a @ s) (a @ p) \<longleftrightarrow> has_prefix s p"
  by (auto simp: has_prefix_def)

definition rtrim :: "string \<Rightarrow> string" where
  "rtrim s = rev (dropWhile is_space (rev s))"

lemma rtrim_snoc: "rtrim (s @ [c]) = (if is_space c then rtrim s else s @ [c])"
  by (simp add: rtrim_def)

lemma trim_space_trail: "is_space c \<Longrightarrow> trim_space (s @ [c]) = trim_space s"
  by (cases "dropWhile is_space s = []")
     (auto simp: trim_space_def dropWhile_append dest: set_dropWhileD)

lemma trim_rtrim [simp]: "trim_space (rtrim s) = trim_space s"
  by (induction s rule: rev_induct) (simp_all add: rtrim_snoc trim_space_trail, simp add: rtrim_def)

lemma trim_space_tag:
  assumes "p \<noteq> []" "\<not> is_space (hd p)" "\<not> is_space (last p)"
  shows "trim_space (p @ s) = p @ rtrim s"
proof (induction s rule: rev_induct)
  case Nil
  then show ?case using trim_space_id [of p] assms by (simp add: rtrim_def)
next
  case (snoc c s)
  show ?case
  proof (cases "is_space c")
    case True
    then show ?thesis using snoc trim_space_trail [of c "p @ s"] by (simp add: rtrim_snoc)
  next
    case False
    then show ?thesis using trim_space_id [of "p @ s @ [c]"] assms by (simp add: rtrim_snoc)
  qed
qed

lemma owner_line_head: "owner_line annotation_head w = w"
  by (cases w) (simp add: owner_line_def, code_simp)

lemma tagged_line: "trim_space (''deployment: '' @ s) = ''deployment:'' @ rtrim (CHR '' '' # s)"
  "trim_space (annotationOwnerKey @ '': '' @ s) = (annotationOwnerKey @ '':'') @ rtrim (CHR '' '' # s)"
  using trim_space_tag [of "''deployment:''" "CHR '' '' # s"] trim_space_tag [of "annotationOwnerKey @ '':''" "CHR '' '' # s"]
  by (simp_all add: annotationOwnerKey_def is_space_def)

lemma trim_space_blank: "trim_space (CHR '' '' # s) = trim_space s"
  by (simp add: trim_space_def is_space_def)

lemma owner_line_name: "owner_line (''deployment: '' @ s) (i, name) = (i, trim_space s)"
proof -
  have "\<not> has_prefix (''deployment:'' @ rtrim (CHR '' '' # s)) (annotationOwnerKey @ '':'')"
    by (simp add: has_prefix_def annotationOwnerKey_def)
  moreover have "cut_prefix (''deployment:'' @ rtrim (CHR '' '' # s)) ''deployment:'' = Some (rtrim (CHR '' '' # s))"
    by (simp add: cut_prefix_def)
  ultimately show ?thesis
    unfolding owner_line_def Let_def tagged_line(1) by (simp add: cut_prefix_def trim_space_blank)
qed

lemma owner_line_id: "owner_line (annotationOwnerKey @ '': '' @ s) (i, name) = (trim_space s, name)"
proof -
  have "cut_prefix ((annotationOwnerKey @ '':'') @ rtrim (CHR '' '' # s)) (annotationOwnerKey @ '':'') = Some (rtrim (CHR '' '' # s))"
    by (simp add: cut_prefix_def)
  then show ?thesis unfolding owner_line_def Let_def tagged_line(2) by (simp add: trim_space_blank)
qed

text \<open>What \<open>vmAnnotation\<close> writes, \<open>parseOwner\<close> reads back, blanks around the names aside.\<close>

lemma owner_roundtrip:
  assumes "CHR 0x0A \<notin> set (vs_DeploymentID spec)" "CHR 0x0A \<notin> set (vs_DeploymentName spec)"
  shows "parseOwner (vmAnnotation spec) = (trim_space (vs_DeploymentID spec), trim_space (vs_DeploymentName spec))"
proof -
  have h: "CHR 0x0A \<notin> set annotation_head" by (simp add: annotation_head_def)
  have k: "CHR 0x0A \<notin> set (annotationOwnerKey @ '': '' @ vs_DeploymentID spec)"
    "CHR 0x0A \<notin> set (''deployment: '' @ vs_DeploymentName spec)"
    using assms by (simp_all add: annotationOwnerKey_def)
  show ?thesis
    using h k
    by (simp only: parseOwner_def vmAnnotation_def Let_def)
      (cases "vs_DeploymentName spec = []"; cases "vs_DeploymentID spec = []";
       simp add: split_on_append split_on_no_sep owner_line_head owner_line_name [simplified] owner_line_id [simplified])
qed


end
