(* ===== verification/Startup.thy ===== *)
theory Startup
  imports Routes Vsphere
begin

text \<open>
  \<open>cmd/controller/main.go\<close> and \<open>Open\<close> and \<open>migrate\<close> of \<open>internal/store/store.go\<close>: how the
  controller comes up. The embedded migrations are a list of named files, what a file does to
  the schema is SQLite's (the parameter \<open>ddl\<close>, which fails or gives the next schema); the
  schema proper and its constraints are in theory \<open>Store\<close>. Shown here: an interrupted or failed
  upgrade leaves the schema of some number of whole migrations, which the next start continues.
\<close>

section \<open>Migrations\<close>

text \<open>\<open>ql_Version\<close> is \<open>PRAGMA user_version\<close>, \<open>ql_Faults\<close> says which of the next statements fail.\<close>

record 'd sqlite =
  ql_Version :: int
  ql_Schema :: 'd
  ql_Faults :: "bool list"

type_synonym 'd ddl = "string \<Rightarrow> 'd \<Rightarrow> go_error + 'd"

definition ql_stmt :: "('d sqlite, 'a) prog \<Rightarrow> ('d sqlite, 'a) prog" where
  "ql_stmt m s = (case ql_Faults s of
      [] \<Rightarrow> m s
    | f # fs \<Rightarrow> if f then (Inl db_failed, s\<lparr>ql_Faults := fs\<rparr>) else m (s\<lparr>ql_Faults := fs\<rparr>))"

text \<open>From \<open>Begin\<close> to \<open>Commit\<close>: what does not commit leaves no trace.\<close>

definition ql_tx :: "('d sqlite, unit) prog \<Rightarrow> ('d sqlite, unit) prog" where
  "ql_tx body = seq (ql_stmt (ret ())) (\<lambda>_ s. case seq body (\<lambda>_. ql_stmt (ret ())) s of
      (Inl e, t) \<Rightarrow> (Inl e, s\<lparr>ql_Faults := ql_Faults t\<rparr>)
    | (Inr u, t) \<Rightarrow> (Inr u, t))"

definition run_ddl :: "'d ddl \<Rightarrow> string \<Rightarrow> ('d sqlite, unit) prog" where
  "run_ddl ddl text s = (case ddl text (ql_Schema s) of
      Inl e \<Rightarrow> (Inl e, s)
    | Inr d \<Rightarrow> (Inr (), s\<lparr>ql_Schema := d\<rparr>))"

definition apply_migration :: "'d ddl \<Rightarrow> int \<Rightarrow> string \<Rightarrow> string \<Rightarrow> ('d sqlite, unit) prog" where
  "apply_migration ddl v name text = ql_tx
     (seq (wrap (''applying '' @ name @ '': '') (ql_stmt (run_ddl ddl text))) (\<lambda>_.
      ql_stmt (change (ql_Version_update (\<lambda>_. v)))))"

text \<open>The files by name; their numbers are their positions in the sorted list, from 1.\<close>

definition migration_step :: "'d ddl \<Rightarrow> (string \<times> string) list \<Rightarrow> int \<Rightarrow> nat \<times> string \<Rightarrow> ('d sqlite, unit) prog" where
  "migration_step ddl files current = (\<lambda>(i, name). let v = int i + 1 in
     if v \<le> current then ret ()
     else case map_of files name of
       None \<Rightarrow> fail (ErrOther ''file does not exist'')
     | Some text \<Rightarrow> apply_migration ddl v name text)"

definition migrate :: "'d ddl \<Rightarrow> (string \<times> string) list \<Rightarrow> ('d sqlite, unit) prog" where
  "migrate ddl files = (let names = sort (map fst files) in
     seq (ql_stmt (look ql_Version)) (\<lambda>current.
     for_each (enumerate 0 names) (migration_step ddl files current)))"

definition OpenStore :: "'d ddl \<Rightarrow> (string \<times> string) list \<Rightarrow> ('d sqlite, unit) prog" where
  "OpenStore ddl files = wrap ''migrating: '' (migrate ddl files)"

subsection \<open>Upgrades are resumable\<close>

text \<open>The schema after the first files, and a database that is at such a state.\<close>

definition script :: "(string \<times> string) list \<Rightarrow> string list" where
  "script files = map (\<lambda>n. the (map_of files n)) (sort (map fst files))"

fun schema_after :: "'d ddl \<Rightarrow> string list \<Rightarrow> 'd \<Rightarrow> 'd option" where
  "schema_after ddl [] d = Some d"
| "schema_after ddl (x # xs) d = (case ddl x d of Inl _ \<Rightarrow> None | Inr d' \<Rightarrow> schema_after ddl xs d')"

definition at_version :: "'d ddl \<Rightarrow> (string \<times> string) list \<Rightarrow> 'd \<Rightarrow> nat \<Rightarrow> 'd sqlite \<Rightarrow> bool" where
  "at_version ddl files d0 k s \<longleftrightarrow> k \<le> length files \<and> ql_Version s = int k
     \<and> schema_after ddl (take k (script files)) d0 = Some (ql_Schema s)"

lemma schema_after_append: "schema_after ddl (xs @ ys) d = (case schema_after ddl xs d of None \<Rightarrow> None | Some d' \<Rightarrow> schema_after ddl ys d')"
  by (induction xs arbitrary: d) (auto split: sum.splits)

lemma length_script [simp]: "length (script files) = length files"
  by (simp add: script_def)

lemma ql_stmt_cases:
  assumes "ql_stmt m s = (r, s')"
  obtains (failed) "r = Inl db_failed" "s' = s\<lparr>ql_Faults := tl (ql_Faults s)\<rparr>" "ql_Faults s \<noteq> []"
  | (ran) fs where "m (s\<lparr>ql_Faults := fs\<rparr>) = (r, s')" "ql_Faults s = [] \<Longrightarrow> fs = []"
proof (cases "ql_Faults s")
  case Nil
  then have same: "s\<lparr>ql_Faults := []\<rparr> = s" by (cases s) simp
  have "m (s\<lparr>ql_Faults := []\<rparr>) = (r, s')" unfolding same using assms Nil by (simp add: ql_stmt_def)
  then show ?thesis by (rule ran) simp
next
  case (Cons f fs)
  then show ?thesis using assms failed ran [of fs] by (cases f) (simp_all add: ql_stmt_def)
qed

text \<open>One migration commits as a whole or not at all; without faults it fails only if its DDL does.\<close>

lemma migration_body:
  assumes "seq (seq (wrap p (ql_stmt (run_ddl ddl text))) (\<lambda>_. ql_stmt (change (ql_Version_update (\<lambda>_. v)))))
      (\<lambda>_. ql_stmt (ret ())) s = (r, t)"
  shows "(\<exists>e. r = Inl e \<and> (ql_Faults s = [] \<longrightarrow> (\<exists>e'. ddl text (ql_Schema s) = Inl e')))
       \<or> (r = Inr () \<and> ddl text (ql_Schema s) = Inr (ql_Schema t) \<and> ql_Version t = v \<and> (ql_Faults s = [] \<longrightarrow> ql_Faults t = []))"
proof -
  obtain q1 s1 where one: "ql_stmt (run_ddl ddl text) s = (q1, s1)" by fastforce
  show ?thesis
  proof (cases q1)
    case (Inl e)
    have "ql_Faults s = [] \<longrightarrow> (\<exists>e'. ddl text (ql_Schema s) = Inl e')"
      using one Inl by (auto simp: run_ddl_def ql_stmt_def split: sum.splits)
    then show ?thesis using assms one Inl by (auto simp: seq_eq wrap_def attempt_def fail_def)
  next
    case (Inr u)
    have ok: "ddl text (ql_Schema s) = Inr (ql_Schema s1)" "ql_Faults s = [] \<longrightarrow> ql_Faults s1 = []"
      using one Inr by (auto elim!: ql_stmt_cases simp: run_ddl_def split: sum.splits)
    obtain q2 s2 where two: "ql_stmt (change (ql_Version_update (\<lambda>_. v))) s1 = (q2, s2)" by fastforce
    obtain q3 s3 where three: "ql_stmt (ret ()) s2 = (q3, s3)" by fastforce
    show ?thesis
    proof (cases q2)
      case e: (Inl e)
      then have "ql_Faults s1 \<noteq> []" using two by (auto elim!: ql_stmt_cases simp: change_def)
      then show ?thesis using assms one Inr two e ok by (auto simp: seq_eq wrap_def attempt_def ret_def)
    next
      case v: (Inr w)
      then have s2: "ql_Schema s2 = ql_Schema s1" "ql_Version s2 = v" "ql_Faults s1 = [] \<longrightarrow> ql_Faults s2 = []"
        using two by (auto elim!: ql_stmt_cases simp: change_def)
      have rt: "(r, t) = (q3, s3)" using assms one Inr two v three by (simp add: seq_eq wrap_def attempt_def ret_def)
      show ?thesis
      proof (cases q3)
        case e: (Inl e)
        then have "ql_Faults s2 \<noteq> []" using three by (auto elim!: ql_stmt_cases simp: ret_def)
        then show ?thesis using rt e s2 ok by auto
      next
        case (Inr z)
        then have "ql_Schema s3 = ql_Schema s2" "ql_Version s3 = ql_Version s2" "ql_Faults s2 = [] \<longrightarrow> ql_Faults s3 = []"
          using three by (auto elim!: ql_stmt_cases simp: ret_def)
        then show ?thesis using rt Inr s2 ok by simp
      qed
    qed
  qed
qed

lemma apply_migration_cases:
  assumes "apply_migration ddl v name text s = (r, s')"
  shows "(\<exists>e. r = Inl e \<and> ql_Schema s' = ql_Schema s \<and> ql_Version s' = ql_Version s
            \<and> (ql_Faults s = [] \<longrightarrow> (\<exists>e'. ddl text (ql_Schema s) = Inl e')))
       \<or> (r = Inr () \<and> ddl text (ql_Schema s) = Inr (ql_Schema s') \<and> ql_Version s' = v \<and> (ql_Faults s = [] \<longrightarrow> ql_Faults s' = []))"
proof -
  obtain q0 s0 where b: "ql_stmt (ret () :: ('a sqlite, unit) prog) s = (q0, s0)" by fastforce
  have s0: "ql_Schema s0 = ql_Schema s" "ql_Version s0 = ql_Version s" "ql_Faults s = [] \<longrightarrow> ql_Faults s0 = [] \<and> q0 = Inr ()"
    using b by (auto elim!: ql_stmt_cases simp: ret_def)
  show ?thesis
  proof (cases q0)
    case (Inl e)
    then show ?thesis using assms b s0 by (auto simp: apply_migration_def ql_tx_def seq_eq)
  next
    case (Inr u)
    obtain q t where body: "seq (seq (wrap (''applying '' @ name @ '': '') (ql_stmt (run_ddl ddl text)))
        (\<lambda>_. ql_stmt (change (ql_Version_update (\<lambda>_. v))))) (\<lambda>_. ql_stmt (ret ())) s0 = (q, t)" by fastforce
    have "(r, s') = (case q of Inl e \<Rightarrow> (Inl e, s0\<lparr>ql_Faults := ql_Faults t\<rparr>) | Inr z \<Rightarrow> (Inr z, t))"
      using assms b Inr body by (simp add: apply_migration_def ql_tx_def seq_eq [of "ql_stmt (ret ())"] split: sum.splits)
    then show ?thesis using migration_body [OF body] s0 by (auto split: sum.splits)
  qed
qed

text \<open>One turn of the loop: a step takes the schema to the next version or leaves it.\<close>

lemma migration_step_law:
  assumes names: "names = sort (map fst files)" and k: "k < length names" "names ! k = name" and pending: "\<not> k < c"
    and step: "migration_step ddl files (int c) (k, name) s = (q, t)" and start: "at_version ddl files d0 k s"
  shows "(\<exists>e. q = Inl e \<and> at_version ddl files d0 k t \<and> (ql_Faults s = [] \<longrightarrow> schema_after ddl (script files) d0 = None))
       \<or> (q = Inr () \<and> at_version ddl files d0 (Suc k) t \<and> (ql_Faults s = [] \<longrightarrow> ql_Faults t = []))"
proof -
  have len: "length names = length files" by (simp add: names)
  have "name \<in> fst ` set files" using k nth_mem [OF k(1)] by (simp add: names)
  then obtain body where body: "map_of files name = Some body" by (meson map_of_eq_None_iff not_None_eq)
  have "script files ! k = body" using k body by (simp add: script_def names)
  then have take: "take (Suc k) (script files) = take k (script files) @ [body]"
    using k(1) len by (simp add: take_Suc_conv_app_nth)
  have am: "apply_migration ddl (int k + 1) name body s = (q, t)"
    using step pending body by (simp add: migration_step_def)
  have here: "ql_Version s = int k" "schema_after ddl (take k (script files)) d0 = Some (ql_Schema s)"
    using start by (simp_all add: at_version_def)
  from apply_migration_cases [OF am] show ?thesis
  proof (elim disjE exE conjE)
    fix e assume e: "q = Inl e" "ql_Schema t = ql_Schema s" "ql_Version t = ql_Version s"
      and why: "ql_Faults s = [] \<longrightarrow> (\<exists>e'. ddl body (ql_Schema s) = Inl e')"
    have "schema_after ddl (take (Suc k) (script files)) d0 = None" if "ql_Faults s = []"
      using why that here take by (auto simp: schema_after_append)
    then have "schema_after ddl (script files) d0 = None" if "ql_Faults s = []"
      using that schema_after_append [of ddl "take (Suc k) (script files)" "drop (Suc k) (script files)" d0] by simp
    then show ?thesis using e start by (auto simp: at_version_def)
  next
    assume "q = Inr ()" "ddl body (ql_Schema s) = Inr (ql_Schema t)" "ql_Version t = int k + 1" "ql_Faults s = [] \<longrightarrow> ql_Faults t = []"
    then show ?thesis using take here k(1) len by (simp add: at_version_def schema_after_append)
  qed
qed

lemma migrate_loop:
  assumes names: "names = sort (map fst files)"
    and "drop k names = todo" and "for_each (enumerate k todo) (migration_step ddl files (int c)) s = (r, s')"
    and "at_version ddl files d0 (max c k) s"
  shows "\<exists>i. at_version ddl files d0 i s' \<and> max c k \<le> i \<and> (r = Inr () \<longrightarrow> i = length files)
    \<and> (ql_Faults s = [] \<and> schema_after ddl (script files) d0 \<noteq> None \<longrightarrow> r = Inr ())"
  using assms(2-)
proof (induction todo arbitrary: k s)
  case Nil
  have len: "length names = length files" by (simp add: names)
  then have "length files \<le> k" using Nil(1) by simp
  moreover have "max c k \<le> length files" using Nil(3) by (simp add: at_version_def)
  ultimately show ?case using Nil by (intro exI [of _ "max c k"]) (simp add: ret_def)
next
  case (Cons name todo)
  have k: "k < length names" "names ! k = name" "drop (Suc k) names = todo"
    using Cons(2) by (metis drop_eq_Nil linorder_not_less list.simps(3), metis hd_drop_conv_nth drop_eq_Nil linorder_not_less list.sel(1) list.simps(3),
        metis drop_Suc tl_drop list.sel(3))
  obtain q t where step: "migration_step ddl files (int c) (k, name) s = (q, t)" by fastforce
  have run: "(r, s') = (case q of Inl e \<Rightarrow> (Inl e, t) | Inr _ \<Rightarrow> for_each (enumerate (Suc k) todo) (migration_step ddl files (int c)) t)"
    using Cons(3) step by (simp add: seq_eq split: sum.splits)
  show ?case
  proof (cases "k < c")
    case True
    then have "q = Inr ()" "t = s" using step by (simp_all add: migration_step_def ret_def)
    moreover have "max c (Suc k) = c" "max c k = c" using True by simp_all
    ultimately show ?thesis using Cons.IH [OF k(3), of s] run Cons(4) by simp
  next
    case False
    then have mx: "max c k = k" "max c (Suc k) = Suc k" by simp_all
    from migration_step_law [OF names k(1,2) False step Cons(4) [unfolded mx]] show ?thesis
    proof (elim disjE exE conjE)
      fix e assume "q = Inl e" "at_version ddl files d0 k t" "ql_Faults s = [] \<longrightarrow> schema_after ddl (script files) d0 = None"
      then show ?thesis using run mx by (intro exI [of _ k]) auto
    next
      assume ok: "q = Inr ()" "at_version ddl files d0 (Suc k) t" "ql_Faults s = [] \<longrightarrow> ql_Faults t = []"
      from Cons.IH [OF k(3), of t] run ok mx show ?thesis by fastforce
    qed
  qed
qed

text \<open>
  C33. Upgrades of the database are resumable: started on a database that holds the schema of
  some number of whole migrations, whatever statement fails, the controller leaves the schema
  of at least as many whole ones, with the version recorded to match; it starts only with all
  of them applied, and without faults it does start, unless a migration itself is rejected.
\<close>

theorem migrate_resumes:
  assumes start: "at_version ddl files d0 k s" and run: "OpenStore ddl files s = (r, s')"
  shows "\<exists>i. at_version ddl files d0 i s' \<and> k \<le> i \<and> (r = Inr () \<longrightarrow> i = length files)
    \<and> (ql_Faults s = [] \<and> schema_after ddl (script files) d0 \<noteq> None \<longrightarrow> r = Inr ())"
proof -
  obtain q where m: "migrate ddl files s = (q, s')" and r: "r = Inr () \<longleftrightarrow> q = Inr ()"
    using run by (auto simp: OpenStore_def dest!: wrap_cases split: sum.splits)
  obtain v t where q: "ql_stmt (look ql_Version) s = (v, t)" by fastforce
  have t: "ql_Schema t = ql_Schema s" "ql_Version t = ql_Version s" "ql_Faults s = [] \<longrightarrow> ql_Faults t = []"
    using q by (auto elim!: ql_stmt_cases simp: look_def)
  have v: "v = Inr (int k) \<or> (\<exists>e. v = Inl e) \<and> ql_Faults s \<noteq> []"
    using q start by (auto elim!: ql_stmt_cases simp: look_def at_version_def)
  have start': "at_version ddl files d0 (max k 0) t" using start t by (simp add: at_version_def)
  show ?thesis
  proof (cases "v = Inr (int k)")
    case True
    then have "for_each (enumerate 0 (sort (map fst files))) (migration_step ddl files (int k)) t = (q, s')"
      using m q by (simp add: migrate_def Let_def seq_eq)
    from migrate_loop [OF refl _ this start'] r t show ?thesis by auto
  next
    case False
    then obtain e where "q = Inl e" "s' = t" using m q v by (auto simp: migrate_def Let_def seq_eq)
    then show ?thesis using start start' v False r by (intro exI [of _ k]) auto
  qed
qed


section \<open>Coming up\<close>

text \<open>\<open>splitKeys\<close> and the configuration that \<open>main\<close> reads from the environment.\<close>

definition splitKeys :: "string \<Rightarrow> string list" where
  "splitKeys s = filter (\<lambda>k. k \<noteq> '''') (map trim_space (split_on CHR '','' s))"

definition main_config :: "(string \<Rightarrow> string) \<Rightarrow> string \<Rightarrow> config" where
  "main_config getenv bootURL = \<lparr>cf_Password = getenv ''GHOSTFLEET_PASSWORD'',
     cf_APIKeys = splitKeys (getenv ''GHOSTFLEET_API_KEYS''), cf_SecureCookies = getenv ''GHOSTFLEET_SECURE_COOKIES'',
     cf_BootURL = bootURL, cf_Discovery = (to_lower (getenv ''GHOSTFLEET_DISCOVERY'') \<noteq> ''off'')\<rparr>"

text \<open>The key file, then the database; an error is the end of the process.\<close>

definition main_open :: "(string \<Rightarrow> go_error + aead) \<Rightarrow> rand \<Rightarrow> string \<Rightarrow> 'd ddl \<Rightarrow> (string \<times> string) list
    \<Rightarrow> (key_file \<times> 'd sqlite, aead) prog" where
  "main_open gcm rnd keyPath ddl files =
     seq (on_part fst apfst (OpenBox gcm rnd keyPath)) (\<lambda>box.
     seq (on_part snd apsnd (OpenStore ddl files)) (\<lambda>_. ret box))"

text \<open>The drivers it registers, and what it hands to the API; the flag \<open>-web\<close> and the files
  embedded in the binary are arguments.\<close>

definition main_registry :: "'v vcenter \<Rightarrow> 'v vsphere registry" where
  "main_registry C = [''vsphere'' \<mapsto> vsphere_New C]"

definition main_api :: "'v vcenter \<Rightarrow> (string \<Rightarrow> zone option) \<Rightarrow> (string \<Rightarrow> string) \<Rightarrow> string \<Rightarrow> aead
    \<Rightarrow> string \<Rightarrow> string \<Rightarrow> string \<Rightarrow> (string \<Rightarrow> bool) option \<Rightarrow> 'v vsphere api" where
  "main_api C zones getenv bootURL box version openapi llms web = \<lparr>ap_Config = main_config getenv bootURL,
     ap_Env = \<lparr>e_decrypt = Decrypt box, e_registry = main_registry C\<rparr>, ap_Box = box, ap_Zones = zones,
     ap_Version = version, ap_OpenAPI = openapi, ap_LLMS = llms, ap_Web = web\<rparr>"

text \<open>The API encrypts with the box the orchestrator decrypts with, and the plugins a connection
  may name are the registered ones.\<close>

lemma main_api_wiring:
  "e_decrypt (ap_Env (main_api C zones getenv bootURL box version openapi llms web))
     = Decrypt (ap_Box (main_api C zones getenv bootURL box version openapi llms web))"
  "set KnownPlugins = dom (main_registry C)"
  by (simp_all add: main_api_def main_registry_def KnownPlugins_def)

text \<open>A fresh orchestrator re-attaches the interrupted jobs before the first request is served.\<close>

definition main_serve :: "'h orch \<Rightarrow> 'h server" where
  "main_serve ob = \<lparr>sv_orch = snd (ResumeInterrupted (ob\<lparr>o_active := Map.empty, o_jobs := []\<rparr>)), sv_sessions = Map.empty\<rparr>"

lemma splitKeys_clean: "k \<in> set (splitKeys s) \<Longrightarrow> k \<noteq> '''' \<and> trim_space k = k"
  by (auto simp: splitKeys_def)

lemma splitKeys_join:
  assumes "\<forall>k \<in> set ks. k \<noteq> '''' \<and> trim_space k = k \<and> CHR '','' \<notin> set k"
  shows "splitKeys (join '','' ks) = ks"
proof (cases "ks = []")
  case False
  then show ?thesis using assms by (simp add: splitKeys_def split_on_join map_idI)
qed (simp add: splitKeys_def)

text \<open>
  A restart keeps the life cycle's invariants: whatever state the controller was stopped in, the
  server it comes up with is in a reachable state again, without a session.
\<close>

lemma restart_reachable:
  assumes "life_reach env A l" and "Crash \<in> A"
  shows "life_reach env A \<lparr>lf_orch = sv_orch (main_serve (lf_orch l)), lf_fills = []\<rparr>"
    and "session_valid t token (sv_sessions (main_serve (lf_orch l))) = False"
  using lr_step [OF assms(1,2) ls_crash] by (simp_all add: main_serve_def session_valid_def)

text \<open>Two migrations, the second of which meets a failing statement at first.\<close>

definition demo_ddl :: "string list ddl" where
  "demo_ddl text d = Inr (d @ [text])"

theorem migrate_resumes_witness:
  "let files = [(''2.sql'', ''b''), (''1.sql'', ''a'')];
       s1 = snd (OpenStore demo_ddl files \<lparr>ql_Version = 0, ql_Schema = [], ql_Faults = [False, False, False, False, False, False, True]\<rparr>)
   in ql_Version s1 = 1 \<and> ql_Schema s1 = [''a'']
      \<and> (\<exists>s2. OpenStore demo_ddl files (s1\<lparr>ql_Faults := []\<rparr>) = (Inr (), s2) \<and> ql_Schema s2 = [''a'', ''b''])"
proof -
  let ?files = "[(''2.sql'', ''b''), (''1.sql'', ''a'')]"
  let ?s0 = "\<lparr>ql_Version = 0, ql_Schema = [], ql_Faults = [False, False, False, False, False, False, True]\<rparr>"
  obtain r1 s1 where one: "OpenStore demo_ddl ?files ?s0 = (r1, s1)" by fastforce
  have script: "script ?files = [''a'', ''b'']" by code_simp
  have facts: "ql_Version (snd (OpenStore demo_ddl ?files ?s0)) = 1" "ql_Schema (snd (OpenStore demo_ddl ?files ?s0)) = [''a'']"
    by code_simp+
  then have s1: "ql_Version s1 = 1" "ql_Schema s1 = [''a'']" using one by simp_all
  then have "at_version demo_ddl ?files [] 1 (s1\<lparr>ql_Faults := []\<rparr>)" by (simp add: at_version_def script demo_ddl_def)
  moreover obtain r2 s2 where two: "OpenStore demo_ddl ?files (s1\<lparr>ql_Faults := []\<rparr>) = (r2, s2)" by fastforce
  ultimately have "\<exists>i. at_version demo_ddl ?files [] i s2 \<and> 1 \<le> i \<and> (r2 = Inr () \<longrightarrow> i = length ?files)
    \<and> (ql_Faults (s1\<lparr>ql_Faults := []\<rparr>) = [] \<and> schema_after demo_ddl (script ?files) [] \<noteq> None \<longrightarrow> r2 = Inr ())"
    by (rule migrate_resumes)
  then have "r2 = Inr ()" "ql_Schema s2 = [''a'', ''b'']"
    by (auto simp: at_version_def script demo_ddl_def)
  then show ?thesis using facts one two by simp
qed

end
