(* ===== verification/VsphereContract.thy ===== *)
theory VsphereContract
  imports Vsphere Reconciling
begin

text \<open>
  The vSphere driver keeps the driver contract. What vCenter is documented to do with the VMs in
  its inventory is \<open>vcenter_documented\<close>, over a view \<open>vms\<close> of its state: looking things up and
  tagging leaves the VMs alone, a lookup tells what is there, and a task changes one VM in the
  way its name says or, when it fails, not or not entirely (a creation may succeed although the
  connection breaks before its result arrives). From this follow the laws of
  \<open>hypervisor_contract\<close>, so that what theory \<open>Reconciling\<close> proves under the contract also holds
  of a controller that works on a vCenter.
\<close>

section \<open>What vCenter is documented to do\<close>

type_synonym 'v vm_view = "'v \<Rightarrow> moref \<rightharpoonup> vm_props"

definition idle :: "'v vm_view \<Rightarrow> ('v, 'a) prog \<Rightarrow> bool" where
  "idle vms m \<longleftrightarrow> (\<forall>s. vms (snd (m s)) = vms s)"

definition lookups_documented :: "'v vcenter \<Rightarrow> 'v vm_view \<Rightarrow> bool" where
  "lookups_documented C vms \<longleftrightarrow> idle vms (vc_Login C) \<and> idle vms (vc_DefaultDatacenter C)
     \<and> (\<forall>x. idle vms (vc_Datacenter C x) \<and> idle vms (vc_HostPool C x) \<and> idle vms (vc_DefaultResourcePool C x)
          \<and> idle vms (vc_ComputePool C x) \<and> idle vms (vc_EthernetBacking C x) \<and> idle vms (vc_DefaultFolder C x)
          \<and> idle vms (vc_Children C x) \<and> idle vms (vc_ObjectName C x) \<and> idle vms (vc_Device C x)
          \<and> idle vms (vc_Properties C x) \<and> idle vms (vc_DestroyView C x) \<and> idle vms (vc_RetrieveView C x)
          \<and> idle vms (vc_GetCategory C x) \<and> idle vms (vc_CreateCategory C x))
     \<and> (\<forall>x y. idle vms (vc_HostSystem C x y) \<and> idle vms (vc_ResourcePool C x y) \<and> idle vms (vc_ComputeResource C x y)
          \<and> idle vms (vc_Datastore C x y) \<and> idle vms (vc_Network C x y) \<and> idle vms (vc_Folder C x y)
          \<and> idle vms (vc_CreateFolder C x y) \<and> idle vms (vc_CreateContainerView C x y) \<and> idle vms (vc_GetTag C x y)
          \<and> idle vms (vc_CreateTag C x y) \<and> idle vms (vc_AttachTag C x y))
     \<and> (\<forall>xs. idle vms (vc_RetrieveVMs C xs))"

text \<open>A collector fills in the properties it was asked for.\<close>

definition answers_documented :: "'v vcenter \<Rightarrow> 'v vm_view \<Rightarrow> bool" where
  "answers_documented C vms \<longleftrightarrow>
     (\<forall>ref s v s'. vc_Properties C ref s = (Inr v, s') \<longrightarrow> vms s ref = Some v)
   \<and> (\<forall>ref s e s'. vc_Properties C ref s = (Inl e, s') \<and> isNotFound C e \<longrightarrow> vms s ref = None)
   \<and> (\<forall>refs s vs s'. vc_RetrieveVMs C refs s = (Inr vs, s') \<longrightarrow> (\<forall>v \<in> set vs. \<exists>w. vms s (mp_Self v) = Some w
        \<and> mp_Name w = mp_Name v \<and> annotation_of w = annotation_of v))
   \<and> (\<forall>view s vs s'. vc_RetrieveView C view s = (Inr vs, s') \<longrightarrow> (\<forall>v \<in> set vs. \<exists>w. vms s (mp_Self v) = Some w
        \<and> mp_Name w = mp_Name v \<and> mp_PoweredOn w = mp_PoweredOn v \<and> mp_Config w = mp_Config v))
   \<and> (\<forall>folder s cs s'. vc_Children C folder s = (Inr cs, s') \<longrightarrow> (\<forall>ref \<in> set (child_vms cs). vms s ref \<noteq> None))
   \<and> (\<forall>ref s n s' v. vc_ObjectName C ref s = (Inr n, s') \<and> vms s ref = Some v \<longrightarrow> n = mp_Name v)"

text \<open>A VM after a task on it that does not concern its network cards.\<close>

definition same_card :: "vm_props \<Rightarrow> vm_props \<Rightarrow> bool" where
  "same_card v w \<longleftrightarrow> mp_Name w = mp_Name v \<and> snd (scan_devices (devices_of w)) = snd (scan_devices (devices_of v))"

definition task_on :: "'v vm_view \<Rightarrow> moref \<Rightarrow> ('v, unit) prog \<Rightarrow> (vm_props \<Rightarrow> (go_error + unit) \<Rightarrow> vm_props option \<Rightarrow> bool) \<Rightarrow> bool" where
  "task_on vms ref m ends \<longleftrightarrow> (\<forall>s r s'. m s = (r, s') \<longrightarrow>
     (\<forall>q. q \<noteq> ref \<longrightarrow> vms s' q = vms s q)
     \<and> (case vms s ref of None \<Rightarrow> vms s' ref = None \<and> r \<noteq> Inr () | Some v \<Rightarrow> ends v r (vms s' ref)))"

definition tasks_documented :: "'v vcenter \<Rightarrow> 'v vm_view \<Rightarrow> bool" where
  "tasks_documented C vms \<longleftrightarrow>
     (\<forall>folder config pool host s r s'. vc_CreateVM C folder config pool host s = (r, s') \<longrightarrow>
        ((\<exists>e. r = Inl e) \<and> vms s' = vms s)
      \<or> (\<exists>ref v. vms s ref = None \<and> vms s' = (vms s)(ref \<mapsto> v) \<and> mp_Name v = sp_Name config
           \<and> (case r of Inr x \<Rightarrow> x = ref | Inl e \<Rightarrow> \<not> vc_NameTaken C e)))
   \<and> (\<forall>ref a. task_on vms ref (vc_Reconfigure C ref (Annotate a)) (\<lambda>v r w. \<exists>u. w = Some u \<and> same_card v u))
   \<and> (\<forall>ref ch. (\<forall>a. ch \<noteq> Annotate a) \<longrightarrow> task_on vms ref (vc_Reconfigure C ref ch)
        (\<lambda>v r w. \<exists>u. w = Some u \<and> same_card v u \<and> annotation_of u = annotation_of v))
   \<and> (\<forall>ref. task_on vms ref (vc_PowerOn C ref)
        (\<lambda>v r w. w = Some v \<and> r \<noteq> Inr () \<or> w = Some (v\<lparr>mp_PoweredOn := True\<rparr>)))
   \<and> (\<forall>ref. task_on vms ref (vc_PowerOff C ref)
        (\<lambda>v r w. w = Some v \<and> r \<noteq> Inr () \<or> w = Some (v\<lparr>mp_PoweredOn := False\<rparr>)))
   \<and> (\<forall>ref. task_on vms ref (vc_Destroy C ref) (\<lambda>v r w. w = Some v \<and> r \<noteq> Inr () \<or> w = None))"

definition vcenter_documented :: "'v vcenter \<Rightarrow> 'v vm_view \<Rightarrow> bool" where
  "vcenter_documented C vms \<longleftrightarrow> lookups_documented C vms \<and> answers_documented C vms \<and> tasks_documented C vms"

text \<open>The inventory as the contract sees it.\<close>

definition vs_inv :: "'v vm_view \<Rightarrow> 'v vsphere \<Rightarrow> inventory" where
  "vs_inv vms s ref = map_option (full_view ref) (vms (vd_Center s) ref)"

section \<open>What the driver leaves alone\<close>

lemma vc_eq: "vc m s = (case m (vd_Center s) of (r, c) \<Rightarrow> (r, s\<lparr>vd_Center := c\<rparr>))"
  by (simp add: vc_def on_part_def)

lemma keeps_vc: "idle vms m \<Longrightarrow> keeps (\<lambda>s. vms (vd_Center s) = c) (vc m)"
  by (auto simp: idle_def keeps_def vc_eq split: prod.split) (metis snd_conv)+

lemma keeps_list [inv_intros]:
  "keeps I m \<Longrightarrow> (\<And>x xs. keeps I (n x xs)) \<Longrightarrow> keeps I (case l of [] \<Rightarrow> m | x # xs \<Rightarrow> n x xs)"
  by (cases l) simp_all

lemma keeps_deferring [inv_intros]: "keeps I d \<Longrightarrow> keeps I m \<Longrightarrow> keeps I (deferring d m)"
  unfolding deferring_def by (intro inv_intros)

lemma keeps_vc_if: "keeps I (vc m) \<Longrightarrow> keeps I (vc n) \<Longrightarrow> keeps I (vc (if b then m else n))"
  by simp


lemma lookups_keep:
  assumes "lookups_documented C vms"
  shows "keeps (\<lambda>s. vms (vd_Center s) = c) (resolvePlacement C p)"
    and "keeps (\<lambda>s. vms (vd_Center s) = c) (assignTag C ref tag)"
    and "keeps (\<lambda>s. vms (vd_Center s) = c) (vs_GetVM C ref)"
    and "keeps (\<lambda>s. vms (vd_Center s) = c) (vs_FindVMs C p names)"
    and "keeps (\<lambda>s. vms (vd_Center s) = c) (vs_FindVMByMAC C mac)"
proof -
  let ?K = "\<lambda>m. keeps (\<lambda>s. vms (vd_Center s) = c) m"
  have a: "?K (vc (vc_Login C))" "?K (vc (vc_DefaultDatacenter C))" "?K (vc (vc_Datacenter C x))" "?K (vc (vc_HostPool C x))"
    "?K (vc (vc_DefaultResourcePool C x))" "?K (vc (vc_ComputePool C x))" "?K (vc (vc_DefaultFolder C x))"
    "?K (vc (vc_Children C x))" "?K (vc (vc_Properties C x))" "?K (vc (vc_DestroyView C x))" "?K (vc (vc_RetrieveView C x))"
    "?K (vc (vc_GetCategory C x))" "?K (vc (vc_CreateCategory C x))" for x
    using assms by (simp_all add: lookups_documented_def keeps_vc)
  have b: "?K (vc (vc_HostSystem C x y))" "?K (vc (vc_ResourcePool C x y))" "?K (vc (vc_ComputeResource C x y))"
    "?K (vc (vc_Datastore C x y))" "?K (vc (vc_Network C x y))" "?K (vc (vc_Folder C x y))" "?K (vc (vc_CreateFolder C x y))"
    "?K (vc (vc_CreateContainerView C x y))" "?K (vc (vc_GetTag C x y))" "?K (vc (vc_CreateTag C x y))" "?K (vc (vc_AttachTag C x y))" for x y
    using assms by (simp_all add: lookups_documented_def keeps_vc)
  have r: "?K (vc (vc_RetrieveVMs C xs))" for xs using assms by (simp add: lookups_documented_def keeps_vc)
  have rest: "?K (change (vd_Rest_update (\<lambda>_. True)))" by (simp add: keeps_change)
  show place: "?K (resolvePlacement C p)" for p
    unfolding resolvePlacement_def finder_def resolve_pool_def ensureFolder_def Let_def
    by (intro inv_intros keeps_vc_if a b)
  show "?K (assignTag C ref tag)"
    unfolding assignTag_def restClient_def ensureTagID_def get_or_create_def by (intro inv_intros rest a b)
  show "?K (vs_GetVM C ref)" unfolding vs_GetVM_def by (intro inv_intros a)
  show "?K (vs_FindVMs C p names)" unfolding vs_FindVMs_def Let_def by (intro inv_intros place a r)
  show "?K (vs_FindVMByMAC C mac)" unfolding vs_FindVMByMAC_def Let_def by (intro inv_intros a b)
qed


lemma keeps_eqD: "(\<And>c. keeps (\<lambda>s. f s = c) m) \<Longrightarrow> m s = (r, t) \<Longrightarrow> f t = f s"
  using keepsD [of "\<lambda>x. f x = f s" m s] by simp

lemma seq_keepsE:
  assumes "seq m k s = (r, s')" "\<And>c. keeps (\<lambda>s. f s = c) m"
  obtains (failed) e where "r = Inl e" "f s' = f s"
  | (ran) x t where "m s = (Inr x, t)" "f t = f s" "k x t = (r, s')"
proof -
  obtain q t where q: "m s = (q, t)" by fastforce
  note same = keeps_eqD [OF assms(2) q]
  show ?thesis
  proof (cases q)
    case (Inl e)
    then show ?thesis using assms(1) q same by (intro failed [of e]) (auto simp: seq_eq)
  next
    case (Inr x)
    then show ?thesis using assms(1) q same by (intro ran [of x t]) (auto simp: seq_eq)
  qed
qed

section \<open>Creating a VM\<close>

lemma find_named_law:
  assumes look: "lookups_documented C vms" "answers_documented C vms"
    and run: "find_named C name refs s = (r, t)"
    and there: "\<forall>ref \<in> set refs. vms (vd_Center s) ref \<noteq> None"
  shows "vms (vd_Center t) = vms (vd_Center s)
    \<and> (\<forall>ref. r = Inr ref \<longrightarrow> (\<exists>v. vms (vd_Center s) ref = Some v \<and> mp_Name v = name))"
  using run there
proof (induction refs arbitrary: s)
  case Nil
  then show ?case by (auto simp: fail_def)
next
  case (Cons x refs)
  have idle: "keeps (\<lambda>s. vms (vd_Center s) = c) (vc (vc_ObjectName C x))" for c
    using look(1) by (simp add: lookups_documented_def keeps_vc)
  from Cons.prems(1) have run: "seq (vc (vc_ObjectName C x)) (\<lambda>n. if n = name then ret x else find_named C name refs) s = (r, t)"
    by simp
  from run idle show ?case
  proof (cases rule: seq_keepsE)
    case (ran n u)
    then obtain w where n: "vc_ObjectName C x (vd_Center s) = (Inr n, w)" by (auto simp: vc_eq split: prod.splits)
    obtain v where v: "vms (vd_Center s) x = Some v" using Cons.prems(2) by auto
    have "n = mp_Name v" using look(2) n v by (auto simp: answers_documented_def)
    then show ?thesis using ran v Cons.IH [of u] Cons.prems(2) by (cases "n = name") (auto simp: ret_def)
  qed simp
qed

lemma findVMByName_law:
  assumes look: "lookups_documented C vms" "answers_documented C vms"
    and run: "findVMByName C folder name s = (r, t)"
  shows "vms (vd_Center t) = vms (vd_Center s)
    \<and> (\<forall>ref. r = Inr ref \<longrightarrow> (\<exists>v. vms (vd_Center s) ref = Some v \<and> mp_Name v = name))"
proof -
  have idle: "keeps (\<lambda>s. vms (vd_Center s) = c) (wrap ''listing folder: '' (vc (vc_Children C folder)))" for c
    using look(1) by (intro keeps_wrap) (simp add: lookups_documented_def keeps_vc)
  from run [unfolded findVMByName_def] idle show ?thesis
  proof (cases rule: seq_keepsE)
    case (ran cs u)
    then have "\<exists>w. vc_Children C folder (vd_Center s) = (Inr cs, w)"
      by (auto simp: vc_eq dest!: wrap_InrD split: prod.splits)
    then have "\<forall>ref \<in> set (child_vms cs). vms (vd_Center u) ref \<noteq> None"
      using look(2) ran(2) by (auto simp: answers_documented_def)
    from find_named_law [OF look ran(3) this] ran(2) show ?thesis by simp
  qed simp
qed

text \<open>Only VMs of the requested name appear or change, and the reference returned is one.\<close>

definition named_only :: "string \<Rightarrow> (moref \<rightharpoonup> vm_props) \<Rightarrow> (moref \<rightharpoonup> vm_props) \<Rightarrow> (go_error + moref) \<Rightarrow> bool" where
  "named_only name before after r \<longleftrightarrow>
     (\<forall>q. after q \<noteq> before q \<longrightarrow> (case before q of None \<Rightarrow> True | Some w \<Rightarrow> mp_Name w = name))
   \<and> (\<forall>ref. r = Inr ref \<longrightarrow> (\<exists>v. after ref = Some v \<and> mp_Name v = name) \<and> (\<forall>q. q \<noteq> ref \<longrightarrow> after q = before q))"

lemma named_only_same: "named_only name m m (Inl e)"
  by (simp add: named_only_def)

lemma named_onlyI:
  assumes "\<And>q. q \<noteq> ref \<Longrightarrow> after q = before q" "\<And>w. before ref = Some w \<Longrightarrow> mp_Name w = name"
    and "after ref = Some v" "mp_Name v = name"
  shows "named_only name before after (Inr ref)"
  unfolding named_only_def using assms by (auto split: option.split) metis

text \<open>The lookup of the existing VM, and the re-stamping of its annotation.\<close>

lemma adopt_law:
  assumes doc: "vcenter_documented C vms"
    and run: "seq (wrap p (findVMByName C folder name)) (\<lambda>ref.
          seq (ignore (vc (vc_Reconfigure C ref (Annotate note)))) (\<lambda>_. ret ref)) s = (r, t)"
  shows "named_only name (vms (vd_Center s)) (vms (vd_Center t)) r"
proof -
  let ?V = "\<lambda>s. vms (vd_Center s)"
  note look = doc [unfolded vcenter_documented_def, THEN conjunct1] doc [unfolded vcenter_documented_def, THEN conjunct2, THEN conjunct1]
  obtain f w where f: "wrap p (findVMByName C folder name) s = (f, w)" by fastforce
  from wrap_cases [OF f] obtain f' where f': "findVMByName C folder name s = (f', w)"
    and ff: "case f' of Inl e \<Rightarrow> f = Inl (ErrWrap p e) | Inr y \<Rightarrow> f = Inr y"
    by blast
  note found = findVMByName_law [OF look f']
  show ?thesis
  proof (cases f)
    case (Inl x)
    then have "r = Inl x" "t = w" using run f by (auto simp: seq_eq)
    then show ?thesis using found by (simp add: named_only_same)
  next
    case (Inr ref)
    then have "f' = Inr ref" using ff by (cases f') simp_all
    then obtain v where v: "?V s ref = Some v" "mp_Name v = name" using found by auto
    obtain g y where g: "vc_Reconfigure C ref (Annotate note) (vd_Center w) = (g, y)" by fastforce
    have out: "r = Inr ref" "vd_Center t = y"
      using run f Inr g by (auto simp: seq_eq ignore_def attempt_def ret_def vc_eq)
    have "task_on vms ref (vc_Reconfigure C ref (Annotate note)) (\<lambda>v r w. \<exists>u. w = Some u \<and> same_card v u)"
      using doc by (simp add: vcenter_documented_def tasks_documented_def)
    then have "\<forall>q. q \<noteq> ref \<longrightarrow> vms y q = ?V w q" "\<exists>u. vms y ref = Some u \<and> same_card v u"
      using g v found unfolding task_on_def by (metis, fastforce)
    then show ?thesis using v found out by (auto simp: same_card_def intro!: named_onlyI)
  qed
qed

lemma create_or_adopt_law:
  assumes doc: "vcenter_documented C vms" and name: "sp_Name config = vs_Name spec"
    and run: "create_or_adopt C rs spec config s = (r, t)"
  shows "named_only (vs_Name spec) (vms (vd_Center s)) (vms (vd_Center t)) r"
proof -
  let ?V = "\<lambda>s. vms (vd_Center s)"
  obtain q u where q: "vc (vc_CreateVM C (rs_Folder rs) config (rs_Pool rs) (rs_Host rs)) s = (q, u)" by fastforce
  then obtain z where z: "vc_CreateVM C (rs_Folder rs) config (rs_Pool rs) (rs_Host rs) (vd_Center s) = (q, z)" "vd_Center u = z"
    by (auto simp: vc_eq split: prod.splits)
  note create = doc [unfolded vcenter_documented_def tasks_documented_def, THEN conjunct2, THEN conjunct2, THEN conjunct1,
      rule_format, OF z(1)]
  have law: "((\<exists>e. q = Inl e) \<and> ?V u = ?V s) \<or> (\<exists>ref v. ?V s ref = None \<and> ?V u = (?V s)(ref \<mapsto> v) \<and> mp_Name v = vs_Name spec
           \<and> (case q of Inr x \<Rightarrow> x = ref | Inl e \<Rightarrow> \<not> vc_NameTaken C e))"
    using create z(2) name by simp
  consider (made) ref where "q = Inr ref" | (broken) e where "q = Inl e" "\<not> vc_NameTaken C e"
    | (taken) e where "q = Inl e" "vc_NameTaken C e"
    by (cases q) auto
  then show ?thesis
  proof cases
    case made
    then have "r = q" "t = u" using run q by (simp_all add: create_or_adopt_def attempt_def ret_def)
    then show ?thesis using law made by (auto simp: named_only_def split: if_splits option.splits)
  next
    case broken
    then have "\<exists>e'. r = Inl e'" "t = u" using run q by (auto simp: create_or_adopt_def attempt_def fail_def)
    then show ?thesis using law by (auto simp: named_only_def split: if_splits option.splits)
  next
    case taken
    then have u: "?V u = ?V s" using law by auto
    have "seq (wrap (''adopting existing VM '' @ go_quote (vs_Name spec) @ '': '') (findVMByName C (rs_Folder rs) (vs_Name spec))) (\<lambda>ref.
        seq (ignore (vc (vc_Reconfigure C ref (Annotate (vmAnnotation spec))))) (\<lambda>_. ret ref)) u = (r, t)"
      using run q taken by (simp add: create_or_adopt_def attempt_def)
    from adopt_law [OF doc this] u show ?thesis by simp
  qed
qed

lemma vs_CreateVM_law:
  assumes doc: "vcenter_documented C vms" and run: "vs_CreateVM C spec s = (r, t)"
  shows "named_only (vs_Name spec) (vms (vd_Center s)) (vms (vd_Center t)) r"
proof -
  let ?V = "\<lambda>s. vms (vd_Center s)"
  have look: "lookups_documented C vms" using doc by (simp add: vcenter_documented_def)
  have backing: "keeps (\<lambda>s. ?V s = c) (vc (vc_EthernetBacking C n))" for c n
    using look by (simp add: lookups_documented_def keeps_vc)
  from run [unfolded vs_CreateVM_def Let_def] lookups_keep(1) [OF look] show ?thesis
  proof (cases rule: seq_keepsE)
    case (ran rs s1)
    let ?dev = "append_disks C (rs_Datastore rs) (vs_Name spec) 1 (vs_Disks spec) [ParaVirtualSCSI]"
    have net: "keeps (\<lambda>s. ?V s = c) (case rs_Network rs of None \<Rightarrow> ret ?dev
       | Some n \<Rightarrow> seq (wrap ''network backing: '' (vc (vc_EthernetBacking C n))) (\<lambda>backing.
           ret (?dev @ [EthernetCard ''vmxnet3'' backing ''''])))" for c
      by (intro inv_intros backing)
    from ran(3) net show ?thesis
    proof (cases rule: seq_keepsE)
      case two: (ran devices s2)
      let ?config = "vm_config_spec spec (rs_Datastore rs) (devices @ [console_port (rs_Datastore rs) (vs_Name spec)])"
      obtain q s3 where q: "create_or_adopt C rs spec ?config s2 = (q, s3)" by fastforce
      have law: "named_only (vs_Name spec) (?V s) (?V s3) q"
        using create_or_adopt_law [OF doc _ q] ran(2) two(2) by (simp add: vm_config_spec_def)
      show ?thesis
      proof (cases q)
        case (Inl e)
        then have "r = Inl e" "t = s3" using two(3) q by (auto simp: seq_eq)
        then show ?thesis using law Inl by simp
      next
        case (Inr ref)
        let ?tail = "if vs_Tag spec \<noteq> [] then seq (wrap (''tagging VM '' @ go_quote (vs_Name spec) @ '': '') (assignTag C ref (vs_Tag spec)))
            (\<lambda>_. ret ref) else ret ref"
        have tail: "?tail s3 = (r, t)" using two(3) q Inr by (simp add: seq_eq)
        have "?V t = ?V s3"
          by (rule keeps_eqD [where f = ?V and m = ?tail, OF _ tail]) (intro inv_intros lookups_keep(2) [OF look])
        moreover have "\<forall>x. r = Inr x \<longrightarrow> x = ref" using tail by (auto simp: seq_eq ret_def split: if_splits prod.splits sum.splits)
        ultimately show ?thesis using law Inr by (auto simp: named_only_def)
      qed
    qed (use ran(2) named_only_same in auto)
  qed (use named_only_same in auto)
qed


section \<open>Tasks on one VM\<close>

lemma task_inv:
  assumes "task_on vms ref m ends" and "vc m s = (r, t)"
  shows "only_at ref (vs_inv vms s) (vs_inv vms t)
    \<and> (case vms (vd_Center s) ref of None \<Rightarrow> vms (vd_Center t) ref = None \<and> r \<noteq> Inr ()
       | Some v \<Rightarrow> ends v r (vms (vd_Center t) ref))"
proof -
  obtain z where z: "m (vd_Center s) = (r, z)" "vd_Center t = z" using assms(2) by (auto simp: vc_eq split: prod.splits)
  then show ?thesis using assms(1) by (auto simp: task_on_def only_at_def vs_inv_def)
qed

lemma same_vm_view:
  assumes "same_card v u" "annotation_of u = annotation_of v"
  shows "same_vm (Some (full_view ref v)) (Some (full_view ref u))"
  using assms by (auto simp: same_vm_def full_view_def same_card_def split: prod.splits)

lemma same_vm_power: "same_vm (Some (full_view ref v)) (Some (full_view ref (v\<lparr>mp_PoweredOn := b\<rparr>)))"
  by (rule same_vm_view) (simp_all add: same_card_def devices_of_def annotation_of_def)

lemma view_sel [simp]:
  "h_State (full_view ref v) = power_state v" "h_Ref (full_view ref v) = ref" "h_Name (full_view ref v) = mp_Name v"
  "h_OwnerID (full_view ref v) = fst (parseOwner (annotation_of v))"
  "h_Ref (owner_view v) = mp_Self v" "h_Name (owner_view v) = mp_Name v"
  "h_OwnerID (owner_view v) = fst (parseOwner (annotation_of v))"
  by (simp_all add: full_view_def owner_view_def split: prod.split)

lemma reconfigure_law:
  assumes doc: "vcenter_documented C vms" and ch: "\<forall>a. ch \<noteq> Annotate a" and run: "vc (vc_Reconfigure C ref ch) s = (r, t)"
  shows "only_at ref (vs_inv vms s) (vs_inv vms t) \<and> same_vm (vs_inv vms s ref) (vs_inv vms t ref)"
proof -
  have "task_on vms ref (vc_Reconfigure C ref ch) (\<lambda>v r w. \<exists>u. w = Some u \<and> same_card v u \<and> annotation_of u = annotation_of v)"
    using doc ch by (simp add: vcenter_documented_def tasks_documented_def)
  from task_inv [OF this run] show ?thesis
    using same_vm_view by (auto simp: vs_inv_def split: option.splits)
qed

lemma vs_inv_same: "vms (vd_Center t) = vms (vd_Center s) \<Longrightarrow> vs_inv vms t = vs_inv vms s"
  by (simp add: vs_inv_def fun_eq_iff)

lemma search_same:
  assumes "lookups_documented C vms"
  shows "vs_FindVMs C p names s = (r, t) \<Longrightarrow> vs_inv vms t = vs_inv vms s"
    and "vs_FindVMByMAC C mac s = (q, t) \<Longrightarrow> vs_inv vms t = vs_inv vms s"
  using keeps_eqD [where f = "\<lambda>s. vms (vd_Center s)", OF lookups_keep(4) [OF assms]]
    keeps_eqD [where f = "\<lambda>s. vms (vd_Center s)", OF lookups_keep(5) [OF assms]]
  by (blast intro: vs_inv_same)+

lemma vs_AddDisks_law:
  assumes doc: "vcenter_documented C vms" and run: "vs_AddDisks C ref ds s = (r, t)"
  shows "only_at ref (vs_inv vms s) (vs_inv vms t) \<and> same_vm (vs_inv vms s ref) (vs_inv vms t ref)"
proof -
  let ?V = "\<lambda>s. vms (vd_Center s)"
  have look: "keeps (\<lambda>s. ?V s = c) (vc (vc_Device C ref))" "keeps (\<lambda>s. ?V s = c) (vc (vc_Properties C ref))"
    "keeps (\<lambda>s. ?V s = c) (vc (vc_ObjectName C x))" for c x
    using doc by (simp_all add: vcenter_documented_def lookups_documented_def keeps_vc)
  from run [unfolded vs_AddDisks_def] keeps_wrap [OF look(1)] show ?thesis
  proof (cases rule: seq_keepsE)
    case one: (ran devices s1)
    show ?thesis
    proof (cases "ParaVirtualSCSI \<in> set devices")
      case False
      then show ?thesis using one vs_inv_same [OF one(2)] by (auto simp: fail_def)
    next
      case True
      from one(3) True have "seq (wrap ''resolving VM datastore: '' (vc (vc_Properties C ref))) (\<lambda>v. case mp_Datastores v of
           [] \<Rightarrow> fail (ErrOther (''vm '' @ ref @ '' has no datastore''))
         | d # _ \<Rightarrow> seq (wrap ''datastore name: '' (vc (vc_ObjectName C d))) (\<lambda>dsName.
             let existing = length (disks_in devices) in
             vc (vc_Reconfigure C ref (CreateDevices (drop (length devices)
               (append_disks C dsName (mp_Name v) (int existing + 1) ds devices)))))) s1 = (r, t)" by simp
      from this keeps_wrap [OF look(2)] show ?thesis
      proof (cases rule: seq_keepsE)
        case two: (ran v s2)
        show ?thesis
        proof (cases "mp_Datastores v")
          case Nil
          then show ?thesis using two one vs_inv_same [of vms s2 s] by (auto simp: fail_def)
        next
          case (Cons d rest)
          from two(3) Cons have "seq (wrap ''datastore name: '' (vc (vc_ObjectName C d))) (\<lambda>dsName.
             let existing = length (disks_in devices) in
             vc (vc_Reconfigure C ref (CreateDevices (drop (length devices)
               (append_disks C dsName (mp_Name v) (int existing + 1) ds devices))))) s2 = (r, t)" by simp
          from this keeps_wrap [OF look(3)] show ?thesis
          proof (cases rule: seq_keepsE)
            case three: (ran n s3)
            then show ?thesis
              using reconfigure_law [OF doc _ three(3) [unfolded Let_def]] vs_inv_same [of vms s3 s] one two by simp
          qed (use one two vs_inv_same [of vms t s] in simp)
        qed
      qed (use one vs_inv_same [of vms t s] in simp)
    qed
  qed (use vs_inv_same [of vms t s] in simp)
qed

lemma vs_ExtendDisks_law:
  assumes doc: "vcenter_documented C vms" and run: "vs_ExtendDisks C ref g s = (r, t)"
  shows "only_at ref (vs_inv vms s) (vs_inv vms t) \<and> same_vm (vs_inv vms s ref) (vs_inv vms t ref)"
proof -
  have look: "keeps (\<lambda>s. vms (vd_Center s) = c) (vc (vc_Device C ref))" for c
    using doc by (simp add: vcenter_documented_def lookups_documented_def keeps_vc)
  from run [unfolded vs_ExtendDisks_def Let_def] keeps_wrap [OF look] show ?thesis
  proof (cases rule: seq_keepsE)
    case (ran devices u)
    then show ?thesis using vs_inv_same [of vms u s] reconfigure_law [OF doc, of _ ref u r t]
      by (auto simp: ret_def split: if_splits)
  qed (use vs_inv_same [of vms t s] in simp)
qed

lemma vs_Power_law:
  assumes doc: "vcenter_documented C vms" and run: "vc (if b then vc_PowerOn C ref else vc_PowerOff C ref) s = (r, t)"
  shows "only_at ref (vs_inv vms s) (vs_inv vms t) \<and> same_vm (vs_inv vms s ref) (vs_inv vms t ref)
    \<and> (r = Inr () \<longrightarrow> (\<exists>v. vs_inv vms t ref = Some v \<and> h_State v = (if b then StatePoweredOn else StatePoweredOff)))"
proof -
  have "task_on vms ref (if b then vc_PowerOn C ref else vc_PowerOff C ref)
      (\<lambda>v r w. w = Some v \<and> r \<noteq> Inr () \<or> w = Some (v\<lparr>mp_PoweredOn := b\<rparr>))"
    using doc by (simp add: vcenter_documented_def tasks_documented_def)
  from task_inv [OF this run] show ?thesis
    using same_vm_power [of ref]
    by (auto simp: vs_inv_def power_state_def split: option.splits)
qed

lemma vs_GetVM_law:
  assumes doc: "vcenter_documented C vms" and run: "vs_GetVM C ref s = (r, t)"
  shows "vms (vd_Center t) = vms (vd_Center s) \<and> (\<forall>v. r = Inr v \<longrightarrow> v = vs_inv vms s ref)"
proof -
  have "vms (vd_Center t) = vms (vd_Center s)"
    using keeps_eqD [OF lookups_keep(3) run] doc by (auto simp: vcenter_documented_def)
  moreover obtain q z where z: "vc_Properties C ref (vd_Center s) = (q, z)" by fastforce
  moreover have "v = vs_inv vms s ref" if "r = Inr v" for v
    using doc run that z
    by (auto simp: vcenter_documented_def answers_documented_def vs_GetVM_def attempt_def vc_eq ret_def fail_def vs_inv_def
        split: sum.splits if_splits)
  ultimately show ?thesis by blast
qed


lemma vs_DeleteVM_law:
  assumes doc: "vcenter_documented C vms" and run: "vs_DeleteVM C ref s = (r, t)"
  shows "only_at ref (vs_inv vms s) (vs_inv vms t) \<and> (vs_inv vms t ref = None \<or> same_vm (vs_inv vms s ref) (vs_inv vms t ref))
    \<and> (r = Inr () \<longrightarrow> vs_inv vms t ref = None)"
proof -
  have look: "lookups_documented C vms" using doc by (simp add: vcenter_documented_def)
  from run [unfolded vs_DeleteVM_def] lookups_keep(3) [OF look] show ?thesis
  proof (cases rule: seq_keepsE)
    case (ran found u)
    have found: "found = vs_inv vms s ref" using vs_GetVM_law [OF doc ran(1)] by simp
    note same = vs_inv_same [OF ran(2)]
    show ?thesis
    proof (cases found)
      case None
      then show ?thesis using ran found same by (simp add: ret_def)
    next
      case (Some v)
      obtain w where w: "(if h_State v = StatePoweredOn then ignore (vc (vc_PowerOff C ref)) else ret ()) u = (Inr (), w)"
        "only_at ref (vs_inv vms u) (vs_inv vms w)" "same_vm (vs_inv vms u ref) (vs_inv vms w ref)"
      proof (cases "h_State v = StatePoweredOn")
        case True
        obtain p w where p: "vc (if False then vc_PowerOn C ref else vc_PowerOff C ref) u = (p, w)" by fastforce
        from vs_Power_law [OF doc p] p True show ?thesis by (intro that [of w]) (auto simp: ignore_def attempt_def ret_def)
      qed (intro that [of u], simp_all add: ret_def)
      have destroy: "vc (vc_Destroy C ref) w = (r, t)" using ran(3) Some w(1) by (simp add: seq_eq)
      have "task_on vms ref (vc_Destroy C ref) (\<lambda>v r w. w = Some v \<and> r \<noteq> Inr () \<or> w = None)"
        using doc by (simp add: vcenter_documented_def tasks_documented_def)
      from task_inv [OF this destroy] have "only_at ref (vs_inv vms w) (vs_inv vms t)"
        "vs_inv vms t ref = None \<or> vs_inv vms t ref = vs_inv vms w ref \<and> r \<noteq> Inr ()"
        by (auto simp: vs_inv_def split: option.splits)
      then show ?thesis using w(2,3) same only_at_trans by fastforce
    qed
  qed (use vs_inv_same [of vms t s] in simp)
qed

section \<open>Searching\<close>

lemma vs_FindVMs_law:
  assumes doc: "vcenter_documented C vms" and run: "vs_FindVMs C p names s = (Inr vs, t)" and v: "v \<in> set vs"
  shows "h_Name v \<in> set names
    \<and> (\<exists>w. vs_inv vms s (h_Ref v) = Some w \<and> h_Name w = h_Name v \<and> h_OwnerID w = h_OwnerID v)"
proof -
  have look: "lookups_documented C vms" using doc by (simp add: vcenter_documented_def)
  obtain rs s1 where one: "resolvePlacement C p s = (Inr rs, s1)"
    and r1: "seq (wrap ''listing folder: '' (vc (vc_Children C (rs_Folder rs)))) (\<lambda>children.
     let refs = child_vms children in
     if refs = [] then ret []
     else seq (wrap ''reading VMs: '' (vc (vc_RetrieveVMs C refs))) (\<lambda>vms.
          ret (map owner_view (filter (\<lambda>v. mp_Name v \<in> set names) vms)))) s1 = (Inr vs, t)"
    using run unfolding vs_FindVMs_def by (rule seq_InrE)
  obtain cs s2 where two: "wrap ''listing folder: '' (vc (vc_Children C (rs_Folder rs))) s1 = (Inr cs, s2)"
    and r2: "(if child_vms cs = [] then ret [] else seq (wrap ''reading VMs: '' (vc (vc_RetrieveVMs C (child_vms cs)))) (\<lambda>vms.
          ret (map owner_view (filter (\<lambda>v. mp_Name v \<in> set names) vms)))) s2 = (Inr vs, t)"
    using r1 unfolding Let_def by (rule seq_InrE)
  have "keeps (\<lambda>s. vms (vd_Center s) = c) (wrap ''listing folder: '' (vc (vc_Children C (rs_Folder rs))))" for c
    using look by (intro keeps_wrap keeps_vc) (simp add: lookups_documented_def)
  from keeps_eqD [OF this two] keeps_eqD [OF lookups_keep(1) [OF look] one]
  have same: "vms (vd_Center s2) = vms (vd_Center s)" by simp
  have "child_vms cs \<noteq> []" using r2 v by (auto simp: ret_def)
  then have "seq (wrap ''reading VMs: '' (vc (vc_RetrieveVMs C (child_vms cs)))) (\<lambda>vms.
          ret (map owner_view (filter (\<lambda>v. mp_Name v \<in> set names) vms))) s2 = (Inr vs, t)" using r2 by simp
  then obtain xs s3 where three: "wrap ''reading VMs: '' (vc (vc_RetrieveVMs C (child_vms cs))) s2 = (Inr xs, s3)"
    and vs: "vs = map owner_view (filter (\<lambda>v. mp_Name v \<in> set names) xs)"
    by (rule seq_InrE) (simp add: ret_def)
  obtain z where "vc_RetrieveVMs C (child_vms cs) (vd_Center s2) = (Inr xs, z)"
    using wrap_InrD [OF three] by (auto simp: vc_eq split: prod.splits)
  then have "\<forall>x \<in> set xs. \<exists>w. vms (vd_Center s2) (mp_Self x) = Some w \<and> mp_Name w = mp_Name x \<and> annotation_of w = annotation_of x"
    using doc unfolding vcenter_documented_def answers_documented_def by blast
  moreover obtain x where "x \<in> set xs" "mp_Name x \<in> set names" "v = owner_view x" using v vs by auto
  ultimately show ?thesis using same by (auto simp: vs_inv_def)
qed

lemma vs_FindVMByMAC_law:
  assumes doc: "vcenter_documented C vms" and run: "vs_FindVMByMAC C mac s = (Inr (Some v), t)"
  shows "vs_inv vms s (h_Ref v) = Some v"
proof -
  have look: "lookups_documented C vms" using doc by (simp add: vcenter_documented_def)
  let ?read = "\<lambda>view. seq (wrap ''reading VMs: '' (vc (vc_RetrieveView C view))) (\<lambda>vms.
     ret (map_option (\<lambda>v. full_view (mp_Self v) v)
       (find (\<lambda>v. mp_Config v \<noteq> None \<and> snd (scan_devices (devices_of v)) = to_lower mac) vms)))"
  obtain view s1 where one: "wrap ''creating VM view: '' (vc (vc_CreateContainerView C (vc_RootFolder C (vd_Center s)) ''VirtualMachine'')) s = (Inr view, s1)"
    and r1: "deferring (vc (vc_DestroyView C view)) (?read view) s1 = (Inr (Some v), t)"
    using run unfolding vs_FindVMByMAC_def Let_def seq_look by (rule seq_InrE)
  have "keeps (\<lambda>s. vms (vd_Center s) = c) (wrap ''creating VM view: '' (vc (vc_CreateContainerView C x y)))" for c x y
    using look by (intro keeps_wrap keeps_vc) (simp add: lookups_documented_def)
  from keeps_eqD [OF this one] have same: "vms (vd_Center s1) = vms (vd_Center s)" .
  obtain s2 where "?read view s1 = (Inr (Some v), s2)"
    using r1 by (auto simp: deferring_def attempt_def ret_def fail_def split: prod.splits sum.splits)
  then obtain xs s3 where two: "wrap ''reading VMs: '' (vc (vc_RetrieveView C view)) s1 = (Inr xs, s3)"
    and f: "map_option (\<lambda>v. full_view (mp_Self v) v)
       (find (\<lambda>v. mp_Config v \<noteq> None \<and> snd (scan_devices (devices_of v)) = to_lower mac) xs) = Some v"
    by (rule seq_InrE) (simp add: ret_def)
  then obtain x where x: "x \<in> set xs" "v = full_view (mp_Self x) x" by (auto dest: find_SomeD)
  obtain z where "vc_RetrieveView C view (vd_Center s1) = (Inr xs, z)"
    using wrap_InrD [OF two] by (auto simp: vc_eq split: prod.splits)
  then have "\<forall>x \<in> set xs. \<exists>w. vms (vd_Center s1) (mp_Self x) = Some w
        \<and> mp_Name w = mp_Name x \<and> mp_PoweredOn w = mp_PoweredOn x \<and> mp_Config w = mp_Config x"
    using doc unfolding vcenter_documented_def answers_documented_def by blast
  then obtain w where w: "vms (vd_Center s) (mp_Self x) = Some w"
    "mp_Name w = mp_Name x" "mp_PoweredOn w = mp_PoweredOn x" "mp_Config w = mp_Config x"
    using x(1) same by auto
  have "full_view (mp_Self x) w = full_view (mp_Self x) x"
    by (simp add: full_view_def power_state_def devices_of_def annotation_of_def w)
  then show ?thesis using w(1) x(2) by (simp add: vs_inv_def)
qed

section \<open>The contract\<close>

lemma vsphere_laws:
  assumes doc: "vcenter_documented C vms"
  shows "hypervisor_contract (vsphere_driver C) (\<lambda>_. True) (vs_inv vms)"
proof unfold_locales
  have look: "lookups_documented C vms" using doc by (simp add: vcenter_documented_def)
  show "True \<and> vs_inv vms h' = vs_inv vms h \<and> (\<forall>v. r = Inr v \<longrightarrow> v = vs_inv vms h ref)"
    if "GetVM (vsphere_driver C) ref h = (r, h')" for h ref r h'
  proof -
    have "vs_GetVM C ref h = (r, h')" using that by (simp add: vsphere_driver_def)
    from vs_GetVM_law [OF doc this] show ?thesis using vs_inv_same by blast
  qed
  show "True \<and> vs_inv vms h' = vs_inv vms h \<and> (\<forall>vs. r = Inr vs \<longrightarrow> (\<forall>v \<in> set vs. h_Name v \<in> set names
      \<and> (\<exists>w. vs_inv vms h (h_Ref v) = Some w \<and> h_Name w = h_Name v \<and> h_OwnerID w = h_OwnerID v)))"
    if "FindVMs (vsphere_driver C) p names h = (r, h')" for h p names r h'
    using that vs_FindVMs_law [OF doc] search_same(1) [OF look] by (simp add: vsphere_driver_def) blast
  show "True \<and> vs_inv vms h' = vs_inv vms h \<and> (\<forall>v. r = Inr (Some v) \<longrightarrow> vs_inv vms h (h_Ref v) = Some v)"
    if "FindVMByMAC (vsphere_driver C) mac h = (r, h')" for h mac r h'
    using that vs_FindVMByMAC_law [OF doc] search_same(2) [OF look] by (simp add: vsphere_driver_def) blast
  show "True \<and> (\<forall>q. vs_inv vms h' q \<noteq> vs_inv vms h q \<longrightarrow> (case vs_inv vms h q of None \<Rightarrow> True | Some w \<Rightarrow> h_Name w = vs_Name spec))
      \<and> (\<forall>ref. r = Inr ref \<longrightarrow> (\<exists>v. vs_inv vms h' ref = Some v \<and> h_Name v = vs_Name spec) \<and> only_at ref (vs_inv vms h) (vs_inv vms h'))"
    if "CreateVM (vsphere_driver C) spec h = (r, h')" for h spec r h'
  proof -
    have "named_only (vs_Name spec) (vms (vd_Center h)) (vms (vd_Center h')) r"
      using that vs_CreateVM_law [OF doc] by (simp add: vsphere_driver_def)
    then show ?thesis by (auto simp: named_only_def vs_inv_def only_at_def split: option.splits) blast
  qed
  show "True \<and> only_at ref (vs_inv vms h) (vs_inv vms h') \<and> (vs_inv vms h' ref = None \<or> same_vm (vs_inv vms h ref) (vs_inv vms h' ref))
      \<and> (r = Inr () \<longrightarrow> vs_inv vms h' ref = None)"
    if "DeleteVM (vsphere_driver C) ref h = (r, h')" for h ref r h'
    using that vs_DeleteVM_law [OF doc] by (simp add: vsphere_driver_def)
  show "True \<and> only_at ref (vs_inv vms h) (vs_inv vms h') \<and> same_vm (vs_inv vms h ref) (vs_inv vms h' ref)"
    if "AddDisks (vsphere_driver C) ref ds h = (r, h')" for h ref ds r h'
    using that vs_AddDisks_law [OF doc] by (simp add: vsphere_driver_def)
  show "True \<and> only_at ref (vs_inv vms h) (vs_inv vms h') \<and> same_vm (vs_inv vms h ref) (vs_inv vms h' ref)"
    if "ExtendDisks (vsphere_driver C) ref g h = (r, h')" for h ref g r h'
    using that vs_ExtendDisks_law [OF doc] by (simp add: vsphere_driver_def)
  show "True \<and> only_at ref (vs_inv vms h) (vs_inv vms h') \<and> same_vm (vs_inv vms h ref) (vs_inv vms h' ref)
      \<and> (r = Inr () \<longrightarrow> (\<exists>v. vs_inv vms h' ref = Some v \<and> h_State v = StatePoweredOn))"
    if "PowerOn (vsphere_driver C) ref h = (r, h')" for h ref r h'
    using that vs_Power_law [OF doc, of True] by (simp add: vsphere_driver_def vs_PowerOn_def)
  show "True \<and> only_at ref (vs_inv vms h) (vs_inv vms h') \<and> same_vm (vs_inv vms h ref) (vs_inv vms h' ref)
      \<and> (r = Inr () \<longrightarrow> (\<exists>v. vs_inv vms h' ref = Some v \<and> h_State v = StatePoweredOff))"
    if "PowerOff (vsphere_driver C) ref h = (r, h')" for h ref r h'
    using that vs_Power_law [OF doc, of False] by (simp add: vsphere_driver_def vs_PowerOff_def)
qed



section \<open>A small vCenter\<close>

text \<open>An inventory with one datacenter, datastore and folder; a VM's reference carries its name.\<close>

type_synonym small = "(moref \<times> vm_props) list"

definition small_ref :: "string \<Rightarrow> moref" where "small_ref name = ''vm-'' @ name"

definition small_missing :: go_error where "small_missing = ErrOther ''ManagedObjectNotFound''"

definition small_create :: "config_spec \<Rightarrow> (small, moref) prog" where
  "small_create cf s = (let ref = small_ref (sp_Name cf) in
     if map_of s ref \<noteq> None then (Inl (ErrOther ''DuplicateName''), s)
     else (Inr ref, (ref, \<lparr>mp_Self = ref, mp_Name = sp_Name cf, mp_PoweredOn = False,
       mp_Config = Some \<lparr>vg_Annotation = sp_Annotation cf, vg_Devices = sp_Devices cf @ [EthernetCard ''vmxnet3'' '''' ref]\<rparr>,
       mp_Datastores = [''ds'']\<rparr>) # s))"

definition small_task :: "moref \<Rightarrow> (vm_props \<Rightarrow> vm_props) \<Rightarrow> (small, unit) prog" where
  "small_task ref f s = (case map_of s ref of
      None \<Rightarrow> (Inl small_missing, s)
    | Some v \<Rightarrow> (Inr (), (ref, f v) # s))"

fun small_change :: "reconfigure \<Rightarrow> vm_props \<Rightarrow> vm_props" where
  "small_change (Annotate a) v = v\<lparr>mp_Config := map_option (vg_Annotation_update (\<lambda>_. a)) (mp_Config v)\<rparr>"
| "small_change (CreateDevices devs) v = v\<lparr>mp_Config := map_option (vg_Devices_update (\<lambda>old. old @ map VirtualDisk (disks_in devs))) (mp_Config v)\<rparr>"
| "small_change (EditDisks disks) v = v"

definition small_destroy :: "moref \<Rightarrow> (small, unit) prog" where
  "small_destroy ref s = (if map_of s ref = None then (Inl small_missing, s)
     else (Inr (), filter (\<lambda>(r, _). r \<noteq> ref) s))"

definition small_props :: "moref \<Rightarrow> (small, vm_props) prog" where
  "small_props ref s = (case map_of s ref of None \<Rightarrow> (Inl small_missing, s) | Some v \<Rightarrow> (Inr v, s))"

definition small_all :: "small \<Rightarrow> vm_props list" where
  "small_all s = map (\<lambda>r. (the (map_of s r))\<lparr>mp_Self := r\<rparr>) (remdups (map fst s))"

definition small_vcenter :: "small vcenter" where
  "small_vcenter = \<lparr>vc_ParseURL = (\<lambda>e. Inr e), vc_Connect = (\<lambda>_ _ _ _. ret ()), vc_Login = ret (), vc_About = (\<lambda>_. (''vCenter'', ''8'')),
     vc_RootFolder = (\<lambda>_. ''root''), vc_Datacenter = (\<lambda>n. ret n), vc_DefaultDatacenter = ret ''dc'', vc_DatacenterList = ret [(''dc'', ''dc'')],
     vc_ComputeResourceList = (\<lambda>_. ret []), vc_Hosts = (\<lambda>_. ret []),
     vc_ObjectName = (\<lambda>ref. look (\<lambda>s. case map_of s ref of None \<Rightarrow> ref | Some v \<Rightarrow> mp_Name v)),
     vc_ResourcePoolList = (\<lambda>_. ret []), vc_DatastoreList = (\<lambda>_. ret []), vc_Summary = (\<lambda>_. ret (0, 0)), vc_NetworkList = (\<lambda>_. ret []),
     vc_CreateContainerView = (\<lambda>_ _. ret ''view''), vc_DestroyView = (\<lambda>_. ret ()), vc_RetrieveFolders = (\<lambda>_. ret []),
     vc_RetrieveView = (\<lambda>_. look small_all), vc_RetrieveVMs = (\<lambda>_. look small_all), vc_InventoryPath = (\<lambda>r. ret r),
     vc_HostSystem = (\<lambda>_ n. ret n), vc_HostPool = (\<lambda>h. ret h), vc_ResourcePool = (\<lambda>_ n. ret n), vc_DefaultResourcePool = (\<lambda>_. ret ''pool''),
     vc_ComputeResource = (\<lambda>_ n. ret n), vc_ComputePool = (\<lambda>c. ret c), vc_Datastore = (\<lambda>_ n. ret n), vc_Network = (\<lambda>_ n. ret n),
     vc_EthernetBacking = (\<lambda>n. ret n), vc_Folder = (\<lambda>_ n. ret n), vc_DefaultFolder = (\<lambda>_. ret ''root''), vc_CreateFolder = (\<lambda>_ n. ret n),
     vc_Children = (\<lambda>_. look (map (\<lambda>(r, _). (''VirtualMachine'', r)))), vc_CreateVM = (\<lambda>_ cf _ _. small_create cf),
     vc_Reconfigure = (\<lambda>ref ch. small_task ref (small_change ch)), vc_Device = (\<lambda>ref. seq (small_props ref) (\<lambda>v. ret (devices_of v))),
     vc_Properties = small_props, vc_PowerOn = (\<lambda>ref. small_task ref (mp_PoweredOn_update (\<lambda>_. True))),
     vc_PowerOff = (\<lambda>ref. small_task ref (mp_PoweredOn_update (\<lambda>_. False))), vc_Destroy = small_destroy,
     vc_GetCategory = (\<lambda>n. ret n), vc_CreateCategory = (\<lambda>n. ret n), vc_GetTag = (\<lambda>t _. ret t), vc_CreateTag = (\<lambda>t _. ret t),
     vc_AttachTag = (\<lambda>_ _. ret ()), vc_ServiceTicket = (\<lambda>ds p. ret (p, None)),
     vc_Download = (\<lambda>_ _ _. ret \<lparr>dl_Status = 404, dl_Text = ''404'', dl_Body = ([], None)\<rparr>), vc_DatastorePath = (\<lambda>p. Some (''ds'', p)),
     vc_NewKey = (\<lambda>devs. - 201 - int (length devs)), vc_IsGone = (\<lambda>_. False), vc_NameTaken = (\<lambda>e. error_text e = ''DuplicateName'')\<rparr>"

lemma small_all_mem: "v \<in> set (small_all s) \<Longrightarrow> \<exists>w. map_of s (mp_Self v) = Some w \<and> mp_Name w = mp_Name v
    \<and> mp_PoweredOn w = mp_PoweredOn v \<and> mp_Config w = mp_Config v"
  by (auto simp: small_all_def dest!: weak_map_of_SomeI)

lemma scan_append_disks: "snd (fold scan_device (map VirtualDisk ds) w) = snd w"
  by (induction ds arbitrary: w) (simp_all add: scan_device_def split: prod.split)

lemma small_card: "same_card v (small_change ch v)"
  by (cases ch; cases "mp_Config v") (simp_all add: same_card_def devices_of_def scan_devices_def scan_append_disks)

lemma small_note: "\<forall>a. ch \<noteq> Annotate a \<Longrightarrow> annotation_of (small_change ch v) = annotation_of v"
  by (cases ch; cases "mp_Config v") (simp_all add: annotation_of_def)

lemma map_of_filter_key: "map_of (filter (\<lambda>(r, _). r \<noteq> k) s) q = (if q = k then None else map_of s q)"
  by (induction s) auto

lemma small_create_law:
  assumes "small_create cf s = (r, s')"
  shows "((\<exists>e. r = Inl e) \<and> map_of s' = map_of s)
      \<or> (\<exists>ref v. map_of s ref = None \<and> map_of s' = (map_of s)(ref \<mapsto> v) \<and> mp_Name v = sp_Name cf
           \<and> (case r of Inr x \<Rightarrow> x = ref | Inl e \<Rightarrow> \<not> vc_NameTaken small_vcenter e))"
proof (cases "map_of s (small_ref (sp_Name cf))")
  case None
  then show ?thesis using assms
    by (intro disjI2 exI [of _ "small_ref (sp_Name cf)"] exI [of _ "the (map_of s' (small_ref (sp_Name cf)))"])
      (auto simp: small_create_def Let_def)
qed (use assms in \<open>auto simp: small_create_def Let_def\<close>)


lemma small_documented: "vcenter_documented small_vcenter map_of"
proof -
  have "lookups_documented small_vcenter map_of"
    by (simp add: lookups_documented_def small_vcenter_def idle_def ret_def look_def small_props_def seq_eq split: option.split)
  moreover have "answers_documented small_vcenter map_of"
    unfolding answers_documented_def
    by (auto simp: small_vcenter_def small_props_def look_def child_vms_def isNotFound_def annotation_of_def map_of_eq_None_iff
        split: option.splits dest!: small_all_mem) force
  moreover have "tasks_documented small_vcenter map_of"
    unfolding tasks_documented_def task_on_def
  proof (intro conjI allI impI, goal_cases)
    case (1 folder config pool host s r s')
    then show ?case by (intro small_create_law) (simp add: small_vcenter_def)
  qed (auto simp: small_vcenter_def small_task_def small_destroy_def map_of_filter_key small_card small_note
      small_card [of _ "Annotate a" for a, simplified] split: option.splits if_splits)
  ultimately show ?thesis by (simp add: vcenter_documented_def)
qed


text \<open>A fleet of two VMs deployed on the small vCenter through the vSphere driver.\<close>

definition vs_orch :: "small vsphere orch" where
  "vs_orch = \<lparr>o_store = fleet_store, o_hv = \<lparr>vd_Center = [], vd_Rest = False\<rparr>, o_active = Map.empty, o_jobs = []\<rparr>"

definition vs_deployed :: "small vsphere orch" where
  "vs_deployed = fst (snd (reconcileCore (\<lambda>xs. xs) OnConflictAbort fleet_dep (vsphere_driver small_vcenter) (vs_orch, no_stats)))"

lemma vs_deployed_facts:
  "length (vms_of (demo_rand 1) (o_store vs_deployed)) = 2 \<and> length (vd_Center (o_hv vs_deployed)) \<ge> 2
    \<and> fst (teardown fleet_dep (vsphere_driver small_vcenter) (vs_deployed, no_stats)) = Inr ()"
  by code_simp


end
