(* ===== verification/Spec2Isabelle.thy ===== *)
theory Spec2Isabelle
  imports Filling Sched Reconciling Zombies Adopt AgentDemo Startup VsphereContract
begin

text \<open>
  GhostFleet deploys fleets of test VMs on a hypervisor, fills their disks with generated data
  and changes, verifies or removes it again, on request or on a schedule. This library models its
  Go code and proves what makes it correct. A definition has the name of the function, method or
  type it models where Isabelle allows it (capitals included), and states the whole operation,
  error branches too.

  \<^bold>\<open>The program.\<close> The controller (\<open>cmd/controller\<close>) keeps connections, profiles, deployments,
  VMs, runs and schedules in an SQLite database (\<open>internal/store\<close>), credentials encrypted
  (\<open>internal/secrets\<close>). Its API (\<open>internal/api\<close>) and its scheduler (\<open>internal/sched\<close>) start jobs of
  the orchestrator (\<open>internal/orch\<close>), at most one at a deployment at a time. A job works on the
  platform through a driver (\<open>internal/hypervisor\<close>; \<open>vsphere\<close> for vCenter, \<open>fake\<close> in memory). The VMs
  boot over the network into the agent (\<open>cmd/agent\<close>), which asks the API for its work order
  (planned by \<open>internal/datagen\<close>), fills, churns or verifies its disks and reports; the fill job
  watches these reports in the database.

  \<^bold>\<open>How programs are modelled.\<close> An operation on a state that may fail is a \<open>prog\<close> (theory \<open>Prog\<close>):
  a function from the state to an error or a value and the next state. \<open>seq\<close> is the
  \<open>if err != nil { return err }\<close> idiom, \<open>attempt\<close> a call whose error the code looks at. The
  database (\<open>store\<close>) and the agent's machine (\<open>machine\<close>) carry a stream that says which of the next
  statements or system calls fail, so a property over all states is one over all patterns of
  failures. Structs are records, enumerations datatypes, seeds \<open>64 word\<close>, \<open>float64\<close> the rationals
  it denotes with rounding after every operation (\<open>Float64\<close>), strings byte strings. Go's \<open>int\<close>
  and \<open>int64\<close> are \<open>int\<close>; where the code can leave their range the wrap-around is written out.
  Loops are structural recursion over what drives them: the rows, the lines of a log, the ticks of
  a timer. No definition has fuel; that the job loop ends is a theorem (C13). Concurrency is the
  order of steps in an inductive relation (\<open>Lifecycle\<close>, \<open>AgentBoot\<close>, \<open>StoreFleet\<close>).

  \<^bold>\<open>The theories.\<close>

  \<^item> \<open>Prelude\<close>, \<open>GoText\<close>, \<open>Float64\<close>, \<open>Prog\<close>: the shared vocabulary: tables as lists of rows, the parts
    of \<open>strings\<close>, \<open>strconv\<close> and \<open>fmt\<close> the code uses, binary64, the algebra of \<open>prog\<close> and the
    collections of rules (\<open>inv_intros\<close>, \<open>nofail_intros\<close>, \<open>row_simps\<close>) its users feed.

  \<^item> \<open>Model\<close> (\<open>internal/model/model.go\<close>), \<open>Datagen\<close> (\<open>internal/datagen/datagen.go\<close>): the domain types,
    validation, VM names, work orders. Shown: valid specs have distinct, well-formed VM names; a
    work order splits every disk exactly; VMs share the global streams and never the local ones.

  \<^item> \<open>Store\<close>, \<open>StoreConfig\<close>, \<open>StoreFleet\<close> (\<open>internal/store/*.go\<close>): tables with keys and references,
    transactions, every repository. \<open>db_wf\<close> is the invariant of the schema, \<open>db_reachable\<close> what any
    sequence of operations leads to, and every operation is shown to keep it (C19, C32).

  \<^item> \<open>Hypervisor\<close>, \<open>FakeDriver\<close>, \<open>Vsphere\<close>, \<open>VsphereContract\<close> (\<open>internal/hypervisor/\<close>): the driver
    interface as a record, its contract as the locales \<open>hypervisor_contract\<close> and
    \<open>reliable_hypervisor\<close>, the two drivers, and that both satisfy the contract: the in-memory
    driver by an interpretation, the vSphere driver over every vCenter that does what is
    documented (C12).

  \<^item> \<open>Orchestrator\<close>, \<open>Reconciling\<close> (\<open>internal/orch/orchestrator.go\<close>), \<open>Fill\<close>, \<open>Filling\<close> (\<open>fill.go\<close>),
    \<open>Adopt\<close> (\<open>adopt.go\<close>): in each pair the first theory has the operations and the second what they
    achieve. Shown under the contract: a deploy reaches the configured fleet and is then a no-op,
    a teardown forgets no VM that still exists (C9 - C11); fill jobs end, their verdict is honest,
    their watchdogs and caps hold (C13 - C17); adoptions change one record (C26, C27).

  \<^item> \<open>Lifecycle\<close>, \<open>Zombies\<close>: the orchestrator as a transition system \<open>life_step\<close>, with agents, the
    platform, faults, crashes and resumes. Shown: one job at a deployment at a time, as a refinement of an
    abstract lock (C6, C7), jobs of the type of their run (C38), starts that do all or nothing
    (C37), no run that nobody works on (C18).

  \<^item> \<open>ScheduleSpec\<close>, \<open>ScheduleTimes\<close> (\<open>Schedule\<close> in \<open>model.go\<close> and the parts of \<open>time\<close> it uses), \<open>Sched\<close>
    (\<open>internal/sched/sched.go\<close>): the schedule grammar, the next fire time (C23), and the scheduler in a
    locale over the two interfaces it is written against, interpreted on the orchestrator (C24, C25).

  \<^item> \<open>AgentProgress\<close>, \<open>AgentDisk\<close>, \<open>AgentReport\<close>, \<open>AgentFill\<close>, \<open>AgentVerify\<close>, \<open>AgentBoot\<close> (\<open>cmd/agent/*.go\<close>):
    the agent over a machine whose system calls may fail. \<open>AgentExact\<close>, \<open>AgentChurn\<close>, \<open>AgentIntact\<close>,
    \<open>AgentRun\<close>, \<open>AgentHealthy\<close>, \<open>AgentResume\<close> prove what a report tells of the disks: a \<open>done\<close> after a
    fill or churn leaves exact manifests (C2, C3), a verify run passes exactly the disks that match
    theirs (C4, C5), every order gets one verdict (C28), and a finished fill is recognised on
    later boots (C1). \<open>AgentDemo\<close> evaluates these on a small machine.

  \<^item> \<open>Secrets\<close> (\<open>internal/secrets/secrets.go\<close>), \<open>Http\<close> (\<open>api/auth.go\<close> and the helpers of \<open>api/server.go\<close>),
    \<open>ApiConfig\<close> (\<open>connections.go\<close>, \<open>profiles.go\<close>, \<open>schedules.go\<close>), \<open>ApiFleet\<close> (\<open>deployments.go\<close>,
    \<open>operations.go\<close>), \<open>ApiAgent\<close> (\<open>boot.go\<close>, \<open>discovery.go\<close>), \<open>Routes\<close> (the router of \<open>server.go\<close>): every
    handler as a \<open>prog\<close> with a response. \<open>Frames\<close> has the locales \<open>indifferent\<close> and \<open>blind\<close> that say what the
    repositories leave alone. Shown: strangers get 401 and change nothing (C20), boot tokens reach
    one VM (C21, C22), secrets arrive as sent (C35), deployments only grow (C34), and every request
    is a sequence of steps of the life cycle (C8).

  \<^item> \<open>Startup\<close> (\<open>cmd/controller/main.go\<close>; \<open>Open\<close> and \<open>migrate\<close> of \<open>store.go\<close>): configuration, wiring and
    the schema upgrade, which resumes wherever it failed (C33).

  \<^bold>\<open>What is a parameter.\<close> Code that is not in the repository is an argument, with what is documented
  of it as a named hypothesis where a property needs one: SHA-256 and the fio program of the agent
  (\<open>tools\<close>, \<open>fio_documented\<close>), random sources, AES-GCM (\<open>aead_documented\<close>), the govmomi SDK
  (\<open>vcenter_documented\<close>), the time zone database, the effect of a migration file on the schema
  (\<open>ddl\<close>), URL matching and the decoding of request bodies. Each such hypothesis has a witness at
  a concrete instance.

  \<^bold>\<open>What is not modelled.\<close> The version constants (\<open>internal/buildinfo\<close>), the simulator tool
  (\<open>tools/vcsim\<close>) and the web UI; flags, signals, the listener and the shutdown of the controller; log
  lines; content types; the progress samples an agent sends while it works, which nothing it does
  depends on; \<open>fill_updated_at\<close>, which nothing reads. A write of the agent is durable once its call returned. One
  reading of the clock serves a whole poll of a fill job, and a reconcile, teardown or power job is one
  step of the life cycle; the goroutines that create VMs take their turns in any order.
\<close>

end
